(* ===== verification/GoBase.thy ===== *)
theory GoBase
  imports
    Main
    "HOL-Library.Char_ord"
    "HOL-Library.List_Lexorder"
    "HOL-Library.Sublist"
    "HOL-Library.Multiset"
begin

text \<open>
  The prelude: how the development reads the Go language and the parts of its standard library the
  modelled code calls.

  A Go \<^verbatim>\<open>string\<close> is a sequence of bytes, so it is a \<^typ>\<open>string\<close> (a list of \<^typ>\<open>char\<close>, each a byte);
  \<^verbatim>\<open>len\<close> is \<^const>\<open>length\<close> and \<^verbatim>\<open><\<close> on strings is the lexicographic order of the bytes.  A function
  returning \<^verbatim>\<open>(T, error)\<close> returns a sum: \<^const>\<open>Inl\<close> is the error, \<^const>\<open>Inr\<close> the value.  A
  \<^verbatim>\<open>for range\<close> loop with early returns is \<open>for_each\<close>.
\<close>

section \<open>Collections of facts\<close>

named_theorems go_str \<open>rewriting facts on the string functions of the Go library\<close>
named_theorems go_loop \<open>facts on loops with early returns\<close>

section \<open>Names for the types of the models\<close>

type_synonym 'v gomap = "string \<rightharpoonup> 'v"
type_synonym time = int \<comment> \<open>nanoseconds; the zero \<^verbatim>\<open>time.Time\<close> is \<open>0\<close>\<close>

abbreviation max_uint64 :: int where
  "max_uint64 \<equiv> 18446744073709551615"

abbreviation str_set_add :: "string set \<Rightarrow> string \<Rightarrow> string set" where
  "str_set_add S x \<equiv> insert x S"

section \<open>Loops with early returns\<close>

definition is_ok :: "'e + 'a \<Rightarrow> bool" where
  "is_ok r = (case r of Inl _ \<Rightarrow> False | Inr _ \<Rightarrow> True)"

lemma is_ok_simps [simp]: "is_ok (Inl e) = False" "is_ok (Inr x) = True"
  by (simp_all add: is_ok_def)

lemma case_sum_Inl [simp]: "(case r of Inl d \<Rightarrow> Inl d | Inr x \<Rightarrow> Inr (f x)) = Inl e \<longleftrightarrow> r = Inl e"
  by (cases r) auto

lemma is_ok_case_sum [simp]: "is_ok (case r of Inl d \<Rightarrow> Inl d | Inr x \<Rightarrow> Inr (f x)) = is_ok r"
  by (cases r) auto

lemma is_ok_iff: "is_ok r \<longleftrightarrow> (\<exists>x. r = Inr x)"
  by (cases r) auto

text \<open>
  \<open>for_each f xs s\<close> is the loop \<^verbatim>\<open>for _, x := range xs { ... }\<close> whose body \<open>f\<close> updates the local state
  and may return an error, which ends the loop.
\<close>

primrec for_each :: "('a \<Rightarrow> 's \<Rightarrow> 'e + 's) \<Rightarrow> 'a list \<Rightarrow> 's \<Rightarrow> 'e + 's" where
  "for_each f [] s = Inr s"
| "for_each f (x # xs) s = (case f x s of Inl e \<Rightarrow> Inl e | Inr s' \<Rightarrow> for_each f xs s')"

lemma for_each_cong [fundef_cong]:
  assumes "xs = ys" "s = t" "\<And>x s. x \<in> set ys \<Longrightarrow> f x s = g x s"
  shows "for_each f xs s = for_each g ys t"
  using assms(3) unfolding assms(1,2)
  by (induction ys arbitrary: t) (auto split: sum.splits)

lemma for_each_append [simp]:
  "for_each f (xs @ ys) s = (case for_each f xs s of Inl e \<Rightarrow> Inl e | Inr t \<Rightarrow> for_each f ys t)"
  by (induction xs arbitrary: s) (auto split: sum.splits)

lemma for_each_invariant:
  assumes "for_each f xs s = Inr t" "P s"
    and step: "\<And>x s t. x \<in> set xs \<Longrightarrow> P s \<Longrightarrow> f x s = Inr t \<Longrightarrow> P t"
  shows "P t"
  using assms(1,2) step
proof (induction xs arbitrary: s)
  case Nil
  then show ?case by simp
next
  case (Cons x xs)
  then obtain u where u: "f x s = Inr u" "for_each f xs u = Inr t"
    by (auto split: sum.splits)
  have "P u" using Cons.prems(2,3) u(1) by auto
  then show ?case
    by (rule Cons.IH [OF u(2)]) (use Cons.prems(3) in auto)
qed

text \<open>A loop that ends well ran its body on every element; the runs before and after are loops too.\<close>

lemma for_each_split:
  assumes "for_each f xs s = Inr t" "x \<in> set xs"
  obtains ys zs u v where "xs = ys @ x # zs" "for_each f ys s = Inr u" "f x u = Inr v"
    "for_each f zs v = Inr t"
proof -
  from assms(2) obtain ys zs where xs: "xs = ys @ x # zs" by (auto simp: in_set_conv_decomp)
  with assms(1) show ?thesis
    by (auto split: sum.splits intro: that)
qed

lemma for_each_Inl:
  assumes "for_each f xs s = Inl e"
  obtains x u where "x \<in> set xs" "f x u = Inl e"
  using assms by (induction xs arbitrary: s thesis) (auto split: sum.splits)

text \<open>Elements on which the body does nothing can be left out.\<close>

lemma for_each_filter:
  assumes "\<And>x s. \<not> p x \<Longrightarrow> f x s = Inr s"
  shows "for_each f xs s = for_each f (filter p xs) s"
  using assms by (induction xs arbitrary: s) (auto split: sum.splits)

text \<open>Two loops whose bodies fail alike, whatever the local state, fail alike.\<close>

lemma for_each_Inl_cong:
  assumes "\<And>x s t. x \<in> set xs \<Longrightarrow> f x s = Inl e \<longleftrightarrow> g x t = Inl e"
    and "\<And>x s t. x \<in> set xs \<Longrightarrow> is_ok (f x s) \<longleftrightarrow> is_ok (g x t)"
  shows "for_each f xs s = Inl e \<longleftrightarrow> for_each g xs t = Inl e"
  using assms
proof (induction xs arbitrary: s t)
  case Nil
  show ?case by simp
next
  case (Cons x xs)
  show ?case
  proof (cases "f x s")
    case (Inl d)
    then obtain d' where "g x t = Inl d'" using Cons.prems(2) [of x s t] by (cases "g x t") (auto simp: is_ok_def)
    then show ?thesis using Inl Cons.prems(1) [of x s t] by auto
  next
    case (Inr u)
    then obtain v where v: "g x t = Inr v" using Cons.prems(2) [of x s t] by (cases "g x t") (auto simp: is_ok_def)
    have "for_each f xs u = Inl e \<longleftrightarrow> for_each g xs v = Inl e"
      by (rule Cons.IH) (use Cons.prems in auto)
    then show ?thesis by (simp add: Inr v)
  qed
qed

text \<open>A loop without local state: a list of checks.\<close>

definition check :: "bool \<Rightarrow> 'e \<Rightarrow> 'e + unit" where
  "check b e = (if b then Inr () else Inl e)"

lemma check_Inr [simp]: "check b e = Inr u \<longleftrightarrow> b"
  by (simp add: check_def)

lemma check_Inl [simp]: "check b e = Inl e' \<longleftrightarrow> \<not> b \<and> e' = e"
  by (auto simp: check_def)

lemma for_each_unit_Inr [go_loop]:
  "for_each (\<lambda>x _. f x) xs () = Inr () \<longleftrightarrow> (\<forall>x \<in> set xs. f x = Inr ())"
  by (induction xs) (auto split: sum.splits)

text \<open>The loop \<^verbatim>\<open>for i, x := range xs\<close> over a list of checks.\<close>

lemma for_each_enumerate_Inr [go_loop]:
  "for_each (\<lambda>(i, x) _. f i x) (List.enumerate 0 xs) () = Inr () \<longleftrightarrow> (\<forall>i < length xs. f i (xs ! i) = Inr ())"
proof -
  have "for_each (\<lambda>p _. f (fst p) (snd p)) (List.enumerate 0 xs) () = Inr () \<longleftrightarrow>
      (\<forall>p \<in> set (List.enumerate 0 xs). f (fst p) (snd p) = Inr ())"
    by (rule for_each_unit_Inr)
  also have "\<dots> \<longleftrightarrow> (\<forall>i < length xs. f i (xs ! i) = Inr ())"
  proof
    assume "\<forall>p \<in> set (List.enumerate 0 xs). f (fst p) (snd p) = Inr ()"
    moreover have "(i, xs ! i) \<in> set (List.enumerate 0 xs)" if "i < length xs" for i
      using that by (simp add: in_set_enumerate_eq)
    ultimately show "\<forall>i < length xs. f i (xs ! i) = Inr ()" by fastforce
  qed (auto simp: in_set_enumerate_eq)
  finally show ?thesis by (simp add: case_prod_unfold)
qed

fun first_some :: "('a \<Rightarrow> bool) \<Rightarrow> 'a list \<Rightarrow> 'a option" where
  "first_some p [] = None"
| "first_some p (x # xs) = (if p x then Some x else first_some p xs)"

lemma first_some_Some: "first_some p xs = Some x \<Longrightarrow> x \<in> set xs \<and> p x"
  by (induction xs) (auto split: if_splits)

lemma first_some_None: "first_some p xs = None \<longleftrightarrow> (\<forall>x \<in> set xs. \<not> p x)"
  by (induction xs) auto

section \<open>Strings\<close>

definition byte_in :: "char \<Rightarrow> char \<Rightarrow> char \<Rightarrow> bool" where
  "byte_in lo c hi \<longleftrightarrow> lo \<le> c \<and> c \<le> hi"

definition is_digit :: "char \<Rightarrow> bool" where
  "is_digit c = byte_in (CHR ''0'') c (CHR ''9'')"

definition is_lower :: "char \<Rightarrow> bool" where
  "is_lower c = byte_in (CHR ''a'') c (CHR ''z'')"

definition is_upper :: "char \<Rightarrow> bool" where
  "is_upper c = byte_in (CHR ''A'') c (CHR ''Z'')"

fun contains_str :: "string \<Rightarrow> string \<Rightarrow> bool" where \<comment> \<open>\<^verbatim>\<open>strings.Contains(s, p)\<close>\<close>
  "contains_str [] p = (p = [])"
| "contains_str (c # s) p = (prefix p (c # s) \<or> contains_str s p)"

definition contains_any :: "string \<Rightarrow> string \<Rightarrow> bool" where
  \<comment> \<open>\<^verbatim>\<open>strings.ContainsAny(s, chars)\<close> for a set of ASCII characters\<close>
  "contains_any s cs = list_ex (\<lambda>c. List.member cs c) s"

definition has_prefix :: "string \<Rightarrow> string \<Rightarrow> bool" where
  "has_prefix s p = (take (length p) s = p)"

definition has_suffix :: "string \<Rightarrow> string \<Rightarrow> bool" where
  "has_suffix s p = (length p \<le> length s \<and> drop (length s - length p) s = p)"

definition trim_prefix :: "string \<Rightarrow> string \<Rightarrow> string" where
  "trim_prefix s p = (if has_prefix s p then drop (length p) s else s)"

definition trim_suffix :: "string \<Rightarrow> string \<Rightarrow> string" where
  "trim_suffix s p = (if has_suffix s p then take (length s - length p) s else s)"

lemma has_prefix_iff [go_str]: "has_prefix s p \<longleftrightarrow> prefix p s"
  by (metis append_eq_conv_conj append_take_drop_id has_prefix_def prefixE prefixI)

lemma has_suffix_iff [go_str]: "has_suffix s p \<longleftrightarrow> suffix p s"
  by (auto simp: has_suffix_def suffix_def) (metis append_take_drop_id)

lemma contains_str_iff [go_str]: "contains_str s p \<longleftrightarrow> sublist p s"
  by (induction s) (auto simp: sublist_Cons_right)

lemma trim_suffix_append [simp]: "trim_suffix (s @ p) p = s"
  by (simp add: trim_suffix_def has_suffix_def)

text \<open>\<^verbatim>\<open>strings.Split\<close> on one character, and \<^verbatim>\<open>strings.SplitN(s, c, 2)\<close> as a head and an optional rest.\<close>

fun split_char :: "char \<Rightarrow> string \<Rightarrow> string list" where
  "split_char d [] = [[]]"
| "split_char d (c # s) =
     (if c = d then [] # split_char d s
      else (case split_char d s of [] \<Rightarrow> [[c]] | w # ws \<Rightarrow> (c # w) # ws))"

fun split_two :: "char \<Rightarrow> char \<Rightarrow> string \<Rightarrow> string list" where \<comment> \<open>\<^verbatim>\<open>strings.Split\<close> on two characters\<close>
  "split_two d e [] = [[]]"
| "split_two d e [c] = [[c]]"
| "split_two d e (b # c # s) =
     (if b = d \<and> c = e then [] # split_two d e s
      else (case split_two d e (c # s) of [] \<Rightarrow> [[b]] | w # ws \<Rightarrow> (b # w) # ws))"

fun cut_char :: "char \<Rightarrow> string \<Rightarrow> string \<times> string option" where
  "cut_char d [] = ([], None)"
| "cut_char d (c # s) =
     (if c = d then ([], Some s) else (let (h, r) = cut_char d s in (c # h, r)))"

fun join_char :: "char \<Rightarrow> string list \<Rightarrow> string" where \<comment> \<open>\<^verbatim>\<open>strings.Join(ws, d)\<close>\<close>
  "join_char d [] = []"
| "join_char d [w] = w"
| "join_char d (w # v # ws) = w @ d # join_char d (v # ws)"

lemma split_char_nonempty [simp]: "split_char d s \<noteq> []"
  by (induction s) (auto split: list.splits)

lemma join_split_char [simp]: "join_char d (split_char d s) = s"
proof (induction s)
  case Nil
  then show ?case by simp
next
  case (Cons c s)
  obtain w ws where w: "split_char d s = w # ws"
    by (cases "split_char d s") auto
  then show ?case using Cons by (cases ws) auto
qed

lemma split_char_parts: "w \<in> set (split_char d s) \<Longrightarrow> d \<notin> set w"
proof (induction s arbitrary: w)
  case Nil
  then show ?case by simp
next
  case (Cons c s)
  obtain v vs where v: "split_char d s = v # vs"
    by (cases "split_char d s") auto
  then show ?case using Cons by (auto split: if_splits)
qed

lemma split_char_single: "d \<notin> set w \<Longrightarrow> split_char d w = [w]"
  by (induction w) auto

lemma split_char_app: "d \<notin> set w \<Longrightarrow> split_char d (w @ d # s) = w # split_char d s"
  by (induction w) auto

lemma split_join_char:
  assumes "ws \<noteq> []" "\<forall>w \<in> set ws. d \<notin> set w"
  shows "split_char d (join_char d ws) = ws"
  using assms by (induction d ws rule: join_char.induct) (auto simp: split_char_app split_char_single)

lemma set_split_char: "c \<in> set s \<Longrightarrow> c = d \<or> (\<exists>w \<in> set (split_char d s). c \<in> set w)"
proof (induction s)
  case (Cons x s)
  then show ?case by (cases "split_char d s") auto
qed simp

lemma split_two_single: "d \<notin> set s \<Longrightarrow> split_two d e s = [s]"
  by (induction d e s rule: split_two.induct) auto

lemma cut_char_None: "snd (cut_char d s) = None \<longleftrightarrow> d \<notin> set s"
  by (induction s) (auto split: prod.splits simp: Let_def)

lemma cut_char_fst: "d \<notin> set (fst (cut_char d s))"
  by (induction s) (auto split: prod.splits simp: Let_def)

lemma cut_char_recombine:
  "cut_char d s = (h, r) \<Longrightarrow> s = h @ (case r of None \<Rightarrow> [] | Some t \<Rightarrow> d # t)"
  by (induction s arbitrary: h r) (auto split: prod.splits if_splits simp: Let_def)

lemma cut_char_app: "d \<notin> set h \<Longrightarrow> cut_char d (h @ d # t) = (h, Some t)"
  by (induction h) auto

lemma cut_char_none: "d \<notin> set h \<Longrightarrow> cut_char d h = (h, None)"
  by (induction h) auto

end
