(* ===== verification/GoWire.thy ===== *)
theory GoWire
  imports GoBase
begin

text \<open>
  The length-prefixed byte encodings the signed digests are computed over: \<^verbatim>\<open>binary.BigEndian.PutUint32\<close>
  of a length converted with \<^verbatim>\<open>uint32(x)\<close>, followed by the bytes.  The locale \<open>field_code\<close> states what an
  encoding of one field promises (no encoding continues into another), and derives it for lists of fields.
\<close>

definition byte_of :: "int \<Rightarrow> char" where
  "byte_of n = char_of (n mod 256)"

definition u32be :: "nat \<Rightarrow> string" where
  "u32be n = (let k = int n in
     [byte_of (k div 16777216), byte_of (k div 65536), byte_of (k div 256), byte_of k])"

definition put_str :: "string \<Rightarrow> string" where
  "put_str s = u32be (length s) @ s"

definition put_list :: "('a \<Rightarrow> string) \<Rightarrow> 'a list \<Rightarrow> string" where
  "put_list f xs = u32be (length xs) @ concat (map f xs)"

definition put_bit :: "bool \<Rightarrow> string" where
  "put_bit b = [if b then CHR 0x01 else CHR 0x00]"

lemma length_u32be [simp]: "length (u32be n) = 4"
  by (simp add: u32be_def Let_def)

lemma byte_of_eq: "byte_of m = byte_of n \<longleftrightarrow> m mod 256 = n mod 256"
proof
  assume "byte_of m = byte_of n"
  then have "(of_char (byte_of m) :: int) = of_char (byte_of n)" by simp
  then show "m mod 256 = n mod 256" by (simp add: byte_of_def)
qed (simp add: byte_of_def)

lemma u32_bytes:
  assumes "0 \<le> k" "k < (4294967296 :: int)"
  shows "((k div 16777216 mod 256 * 256 + k div 65536 mod 256) * 256 + k div 256 mod 256) * 256 + k mod 256 = k"
proof -
  have "k div 16777216 < 256" "0 \<le> k div 16777216" using assms by simp_all
  then have "k div 16777216 mod 256 = k div 16777216" by simp
  moreover have e: "65536 * 256 = (16777216 :: int)" "256 * 256 = (65536 :: int)" by simp_all
  have d: "k div 16777216 = k div 65536 div 256" "k div 65536 = k div 256 div 256"
    unfolding e [symmetric] by (rule zdiv_zmult2_eq, simp)+
  moreover have "k div 16777216 * 256 + k div 65536 mod 256 = k div 65536"
    unfolding d(1) by (rule div_mult_mod_eq)
  moreover have "k div 65536 * 256 + k div 256 mod 256 = k div 256"
    unfolding d(2) by (rule div_mult_mod_eq)
  ultimately show ?thesis by (simp only: div_mult_mod_eq)
qed

lemma u32be_inject:
  assumes "m < 4294967296" "n < 4294967296" "u32be m = u32be n"
  shows "m = n"
proof -
  from assms(3) have bytes: "int m div 16777216 mod 256 = int n div 16777216 mod 256"
    "int m div 65536 mod 256 = int n div 65536 mod 256" "int m div 256 mod 256 = int n div 256 mod 256"
    "int m mod 256 = int n mod 256"
    by (simp_all add: u32be_def byte_of_eq Let_def)
  have "int m = ((int m div 16777216 mod 256 * 256 + int m div 65536 mod 256) * 256 + int m div 256 mod 256) * 256 + int m mod 256"
    by (rule u32_bytes [symmetric]) (use assms(1) in simp_all)
  also have "\<dots> = ((int n div 16777216 mod 256 * 256 + int n div 65536 mod 256) * 256 + int n div 256 mod 256) * 256 + int n mod 256"
    by (simp only: bytes)
  also have "\<dots> = int n"
    by (rule u32_bytes) (use assms(2) in simp_all)
  finally show ?thesis by simp
qed

text \<open>What the digests need of the encoding of a field.\<close>

locale field_code =
  fixes enc :: "'a \<Rightarrow> string" and ok :: "'a \<Rightarrow> bool"
  assumes unambiguous: "ok x \<Longrightarrow> ok y \<Longrightarrow> enc x @ u = enc y @ v \<Longrightarrow> x = y \<and> u = v"
begin

lemma enc_inject: "ok x \<Longrightarrow> ok y \<Longrightarrow> enc x = enc y \<Longrightarrow> x = y"
  using unambiguous [of x y "[]" "[]"] by simp

lemma code_eq_iff: "ok x \<Longrightarrow> ok y \<Longrightarrow> enc x @ u = enc y @ v \<longleftrightarrow> x = y \<and> u = v"
  using unambiguous by blast

lemma code_eq_iff_end: "ok x \<Longrightarrow> ok y \<Longrightarrow> enc x = enc y \<longleftrightarrow> x = y"
  using enc_inject by blast

lemma concat_unambiguous:
  assumes "length xs = length ys" "\<forall>x \<in> set xs. ok x" "\<forall>y \<in> set ys. ok y"
    "concat (map enc xs) @ u = concat (map enc ys) @ v"
  shows "xs = ys \<and> u = v"
  using assms
proof (induction xs ys rule: list_induct2)
  case Nil
  then show ?case by simp
next
  case (Cons x xs y ys)
  then have "x = y \<and> concat (map enc xs) @ u = concat (map enc ys) @ v"
    using unambiguous [of x y "concat (map enc xs) @ u" "concat (map enc ys) @ v"] by simp
  with Cons show ?case by simp
qed

lemma list_code: "field_code (put_list enc) (\<lambda>xs. length xs < 4294967296 \<and> (\<forall>x \<in> set xs. ok x))"
proof
  fix xs ys u v
  assume xs: "length xs < 4294967296 \<and> (\<forall>x \<in> set xs. ok x)"
    and ys: "length ys < 4294967296 \<and> (\<forall>x \<in> set ys. ok x)"
    and eq: "put_list enc xs @ u = put_list enc ys @ v"
  then have "u32be (length xs) = u32be (length ys)"
    and rest: "concat (map enc xs) @ u = concat (map enc ys) @ v"
    by (simp_all add: put_list_def)
  with xs ys have "length xs = length ys" by (blast intro: u32be_inject)
  then show "xs = ys \<and> u = v"
    by (rule concat_unambiguous) (use xs ys rest in auto)
qed

end

abbreviation str_ok :: "string \<Rightarrow> bool" where
  "str_ok s \<equiv> length s < 4294967296"

interpretation text_field: field_code put_str str_ok
proof
  fix s t u v :: string
  assume s: "str_ok s" and t: "str_ok t" and eq: "put_str s @ u = put_str t @ v"
  then have "u32be (length s) = u32be (length t)" and rest: "s @ u = t @ v"
    by (simp_all add: put_str_def)
  with s t have "length s = length t" by (blast intro: u32be_inject)
  with rest show "s = t \<and> u = v" by simp
qed

interpretation bit_field: field_code put_bit "\<lambda>_. True"
  by unfold_locales (auto simp: put_bit_def split: if_splits)

interpretation text_list_field:
  field_code "put_list put_str" "\<lambda>xs. length xs < 4294967296 \<and> (\<forall>x \<in> set xs. str_ok x)"
  by (rule text_field.list_code)

lemmas field_codes [simp] =
  text_field.code_eq_iff bit_field.code_eq_iff text_list_field.code_eq_iff
  text_field.code_eq_iff_end bit_field.code_eq_iff_end text_list_field.code_eq_iff_end

end
