(* ===== verification/GoText.thy ===== *)
theory GoText
  imports GoBase
begin

text \<open>
  The rest of the text library the code calls: white space (\<^verbatim>\<open>strings.TrimSpace\<close>, \<^verbatim>\<open>strings.Fields\<close>),
  numbers (\<^verbatim>\<open>strconv.ParseUint\<close>, \<^verbatim>\<open>strconv.ParseInt\<close>, \<^verbatim>\<open>strconv.Atoi\<close>), case (\<^verbatim>\<open>strings.ToLower\<close>,
  \<^verbatim>\<open>strings.ToUpper\<close>, \<^verbatim>\<open>strings.EqualFold\<close>) and \<^verbatim>\<open>path.Clean\<close>.

  White space is that of \<^verbatim>\<open>unicode.IsSpace\<close> on the UTF-8 bytes of the string.  An encoded space starts
  with a byte that is never a continuation byte, so matching the encodings bytewise finds the same spaces
  as decoding runes, on ill-formed text too.  The case tables of Unicode are data of the Go library and are
  a parameter (\<open>unicode\<close>), which an ASCII-only string never reaches.
\<close>

section \<open>White space\<close>

definition space_runes :: "string list" where
  "space_runes =
     [[CHR 0x09], [CHR 0x0A], [CHR 0x0B], [CHR 0x0C], [CHR 0x0D], [CHR 0x20],
      [CHR 0xC2, CHR 0x85], [CHR 0xC2, CHR 0xA0], [CHR 0xE1, CHR 0x9A, CHR 0x80],
      [CHR 0xE2, CHR 0x80, CHR 0x80], [CHR 0xE2, CHR 0x80, CHR 0x81], [CHR 0xE2, CHR 0x80, CHR 0x82],
      [CHR 0xE2, CHR 0x80, CHR 0x83], [CHR 0xE2, CHR 0x80, CHR 0x84], [CHR 0xE2, CHR 0x80, CHR 0x85],
      [CHR 0xE2, CHR 0x80, CHR 0x86], [CHR 0xE2, CHR 0x80, CHR 0x87], [CHR 0xE2, CHR 0x80, CHR 0x88],
      [CHR 0xE2, CHR 0x80, CHR 0x89], [CHR 0xE2, CHR 0x80, CHR 0x8A], [CHR 0xE2, CHR 0x80, CHR 0xA8],
      [CHR 0xE2, CHR 0x80, CHR 0xA9], [CHR 0xE2, CHR 0x80, CHR 0xAF], [CHR 0xE2, CHR 0x81, CHR 0x9F],
      [CHR 0xE3, CHR 0x80, CHR 0x80]]"

definition space_rune :: "string \<Rightarrow> bool" where
  "space_rune r = List.member space_runes r"

text \<open>The width of the white space a string starts with, or ends with; 0 when it is not a space.\<close>

definition lead_space :: "string \<Rightarrow> nat" where
  "lead_space s =
     (if space_rune (take 1 s) then 1 else if space_rune (take 2 s) then 2
      else if space_rune (take 3 s) then 3 else 0)"

definition last_bytes :: "nat \<Rightarrow> string \<Rightarrow> string" where
  "last_bytes n s = drop (length s - n) s"

definition trail_space :: "string \<Rightarrow> nat" where
  "trail_space s =
     (if space_rune (last_bytes 1 s) then 1 else if space_rune (last_bytes 2 s) then 2
      else if space_rune (last_bytes 3 s) then 3 else 0)"

lemma space_rune_Nil [simp]: "\<not> space_rune []"
  by (simp add: space_rune_def space_runes_def)

lemma lead_space_Nil [simp]: "lead_space [] = 0"
  by (simp add: lead_space_def)

lemma trail_space_Nil [simp]: "trail_space [] = 0"
  by (simp add: trail_space_def last_bytes_def)

function trim_left :: "string \<Rightarrow> string" where
  "trim_left s = (if lead_space s = 0 then s else trim_left (drop (lead_space s) s))"
  by pat_completeness auto
termination
  by (relation "measure length") (auto intro!: diff_less Nat.gr0I)

function trim_right :: "string \<Rightarrow> string" where
  "trim_right s = (if trail_space s = 0 then s else trim_right (take (length s - trail_space s) s))"
  by pat_completeness auto
termination
proof (relation "measure length")
  fix s :: string
  assume "trail_space s \<noteq> 0"
  then show "(take (length s - trail_space s) s, s) \<in> measure length"
    by (cases s) auto
qed simp

declare trim_left.simps [simp del] trim_right.simps [simp del]

definition trim_space :: "string \<Rightarrow> string" where \<comment> \<open>\<^verbatim>\<open>strings.TrimSpace\<close>\<close>
  "trim_space s = trim_right (trim_left s)"

lemma lead_space_trim_left [simp]: "lead_space (trim_left s) = 0"
  by (induction s rule: trim_left.induct) (subst trim_left.simps, auto)

lemma trail_space_trim_right [simp]: "trail_space (trim_right s) = 0"
  by (induction s rule: trim_right.induct) (subst trim_right.simps, auto)

lemma trim_left_id: "lead_space s = 0 \<Longrightarrow> trim_left s = s"
  by (subst trim_left.simps) simp

lemma trim_right_id: "trail_space s = 0 \<Longrightarrow> trim_right s = s"
  by (subst trim_right.simps) simp

lemma trim_right_prefix: "prefix (trim_right s) s"
proof (induction s rule: trim_right.induct)
  case (1 s)
  show ?case
  proof (cases "trail_space s = 0")
    case True
    then show ?thesis by (simp add: trim_right_id)
  next
    case False
    then have "prefix (trim_right s) (take (length s - trail_space s) s)"
      using 1 by (subst trim_right.simps) simp
    then show ?thesis using take_is_prefix prefix_order.trans by blast
  qed
qed

lemma trim_space_Nil [simp]: "trim_space [] = []"
  by (simp add: trim_space_def trim_left_id trim_right_id)

text \<open>A prefix of a string that starts with no space starts with no space: no space is cut in two.\<close>

lemma lead_space_prefix:
  assumes "lead_space s = 0" "prefix p s"
  shows "lead_space p = 0"
proof -
  from assms(2) obtain r where s: "s = p @ r" by (auto simp: prefix_def)
  have len: "space_rune x \<Longrightarrow> \<not> space_rune (take 1 x) \<Longrightarrow> length x = 2 \<or> length x = 3" for x
    by (auto simp: space_rune_def space_runes_def)
  have not1: "\<not> space_rune (take 1 p)"
    using assms(1) s by (cases p) (auto simp: lead_space_def split: if_splits)
  have not2: "\<not> space_rune (take 2 p)"
  proof
    assume a: "space_rune (take 2 p)"
    with len [OF a] not1 have "length (take 2 p) = 2" by (auto simp: min_def split: if_splits)
    then have "take 2 s = take 2 p" using s by (simp add: min_def split: if_splits)
    with a assms(1) show False by (simp add: lead_space_def split: if_splits)
  qed
  have not3: "\<not> space_rune (take 3 p)"
  proof
    assume a: "space_rune (take 3 p)"
    have "length (take 3 p) = 3"
    proof (cases "length p \<le> 2")
      case True
      then have "take 3 p = take 2 p" by simp
      with a not2 show ?thesis by simp
    qed simp
    then have "take 3 s = take 3 p" using s by (simp add: min_def split: if_splits)
    with a assms(1) show False by (simp add: lead_space_def split: if_splits)
  qed
  from not1 not2 not3 show ?thesis by (simp add: lead_space_def)
qed

lemma trim_space_idem [simp]: "trim_space (trim_space s) = trim_space s"
proof -
  have "lead_space (trim_right (trim_left s)) = 0"
    by (rule lead_space_prefix [OF lead_space_trim_left trim_right_prefix])
  then show ?thesis
    by (simp add: trim_space_def trim_left_id trim_right_id)
qed

function fields_from :: "string \<Rightarrow> string \<Rightarrow> string list" where
  "fields_from w s =
     (case s of
        [] \<Rightarrow> (if w = [] then [] else [w])
      | c # r \<Rightarrow>
          (if lead_space s = 0 then fields_from (w @ [c]) r
           else (if w = [] then [] else [w]) @ fields_from [] (drop (lead_space s) s)))"
  by pat_completeness auto
termination
  by (relation "measure (\<lambda>(w, s). length s)") auto

declare fields_from.simps [simp del]

definition str_fields :: "string \<Rightarrow> string list" where \<comment> \<open>\<^verbatim>\<open>strings.Fields\<close>\<close>
  "str_fields s = fields_from [] s"

lemma fields_nonempty: "f \<in> set (fields_from w s) \<Longrightarrow> f \<noteq> []"
proof (induction w s rule: fields_from.induct)
  case (1 w s)
  then show ?case
    by (subst (asm) fields_from.simps) (auto split: list.splits if_splits)
qed

text \<open>Printable ASCII text holds no white space.\<close>

definition graphic :: "char \<Rightarrow> bool" where
  "graphic c = byte_in (CHR ''!'') c (CHR ''~'')"

lemma space_rune_not_graphic: "space_rune r \<Longrightarrow> r \<noteq> [] \<and> (\<forall>c \<in> set r. \<not> graphic c)"
  by (auto simp: space_rune_def space_runes_def graphic_def byte_in_def)

lemma graphic_not_space: "\<forall>c \<in> set s. graphic c \<Longrightarrow> set r \<subseteq> set s \<Longrightarrow> \<not> space_rune r"
  using space_rune_not_graphic [of r] by (cases r) auto

lemma lead_space_graphic: "\<forall>c \<in> set s. graphic c \<Longrightarrow> lead_space s = 0"
  using graphic_not_space [of s] set_take_subset [of _ s] by (simp add: lead_space_def)

lemma trail_space_graphic: "\<forall>c \<in> set s. graphic c \<Longrightarrow> trail_space s = 0"
  using graphic_not_space [of s] set_drop_subset [of _ s] by (simp add: trail_space_def last_bytes_def)

lemma trim_space_graphic: "\<forall>c \<in> set s. graphic c \<Longrightarrow> trim_space s = s"
  by (simp add: trim_space_def trim_left_id trim_right_id lead_space_graphic trail_space_graphic)

lemma fields_from_graphic: "\<forall>c \<in> set s. graphic c \<Longrightarrow> w @ s \<noteq> [] \<Longrightarrow> fields_from w s = [w @ s]"
proof (induction s arbitrary: w)
  case Nil
  then show ?case by (subst fields_from.simps) simp
next
  case (Cons c s)
  then show ?case
    using lead_space_graphic [of "c # s"] Cons.IH [of "w @ [c]"] by (subst fields_from.simps) simp
qed

lemma str_fields_graphic: "\<forall>c \<in> set s. graphic c \<Longrightarrow> s \<noteq> [] \<Longrightarrow> str_fields s = [s]"
  by (simp add: str_fields_def fields_from_graphic)

section \<open>Literal texts\<close>

text \<open>The UTF-8 bytes of code points below 0x800, for the Russian texts of the code.\<close>

definition utf8 :: "int list \<Rightarrow> string" where
  "utf8 cs = concat (map (\<lambda>c. if c < 128 then [char_of c]
     else [char_of (192 + c div 64), char_of (128 + c mod 64)]) cs)"

section \<open>Numbers\<close>

definition digit_value :: "char \<Rightarrow> int" where
  "digit_value c = of_char c - 48"

definition decimal_value :: "string \<Rightarrow> int" where
  "decimal_value s = fold (\<lambda>c n. 10 * n + digit_value c) s 0"

definition all_digits :: "string \<Rightarrow> bool" where
  "all_digits s \<longleftrightarrow> s \<noteq> [] \<and> list_all is_digit s"

definition parse_uint64 :: "string \<Rightarrow> int option" where \<comment> \<open>\<^verbatim>\<open>strconv.ParseUint(s, 10, 64)\<close>\<close>
  "parse_uint64 s =
     (if \<not> all_digits s then None
      else if decimal_value s > max_uint64 then None else Some (decimal_value s))"

definition parse_int64 :: "string \<Rightarrow> int option" where \<comment> \<open>\<^verbatim>\<open>strconv.ParseInt(s, 10, 64)\<close> and \<^verbatim>\<open>strconv.Atoi\<close>\<close>
  "parse_int64 s =
     (let neg = (s \<noteq> [] \<and> hd s = CHR ''-'');
          d = (if s \<noteq> [] \<and> (hd s = CHR ''-'' \<or> hd s = CHR ''+'') then tl s else s)
      in if \<not> all_digits d then None
         else if neg then (if decimal_value d > 2 ^ 63 then None else Some (- decimal_value d))
         else (if decimal_value d \<ge> 2 ^ 63 then None else Some (decimal_value d)))"

lemma digit_value_bounds:
  assumes "is_digit c"
  shows "0 \<le> digit_value c \<and> digit_value c \<le> 9"
proof -
  have "(48 :: nat) \<le> of_char c" "of_char c \<le> (57 :: nat)"
    using assms by (simp_all add: is_digit_def byte_in_def less_eq_char_def)
  moreover have "int (of_char c) = of_char c" by (rule of_nat_of_char)
  ultimately have "(48 :: int) \<le> of_char c" "of_char c \<le> (57 :: int)" by linarith+
  then show ?thesis by (simp add: digit_value_def)
qed

lemma decimal_value_snoc: "decimal_value (s @ [c]) = 10 * decimal_value s + digit_value c"
  by (simp add: decimal_value_def)

lemma decimal_value_nonneg: "list_all is_digit s \<Longrightarrow> 0 \<le> decimal_value s"
  by (induction s rule: rev_induct)
    (auto simp: decimal_value_snoc dest: digit_value_bounds, simp add: decimal_value_def)

lemma parse_uint64_bounds: "parse_uint64 s = Some n \<Longrightarrow> 0 \<le> n \<and> n \<le> max_uint64"
  by (auto simp: parse_uint64_def all_digits_def decimal_value_nonneg split: if_splits)

lemma parse_int64_bounds: "parse_int64 s = Some n \<Longrightarrow> - (2 ^ 63) \<le> n \<and> n < 2 ^ 63"
  by (auto simp: parse_int64_def Let_def all_digits_def dest!: decimal_value_nonneg split: if_splits)

section \<open>Case\<close>

record unicode =
  uni_lower :: "string \<Rightarrow> string"
  uni_upper :: "string \<Rightarrow> string"
  uni_fold :: "string \<Rightarrow> string \<Rightarrow> bool"

definition is_ascii :: "char \<Rightarrow> bool" where
  "is_ascii c = (of_char c < (128 :: int))"

definition lower_byte :: "char \<Rightarrow> char" where
  "lower_byte c = (if is_upper c then char_of (of_char c + (32 :: int)) else c)"

definition upper_byte :: "char \<Rightarrow> char" where
  "upper_byte c = (if is_lower c then char_of (of_char c - (32 :: int)) else c)"

definition to_lower :: "unicode \<Rightarrow> string \<Rightarrow> string" where
  "to_lower U s = (if list_all is_ascii s then map lower_byte s else uni_lower U s)"

definition to_upper :: "unicode \<Rightarrow> string \<Rightarrow> string" where
  "to_upper U s = (if list_all is_ascii s then map upper_byte s else uni_upper U s)"

definition equal_fold :: "unicode \<Rightarrow> string \<Rightarrow> string \<Rightarrow> bool" where
  "equal_fold U s t =
     (if list_all is_ascii s \<and> list_all is_ascii t then map lower_byte s = map lower_byte t
      else uni_fold U s t)"

text \<open>A concrete table for evaluation: it leaves what is not ASCII as it is.\<close>

definition ascii_only :: unicode where
  "ascii_only = \<lparr>uni_lower = map lower_byte, uni_upper = map upper_byte,
     uni_fold = (\<lambda>s t. map lower_byte s = map lower_byte t)\<rparr>"

section \<open>Paths\<close>

fun clean_segments :: "bool \<Rightarrow> string list \<Rightarrow> string list \<Rightarrow> string list" where
  "clean_segments rooted st [] = rev st"
| "clean_segments rooted st (g # gs) =
     (if g = [] \<or> g = ''.'' then clean_segments rooted st gs
      else if g = ''..'' then
        (case st of
           t # ts \<Rightarrow> if t = ''..'' then clean_segments rooted (g # st) gs
                     else clean_segments rooted ts gs
         | [] \<Rightarrow> clean_segments rooted (if rooted then [] else [g]) gs)
      else clean_segments rooted (g # st) gs)"

definition path_clean :: "string \<Rightarrow> string" where \<comment> \<open>\<^verbatim>\<open>path.Clean\<close>\<close>
  "path_clean s =
     (if s = [] then ''.''
      else
        (let rooted = (hd s = CHR ''/'');
             segs = clean_segments rooted [] (split_char (CHR ''/'') s);
             out = join_char (CHR ''/'') segs
         in if rooted then CHR ''/'' # out else if segs = [] then ''.'' else out))"

lemma clean_segments_plain:
  "\<forall>g \<in> set gs. g \<noteq> [] \<and> g \<noteq> ''.'' \<and> g \<noteq> ''..'' \<Longrightarrow> clean_segments r st gs = rev st @ gs"
  by (induction gs arbitrary: st) auto

lemma path_clean_plain:
  assumes "s \<noteq> []" "hd s \<noteq> CHR ''/''"
    and "\<forall>g \<in> set (split_char (CHR ''/'') s). g \<noteq> [] \<and> g \<noteq> ''.'' \<and> g \<noteq> ''..''"
  shows "path_clean s = s"
  using assms by (simp add: path_clean_def clean_segments_plain Let_def)

end
