(* ===== verification/GoOrder.thy ===== *)
theory GoOrder
  imports GoBase
begin

text \<open>
  The contract of a three-way comparison function (\<open>-1\<close>, \<open>0\<close>, \<open>1\<close>), which two version formats of the
  code implement and on which range matching and candidate ordering rely: the locale \<open>comparator\<close>, with the
  ways comparisons are combined (on a key, one after another, lexicographically on lists).
\<close>

locale comparator =
  fixes cmp :: "'a \<Rightarrow> 'a \<Rightarrow> int"
  assumes range: "cmp a b \<in> {-1, 0, 1}"
    and anti: "cmp b a = - cmp a b"
    and le_trans: "cmp a b \<le> 0 \<Longrightarrow> cmp b c \<le> 0 \<Longrightarrow> cmp a c \<le> 0"
begin

lemma refl [simp]: "cmp a a = 0"
  using anti [of a a] by simp

lemma ge_iff: "0 \<le> cmp a b \<longleftrightarrow> cmp b a \<le> 0"
  using anti [of a b] by linarith

lemma gt_iff: "0 < cmp a b \<longleftrightarrow> cmp b a < 0"
  using anti [of a b] by linarith

lemma sym_eq: "cmp a b = 0 \<Longrightarrow> cmp b a = 0"
  using anti [of a b] by simp

lemma less_le_trans: "cmp a b < 0 \<Longrightarrow> cmp b c \<le> 0 \<Longrightarrow> cmp a c < 0"
  using le_trans [of b c a] anti [of a b] anti [of a c] by force

lemma le_less_trans: "cmp a b \<le> 0 \<Longrightarrow> cmp b c < 0 \<Longrightarrow> cmp a c < 0"
  using le_trans [of c a b] anti [of c b] anti [of a c] by force

lemma eq_left: "cmp a b = 0 \<Longrightarrow> cmp a c = cmp b c"
proof -
  assume ab: "cmp a b = 0"
  then have ba: "cmp b a = 0" by (rule sym_eq)
  have "cmp a c \<le> 0 \<longleftrightarrow> cmp b c \<le> 0" using ab ba le_trans [of a b c] le_trans [of b a c] by auto
  moreover have "cmp a c < 0 \<longleftrightarrow> cmp b c < 0"
    using ab ba le_less_trans [of a b c] le_less_trans [of b a c] by auto
  ultimately show ?thesis using range [of a c] range [of b c] by auto
qed

lemma eq_right: "cmp a b = 0 \<Longrightarrow> cmp c a = cmp c b"
  using eq_left [of a b c] anti [of a c] anti [of b c] by simp

text \<open>A half-open range is convex: what lies between two of its members belongs to it.\<close>

lemma range_convex:
  assumes "cmp lo a \<le> 0" "cmp a x \<le> 0" "cmp x b \<le> 0" "cmp b hi < 0"
  shows "0 \<le> cmp x lo \<and> cmp x hi < 0"
  using le_trans [OF assms(1,2)] le_less_trans [OF assms(3,4)] ge_iff by blast

lemma on_key: "comparator (\<lambda>x y. cmp (f x) (f y))"
  by unfold_locales (rule range, rule anti, rule le_trans)

end

definition then_cmp :: "('a \<Rightarrow> 'a \<Rightarrow> int) \<Rightarrow> ('a \<Rightarrow> 'a \<Rightarrow> int) \<Rightarrow> 'a \<Rightarrow> 'a \<Rightarrow> int" where
  "then_cmp c d x y = (if c x y \<noteq> 0 then c x y else d x y)"

fun lex_cmp :: "('a \<Rightarrow> 'a \<Rightarrow> int) \<Rightarrow> 'a list \<Rightarrow> 'a list \<Rightarrow> int" where
  "lex_cmp c [] [] = 0"
| "lex_cmp c [] (y # ys) = -1"
| "lex_cmp c (x # xs) [] = 1"
| "lex_cmp c (x # xs) (y # ys) = (if c x y \<noteq> 0 then c x y else lex_cmp c xs ys)"

definition order_cmp :: "'a :: linorder \<Rightarrow> 'a \<Rightarrow> int" where
  "order_cmp x y = (if x < y then -1 else if x > y then 1 else 0)"

context comparator
begin

lemma then_comparator:
  assumes "comparator d"
  shows "comparator (then_cmp cmp d)"
proof -
  note d = comparator.range [OF assms] comparator.anti [OF assms] comparator.le_trans [OF assms]
  show ?thesis
  proof
    fix a b c
    show "then_cmp cmp d a b \<in> {-1, 0, 1}" using range [of a b] d(1) [of a b] by (auto simp: then_cmp_def)
    show "then_cmp cmp d b a = - then_cmp cmp d a b"
      using anti [of a b] d(2) [of b a] by (simp add: then_cmp_def)
    assume ab: "then_cmp cmp d a b \<le> 0" and bc: "then_cmp cmp d b c \<le> 0"
    then have le: "cmp a b \<le> 0" "cmp b c \<le> 0" by (auto simp: then_cmp_def split: if_splits)
    show "then_cmp cmp d a c \<le> 0"
    proof (cases "cmp a b = 0 \<and> cmp b c = 0")
      case True
      then have "cmp a c = 0" using eq_left by metis
      with True ab bc d(3) [of a b c] show ?thesis by (simp add: then_cmp_def)
    next
      case False
      then have "cmp a c < 0" using le less_le_trans [of a b c] le_less_trans [of a b c] by force
      then show ?thesis by (simp add: then_cmp_def)
    qed
  qed
qed

lemma lex_range: "lex_cmp cmp xs ys \<in> {-1, 0, 1}"
proof (induction xs arbitrary: ys)
  case Nil
  show ?case by (cases ys) auto
next
  case (Cons x xs)
  show ?case
  proof (cases ys)
    case ys: (Cons y zs)
    show ?thesis using Cons.IH [of zs] range [of x y] by (auto simp: ys)
  qed simp
qed

lemma lex_anti: "lex_cmp cmp ys xs = - lex_cmp cmp xs ys"
proof (induction xs arbitrary: ys)
  case Nil
  show ?case by (cases ys) auto
next
  case (Cons x xs)
  show ?case
  proof (cases ys)
    case ys: (Cons y zs)
    show ?thesis using Cons.IH [of zs] anti [of x y] by (simp add: ys)
  qed simp
qed

lemma lex_le_trans: "lex_cmp cmp xs ys \<le> 0 \<Longrightarrow> lex_cmp cmp ys zs \<le> 0 \<Longrightarrow> lex_cmp cmp xs zs \<le> 0"
proof (induction xs arbitrary: ys zs)
  case Nil
  then show ?case by (cases zs) auto
next
  case (Cons x xs)
  from Cons.prems(1) obtain y ys' where ys: "ys = y # ys'" by (cases ys) auto
  with Cons.prems(2) obtain z zs' where zs: "zs = z # zs'" by (cases zs) auto
  have le: "cmp x y \<le> 0" "cmp y z \<le> 0" using Cons.prems ys zs by (auto split: if_splits)
  show ?case
  proof (cases "cmp x y = 0 \<and> cmp y z = 0")
    case True
    then have "cmp x z = 0" using eq_left by metis
    with True Cons ys zs show ?thesis by auto
  next
    case False
    then have "cmp x z < 0" using le less_le_trans [of x y z] le_less_trans [of x y z] by force
    then show ?thesis by (simp add: zs)
  qed
qed

lemma lex_comparator: "comparator (lex_cmp cmp)"
  by unfold_locales (rule lex_range, rule lex_anti, rule lex_le_trans)

lemma lex_zero:
  assumes "\<And>x y. x \<in> set xs \<Longrightarrow> y \<in> set ys \<Longrightarrow> cmp x y = 0 \<Longrightarrow> x = y" "lex_cmp cmp xs ys = 0"
  shows "xs = ys"
  using assms
proof (induction xs arbitrary: ys)
  case Nil
  then show ?case by (cases ys) auto
next
  case (Cons x xs)
  then obtain y zs where ys: "ys = y # zs" by (cases ys) auto
  have "x = y" using Cons.prems by (auto simp: ys split: if_splits)
  moreover have "xs = zs"
    by (rule Cons.IH) (use Cons.prems in \<open>auto simp: ys split: if_splits\<close>)
  ultimately show ?case by (simp add: ys)
qed

end

lemma order_comparator: "comparator (order_cmp :: 'a :: linorder \<Rightarrow> 'a \<Rightarrow> int)"
  by unfold_locales (auto simp: order_cmp_def split: if_splits)

end
