(* ===== verification/Semver.thy ===== *)
theory Semver
  imports GoText GoOrder "HOL-Library.Word"
begin

text \<open>
  Semantic versions and version ranges of signed component catalogs
  (\<^verbatim>\<open>services/api/internal/model/component_resolver.go\<close>, \<^verbatim>\<open>semver0243\<close> to \<^verbatim>\<open>matchRange0243\<close>).  The three
  numbers are 64-bit words, as in the code: the range operators guard the increments that would wrap.
\<close>

section \<open>Versions\<close>

type_synonym u64 = "64 word"

record semver =
  sv_major :: u64
  sv_minor :: u64
  sv_patch :: u64
  sv_pre :: "string list"

datatype semver_error =
    BadSemver string
  | BadBuildMetadata string
  | BadPrerelease string
  | NeedsThreeParts string
  | NumberOutOfRange string

definition version_spaces :: string where
  "version_spaces = [CHR '' '', CHR 0x09, CHR 0x0D, CHR 0x0A]"

definition identifier_byte :: "char \<Rightarrow> bool" where
  "identifier_byte c \<longleftrightarrow> is_digit c \<or> is_lower c \<or> is_upper c \<or> c = CHR ''-''"

definition semver_identifier :: "bool \<Rightarrow> string \<Rightarrow> bool" where
  "semver_identifier prerelease ident \<longleftrightarrow>
     ident \<noteq> [] \<and> list_all identifier_byte ident \<and>
     (prerelease \<and> list_all is_digit ident \<longrightarrow>
        \<not> (length ident > 1 \<and> hd ident = CHR ''0'') \<and> parse_uint64 ident \<noteq> None)"

definition semver_identifiers :: "string \<Rightarrow> bool \<Rightarrow> bool" where
  "semver_identifiers raw prerelease \<longleftrightarrow>
     raw \<noteq> [] \<and> list_all (semver_identifier prerelease) (split_char (CHR ''.'') raw)"

definition core_part :: "string \<Rightarrow> string \<Rightarrow> semver_error + u64" where
  "core_part source part =
     (if part = [] \<or> (length part > 1 \<and> hd part = CHR ''0'') then Inl (BadSemver source)
      else if list_ex (\<lambda>b. \<not> is_digit b) part then Inl (BadSemver source)
      else (case parse_uint64 part of None \<Rightarrow> Inl (NumberOutOfRange part) | Some n \<Rightarrow> Inr (of_int n)))"

definition parse_semver :: "string \<Rightarrow> semver_error + semver" where
  "parse_semver source =
     (if length source = 0 \<or> length source > 128 \<or> contains_any source version_spaces
      then Inl (BadSemver source)
      else
        (let (raw, build) = cut_char (CHR ''+'') source;
             (core, pre) = cut_char (CHR ''-'') raw
         in if (case build of Some b \<Rightarrow> \<not> semver_identifiers b False | None \<Rightarrow> False)
            then Inl (BadBuildMetadata source)
            else if (case pre of Some p \<Rightarrow> \<not> semver_identifiers p True | None \<Rightarrow> False)
            then Inl (BadPrerelease source)
            else
              (case split_char (CHR ''.'') core of
                 [a, b, c] \<Rightarrow>
                   (case core_part source a of Inl e \<Rightarrow> Inl e | Inr major \<Rightarrow>
                   (case core_part source b of Inl e \<Rightarrow> Inl e | Inr minor \<Rightarrow>
                   (case core_part source c of Inl e \<Rightarrow> Inl e | Inr patch \<Rightarrow>
                     Inr \<lparr>sv_major = major, sv_minor = minor, sv_patch = patch,
                          sv_pre = (case pre of Some p \<Rightarrow> split_char (CHR ''.'') p | None \<Rightarrow> [])\<rparr>)))
               | _ \<Rightarrow> Inl (NeedsThreeParts source))))"

section \<open>Precedence\<close>

fun cmp_prerelease :: "string list \<Rightarrow> string list \<Rightarrow> int" where
  "cmp_prerelease (x # xs) (y # ys) =
     (case (parse_uint64 x, parse_uint64 y) of
        (Some m, Some n) \<Rightarrow> if m < n then -1 else if m > n then 1 else cmp_prerelease xs ys
      | (Some _, None) \<Rightarrow> -1
      | (None, Some _) \<Rightarrow> 1
      | (None, None) \<Rightarrow> if x < y then -1 else if x > y then 1 else cmp_prerelease xs ys)"
| "cmp_prerelease [] (y # ys) = -1"
| "cmp_prerelease (x # xs) [] = 1"
| "cmp_prerelease [] [] = 0"

definition cmp_semver :: "semver \<Rightarrow> semver \<Rightarrow> int" where
  "cmp_semver a b =
     (if sv_major a < sv_major b then -1 else if sv_major a > sv_major b then 1
      else if sv_minor a < sv_minor b then -1 else if sv_minor a > sv_minor b then 1
      else if sv_patch a < sv_patch b then -1 else if sv_patch a > sv_patch b then 1
      else if sv_pre a = [] \<and> sv_pre b \<noteq> [] then 1
      else if sv_pre a \<noteq> [] \<and> sv_pre b = [] then -1
      else cmp_prerelease (sv_pre a) (sv_pre b))"

section \<open>Ranges\<close>

datatype range_error =
    ActualVersion semver_error
  | RangeTooLong
  | BadRange string
  | BadRangeVersion string semver_error
  | RangeOverflow

datatype range_op = OpEq | OpGt | OpGe | OpLt | OpLe | OpCaret | OpTilde

definition range_ops :: "(string \<times> range_op) list" where
  "range_ops = [(''>='', OpGe), (''<='', OpLe), (''>'', OpGt), (''<'', OpLt), (''='', OpEq),
                (''^'', OpCaret), (''~'', OpTilde)]"

definition split_op :: "string \<Rightarrow> range_op \<times> string" where
  "split_op token =
     (case first_some (\<lambda>(p, _). has_prefix token p) range_ops of
        Some (p, op) \<Rightarrow> (op, trim_prefix token p)
      | None \<Rightarrow> (OpEq, token))"

text \<open>The exclusive upper bound of \<^verbatim>\<open>^v\<close> and \<^verbatim>\<open>~v\<close>; a number that would wrap is an error.\<close>

definition range_upper :: "range_op \<Rightarrow> semver \<Rightarrow> range_error + semver" where
  "range_upper op required =
     (let upper = required\<lparr>sv_pre := []\<rparr> in
      if op = OpTilde then
        (if sv_minor upper = - 1 then Inl RangeOverflow
         else Inr (upper\<lparr>sv_minor := sv_minor upper + 1, sv_patch := 0\<rparr>))
      else if sv_major upper > 0 then
        (if sv_major upper = - 1 then Inl RangeOverflow
         else Inr (upper\<lparr>sv_major := sv_major upper + 1, sv_minor := 0, sv_patch := 0\<rparr>))
      else if sv_minor upper > 0 then
        (if sv_minor upper = - 1 then Inl RangeOverflow
         else Inr (upper\<lparr>sv_minor := sv_minor upper + 1, sv_patch := 0\<rparr>))
      else
        (if sv_patch upper = - 1 then Inl RangeOverflow
         else Inr (upper\<lparr>sv_patch := sv_patch upper + 1\<rparr>)))"

definition op_holds :: "range_op \<Rightarrow> semver \<Rightarrow> semver \<Rightarrow> range_error + bool" where
  "op_holds op current required =
     (let comparison = cmp_semver current required in
      case op of
        OpEq \<Rightarrow> Inr (comparison = 0)
      | OpGt \<Rightarrow> Inr (comparison > 0)
      | OpGe \<Rightarrow> Inr (comparison \<ge> 0)
      | OpLt \<Rightarrow> Inr (comparison < 0)
      | OpLe \<Rightarrow> Inr (comparison \<le> 0)
      | _ \<Rightarrow> (case range_upper op required of
                Inl e \<Rightarrow> Inl e
              | Inr upper \<Rightarrow> Inr (comparison \<ge> 0 \<and> cmp_semver current upper < 0)))"

definition match_token :: "semver \<Rightarrow> string \<Rightarrow> string \<Rightarrow> range_error + bool" where
  "match_token current expr token =
     (if token = ''*'' then Inr True
      else
        (let (op, version) = split_op token in
         case parse_semver version of
           Inl e \<Rightarrow> Inl (BadRangeVersion expr e)
         | Inr required \<Rightarrow> op_holds op current required))"

definition match_alternative :: "semver \<Rightarrow> string \<Rightarrow> string \<Rightarrow> range_error + bool" where
  "match_alternative current expr alternative =
     (let tokens = str_fields alternative in
      if length tokens = 0 \<or> length tokens > 16 then Inl (BadRange expr)
      else for_each (\<lambda>token ok. case match_token current expr token of
                                  Inl e \<Rightarrow> Inl e | Inr pass \<Rightarrow> Inr (ok \<and> pass)) tokens True)"

definition match_range :: "string \<Rightarrow> string \<Rightarrow> range_error + bool" where
  "match_range actual expr =
     (case parse_semver actual of
        Inl e \<Rightarrow> Inl (ActualVersion e)
      | Inr current \<Rightarrow>
          if trim_space expr = [] \<or> trim_space expr = ''*'' then Inr True
          else if length expr > 256 then Inl RangeTooLong
          else for_each (\<lambda>alternative matched. case match_alternative current expr alternative of
                                  Inl e \<Rightarrow> Inl e | Inr ok \<Rightarrow> Inr (matched \<or> ok))
                 (split_two (CHR ''|'') (CHR ''|'') expr) False)"


section \<open>Precedence is an order\<close>

definition cmp_identifier :: "string \<Rightarrow> string \<Rightarrow> int" where
  "cmp_identifier x y =
     (case (parse_uint64 x, parse_uint64 y) of
        (Some m, Some n) \<Rightarrow> order_cmp m n
      | (Some _, None) \<Rightarrow> -1
      | (None, Some _) \<Rightarrow> 1
      | (None, None) \<Rightarrow> order_cmp x y)"

interpretation identifier_order: comparator cmp_identifier
proof
  fix a b c :: string
  show "cmp_identifier a b \<in> {-1, 0, 1}"
    by (simp add: cmp_identifier_def order_cmp_def split: option.split)
  show "cmp_identifier b a = - cmp_identifier a b"
    by (cases "parse_uint64 a"; cases "parse_uint64 b") (auto simp: cmp_identifier_def order_cmp_def)
  assume "cmp_identifier a b \<le> 0" "cmp_identifier b c \<le> 0"
  then show "cmp_identifier a c \<le> 0"
    by (cases "parse_uint64 a"; cases "parse_uint64 b"; cases "parse_uint64 c")
      (simp_all add: cmp_identifier_def, (erule (1) comparator.le_trans [OF order_comparator])+)
qed

lemma cmp_prerelease_lex: "cmp_prerelease xs ys = lex_cmp cmp_identifier xs ys"
  by (induction xs ys rule: cmp_prerelease.induct)
    (auto simp: cmp_identifier_def order_cmp_def split: option.splits)

interpretation prerelease_order: comparator "lex_cmp cmp_identifier"
  by (rule identifier_order.lex_comparator)

text \<open>A release (no pre-release part) comes after its pre-releases.\<close>

definition cmp_release :: "string list \<Rightarrow> string list \<Rightarrow> int" where
  "cmp_release p q =
     (if p = [] \<and> q \<noteq> [] then 1 else if p \<noteq> [] \<and> q = [] then -1 else lex_cmp cmp_identifier p q)"

interpretation release_order: comparator cmp_release
proof
  fix a b c :: "string list"
  show "cmp_release a b \<in> {-1, 0, 1}"
    using prerelease_order.range [of a b] by (auto simp: cmp_release_def)
  show "cmp_release b a = - cmp_release a b"
    using prerelease_order.anti [of a b] by (auto simp: cmp_release_def)
  assume "cmp_release a b \<le> 0" "cmp_release b c \<le> 0"
  then show "cmp_release a c \<le> 0"
    using prerelease_order.le_trans [of a b c] by (auto simp: cmp_release_def split: if_splits)
qed

lemma cmp_semver_stages:
  "cmp_semver =
     then_cmp (\<lambda>a b. order_cmp (sv_major a) (sv_major b))
       (then_cmp (\<lambda>a b. order_cmp (sv_minor a) (sv_minor b))
         (then_cmp (\<lambda>a b. order_cmp (sv_patch a) (sv_patch b))
           (\<lambda>a b. cmp_release (sv_pre a) (sv_pre b))))"
  by (intro ext)
    (simp add: cmp_semver_def then_cmp_def order_cmp_def cmp_release_def cmp_prerelease_lex)

interpretation semver_order: comparator cmp_semver
  unfolding cmp_semver_stages
  by (rule comparator.then_comparator [OF comparator.on_key [OF order_comparator]])+
    (rule release_order.on_key)

section \<open>Canonical decimals\<close>

definition canonical_decimal :: "string \<Rightarrow> bool" where
  "canonical_decimal s \<longleftrightarrow> all_digits s \<and> \<not> (length s > 1 \<and> hd s = CHR ''0'')"

lemma digit_value_inject: "is_digit c \<Longrightarrow> is_digit d \<Longrightarrow> digit_value c = digit_value d \<Longrightarrow> c = d"
proof -
  assume "digit_value c = digit_value d"
  then have "(of_char c :: int) = of_char d" by (simp add: digit_value_def)
  then show "c = d" by simp
qed

lemma digit_value_zero: "is_digit c \<Longrightarrow> digit_value c = 0 \<Longrightarrow> c = CHR ''0''"
  using digit_value_inject [of c "CHR ''0''"]
  by (simp add: digit_value_def [of "CHR ''0''"] is_digit_def byte_in_def)

lemma canonical_decimal_pos:
  assumes "canonical_decimal s" "length s > 1"
  shows "0 < decimal_value s"
  using assms
proof (induction s rule: rev_induct)
  case Nil
  then show ?case by simp
next
  case (snoc c s)
  show ?case
  proof (cases "length s > 1")
    case True
    then have "canonical_decimal s" using snoc.prems(1)
      by (auto simp: canonical_decimal_def all_digits_def hd_append split: if_splits)
    then have "0 < decimal_value s" using True by (rule snoc.IH)
    then show ?thesis using snoc.prems(1) digit_value_bounds [of c]
      by (simp add: decimal_value_snoc canonical_decimal_def all_digits_def)
  next
    case False
    then obtain d where s: "s = [d]" using snoc.prems(2) by (cases s) auto
    then have d: "is_digit d" "d \<noteq> CHR ''0''" "is_digit c"
      using snoc.prems(1) by (auto simp: canonical_decimal_def all_digits_def)
    then have "digit_value d \<noteq> 0" using digit_value_zero by blast
    then have "0 < digit_value d" using digit_value_bounds [of d] d by simp
    then show ?thesis using digit_value_bounds [of c] d(3) by (simp add: s decimal_value_def)
  qed
qed

lemma canonical_decimal_snoc:
  "canonical_decimal (s @ [c]) \<Longrightarrow> s \<noteq> [] \<Longrightarrow> canonical_decimal s \<and> is_digit c"
  by (auto simp: canonical_decimal_def all_digits_def hd_append)

lemma canonical_decimal_inject:
  assumes "canonical_decimal s" "canonical_decimal t" "decimal_value s = decimal_value t"
  shows "s = t"
  using assms
proof (induction s arbitrary: t rule: rev_induct)
  case Nil
  then show ?case by (simp add: canonical_decimal_def all_digits_def)
next
  case (snoc c s)
  obtain u d where t: "t = u @ [d]"
    using snoc.prems(2) by (cases t rule: rev_cases) (auto simp: canonical_decimal_def all_digits_def)
  have cd: "is_digit c" "is_digit d"
    using snoc.prems(1,2) by (auto simp: t canonical_decimal_def all_digits_def)
  have eq: "10 * decimal_value s + digit_value c = 10 * decimal_value u + digit_value d"
    using snoc.prems(3) by (simp add: t decimal_value_snoc)
  then have vals: "decimal_value s = decimal_value u"
    using digit_value_bounds [OF cd(1)] digit_value_bounds [OF cd(2)] by arith
  with eq have "digit_value c = digit_value d" by simp
  then have c: "c = d" using digit_value_inject cd by blast
  have nil: "s = [] \<longleftrightarrow> u = []"
  proof -
    have "0 < decimal_value r" if r: "canonical_decimal (r @ [e])" "r \<noteq> []" for r e
    proof (cases "length r > 1")
      case True
      then show ?thesis using canonical_decimal_pos canonical_decimal_snoc [OF r] by blast
    next
      case False
      then obtain f where f: "r = [f]" using r(2) by (cases r) auto
      have "is_digit f" "f \<noteq> CHR ''0''" using r(1) by (auto simp: f canonical_decimal_def all_digits_def)
      then show ?thesis using digit_value_zero [of f] digit_value_bounds [of f]
        by (force simp: f decimal_value_def)
    qed
    moreover have "decimal_value [] = 0" by (simp add: decimal_value_def)
    ultimately show ?thesis using snoc.prems(1,2) vals t by (metis less_irrefl)
  qed
  show ?case
  proof (cases "s = []")
    case True
    then show ?thesis using nil c t by simp
  next
    case False
    then have "s = u" using snoc.IH snoc.prems(1,2) nil t vals canonical_decimal_snoc by metis
    then show ?thesis using c t by simp
  qed
qed

lemma parse_uint64_inject:
  assumes "semver_identifier True x" "semver_identifier True y"
    and "parse_uint64 x = Some m" "parse_uint64 y = Some m"
  shows "x = y"
  by (rule canonical_decimal_inject)
    (use assms in \<open>auto simp: canonical_decimal_def parse_uint64_def semver_identifier_def all_digits_def
       split: if_splits\<close>)

lemma cmp_identifier_zero:
  assumes "semver_identifier True x" "semver_identifier True y" "cmp_identifier x y = 0"
  shows "x = y"
  using assms parse_uint64_inject [OF assms(1,2)]
  by (auto simp: cmp_identifier_def order_cmp_def split: option.splits if_splits)


section \<open>Properties of precedence\<close>

text \<open>Version precedence is a total preorder: every two versions compare as \<open>-1\<close>, \<open>0\<close> or \<open>1\<close>, the
  opposite way round when swapped, and "not after" is transitive.\<close>

lemma semver_precedence_order:
  "cmp_semver a b \<in> {-1, 0, 1} \<and> cmp_semver b a = - cmp_semver a b \<and>
   (cmp_semver a b \<le> 0 \<and> cmp_semver b c \<le> 0 \<longrightarrow> cmp_semver a c \<le> 0)"
  using semver_order.range semver_order.anti semver_order.le_trans by blast

lemma parse_semver_pre:
  assumes "parse_semver s = Inr v"
  shows "\<forall>x \<in> set (sv_pre v). semver_identifier True x"
  using assms
  by (auto simp: parse_semver_def semver_identifiers_def list_all_iff Let_def
      split: prod.splits if_splits list.splits sum.splits option.splits)

text \<open>Two parsed versions of equal precedence are the same version: build metadata is not kept and a
  numeric identifier has only one spelling.\<close>

lemma parsed_precedence_antisym:
  assumes "parse_semver s = Inr a" "parse_semver t = Inr b" "cmp_semver a b = 0"
  shows "a = b"
proof -
  have nums: "sv_major a = sv_major b" "sv_minor a = sv_minor b" "sv_patch a = sv_patch b"
    and pre: "cmp_release (sv_pre a) (sv_pre b) = 0"
    using assms(3) by (auto simp: cmp_semver_stages then_cmp_def order_cmp_def split: if_splits)
  have "lex_cmp cmp_identifier (sv_pre a) (sv_pre b) = 0"
    using pre by (auto simp: cmp_release_def split: if_splits)
  then have "sv_pre a = sv_pre b"
    using identifier_order.lex_zero cmp_identifier_zero
      parse_semver_pre [OF assms(1)] parse_semver_pre [OF assms(2)] by metis
  with nums show ?thesis by simp
qed

section \<open>Properties of ranges\<close>

lemma word_less_Suc: "(x :: u64) \<noteq> - 1 \<Longrightarrow> x < x + 1"
  by (metis inc_less_eq_triv_imp linorder_less_linear word_le_less_eq)

lemma cmp_semver_less:
  "sv_major a < sv_major b \<Longrightarrow> cmp_semver a b = -1"
  "sv_major a = sv_major b \<Longrightarrow> sv_minor a < sv_minor b \<Longrightarrow> cmp_semver a b = -1"
  "sv_major a = sv_major b \<Longrightarrow> sv_minor a = sv_minor b \<Longrightarrow> sv_patch a < sv_patch b \<Longrightarrow> cmp_semver a b = -1"
  by (simp_all add: cmp_semver_def)

text \<open>The four ways a range operator forms its bound.\<close>

lemma range_upper_cases:
  assumes "range_upper op required = Inr upper"
  obtains
    (minor) "op = OpTilde \<or> sv_major required = 0" "sv_minor required \<noteq> - 1"
      "upper = required\<lparr>sv_pre := [], sv_minor := sv_minor required + 1, sv_patch := 0\<rparr>"
  | (major) "op \<noteq> OpTilde" "sv_major required > 0" "sv_major required \<noteq> - 1"
      "upper = required\<lparr>sv_pre := [], sv_major := sv_major required + 1, sv_minor := 0, sv_patch := 0\<rparr>"
  | (patch) "op \<noteq> OpTilde" "sv_major required = 0" "sv_minor required = 0" "sv_patch required \<noteq> - 1"
      "upper = required\<lparr>sv_pre := [], sv_patch := sv_patch required + 1\<rparr>"
  using assms by (auto simp: range_upper_def Let_def word_gt_0 split: if_splits)

lemma word_less_plus_1: "(y :: u64) \<noteq> - 1 \<Longrightarrow> x < y + 1 \<longleftrightarrow> x \<le> y"
proof -
  assume "y \<noteq> - 1"
  then have "1 + y \<noteq> 0" by (metis add.commute add_eq_0_iff2)
  then have "unat (y + 1) = Suc (unat y)" by (metis add.commute unatSuc)
  then show ?thesis by (simp add: word_less_nat_alt word_le_nat_alt less_Suc_eq_le)
qed

text \<open>The bound a caret or tilde range ends at lies strictly after the version it is written with: the
  guards against \<^verbatim>\<open>^uint64(0)\<close> keep every increment from wrapping round.\<close>

lemma range_upper_after:
  assumes "range_upper op required = Inr upper"
  shows "cmp_semver required upper < 0 \<and> sv_pre upper = []"
  using assms
proof (cases rule: range_upper_cases)
  case minor
  then show ?thesis using cmp_semver_less(2) [of required upper] by (simp add: word_less_Suc)
next
  case major
  then show ?thesis using cmp_semver_less(1) [of required upper] by (simp add: word_less_Suc)
next
  case patch
  then show ?thesis using cmp_semver_less(3) [of required upper] by (simp add: word_less_Suc)
qed


text \<open>What \<^verbatim>\<open>^v\<close> accepts for a major version above 0: the versions from \<open>v\<close> on with the same major
  number, and also the pre-releases of the next major version, which precede it.\<close>

lemma caret_accepts:
  assumes "sv_major required > 0" "op_holds OpCaret current required = Inr ok"
  shows "ok \<longleftrightarrow> cmp_semver current required \<ge> 0 \<and>
           (sv_major current = sv_major required \<or>
            sv_major current = sv_major required + 1 \<and> sv_minor current = 0 \<and> sv_patch current = 0 \<and>
            sv_pre current \<noteq> [])"
proof -
  from assms(2) obtain upper where up: "range_upper OpCaret required = Inr upper"
    and ok: "ok \<longleftrightarrow> cmp_semver current required \<ge> 0 \<and> cmp_semver current upper < 0"
    by (auto simp: op_holds_def Let_def split: sum.splits)
  from up assms(1) have fields: "sv_major upper = sv_major required + 1" "sv_minor upper = 0" "sv_patch upper = 0"
    "sv_pre upper = []" and nowrap: "sv_major required \<noteq> - 1"
    by (auto elim!: range_upper_cases)
  have below: "cmp_semver current upper < 0 \<longleftrightarrow>
      sv_major current < sv_major required + 1 \<or>
      sv_major current = sv_major required + 1 \<and> sv_minor current = 0 \<and> sv_patch current = 0 \<and> sv_pre current \<noteq> []"
    by (cases "sv_pre current") (auto simp: cmp_semver_def fields word_gt_0)
  have above: "cmp_semver current required \<ge> 0 \<Longrightarrow> sv_major required \<le> sv_major current"
    by (rule leI, rule notI, drule cmp_semver_less(1)) simp
  have step: "sv_major current < sv_major required + 1 \<longleftrightarrow> sv_major current \<le> sv_major required"
    using nowrap by (rule word_less_plus_1)
  show ?thesis
    unfolding ok below step using above by auto
qed

lemma op_holds_Inl:
  "op_holds op a r = Inl e \<longleftrightarrow> (op = OpCaret \<or> op = OpTilde) \<and> range_upper op r = Inl e"
  by (cases op) (auto simp: op_holds_def Let_def split: sum.splits)

lemma match_token_Inl:
  "match_token a expr tok = Inl e \<longleftrightarrow>
     tok \<noteq> ''*'' \<and>
     (case parse_semver (snd (split_op tok)) of
        Inl d \<Rightarrow> e = BadRangeVersion expr d
      | Inr r \<Rightarrow> (fst (split_op tok) = OpCaret \<or> fst (split_op tok) = OpTilde) \<and>
                range_upper (fst (split_op tok)) r = Inl e)"
  by (auto simp: match_token_def op_holds_Inl split: sum.splits prod.splits)

lemma match_token_Inl_any: "match_token a expr tok = Inl e \<longleftrightarrow> match_token b expr tok = Inl e"
  unfolding match_token_Inl by (rule refl)

lemma ok_of_Inl: "(\<And>e. r = Inl e \<longleftrightarrow> r' = Inl e) \<Longrightarrow> is_ok r \<longleftrightarrow> is_ok r'"
  by (cases r; cases r') auto

lemma match_alternative_Inl: "match_alternative a expr alt = Inl e \<longleftrightarrow> match_alternative b expr alt = Inl e"
proof -
  have "for_each (\<lambda>token ok. case match_token a expr token of Inl e \<Rightarrow> Inl e | Inr pass \<Rightarrow> Inr (ok \<and> pass))
          (str_fields alt) True = Inl e \<longleftrightarrow>
        for_each (\<lambda>token ok. case match_token b expr token of Inl e \<Rightarrow> Inl e | Inr pass \<Rightarrow> Inr (ok \<and> pass))
          (str_fields alt) True = Inl e"
    by (rule for_each_Inl_cong; unfold case_sum_Inl is_ok_case_sum)
      (rule match_token_Inl_any, rule ok_of_Inl, rule match_token_Inl_any)
  then show ?thesis by (simp add: match_alternative_def Let_def)
qed

text \<open>Whether a range is well formed, and the error it is refused with, does not depend on the version it
  is matched with: a range checked once (against the version at publication, or \<^verbatim>\<open>"1.0.0"\<close>) never fails later.\<close>

lemma range_error_independent:
  assumes "parse_semver a = Inr va" "parse_semver b = Inr vb"
  shows "match_range a expr = Inl e \<longleftrightarrow> match_range b expr = Inl e"
proof -
  have "for_each (\<lambda>alt m. case match_alternative va expr alt of Inl e \<Rightarrow> Inl e | Inr ok \<Rightarrow> Inr (m \<or> ok))
          (split_two (CHR ''|'') (CHR ''|'') expr) False = Inl e \<longleftrightarrow>
        for_each (\<lambda>alt m. case match_alternative vb expr alt of Inl e \<Rightarrow> Inl e | Inr ok \<Rightarrow> Inr (m \<or> ok))
          (split_two (CHR ''|'') (CHR ''|'') expr) False = Inl e"
    by (rule for_each_Inl_cong; unfold case_sum_Inl is_ok_case_sum)
      (rule match_alternative_Inl, rule ok_of_Inl, rule match_alternative_Inl)
  then show ?thesis by (simp add: match_range_def assms)
qed

section \<open>A version is in the range it spells\<close>

definition version_byte :: "char \<Rightarrow> bool" where
  "version_byte c \<longleftrightarrow> identifier_byte c \<or> c = CHR ''.'' \<or> c = CHR ''+''"

lemma version_byte_graphic: "version_byte c \<Longrightarrow> graphic c \<and> c \<noteq> CHR ''|''"
proof -
  assume "version_byte c"
  then have n: "(43 :: nat) \<le> of_char c \<and> of_char c \<le> (122 :: nat)"
    by (auto simp: version_byte_def identifier_byte_def is_digit_def is_lower_def is_upper_def byte_in_def
        less_eq_char_def)
  then have "graphic c" by (simp add: graphic_def byte_in_def less_eq_char_def)
  moreover have "c \<noteq> CHR ''|''" using n by auto
  ultimately show ?thesis by simp
qed

lemma semver_identifiers_bytes: "semver_identifiers raw p \<Longrightarrow> c \<in> set raw \<Longrightarrow> version_byte c"
  using set_split_char [of c raw "CHR ''.''"]
  by (auto simp: semver_identifiers_def semver_identifier_def list_all_iff version_byte_def)

lemma core_part_digits: "core_part s part = Inr n \<Longrightarrow> part \<noteq> [] \<and> (\<forall>c \<in> set part. is_digit c)"
  by (auto simp: core_part_def list_ex_iff split: if_splits)

lemma parse_semver_parts:
  assumes "parse_semver s = Inr v"
  obtains core pre build where "s = core @ (case pre of None \<Rightarrow> [] | Some p \<Rightarrow> CHR ''-'' # p) @
        (case build of None \<Rightarrow> [] | Some b \<Rightarrow> CHR ''+'' # b)"
    "\<forall>p. pre = Some p \<longrightarrow> semver_identifiers p True" "\<forall>b. build = Some b \<longrightarrow> semver_identifiers b False"
    "\<forall>w \<in> set (split_char (CHR ''.'') core). w \<noteq> [] \<and> (\<forall>c \<in> set w. is_digit c)" "length s \<le> 128"
proof -
  obtain raw build where raw: "cut_char (CHR ''+'') s = (raw, build)" by (cases "cut_char (CHR ''+'') s")
  obtain core pre where core: "cut_char (CHR ''-'') raw = (core, pre)" by (cases "cut_char (CHR ''-'') raw")
  note r = assms [unfolded parse_semver_def, simplified raw core Let_def prod.case]
  have "\<forall>p. pre = Some p \<longrightarrow> semver_identifiers p True" "\<forall>b. build = Some b \<longrightarrow> semver_identifiers b False"
    and "length s \<le> 128"
    using r by (auto split: if_splits)
  moreover have "\<forall>w \<in> set (split_char (CHR ''.'') core). w \<noteq> [] \<and> (\<forall>c \<in> set w. is_digit c)"
    using r by (auto split: if_splits list.splits sum.splits dest: core_part_digits)
  ultimately show ?thesis
    using that cut_char_recombine [OF raw] cut_char_recombine [OF core] by auto
qed

lemma parse_semver_bytes: "parse_semver s = Inr v \<Longrightarrow> c \<in> set s \<Longrightarrow> version_byte c"
proof (elim parse_semver_parts)
  fix core pre build
  assume s: "s = core @ (case pre of None \<Rightarrow> [] | Some p \<Rightarrow> CHR ''-'' # p) @
        (case build of None \<Rightarrow> [] | Some b \<Rightarrow> CHR ''+'' # b)" and "c \<in> set s"
    and ids: "\<forall>p. pre = Some p \<longrightarrow> semver_identifiers p True" "\<forall>b. build = Some b \<longrightarrow> semver_identifiers b False"
    and core: "\<forall>w \<in> set (split_char (CHR ''.'') core). w \<noteq> [] \<and> (\<forall>c \<in> set w. is_digit c)"
  have "version_byte c" if "c \<in> set core"
    using set_split_char [OF that, of "CHR ''.''"] core by (auto simp: version_byte_def identifier_byte_def)
  moreover have "version_byte (CHR ''-'')" "version_byte (CHR ''+'')"
    by (simp_all add: version_byte_def identifier_byte_def)
  ultimately show "version_byte c" using \<open>c \<in> set s\<close> ids semver_identifiers_bytes
    by (auto simp: s split: option.splits)
qed

lemma parse_semver_head: "parse_semver s = Inr v \<Longrightarrow> s \<noteq> [] \<and> is_digit (hd s)"
proof (elim parse_semver_parts)
  fix core pre build
  assume s: "s = core @ (case pre of None \<Rightarrow> [] | Some p \<Rightarrow> CHR ''-'' # p) @
        (case build of None \<Rightarrow> [] | Some b \<Rightarrow> CHR ''+'' # b)"
    and core: "\<forall>w \<in> set (split_char (CHR ''.'') core). w \<noteq> [] \<and> (\<forall>c \<in> set w. is_digit c)"
  have "core \<noteq> [] \<and> is_digit (hd core)"
    using core by (cases core) (auto split: if_splits list.splits)
  then show "s \<noteq> [] \<and> is_digit (hd s)" by (simp add: s)
qed

lemma digit_not_op:
  "is_digit c \<Longrightarrow> c \<noteq> CHR ''>'' \<and> c \<noteq> CHR ''<'' \<and> c \<noteq> CHR ''='' \<and> c \<noteq> CHR ''^'' \<and> c \<noteq> CHR ''~'' \<and> c \<noteq> CHR ''*''"
  by (auto simp: is_digit_def byte_in_def)

lemma split_op_version:
  assumes "s \<noteq> []" "is_digit (hd s)"
  shows "split_op s = (OpEq, s)" "split_op (''='' @ s) = (OpEq, s)"
    "split_op (''>='' @ s) = (OpGe, s)" "split_op (''<='' @ s) = (OpLe, s)"
  using assms digit_not_op [of "hd s"]
  by (cases s; simp add: split_op_def range_ops_def has_prefix_def trim_prefix_def)+

text \<open>Every version satisfies the range written as that version, alone or after \<^verbatim>\<open>=\<close>, \<^verbatim>\<open>>=\<close> or \<^verbatim>\<open><=\<close>.\<close>

lemma version_in_own_range:
  assumes "parse_semver s = Inr v" "p \<in> {'''', ''='', ''>='', ''<=''}"
  shows "match_range s (p @ s) = Inr True"
proof -
  have s: "s \<noteq> []" "is_digit (hd s)" using parse_semver_head [OF assms(1)] by auto
  have bytes: "\<forall>c \<in> set (p @ s). graphic c \<and> c \<noteq> CHR ''|''"
    using version_byte_graphic parse_semver_bytes [OF assms(1)] assms(2)
    by (auto simp: graphic_def byte_in_def)
  have ne: "p @ s \<noteq> []" "p @ s \<noteq> ''*''"
    using s assms(2) digit_not_op [of "hd s"] by (cases s; auto)+
  have one: "match_token v (p @ s) (p @ s) = Inr True"
    using assms(2) ne(2) split_op_version [OF s] assms(1)
    by (auto simp: match_token_def op_holds_def)
  have "length s \<le> 128" using assms(1) by (rule parse_semver_parts)
  moreover have "length p \<le> 2" using assms(2) by auto
  ultimately have short: "\<not> length (p @ s) > 256" by simp
  have "match_range s q = Inr True" if "q = p @ s" for q
  proof -
    have "\<forall>c \<in> set q. graphic c" "CHR ''|'' \<notin> set q" using bytes that by auto
    then show ?thesis
      using ne [folded that] one [folded that] short [folded that] assms(1)
      by (simp add: match_range_def trim_space_graphic split_two_single match_alternative_def
          str_fields_graphic)
  qed
  then show ?thesis by simp
qed

end
