(* ===== verification/Catalog.thy ===== *)
theory Catalog
  imports GoWire GoText Semver
begin

text \<open>
  The signed component catalog of a release (\<^verbatim>\<open>services/api/internal/model/component_catalog.go\<close>,
  \<^verbatim>\<open>component_resolver.go\<close>, \<^verbatim>\<open>component_conditions.go\<close>, \<^verbatim>\<open>component_actions.go\<close>): its data, the five
  digests (each schema version binds more fields) and the constructors.  SHA-256 with its hexadecimal text
  is the parameter \<open>sha\<close>.  A Go map that is iterated (\<^verbatim>\<open>Metadata\<close>) is an association list in the order of
  one iteration; \<^verbatim>\<open>nil\<close> and empty slices are both the empty list.
\<close>

section \<open>Data\<close>

type_synonym u32 = "32 word"

record requirement =
  rq_id :: string
  rq_range :: string

record conditions =
  cd_schema :: string
  cd_os :: "string list"
  cd_arch :: "string list"
  cd_java_min :: u32
  cd_java_max :: u32
  cd_minecraft :: "string list"
  cd_minecraft_range :: string
  cd_loaders :: "string list"
  cd_loader_range :: string
  cd_permissions :: "string list"

record component_action =
  ac_type :: string
  ac_path :: string
  ac_args :: "string list"

record component =
  cp_id :: string
  cp_name :: string
  cp_files :: "string list"
  cp_version :: string
  cp_dependencies :: "requirement list"
  cp_conflicts :: "requirement list"
  cp_exclusive :: string
  cp_conditions :: "conditions option"
  cp_actions :: "component_action list"
  cp_description :: string
  cp_category :: string
  cp_group :: string
  cp_required :: bool
  cp_default :: bool
  cp_visible :: "bool option"
  cp_limited :: bool
  cp_metadata :: "(string \<times> string) list"

record category =
  ct_id :: string
  ct_name :: string
  ct_description :: string
  ct_parent :: string

record cat_group =
  gr_id :: string
  gr_name :: string
  gr_description :: string
  gr_parent :: string
  gr_category :: string

record preset =
  ps_id :: string
  ps_name :: string
  ps_description :: string
  ps_components :: "string list"

record catalog =
  cat_schema :: string
  cat_revision :: u64
  cat_digest :: string
  cat_components :: "component list"
  cat_categories :: "category list"
  cat_groups :: "cat_group list"
  cat_presets :: "preset list"
  cat_default_preset :: string

definition schema1 :: string where "schema1 = ''1.0''"
definition schema2 :: string where "schema2 = ''2.0''"
definition schema3 :: string where "schema3 = ''3.0''"
definition schema4 :: string where "schema4 = ''4.0''"
definition schema5 :: string where "schema5 = ''5.0''"

lemmas schema_defs = schema1_def schema2_def schema3_def schema4_def schema5_def

section \<open>Encodings\<close>

definition digest_tag :: "string \<Rightarrow> string" where
  "digest_tag v = ''launcher.component-catalog.'' @ v @ [CHR 0x00]"

definition put_component1 :: "component \<Rightarrow> string" where
  "put_component1 c = put_str (cp_id c) @ put_str (cp_name c) @ put_list put_str (cp_files c)"

definition put_metadata :: "(string \<times> string) list \<Rightarrow> string" where
  "put_metadata md =
     put_list (\<lambda>k. put_str k @ put_str (case map_of md k of Some v \<Rightarrow> v | None \<Rightarrow> []))
       (sort (map fst md))"

definition put_component2 :: "component \<Rightarrow> string" where
  "put_component2 c =
     put_component1 c @ put_str (cp_description c) @ put_str (cp_category c) @ put_str (cp_group c) @
     put_bit (cp_required c) @ put_bit (cp_default c) @ put_bit (cp_visible c = Some True) @
     put_bit (cp_limited c) @ put_metadata (cp_metadata c)"

definition put_category :: "category \<Rightarrow> string" where
  "put_category c =
     put_str (ct_id c) @ put_str (ct_name c) @ put_str (ct_description c) @ put_str (ct_parent c)"

definition put_group :: "cat_group \<Rightarrow> string" where
  "put_group g =
     put_str (gr_id g) @ put_str (gr_name g) @ put_str (gr_description g) @ put_str (gr_parent g) @
     put_str (gr_category g)"

definition put_preset :: "preset \<Rightarrow> string" where
  "put_preset p =
     put_str (ps_id p) @ put_str (ps_name p) @ put_str (ps_description p) @
     put_list put_str (ps_components p)"

definition put_requirement :: "requirement \<Rightarrow> string" where
  "put_requirement r = put_str (rq_id r) @ put_str (rq_range r)"

definition put_rules :: "component \<Rightarrow> string" where
  "put_rules c =
     put_str (cp_version c) @ put_str (cp_exclusive c) @
     put_list put_requirement (cp_dependencies c) @ put_list put_requirement (cp_conflicts c)"

definition put_conditions :: "conditions option \<Rightarrow> string" where
  "put_conditions cd =
     (case cd of
        None \<Rightarrow> [CHR 0x00]
      | Some v \<Rightarrow>
          [CHR 0x01] @ put_str (cd_schema v) @
          concat (map (put_list put_str)
            [cd_os v, cd_arch v, cd_minecraft v, cd_loaders v, cd_permissions v]) @
          u32be (unat (cd_java_min v)) @ u32be (unat (cd_java_max v)) @
          put_str (cd_minecraft_range v) @ put_str (cd_loader_range v))"

definition put_action :: "component_action \<Rightarrow> string" where
  "put_action a = put_str (ac_type a) @ put_str (ac_path a) @ put_list put_str (ac_args a)"

section \<open>Digests\<close>

definition catalog_bytes1 :: "component list \<Rightarrow> string" where
  "catalog_bytes1 cs = digest_tag ''v1'' @ put_list put_component1 cs"

definition catalog_digest1 :: "(string \<Rightarrow> string) \<Rightarrow> component list \<Rightarrow> string" where
  "catalog_digest1 sha cs = sha (catalog_bytes1 cs)"

definition catalog_bytes2 :: "catalog \<Rightarrow> string" where
  "catalog_bytes2 cat =
     digest_tag ''v2'' @ put_list put_component2 (cat_components cat) @
     put_list put_category (cat_categories cat) @ put_list put_group (cat_groups cat) @
     put_list put_preset (cat_presets cat) @ put_str (cat_default_preset cat)"

definition catalog_digest2 :: "(string \<Rightarrow> string) \<Rightarrow> catalog \<Rightarrow> string" where
  "catalog_digest2 sha cat =
     (if cat_schema cat = schema1 then catalog_digest1 sha (cat_components cat)
      else sha (catalog_bytes2 cat))"

definition catalog_bytes3 :: "(string \<Rightarrow> string) \<Rightarrow> catalog \<Rightarrow> string" where
  "catalog_bytes3 sha cat =
     digest_tag ''v3'' @ put_str (catalog_digest2 sha cat) @ put_list put_rules (cat_components cat)"

definition catalog_digest3 :: "(string \<Rightarrow> string) \<Rightarrow> catalog \<Rightarrow> string" where
  "catalog_digest3 sha cat =
     (if cat_schema cat \<noteq> schema3 \<and> cat_schema cat \<noteq> schema4 \<and> cat_schema cat \<noteq> schema5
      then catalog_digest2 sha cat
      else sha (catalog_bytes3 sha cat))"

definition catalog_bytes4 :: "(string \<Rightarrow> string) \<Rightarrow> catalog \<Rightarrow> string" where
  "catalog_bytes4 sha cat =
     digest_tag ''v4'' @ put_str (catalog_digest3 sha cat) @
     put_list (\<lambda>c. put_conditions (cp_conditions c)) (cat_components cat)"

definition catalog_digest4 :: "(string \<Rightarrow> string) \<Rightarrow> catalog \<Rightarrow> string" where
  "catalog_digest4 sha cat =
     (if cat_schema cat \<noteq> schema4 \<and> cat_schema cat \<noteq> schema5 then catalog_digest3 sha cat
      else sha (catalog_bytes4 sha cat))"

definition catalog_bytes5 :: "(string \<Rightarrow> string) \<Rightarrow> catalog \<Rightarrow> string" where
  "catalog_bytes5 sha cat =
     digest_tag ''v5'' @ put_str (catalog_digest4 sha cat) @
     put_list (\<lambda>c. put_list put_action (cp_actions c)) (cat_components cat)"

definition catalog_digest5 :: "(string \<Rightarrow> string) \<Rightarrow> catalog \<Rightarrow> string" where
  "catalog_digest5 sha cat =
     (if cat_schema cat \<noteq> schema5 then catalog_digest4 sha cat else sha (catalog_bytes5 sha cat))"

section \<open>Constructors\<close>

definition new_catalog1 :: "(string \<Rightarrow> string) \<Rightarrow> component list \<Rightarrow> u64 \<Rightarrow> catalog" where
  "new_catalog1 sha cs revision =
     \<lparr>cat_schema = schema1, cat_revision = revision, cat_digest = catalog_digest1 sha cs,
      cat_components = cs, cat_categories = [], cat_groups = [], cat_presets = [],
      cat_default_preset = []\<rparr>"

definition new_catalog2 :: "(string \<Rightarrow> string) \<Rightarrow> catalog \<Rightarrow> u64 \<Rightarrow> catalog" where
  "new_catalog2 sha c revision =
     (let d = c\<lparr>cat_schema := schema2, cat_revision := revision\<rparr>
      in d\<lparr>cat_digest := catalog_digest2 sha d\<rparr>)"

definition new_catalog3 :: "(string \<Rightarrow> string) \<Rightarrow> catalog \<Rightarrow> u64 \<Rightarrow> catalog" where
  "new_catalog3 sha c revision =
     (let d = c\<lparr>cat_schema := schema3, cat_revision := revision\<rparr>
      in d\<lparr>cat_digest := catalog_digest3 sha d\<rparr>)"

definition new_catalog4 :: "(string \<Rightarrow> string) \<Rightarrow> catalog \<Rightarrow> u64 \<Rightarrow> catalog" where
  "new_catalog4 sha c revision =
     (let d = c\<lparr>cat_schema := schema4, cat_revision := revision\<rparr>
      in d\<lparr>cat_digest := catalog_digest4 sha d\<rparr>)"

definition new_catalog5 :: "(string \<Rightarrow> string) \<Rightarrow> catalog \<Rightarrow> u64 \<Rightarrow> catalog" where
  "new_catalog5 sha c revision =
     (let d = c\<lparr>cat_schema := schema5, cat_revision := revision\<rparr>
      in d\<lparr>cat_digest := catalog_digest5 sha d\<rparr>)"

section \<open>What the encodings determine\<close>

text \<open>The metadata in the order of its keys, which is what is encoded: the order of iteration does not matter.\<close>

definition metadata_pairs :: "(string \<times> string) list \<Rightarrow> (string \<times> string) list" where
  "metadata_pairs md = map (\<lambda>k. (k, case map_of md k of Some v \<Rightarrow> v | None \<Rightarrow> [])) (sort (map fst md))"

definition put_pair :: "string \<times> string \<Rightarrow> string" where
  "put_pair p = put_str (fst p) @ put_str (snd p)"

lemma put_list_map: "put_list f (map g xs) = put_list (\<lambda>x. f (g x)) xs"
  by (simp add: put_list_def comp_def)

lemma put_metadata_pairs: "put_metadata md = put_list put_pair (metadata_pairs md)"
  by (simp add: put_metadata_def metadata_pairs_def put_list_map put_pair_def)

lemma metadata_pairs_perm:
  assumes "mset md = mset md'" "distinct (map fst md)"
  shows "metadata_pairs md = metadata_pairs md'"
proof -
  have d: "distinct (map fst md')"
    using assms by (metis mset_eq_imp_distinct_iff mset_map)
  have "map_of md = map_of md'"
    using assms(1) map_of_eqI [of md md'] assms(2) d
    by (metis map_of_eq_Some_iff option.exhaust set_mset_mset ext)
  moreover have "sort (map fst md) = sort (map fst md')"
    by (rule properties_for_sort) (simp_all add: assms(1))
  ultimately show ?thesis by (simp add: metadata_pairs_def)
qed

type_synonym component2_data =
  "string \<times> string \<times> string list \<times> string \<times> string \<times> string \<times> bool \<times> bool \<times> bool \<times> bool \<times> (string \<times> string) list"

definition component2_data :: "component \<Rightarrow> component2_data" where
  "component2_data c =
     (cp_id c, cp_name c, cp_files c, cp_description c, cp_category c, cp_group c, cp_required c,
      cp_default c, cp_visible c = Some True, cp_limited c, metadata_pairs (cp_metadata c))"

fun put_component2_data :: "component2_data \<Rightarrow> string" where
  "put_component2_data (i, n, fs, d, c, g, r, df, vi, li, md) =
     put_str i @ put_str n @ put_list put_str fs @ put_str d @ put_str c @ put_str g @
     put_bit r @ put_bit df @ put_bit vi @ put_bit li @ put_list put_pair md"

lemma put_component2_as_data: "put_component2 c = put_component2_data (component2_data c)"
  by (simp add: put_component2_def component2_data_def put_component1_def put_metadata_pairs)

abbreviation list_ok :: "('a \<Rightarrow> bool) \<Rightarrow> 'a list \<Rightarrow> bool" where
  "list_ok P xs \<equiv> length xs < 4294967296 \<and> (\<forall>x \<in> set xs. P x)"

definition pair_ok :: "string \<times> string \<Rightarrow> bool" where
  "pair_ok p \<longleftrightarrow> str_ok (fst p) \<and> str_ok (snd p)"

interpretation pair_field: field_code put_pair pair_ok
  by unfold_locales (auto simp: put_pair_def pair_ok_def prod_eq_iff)

interpretation pairs_field: field_code "put_list put_pair" "list_ok pair_ok"
  by (rule pair_field.list_code)

fun component2_ok :: "component2_data \<Rightarrow> bool" where
  "component2_ok (i, n, fs, d, c, g, r, df, vi, li, md) \<longleftrightarrow>
     str_ok i \<and> str_ok n \<and> list_ok str_ok fs \<and> str_ok d \<and> str_ok c \<and> str_ok g \<and> list_ok pair_ok md"

interpretation component2_field: field_code put_component2_data component2_ok
proof
  fix x y :: component2_data and u v
  assume "component2_ok x" "component2_ok y" "put_component2_data x @ u = put_component2_data y @ v"
  then show "x = y \<and> u = v"
    by (cases x rule: component2_ok.cases; cases y rule: component2_ok.cases)
      (simp add: pairs_field.code_eq_iff)
qed

interpretation components2_field: field_code "put_list put_component2_data" "list_ok component2_ok"
  by (rule component2_field.list_code)

definition category_ok :: "category \<Rightarrow> bool" where
  "category_ok c \<longleftrightarrow> str_ok (ct_id c) \<and> str_ok (ct_name c) \<and> str_ok (ct_description c) \<and> str_ok (ct_parent c)"

interpretation category_field: field_code put_category category_ok
  by unfold_locales (auto simp: put_category_def category_ok_def)

interpretation categories_field: field_code "put_list put_category" "list_ok category_ok"
  by (rule category_field.list_code)

definition group_ok :: "cat_group \<Rightarrow> bool" where
  "group_ok g \<longleftrightarrow> str_ok (gr_id g) \<and> str_ok (gr_name g) \<and> str_ok (gr_description g) \<and>
     str_ok (gr_parent g) \<and> str_ok (gr_category g)"

interpretation group_field: field_code put_group group_ok
  by unfold_locales (auto simp: put_group_def group_ok_def)

interpretation groups_field: field_code "put_list put_group" "list_ok group_ok"
  by (rule group_field.list_code)

definition preset_ok :: "preset \<Rightarrow> bool" where
  "preset_ok p \<longleftrightarrow> str_ok (ps_id p) \<and> str_ok (ps_name p) \<and> str_ok (ps_description p) \<and>
     list_ok str_ok (ps_components p)"

interpretation preset_field: field_code put_preset preset_ok
  by unfold_locales (auto simp: put_preset_def preset_ok_def)

interpretation presets_field: field_code "put_list put_preset" "list_ok preset_ok"
  by (rule preset_field.list_code)

definition requirement_ok :: "requirement \<Rightarrow> bool" where
  "requirement_ok r \<longleftrightarrow> str_ok (rq_id r) \<and> str_ok (rq_range r)"

interpretation requirement_field: field_code put_requirement requirement_ok
  by unfold_locales (auto simp: put_requirement_def requirement_ok_def)

interpretation requirements_field: field_code "put_list put_requirement" "list_ok requirement_ok"
  by (rule requirement_field.list_code)

definition rules_data :: "component \<Rightarrow> string \<times> string \<times> requirement list \<times> requirement list" where
  "rules_data c = (cp_version c, cp_exclusive c, cp_dependencies c, cp_conflicts c)"

fun put_rules_data :: "string \<times> string \<times> requirement list \<times> requirement list \<Rightarrow> string" where
  "put_rules_data (v, e, ds, cs) =
     put_str v @ put_str e @ put_list put_requirement ds @ put_list put_requirement cs"

fun rules_ok :: "string \<times> string \<times> requirement list \<times> requirement list \<Rightarrow> bool" where
  "rules_ok (v, e, ds, cs) \<longleftrightarrow>
     str_ok v \<and> str_ok e \<and> list_ok requirement_ok ds \<and> list_ok requirement_ok cs"

lemma put_rules_as_data: "put_rules c = put_rules_data (rules_data c)"
  by (simp add: put_rules_def rules_data_def)

interpretation rules_field: field_code put_rules_data rules_ok
proof
  fix x y :: "string \<times> string \<times> requirement list \<times> requirement list" and u v
  assume "rules_ok x" "rules_ok y" "put_rules_data x @ u = put_rules_data y @ v"
  then show "x = y \<and> u = v"
    by (cases x rule: rules_ok.cases; cases y rule: rules_ok.cases)
      (simp add: requirements_field.code_eq_iff)
qed

interpretation rules_list_field: field_code "put_list put_rules_data" "list_ok rules_ok"
  by (rule rules_field.list_code)

definition conditions_ok :: "conditions option \<Rightarrow> bool" where
  "conditions_ok cd \<longleftrightarrow>
     (case cd of None \<Rightarrow> True
      | Some v \<Rightarrow> str_ok (cd_schema v) \<and> list_ok str_ok (cd_os v) \<and> list_ok str_ok (cd_arch v) \<and>
          list_ok str_ok (cd_minecraft v) \<and> list_ok str_ok (cd_loaders v) \<and> list_ok str_ok (cd_permissions v) \<and>
          str_ok (cd_minecraft_range v) \<and> str_ok (cd_loader_range v))"

lemma u32be_word: "u32be (unat (a :: u32)) @ u = u32be (unat b) @ v \<longleftrightarrow> a = b \<and> u = v"
proof -
  have "unat x < 4294967296" for x :: u32 using unsigned_less [of x] by simp
  then show ?thesis using u32be_inject [of "unat a" "unat b"] by (auto simp: word_unat_eq_iff)
qed

interpretation conditions_field: field_code put_conditions conditions_ok
  by unfold_locales (auto simp: put_conditions_def conditions_ok_def u32be_word split: option.splits)

interpretation conditions_list_field: field_code "put_list put_conditions" "list_ok conditions_ok"
  by (rule conditions_field.list_code)

definition action_ok :: "component_action \<Rightarrow> bool" where
  "action_ok a \<longleftrightarrow> str_ok (ac_type a) \<and> str_ok (ac_path a) \<and> list_ok str_ok (ac_args a)"

interpretation action_field: field_code put_action action_ok
  by unfold_locales (auto simp: put_action_def action_ok_def)

interpretation actions_field: field_code "put_list put_action" "list_ok action_ok"
  by (rule action_field.list_code)

interpretation action_lists_field: field_code "put_list (put_list put_action)" "list_ok (list_ok action_ok)"
  by (rule actions_field.list_code)

section \<open>What a signed catalog binds\<close>

definition wire_ok :: "catalog \<Rightarrow> bool" where
  "wire_ok cat \<longleftrightarrow>
     list_ok component2_ok (map component2_data (cat_components cat)) \<and>
     list_ok category_ok (cat_categories cat) \<and> list_ok group_ok (cat_groups cat) \<and>
     list_ok preset_ok (cat_presets cat) \<and> str_ok (cat_default_preset cat) \<and>
     list_ok rules_ok (map rules_data (cat_components cat)) \<and>
     list_ok conditions_ok (map cp_conditions (cat_components cat)) \<and>
     list_ok (list_ok action_ok) (map cp_actions (cat_components cat))"

definition hashed_texts :: "(string \<Rightarrow> string) \<Rightarrow> catalog \<Rightarrow> string list" where
  "hashed_texts sha cat =
     [catalog_bytes2 cat, catalog_bytes3 sha cat, catalog_bytes4 sha cat, catalog_bytes5 sha cat]"

text \<open>
  The content the digest of schema 5 binds: everything but the revision and the digest itself, with the
  metadata read as a map and a missing \<^verbatim>\<open>visible\<close> read as \<^verbatim>\<open>false\<close>.
\<close>

definition signed_component :: "component \<Rightarrow> component" where
  "signed_component c =
     c\<lparr>cp_visible := Some (cp_visible c = Some True), cp_metadata := metadata_pairs (cp_metadata c)\<rparr>"

definition signed_content :: "catalog \<Rightarrow> catalog" where
  "signed_content cat =
     cat\<lparr>cat_revision := 0, cat_digest := [], cat_components := map signed_component (cat_components cat)\<rparr>"

lemma signed_component_eq:
  assumes "component2_data c = component2_data d" "rules_data c = rules_data d"
    "cp_conditions c = cp_conditions d" "cp_actions c = cp_actions d"
  shows "signed_component c = signed_component d"
  using assms by (cases c; cases d) (simp add: signed_component_def component2_data_def rules_data_def)

lemma map_signed_component_eq:
  assumes "map component2_data cs = map component2_data ds" "map rules_data cs = map rules_data ds"
    "map cp_conditions cs = map cp_conditions ds" "map cp_actions cs = map cp_actions ds"
  shows "map signed_component cs = map signed_component ds"
proof -
  have "length cs = length ds" using assms(1) by (metis length_map)
  then show ?thesis using assms
    by (induction cs ds rule: list_induct2) (auto intro: signed_component_eq)
qed

lemma wire_okD:
  assumes "wire_ok cat"
  shows "list_ok component2_ok (map component2_data (cat_components cat))"
    "list_ok category_ok (cat_categories cat)" "list_ok group_ok (cat_groups cat)"
    "list_ok preset_ok (cat_presets cat)" "str_ok (cat_default_preset cat)"
    "list_ok rules_ok (map rules_data (cat_components cat))"
    "list_ok conditions_ok (map cp_conditions (cat_components cat))"
    "list_ok (list_ok action_ok) (map cp_actions (cat_components cat))"
  using assms unfolding wire_ok_def by blast+

lemma catalog_bytes2_inject:
  assumes "wire_ok a" "wire_ok b" "catalog_bytes2 a = catalog_bytes2 b"
  shows "map component2_data (cat_components a) = map component2_data (cat_components b) \<and>
    cat_categories a = cat_categories b \<and> cat_groups a = cat_groups b \<and> cat_presets a = cat_presets b \<and>
    cat_default_preset a = cat_default_preset b"
proof -
  have enc: "put_list put_component2 cs = put_list put_component2_data (map component2_data cs)" for cs
    by (simp only: put_list_map put_component2_as_data [symmetric])
  note a = wire_okD [OF assms(1)] and b = wire_okD [OF assms(2)]
  have "put_list put_component2_data (map component2_data (cat_components a)) @
      put_list put_category (cat_categories a) @ put_list put_group (cat_groups a) @
      put_list put_preset (cat_presets a) @ put_str (cat_default_preset a) =
    put_list put_component2_data (map component2_data (cat_components b)) @
      put_list put_category (cat_categories b) @ put_list put_group (cat_groups b) @
      put_list put_preset (cat_presets b) @ put_str (cat_default_preset b)"
    using assms(3) by (simp only: catalog_bytes2_def enc same_append_eq)
  note 1 = components2_field.unambiguous [OF a(1) b(1) this]
  note 2 = categories_field.unambiguous [OF a(2) b(2) conjunct2 [OF 1]]
  note 3 = groups_field.unambiguous [OF a(3) b(3) conjunct2 [OF 2]]
  note 4 = presets_field.unambiguous [OF a(4) b(4) conjunct2 [OF 3]]
  note 5 = text_field.enc_inject [OF a(5) b(5) conjunct2 [OF 4]]
  from 1 2 3 4 5 show ?thesis by blast
qed

lemma catalog_bytes3_inject:
  assumes "wire_ok a" "wire_ok b" "catalog_bytes3 sha a = catalog_bytes3 sha b"
    "str_ok (catalog_digest2 sha a)" "str_ok (catalog_digest2 sha b)"
  shows "catalog_digest2 sha a = catalog_digest2 sha b \<and>
    map rules_data (cat_components a) = map rules_data (cat_components b)"
proof -
  have enc: "put_list put_rules cs = put_list put_rules_data (map rules_data cs)" for cs
    by (simp only: put_list_map put_rules_as_data [symmetric])
  have "put_str (catalog_digest2 sha a) @ put_list put_rules_data (map rules_data (cat_components a)) =
    put_str (catalog_digest2 sha b) @ put_list put_rules_data (map rules_data (cat_components b))"
    using assms(3) by (simp only: catalog_bytes3_def enc same_append_eq)
  note 1 = text_field.unambiguous [OF assms(4,5) this]
  from 1 rules_list_field.enc_inject [OF wire_okD(6) [OF assms(1)] wire_okD(6) [OF assms(2)] conjunct2 [OF 1]]
  show ?thesis by blast
qed

lemma catalog_bytes4_inject:
  assumes "wire_ok a" "wire_ok b" "catalog_bytes4 sha a = catalog_bytes4 sha b"
    "str_ok (catalog_digest3 sha a)" "str_ok (catalog_digest3 sha b)"
  shows "catalog_digest3 sha a = catalog_digest3 sha b \<and>
    map cp_conditions (cat_components a) = map cp_conditions (cat_components b)"
proof -
  have "put_str (catalog_digest3 sha a) @ put_list put_conditions (map cp_conditions (cat_components a)) =
    put_str (catalog_digest3 sha b) @ put_list put_conditions (map cp_conditions (cat_components b))"
    using assms(3) by (simp only: catalog_bytes4_def put_list_map same_append_eq)
  note 1 = text_field.unambiguous [OF assms(4,5) this]
  from 1 conditions_list_field.enc_inject
    [OF wire_okD(7) [OF assms(1)] wire_okD(7) [OF assms(2)] conjunct2 [OF 1]]
  show ?thesis by blast
qed

lemma catalog_bytes5_inject:
  assumes "wire_ok a" "wire_ok b" "catalog_bytes5 sha a = catalog_bytes5 sha b"
    "str_ok (catalog_digest4 sha a)" "str_ok (catalog_digest4 sha b)"
  shows "catalog_digest4 sha a = catalog_digest4 sha b \<and>
    map cp_actions (cat_components a) = map cp_actions (cat_components b)"
proof -
  have "put_str (catalog_digest4 sha a) @ put_list (put_list put_action) (map cp_actions (cat_components a)) =
    put_str (catalog_digest4 sha b) @ put_list (put_list put_action) (map cp_actions (cat_components b))"
    using assms(3) by (simp only: catalog_bytes5_def put_list_map same_append_eq)
  note 1 = text_field.unambiguous [OF assms(4,5) this]
  from 1 action_lists_field.enc_inject
    [OF wire_okD(8) [OF assms(1)] wire_okD(8) [OF assms(2)] conjunct2 [OF 1]]
  show ?thesis by blast
qed

lemma schema5_digests:
  assumes "cat_schema cat = schema5"
  shows "catalog_digest5 sha cat = sha (catalog_bytes5 sha cat)"
    "catalog_digest4 sha cat = sha (catalog_bytes4 sha cat)"
    "catalog_digest3 sha cat = sha (catalog_bytes3 sha cat)"
    "catalog_digest2 sha cat = sha (catalog_bytes2 cat)"
  using assms
  by (simp_all add: catalog_digest5_def catalog_digest4_def catalog_digest3_def catalog_digest2_def schema_defs)

text \<open>C37: The digest of a catalog of schema 5.0 whose texts and lists are shorter than \<open>2^32\<close>, as their length prefixes
  need (\<open>wire_ok\<close>), binds its whole content: when no two of the texts hashed for them collide, two such catalogs
  with the same digest have the same components (files, rules, conditions and actions included), categories, groups,
  presets and default preset.\<close>

theorem catalog_digest_binds:
  assumes "cat_schema a = schema5" "cat_schema b = schema5" "wire_ok a" "wire_ok b"
    and "inj_on sha (set (hashed_texts sha a) \<union> set (hashed_texts sha b))" "\<forall>x. length (sha x) = 64"
    and "catalog_digest5 sha a = catalog_digest5 sha b"
  shows "signed_content a = signed_content b"
proof -
  note da = schema5_digests [OF assms(1), of sha] and db = schema5_digests [OF assms(2), of sha]
  have short: "str_ok (sha x)" for x using assms(6) by simp
  have inj: "x = y" if "sha x = sha y" "x \<in> set (hashed_texts sha a)" "y \<in> set (hashed_texts sha b)" for x y
    using assms(5) that by (auto dest: inj_onD)
  have "catalog_bytes5 sha a = catalog_bytes5 sha b"
    by (rule inj) (use assms(7) da db in \<open>simp_all add: hashed_texts_def\<close>)
  from catalog_bytes5_inject [OF assms(3,4) this] da db short
  have d4: "catalog_digest4 sha a = catalog_digest4 sha b"
    and actions: "map cp_actions (cat_components a) = map cp_actions (cat_components b)" by simp_all
  have "catalog_bytes4 sha a = catalog_bytes4 sha b"
    by (rule inj) (use d4 da db in \<open>simp_all add: hashed_texts_def\<close>)
  from catalog_bytes4_inject [OF assms(3,4) this] da db short
  have d3: "catalog_digest3 sha a = catalog_digest3 sha b"
    and conds: "map cp_conditions (cat_components a) = map cp_conditions (cat_components b)" by simp_all
  have "catalog_bytes3 sha a = catalog_bytes3 sha b"
    by (rule inj) (use d3 da db in \<open>simp_all add: hashed_texts_def\<close>)
  from catalog_bytes3_inject [OF assms(3,4) this] da db short
  have d2: "catalog_digest2 sha a = catalog_digest2 sha b"
    and rules: "map rules_data (cat_components a) = map rules_data (cat_components b)" by simp_all
  have "catalog_bytes2 a = catalog_bytes2 b"
    by (rule inj) (use d2 da db in \<open>simp_all add: hashed_texts_def\<close>)
  from catalog_bytes2_inject [OF assms(3,4) this] map_signed_component_eq [OF _ rules conds actions]
  show ?thesis using assms(1,2) by (simp add: signed_content_def)
qed

definition sample_component :: "(string \<times> string) list \<Rightarrow> component" where
  "sample_component md =
     \<lparr>cp_id = ''map'', cp_name = ''Map'', cp_files = [''mods/map.jar''], cp_version = ''1.2.0'',
      cp_dependencies = [\<lparr>rq_id = ''core'', rq_range = ''^1.0.0''\<rparr>], cp_conflicts = [], cp_exclusive = [],
      cp_conditions = Some \<lparr>cd_schema = ''1.0'', cd_os = [''linux''], cd_arch = [], cd_java_min = 17,
        cd_java_max = 0, cd_minecraft = [], cd_minecraft_range = [], cd_loaders = [], cd_loader_range = [],
        cd_permissions = []\<rparr>,
      cp_actions = [\<lparr>ac_type = ''File'', ac_path = ''mods/map.jar'', ac_args = []\<rparr>],
      cp_description = [], cp_category = [], cp_group = [], cp_required = False, cp_default = True,
      cp_visible = Some True, cp_limited = False, cp_metadata = md\<rparr>"

definition sample_catalog :: "(string \<times> string) list \<Rightarrow> u64 \<Rightarrow> catalog" where
  "sample_catalog md revision =
     \<lparr>cat_schema = schema5, cat_revision = revision, cat_digest = [], cat_components = [sample_component md],
      cat_categories = [], cat_groups = [], cat_presets = [], cat_default_preset = []\<rparr>"

definition length_hash :: "string \<Rightarrow> string" where
  "length_hash x = replicate 64 (char_of (int (length x)))"

lemma sample_wire_ok: "wire_ok (sample_catalog [(''a'', ''1''), (''b'', ''2'')] r)"
  "wire_ok (sample_catalog [(''b'', ''2''), (''a'', ''1'')] r)"
  by (simp_all add: wire_ok_def sample_catalog_def sample_component_def component2_data_def rules_data_def
      pair_ok_def metadata_pairs_def conditions_ok_def action_ok_def requirement_ok_def)

theorem catalog_digest_binds_witness:
  "signed_content (sample_catalog [(''a'', ''1''), (''b'', ''2'')] 1) =
   signed_content (sample_catalog [(''b'', ''2''), (''a'', ''1'')] 2)"
proof -
  let ?a = "sample_catalog [(''a'', ''1''), (''b'', ''2'')] 1"
  let ?b = "sample_catalog [(''b'', ''2''), (''a'', ''1'')] 2"
  have same: "hashed_texts length_hash ?a = hashed_texts length_hash ?b" by code_simp
  have "distinct (map length_hash (hashed_texts length_hash ?a))" by code_simp
  then have "inj_on length_hash (set (hashed_texts length_hash ?a) \<union> set (hashed_texts length_hash ?b))"
    unfolding same by (simp add: distinct_map)
  moreover have "catalog_digest5 length_hash ?a = catalog_digest5 length_hash ?b"
    using same by (simp add: schema5_digests sample_catalog_def hashed_texts_def)
  ultimately show ?thesis
    by (intro catalog_digest_binds [where sha = length_hash] sample_wire_ok)
      (simp_all add: sample_catalog_def length_hash_def)
qed

text \<open>The digest does not depend on the order in which the metadata map of a component is iterated.\<close>

lemma digest_metadata_order:
  assumes "mset md = mset md'" "distinct (map fst md)"
  shows "catalog_digest5 sha (cat\<lparr>cat_components := cs @ c\<lparr>cp_metadata := md\<rparr> # ds\<rparr>) =
    catalog_digest5 sha (cat\<lparr>cat_components := cs @ c\<lparr>cp_metadata := md'\<rparr> # ds\<rparr>)"
  using metadata_pairs_perm [OF assms]
  by (simp add: catalog_digest5_def catalog_digest4_def catalog_digest3_def catalog_digest2_def
      catalog_digest1_def catalog_bytes1_def catalog_bytes2_def catalog_bytes3_def catalog_bytes4_def
      catalog_bytes5_def put_list_def put_component1_def put_component2_def put_metadata_pairs put_rules_def)

end
