(* ===== verification/CatConditions.thy ===== *)
theory CatConditions
  imports Catalog
begin

text \<open>
  The conditions of catalog components (\<^verbatim>\<open>model/component_conditions.go\<close>): on which host a component may be
  installed, and the validation of the conditions of a catalog.  The map \<^verbatim>\<open>VerifiedPermissions\<close> is the set of
  the permissions it maps to true.
\<close>

section \<open>The host\<close>

record environment =
  en_os :: string
  en_arch :: string
  en_java :: u32
  en_minecraft :: string
  en_loader :: string
  en_loader_version :: string
  en_permissions :: "string set"

definition no_environment :: environment where
  "no_environment = \<lparr>en_os = [], en_arch = [], en_java = 0, en_minecraft = [], en_loader = [],
     en_loader_version = [], en_permissions = {}\<rparr>"

section \<open>Validation\<close>

datatype condition_error =
    UnsignedConditions string
  | BadConditionSchema string string
  | TooManyValues string string
  | BadConditionValue string string string
  | ReversedJava string
  | BadJava string
  | BadMinecraftRange string range_error
  | BadLoaderRange string range_error

definition valid_permission_name :: "string \<Rightarrow> bool" where
  "valid_permission_name s =
     (if length s = 0 \<or> length s > 128 \<or> \<not> is_lower (hd s) then False
      else if \<not> list_all (\<lambda>ch. is_lower ch \<or> is_digit ch \<or> ch = CHR ''_'' \<or> ch = CHR ''-'' \<or>
                             ch = CHR ''.'' \<or> ch = CHR '':'') s then False
      else \<not> contains_str s ''..'' \<and> \<not> contains_str s ''::'')"

definition distinct_step ::
    "string \<Rightarrow> string \<Rightarrow> (string \<Rightarrow> bool) \<Rightarrow> string \<Rightarrow> string set \<Rightarrow> condition_error + string set" where
  "distinct_step cid what valid v seen =
     (if \<not> valid v \<or> v \<in> seen then Inl (BadConditionValue cid what v) else Inr (str_set_add seen v))"

definition valid_distinct ::
    "string \<Rightarrow> string \<Rightarrow> string list \<Rightarrow> nat \<Rightarrow> (string \<Rightarrow> bool) \<Rightarrow> condition_error + unit" where
  "valid_distinct cid what vs limit valid =
     (if length vs > limit then Inl (TooManyValues cid what)
      else
        (case for_each (distinct_step cid what valid) vs {} of
           Inl e \<Rightarrow> Inl e | Inr _ \<Rightarrow> Inr ()))"

definition valid_os :: "string \<Rightarrow> bool" where
  "valid_os s \<longleftrightarrow> s = ''windows'' \<or> s = ''linux'' \<or> s = ''macos''"

definition valid_arch :: "string \<Rightarrow> bool" where
  "valid_arch s \<longleftrightarrow> s = ''x86_64'' \<or> s = ''aarch64''"

definition valid_game_version :: "string \<Rightarrow> bool" where
  "valid_game_version s \<longleftrightarrow> length s > 0 \<and> length s \<le> 80 \<and>
     \<not> contains_any s [CHR '' '', CHR 0x09, CHR 0x0D, CHR 0x0A, CHR 0x00]"

definition valid_loader :: "string \<Rightarrow> bool" where
  "valid_loader s \<longleftrightarrow>
     s = ''vanilla'' \<or> s = ''fabric'' \<or> s = ''quilt'' \<or> s = ''forge'' \<or> s = ''neoforge''"

definition check_condition_range ::
    "(range_error \<Rightarrow> condition_error) \<Rightarrow> string \<Rightarrow> condition_error + unit" where
  "check_condition_range wrap r =
     (if r \<noteq> [] then (case match_range ''1.0.0'' r of Inl e \<Rightarrow> Inl (wrap e) | Inr _ \<Rightarrow> Inr ()) else Inr ())"

text \<open>Running checks one after the other.\<close>

abbreviation and_then :: "'e + unit \<Rightarrow> 'e + unit \<Rightarrow> 'e + unit" where
  "and_then a b \<equiv> (case a of Inl e \<Rightarrow> Inl e | Inr _ \<Rightarrow> b)"

definition check_conditions :: "string \<Rightarrow> conditions \<Rightarrow> condition_error + unit" where
  "check_conditions cid v =
     and_then (check (cd_schema v = ''1.0'') (BadConditionSchema cid (cd_schema v)))
    (and_then (valid_distinct cid ''os'' (cd_os v) 8 valid_os)
    (and_then (valid_distinct cid ''arch'' (cd_arch v) 8 valid_arch)
    (and_then (check (\<not> (cd_java_max v \<noteq> 0 \<and> cd_java_min v > cd_java_max v)) (ReversedJava cid))
    (and_then (check (\<not> (cd_java_min v > 99 \<or> cd_java_max v > 99)) (BadJava cid))
    (and_then (valid_distinct cid ''minecraft'' (cd_minecraft v) 64 valid_game_version)
    (and_then (valid_distinct cid ''loader'' (cd_loaders v) 12 valid_loader)
    (and_then (valid_distinct cid ''permissions'' (cd_permissions v) 32 valid_permission_name)
    (and_then (check_condition_range (BadMinecraftRange cid) (cd_minecraft_range v))
       (check_condition_range (BadLoaderRange cid) (cd_loader_range v))))))))))"

definition validate_catalog_conditions :: "catalog \<Rightarrow> condition_error + unit" where
  "validate_catalog_conditions cat =
     (if cat_schema cat \<noteq> schema4 \<and> cat_schema cat \<noteq> schema5 then
        for_each (\<lambda>c _. check (cp_conditions c = None) (UnsignedConditions (cp_id c))) (cat_components cat) ()
      else
        for_each (\<lambda>c _. case cp_conditions c of None \<Rightarrow> Inr () | Some v \<Rightarrow> check_conditions (cp_id c) v)
          (cat_components cat) ())"

section \<open>Availability\<close>

datatype unavailable =
    WrongOs | WrongArch | JavaBelow | JavaAbove | WrongMinecraft
  | MinecraftRangeError range_error | MinecraftOutside
  | WrongLoader | LoaderRangeError range_error | LoaderOutside
  | MissingPermission string

definition range_reason ::
    "(range_error \<Rightarrow> unavailable) \<Rightarrow> unavailable \<Rightarrow> string \<Rightarrow> string \<Rightarrow> unavailable option" where
  "range_reason err outside actual r =
     (if r \<noteq> [] then
        (case match_range actual r of
           Inl e \<Rightarrow> Some (err e) | Inr ok \<Rightarrow> if \<not> ok then Some outside else None)
      else None)"

text \<open>Some reason, or \<^const>\<open>None\<close> for the empty string that means the component is available.\<close>

definition unavailable_reason :: "unicode \<Rightarrow> conditions option \<Rightarrow> environment \<Rightarrow> unavailable option" where
  "unavailable_reason U cd env =
     (case cd of
        None \<Rightarrow> None
      | Some v \<Rightarrow>
          if length (cd_os v) > 0 \<and> en_os env \<notin> set (cd_os v) then Some WrongOs
          else if length (cd_arch v) > 0 \<and> en_arch env \<notin> set (cd_arch v) then Some WrongArch
          else if cd_java_min v > 0 \<and> (en_java env = 0 \<or> en_java env < cd_java_min v) then Some JavaBelow
          else if cd_java_max v > 0 \<and> (en_java env = 0 \<or> en_java env > cd_java_max v) then Some JavaAbove
          else if length (cd_minecraft v) > 0 \<and> en_minecraft env \<notin> set (cd_minecraft v) then Some WrongMinecraft
          else
            (case range_reason MinecraftRangeError MinecraftOutside (en_minecraft env) (cd_minecraft_range v) of
               Some why \<Rightarrow> Some why
             | None \<Rightarrow>
                 if length (cd_loaders v) > 0 \<and> to_lower U (en_loader env) \<notin> set (cd_loaders v)
                 then Some WrongLoader
                 else
                   (case range_reason LoaderRangeError LoaderOutside (en_loader_version env) (cd_loader_range v) of
                      Some why \<Rightarrow> Some why
                    | None \<Rightarrow>
                        map_option MissingPermission
                          (first_some (\<lambda>p. p \<notin> en_permissions env) (cd_permissions v)))))"

section \<open>Lemmas\<close>

lemma and_then_Inr [simp]: "and_then a b = Inr () \<longleftrightarrow> a = Inr () \<and> b = Inr ()"
  by (cases a) auto

lemma range_reason_None:
  "range_reason err out actual r = None \<longleftrightarrow> r = [] \<or> match_range actual r = Inr True"
  by (auto simp: range_reason_def split: sum.split)

text \<open>What a condition requires of the host, as one statement.\<close>

definition host_satisfies :: "unicode \<Rightarrow> environment \<Rightarrow> conditions \<Rightarrow> bool" where
  "host_satisfies U env v \<longleftrightarrow>
     (cd_os v \<noteq> [] \<longrightarrow> en_os env \<in> set (cd_os v)) \<and>
     (cd_arch v \<noteq> [] \<longrightarrow> en_arch env \<in> set (cd_arch v)) \<and>
     (cd_java_min v \<noteq> 0 \<longrightarrow> en_java env \<noteq> 0 \<and> cd_java_min v \<le> en_java env) \<and>
     (cd_java_max v \<noteq> 0 \<longrightarrow> en_java env \<noteq> 0 \<and> en_java env \<le> cd_java_max v) \<and>
     (cd_minecraft v \<noteq> [] \<longrightarrow> en_minecraft env \<in> set (cd_minecraft v)) \<and>
     (cd_minecraft_range v \<noteq> [] \<longrightarrow> match_range (en_minecraft env) (cd_minecraft_range v) = Inr True) \<and>
     (cd_loaders v \<noteq> [] \<longrightarrow> to_lower U (en_loader env) \<in> set (cd_loaders v)) \<and>
     (cd_loader_range v \<noteq> [] \<longrightarrow> match_range (en_loader_version env) (cd_loader_range v) = Inr True) \<and>
     set (cd_permissions v) \<subseteq> en_permissions env"

lemma reason_chain: "(if b then Some x else r) = None \<longleftrightarrow> \<not> b \<and> r = None"
  by simp

lemma reason_case: "(case q of Some w \<Rightarrow> Some w | None \<Rightarrow> r) = None \<longleftrightarrow> q = None \<and> r = None"
  by (cases q) auto

lemma available_iff:
  "unavailable_reason U cd env = None \<longleftrightarrow> (case cd of None \<Rightarrow> True | Some v \<Rightarrow> host_satisfies U env v)"
proof (cases cd)
  case None
  then show ?thesis by (simp add: unavailable_reason_def)
next
  case (Some v)
  have "unavailable_reason U cd env = None \<longleftrightarrow>
      \<not> (cd_os v \<noteq> [] \<and> en_os env \<notin> set (cd_os v)) \<and>
      \<not> (cd_arch v \<noteq> [] \<and> en_arch env \<notin> set (cd_arch v)) \<and>
      \<not> (cd_java_min v > 0 \<and> (en_java env = 0 \<or> en_java env < cd_java_min v)) \<and>
      \<not> (cd_java_max v > 0 \<and> (en_java env = 0 \<or> en_java env > cd_java_max v)) \<and>
      \<not> (cd_minecraft v \<noteq> [] \<and> en_minecraft env \<notin> set (cd_minecraft v)) \<and>
      (cd_minecraft_range v = [] \<or> match_range (en_minecraft env) (cd_minecraft_range v) = Inr True) \<and>
      \<not> (cd_loaders v \<noteq> [] \<and> to_lower U (en_loader env) \<notin> set (cd_loaders v)) \<and>
      (cd_loader_range v = [] \<or> match_range (en_loader_version env) (cd_loader_range v) = Inr True) \<and>
      (\<forall>p \<in> set (cd_permissions v). p \<in> en_permissions env)"
    unfolding unavailable_reason_def Some option.case reason_chain reason_case range_reason_None
    by (simp add: first_some_None)
  then show ?thesis
    unfolding Some option.case host_satisfies_def by (simp add: imp_conv_disj not_less subset_eq)
qed

text \<open>A list that passes \<^const>\<open>valid_distinct\<close> holds distinct, valid values.\<close>

lemma valid_distinct_loop:
  "for_each (distinct_step cid what valid) vs seen = Inr t \<Longrightarrow>
     list_all valid vs \<and> distinct vs \<and> set vs \<inter> seen = {}"
proof (induction vs arbitrary: seen)
  case Nil
  then show ?case by simp
next
  case (Cons v vs)
  then obtain s where s: "distinct_step cid what valid v seen = Inr s"
    "for_each (distinct_step cid what valid) vs s = Inr t"
    by (auto split: sum.splits)
  have "valid v" "v \<notin> seen" "s = insert v seen"
    using s(1) by (simp_all add: distinct_step_def split: if_split_asm)
  then show ?case using Cons.IH [OF s(2)] by auto
qed

lemma valid_distinct_Inr:
  assumes "valid_distinct cid what vs limit valid = Inr ()"
  shows "length vs \<le> limit \<and> list_all valid vs \<and> distinct vs"
proof -
  from assms obtain t where t: "for_each (distinct_step cid what valid) vs {} = Inr t"
    and "length vs \<le> limit"
    by (auto simp: valid_distinct_def split: if_split_asm sum.split_asm)
  then show ?thesis using valid_distinct_loop [OF t] by simp
qed

lemma check_conditions_Inr:
  assumes "check_conditions cid v = Inr ()"
  shows "list_all valid_os (cd_os v)" "list_all valid_arch (cd_arch v)"
    "list_all valid_game_version (cd_minecraft v)" "list_all valid_loader (cd_loaders v)"
    "list_all valid_permission_name (cd_permissions v)" "cd_schema v = ''1.0''"
    "cd_java_max v \<noteq> 0 \<longrightarrow> cd_java_min v \<le> cd_java_max v"
  using assms unfolding check_conditions_def and_then_Inr check_Inr
  by (auto simp: not_less dest!: valid_distinct_Inr)

lemma validate_conditions_component:
  assumes "validate_catalog_conditions cat = Inr ()" "c \<in> set (cat_components cat)" "cp_conditions c = Some v"
  shows "check_conditions (cp_id c) v = Inr ()"
proof -
  have "cat_schema cat = schema4 \<or> cat_schema cat = schema5"
    using assms by (auto simp: validate_catalog_conditions_def for_each_unit_Inr split: if_split_asm)
  then have "(case cp_conditions c of None \<Rightarrow> Inr () | Some v \<Rightarrow> check_conditions (cp_id c) v) = Inr ()"
    using assms(1,2) by (simp add: validate_catalog_conditions_def for_each_unit_Inr split: if_split_asm)
  then show ?thesis using assms(3) by simp
qed

lemma match_range_no_version: "match_range [] r \<noteq> Inr b"
proof -
  have "\<not> is_ok (parse_semver [])" by code_simp
  then have "\<exists>e. parse_semver [] = Inl e" by (cases "parse_semver []") auto
  then show ?thesis by (auto simp: match_range_def)
qed

text \<open>A component is available exactly when the host satisfies every condition it states, each field being
  one conjunct: an empty field states nothing, a list is a choice, a range must hold of a version that
  parses, and every permission must be verified.\<close>
lemma available_exactly:
  "unavailable_reason U (cp_conditions c) env = None \<longleftrightarrow>
     (case cp_conditions c of None \<Rightarrow> True | Some v \<Rightarrow> host_satisfies U env v)"
  by (rule available_iff)

text \<open>Missing context never grants access: on the empty environment (nothing known of the host) a component
  of a validated catalog is available only if its conditions state nothing at all.\<close>
lemma no_context_grants_nothing:
  assumes "validate_catalog_conditions cat = Inr ()" "c \<in> set (cat_components cat)"
    and "cp_conditions c = Some v" "unavailable_reason U (Some v) no_environment = None"
  shows "cd_os v = [] \<and> cd_arch v = [] \<and> cd_java_min v = 0 \<and> cd_java_max v = 0 \<and> cd_minecraft v = [] \<and>
    cd_minecraft_range v = [] \<and> cd_loaders v = [] \<and> cd_loader_range v = [] \<and> cd_permissions v = []"
proof -
  have valid: "check_conditions (cp_id c) v = Inr ()"
    by (rule validate_conditions_component [OF assms(1-3)])
  have sat: "host_satisfies U no_environment v"
    using assms(4) by (simp add: available_iff)
  have low: "to_lower U [] = []" by (simp add: to_lower_def)
  have empty: "[] \<notin> set xs" if "list_all p xs" "\<not> p []" for p and xs :: "string list"
    using that by (auto simp: list_all_iff)
  have ne: "\<not> valid_os []" "\<not> valid_arch []" "\<not> valid_game_version []" "\<not> valid_loader []"
    by (simp_all add: valid_os_def valid_arch_def valid_game_version_def valid_loader_def)
  show ?thesis
    using sat empty [OF check_conditions_Inr(1) [OF valid] ne(1)] empty [OF check_conditions_Inr(2) [OF valid] ne(2)]
      empty [OF check_conditions_Inr(3) [OF valid] ne(3)] empty [OF check_conditions_Inr(4) [OF valid] ne(4)]
    by (auto simp: host_satisfies_def no_environment_def match_range_no_version low)
qed

end
