(* ===== verification/Dfs.thy ===== *)
theory Dfs
  imports GoBase
begin

text \<open>
  The depth-first search that the resolvers share: the recursive closure \<^verbatim>\<open>visit\<close> of
  \<^verbatim>\<open>ValidateCatalogRules0243\<close> (\<^verbatim>\<open>model/component_resolver.go\<close>), which looks for a dependency cycle, and the one
  of \<^verbatim>\<open>topologicalOrder\<close> (\<^verbatim>\<open>extensionresolver/resolver.go\<close>), which also returns the order in which the
  visits end.  A mark is 0 (not seen), 1 (on the stack) or 2 (done).  The depth of the recursion is bounded
  by fuel, and \<open>visit_fuel\<close> shows how much of it is enough on any graph.
\<close>

section \<open>The search\<close>

datatype 'a dfs_error =
    Cycle "'a list" 'a \<comment> \<open>the stack, and the node of it that was met again\<close>
  | Diverges

record 'a dfs =
  df_mark :: "'a \<Rightarrow> nat"
  df_stack :: "'a list"
  df_out :: "'a list"

definition dfs_start :: "'a dfs" where
  "dfs_start = \<lparr>df_mark = (\<lambda>_. 0), df_stack = [], df_out = []\<rparr>"

fun visit :: "('a \<Rightarrow> 'a list) \<Rightarrow> nat \<Rightarrow> 'a \<Rightarrow> 'a dfs \<Rightarrow> 'a dfs_error + 'a dfs" where
  "visit succ 0 x s = Inl Diverges"
| "visit succ (Suc n) x s =
     (if df_mark s x = 2 then Inr s
      else if df_mark s x = 1 then Inl (Cycle (df_stack s) x)
      else
        (case for_each (\<lambda>y. visit succ n y) (succ x)
                (s\<lparr>df_mark := (df_mark s)(x := 1), df_stack := df_stack s @ [x]\<rparr>) of
           Inl e \<Rightarrow> Inl e
         | Inr t \<Rightarrow>
             Inr (t\<lparr>df_stack := butlast (df_stack t), df_mark := (df_mark t)(x := 2),
                    df_out := df_out t @ [x]\<rparr>)))"

declare visit.simps [simp del]

section \<open>The invariant\<close>

definition edges :: "('a \<Rightarrow> 'a list) \<Rightarrow> ('a \<times> 'a) set" where
  "edges succ = {(x, y). y \<in> set (succ x)}"

text \<open>A list in which every element comes after its successors.\<close>

definition topological :: "('a \<Rightarrow> 'a list) \<Rightarrow> 'a list \<Rightarrow> bool" where
  "topological succ xs \<longleftrightarrow> (\<forall>ys x zs. xs = ys @ x # zs \<longrightarrow> set (succ x) \<subseteq> set ys)"

definition entered :: "('a \<Rightarrow> 'a list) \<Rightarrow> 'a \<Rightarrow> 'a dfs \<Rightarrow> bool" where
  "entered succ x s \<longleftrightarrow> df_stack s = [] \<or> x \<in> set (succ (last (df_stack s)))"

definition dfs_ok :: "('a \<Rightarrow> 'a list) \<Rightarrow> 'a set \<Rightarrow> 'a dfs \<Rightarrow> bool" where
  "dfs_ok succ C s \<longleftrightarrow>
     (\<forall>x. df_mark s x = 1 \<longleftrightarrow> x \<in> set (df_stack s)) \<and>
     (\<forall>x. df_mark s x = 2 \<longleftrightarrow> x \<in> set (df_out s)) \<and>
     distinct (df_stack s) \<and> distinct (df_out s) \<and>
     successively (\<lambda>a b. b \<in> set (succ a)) (df_stack s) \<and>
     topological succ (df_out s) \<and>
     set (df_stack s) \<union> set (df_out s) \<subseteq> C"

lemma topological_Nil [simp]: "topological succ []"
  by (simp add: topological_def)

lemma topological_snoc: "topological succ (xs @ [x]) \<longleftrightarrow> topological succ xs \<and> set (succ x) \<subseteq> set xs"
proof
  assume "topological succ (xs @ [x])"
  then have all: "\<And>ys y zs. xs @ [x] = ys @ y # zs \<Longrightarrow> set (succ y) \<subseteq> set ys"
    by (simp add: topological_def)
  have "topological succ xs"
    unfolding topological_def
  proof (intro allI impI)
    fix ys y zs
    assume "xs = ys @ y # zs"
    then show "set (succ y) \<subseteq> set ys" using all [of ys y "zs @ [x]"] by simp
  qed
  then show "topological succ xs \<and> set (succ x) \<subseteq> set xs" using all [of xs x "[]"] by simp
next
  assume "topological succ xs \<and> set (succ x) \<subseteq> set xs"
  then show "topological succ (xs @ [x])"
    unfolding topological_def
  proof (intro conjI allI impI)
    fix ys y zs
    assume a: "(\<forall>ys y zs. xs = ys @ y # zs \<longrightarrow> set (succ y) \<subseteq> set ys) \<and> set (succ x) \<subseteq> set xs"
      and eq: "xs @ [x] = ys @ y # zs"
    show "set (succ y) \<subseteq> set ys"
    proof (cases zs rule: rev_cases)
      case Nil
      then show ?thesis using a eq by simp
    next
      case (snoc ws w)
      then have "xs = ys @ y # ws" using eq by simp
      then show ?thesis using a by blast
    qed
  qed
qed

lemma dfs_start_ok [simp]: "dfs_ok succ C dfs_start"
  by (simp add: dfs_ok_def dfs_start_def)

lemma entered_cong: "df_stack t = df_stack s \<Longrightarrow> entered succ x t = entered succ x s"
  by (simp add: entered_def)

lemma dfs_push:
  assumes "dfs_ok succ C s" "df_mark s x \<noteq> 1" "df_mark s x \<noteq> 2" "entered succ x s" "x \<in> C"
  shows "dfs_ok succ C (s\<lparr>df_mark := (df_mark s)(x := 1), df_stack := df_stack s @ [x]\<rparr>)"
  using assms by (auto simp: dfs_ok_def entered_def successively_append_iff)

lemma dfs_pop:
  assumes "dfs_ok succ C t" "df_stack t = st @ [x]" "set (succ x) \<subseteq> set (df_out t)"
  shows "dfs_ok succ C (t\<lparr>df_stack := butlast (df_stack t), df_mark := (df_mark t)(x := 2),
           df_out := df_out t @ [x]\<rparr>)"
proof -
  have "df_mark t x = 1" "x \<notin> set st" using assms by (auto simp: dfs_ok_def)
  moreover have "x \<notin> set (df_out t)"
  proof
    assume "x \<in> set (df_out t)"
    then have "df_mark t x = 2" using assms(1) unfolding dfs_ok_def by blast
    with \<open>df_mark t x = 1\<close> show False by simp
  qed
  ultimately show ?thesis
    using assms by (auto simp: dfs_ok_def topological_snoc successively_append_iff)
qed

section \<open>What a search returns\<close>

definition extends :: "('a \<Rightarrow> 'a list) \<Rightarrow> 'a set \<Rightarrow> 'a set \<Rightarrow> 'a dfs \<Rightarrow> 'a dfs \<Rightarrow> bool" where
  "extends succ C X s t \<longleftrightarrow>
     dfs_ok succ C t \<and> df_stack t = df_stack s \<and> set (df_out s) \<union> X \<subseteq> set (df_out t)"

lemma visit_loop:
  assumes step: "\<And>x s t. dfs_ok succ C s \<Longrightarrow> entered succ x s \<Longrightarrow> x \<in> C \<Longrightarrow> f x s = Inr t \<Longrightarrow>
      extends succ C {x} s t"
    and "dfs_ok succ C s" "\<forall>x \<in> set xs. entered succ x s \<and> x \<in> C" "for_each f xs s = Inr t"
  shows "extends succ C (set xs) s t"
  using assms(2-)
proof (induction xs arbitrary: s)
  case Nil
  then show ?case by (simp add: extends_def)
next
  case (Cons x xs)
  then obtain u where u: "f x s = Inr u" "for_each f xs u = Inr t" by (auto split: sum.splits)
  have su: "extends succ C {x} s u" using step u(1) Cons.prems by simp
  then have "extends succ C (set xs) u t"
    using Cons.IH [of u] Cons.prems(2) u(2) entered_cong [of u s] by (simp add: extends_def)
  with su show ?case by (auto simp: extends_def)
qed

lemma visit_ok:
  assumes closed: "\<And>x. x \<in> C \<Longrightarrow> set (succ x) \<subseteq> C"
  shows "dfs_ok succ C s \<Longrightarrow> entered succ x s \<Longrightarrow> x \<in> C \<Longrightarrow> visit succ n x s = Inr t \<Longrightarrow>
    extends succ C {x} s t"
proof (induction n arbitrary: x s t)
  case 0
  then show ?case by (simp add: visit.simps)
next
  case (Suc n)
  show ?case
  proof (cases "df_mark s x = 2")
    case True
    then show ?thesis using Suc.prems by (auto simp: visit.simps extends_def dfs_ok_def)
  next
    case False
    let ?s = "s\<lparr>df_mark := (df_mark s)(x := 1), df_stack := df_stack s @ [x]\<rparr>"
    from False Suc.prems(4) have m: "df_mark s x \<noteq> 1" by (auto simp: visit.simps)
    then obtain u where u: "for_each (\<lambda>y. visit succ n y) (succ x) ?s = Inr u"
      and t: "t = u\<lparr>df_stack := butlast (df_stack u), df_mark := (df_mark u)(x := 2), df_out := df_out u @ [x]\<rparr>"
      using False Suc.prems(4) by (auto simp: visit.simps split: sum.splits)
    have "extends succ C (set (succ x)) ?s u"
    proof (rule visit_loop [OF Suc.IH])
      show "dfs_ok succ C ?s" using dfs_push m False Suc.prems by metis
      show "\<forall>y \<in> set (succ x). entered succ y ?s \<and> y \<in> C"
        using closed [OF Suc.prems(3)] by (auto simp: entered_def)
    qed (use u in auto)
    then show ?thesis
      using dfs_pop [of succ C u "df_stack s" x] by (auto simp: extends_def t)
  qed
qed

section \<open>Cycles\<close>

lemma successively_rtrancl:
  assumes "successively (\<lambda>a b. b \<in> set (succ a)) xs" "x \<in> set xs"
  shows "(x, last xs) \<in> (edges succ)\<^sup>*"
  using assms
proof (induction xs arbitrary: x)
  case Nil
  then show ?case by simp
next
  case (Cons y ys)
  show ?case
  proof (cases ys)
    case Nil
    then show ?thesis using Cons.prems by simp
  next
    case (Cons z zs)
    have "(z, last ys) \<in> (edges succ)\<^sup>*"
      using Cons.IH [of z] Cons.prems(1) \<open>ys = z # zs\<close> by simp
    moreover have "(y, z) \<in> edges succ" using Cons.prems(1) \<open>ys = z # zs\<close> by (simp add: edges_def)
    ultimately show ?thesis
      using Cons.IH [of x] Cons.prems \<open>ys = z # zs\<close> by (auto intro: converse_rtrancl_into_rtrancl)
  qed
qed

definition no_cycle_reported :: "('a \<Rightarrow> 'a list) \<Rightarrow> 'a dfs_error \<Rightarrow> bool" where
  "no_cycle_reported succ e \<longleftrightarrow> (\<forall>st x. e = Cycle st x \<longrightarrow> (x, x) \<notin> (edges succ)\<^sup>+)"

lemma loop_cycle:
  assumes ok: "\<And>x s t. dfs_ok succ C s \<Longrightarrow> entered succ x s \<Longrightarrow> x \<in> C \<Longrightarrow> f x s = Inr t \<Longrightarrow>
      extends succ C {x} s t"
    and err: "\<And>x s. dfs_ok succ C s \<Longrightarrow> entered succ x s \<Longrightarrow> x \<in> C \<Longrightarrow> f x s = Inl e \<Longrightarrow> Q"
    and "dfs_ok succ C s" "\<forall>x \<in> set xs. entered succ x s \<and> x \<in> C" "for_each f xs s = Inl e"
  shows Q
  using assms(3-)
proof (induction xs arbitrary: s)
  case (Cons x xs)
  show ?case
  proof (cases "f x s")
    case (Inl d)
    then show ?thesis using err [of s x] Cons.prems by simp
  next
    case (Inr u)
    then have "extends succ C {x} s u" using ok Cons.prems by simp
    then show ?thesis
      using Cons.IH [of u] Cons.prems Inr entered_cong [of u s] by (simp add: extends_def)
  qed
qed simp

text \<open>A cycle is reported only where there is one.\<close>

lemma visit_cycle:
  assumes closed: "\<And>x. x \<in> C \<Longrightarrow> set (succ x) \<subseteq> C"
  shows "dfs_ok succ C s \<Longrightarrow> entered succ x s \<Longrightarrow> x \<in> C \<Longrightarrow> visit succ n x s = Inl (Cycle st y) \<Longrightarrow>
    (y, y) \<in> (edges succ)\<^sup>+"
proof (induction n arbitrary: x s)
  case 0
  then show ?case by (simp add: visit.simps)
next
  case (Suc n)
  show ?case
  proof (cases "df_mark s x = 1")
    case True
    then have y: "y = x" using Suc.prems(4) by (simp add: visit.simps)
    have x: "x \<in> set (df_stack s)" using True Suc.prems(1) by (simp add: dfs_ok_def)
    then have "(x, last (df_stack s)) \<in> (edges succ)\<^sup>*"
      using Suc.prems(1) by (intro successively_rtrancl) (simp_all add: dfs_ok_def)
    moreover have "(last (df_stack s), x) \<in> edges succ"
      using Suc.prems(2) x by (auto simp: entered_def edges_def)
    ultimately show ?thesis unfolding y by (rule rtrancl_into_trancl1)
  next
    case False
    let ?s = "s\<lparr>df_mark := (df_mark s)(x := 1), df_stack := df_stack s @ [x]\<rparr>"
    from False Suc.prems(4) have m: "df_mark s x \<noteq> 2" by (auto simp: visit.simps)
    have loop: "for_each (\<lambda>y. visit succ n y) (succ x) ?s = Inl (Cycle st y)"
      using False m Suc.prems(4) by (auto simp: visit.simps split: sum.splits)
    show ?thesis
    proof (rule loop_cycle [where f = "\<lambda>y. visit succ n y" and succ = succ and C = C])
      show "extends succ C {z} u t"
        if "dfs_ok succ C u" "entered succ z u" "z \<in> C" "visit succ n z u = Inr t" for z u t
        by (rule visit_ok [OF _ that]) (rule closed)
      show "(y, y) \<in> (edges succ)\<^sup>+"
        if "dfs_ok succ C u" "entered succ z u" "z \<in> C" "visit succ n z u = Inl (Cycle st y)" for z u
        using Suc.IH that by blast
      show "dfs_ok succ C ?s" using dfs_push m False Suc.prems by metis
      show "\<forall>y \<in> set (succ x). entered succ y ?s \<and> y \<in> C"
        using closed [OF Suc.prems(3)] by (auto simp: entered_def)
      show "for_each (\<lambda>y. visit succ n y) (succ x) ?s = Inl (Cycle st y)" by (rule loop)
    qed
  qed
qed

section \<open>Enough fuel\<close>

text \<open>Outside the finite set \<open>V\<close> a node has no successor; the search never goes deeper than the nodes of
  \<open>V\<close> it has not entered, and two more.\<close>

lemma visit_fuel:
  assumes closed: "\<And>x. x \<in> C \<Longrightarrow> set (succ x) \<subseteq> C"
    and V: "finite V" "\<And>x. x \<notin> V \<Longrightarrow> succ x = []"
  shows "dfs_ok succ C s \<Longrightarrow> entered succ x s \<Longrightarrow> x \<in> C \<Longrightarrow>
    card (V - set (df_stack s) - set (df_out s)) + 2 \<le> n \<Longrightarrow> visit succ n x s \<noteq> Inl Diverges"
proof (induction n arbitrary: x s)
  case 0
  then show ?case by simp
next
  case (Suc n)
  show ?case
  proof (cases "df_mark s x = 1 \<or> df_mark s x = 2")
    case True
    then show ?thesis by (auto simp: visit.simps)
  next
    case False
    let ?s = "s\<lparr>df_mark := (df_mark s)(x := 1), df_stack := df_stack s @ [x]\<rparr>"
    let ?W = "\<lambda>s. V - set (df_stack s) - set (df_out s)"
    have oks: "dfs_ok succ C ?s" using dfs_push False Suc.prems by metis
    have "for_each (\<lambda>y. visit succ n y) (succ x) ?s \<noteq> Inl Diverges"
    proof (cases "x \<in> V")
      case False
      then show ?thesis using V(2) by simp
    next
      case True
      have "x \<notin> set (df_stack s)" "x \<notin> set (df_out s)" using False Suc.prems(1) by (auto simp: dfs_ok_def)
      then have "?W ?s \<subset> ?W s" using True by auto
      then have "card (?W ?s) < card (?W s)" using V(1) by (simp add: psubset_card_mono)
      then have fuel: "card (?W ?s) + 2 \<le> n" using Suc.prems(4) by linarith
      have "for_each (\<lambda>y. visit succ n y) ys u \<noteq> Inl Diverges"
        if "dfs_ok succ C u" "\<forall>y \<in> set ys. entered succ y u \<and> y \<in> C" "card (?W u) + 2 \<le> n" for ys u
        using that
      proof (induction ys arbitrary: u)
        case (Cons y ys)
        show ?case
        proof (cases "visit succ n y u")
          case (Inl e)
          moreover have "visit succ n y u \<noteq> Inl Diverges"
            using Suc.IH [of u y] Cons.prems by simp
          ultimately show ?thesis by simp
        next
          case (Inr t)
          then have ext: "extends succ C {y} u t"
            using visit_ok [OF closed] Cons.prems by simp
          then have "?W t \<subseteq> ?W u" by (auto simp: extends_def)
          then have "card (?W t) \<le> card (?W u)" using V(1) by (simp add: card_mono)
          then show ?thesis
            using Cons.IH [of t] Cons.prems ext Inr entered_cong [of t u] by (simp add: extends_def)
        qed
      qed simp
      then show ?thesis
        using oks fuel closed [OF Suc.prems(3)] by (simp add: entered_def subset_iff)
    qed
    then show ?thesis using False by (auto simp: visit.simps split: sum.splits)
  qed
qed

section \<open>A search from every node of a list\<close>

definition dfs_all :: "('a \<Rightarrow> 'a list) \<Rightarrow> nat \<Rightarrow> 'a list \<Rightarrow> 'a dfs_error + 'a dfs" where
  "dfs_all succ n xs = for_each (\<lambda>x. visit succ n x) xs dfs_start"

lemma entered_start: "df_stack s = [] \<Longrightarrow> entered succ x s"
  by (simp add: entered_def)

lemma dfs_all_order:
  assumes "\<And>x. x \<in> C \<Longrightarrow> set (succ x) \<subseteq> C" "set xs \<subseteq> C" "dfs_all succ n xs = Inr t"
  shows "distinct (df_out t) \<and> topological succ (df_out t) \<and> set xs \<subseteq> set (df_out t) \<and> set (df_out t) \<subseteq> C"
proof -
  have "extends succ C (set xs) dfs_start t"
  proof (rule visit_loop [OF visit_ok [OF assms(1)]])
    show "\<forall>x \<in> set xs. entered succ x dfs_start \<and> x \<in> C"
      using assms(2) by (auto simp: entered_def dfs_start_def)
  qed (use assms(3) in \<open>auto simp: dfs_all_def\<close>)
  then show ?thesis by (simp add: extends_def dfs_ok_def)
qed

lemma dfs_all_cycle:
  assumes "dfs_all succ n xs = Inl (Cycle st y)"
  shows "(y, y) \<in> (edges succ)\<^sup>+"
proof (rule loop_cycle [OF visit_ok visit_cycle])
  show "for_each (\<lambda>x. visit succ n x) xs dfs_start = Inl (Cycle st y)" using assms by (simp add: dfs_all_def)
  show "\<forall>x \<in> set xs. entered succ x dfs_start \<and> x \<in> UNIV" by (simp add: entered_def dfs_start_def)
qed auto

lemma dfs_all_fuel:
  assumes "finite V" "\<And>x. x \<notin> V \<Longrightarrow> succ x = []" "card V + 2 \<le> n"
  shows "dfs_all succ n xs \<noteq> Inl Diverges"
proof -
  have "for_each (\<lambda>x. visit succ n x) xs s \<noteq> Inl Diverges"
    if "dfs_ok succ UNIV s" "df_stack s = []" for s
    using that
  proof (induction xs arbitrary: s)
    case (Cons x xs)
    have "card (V - set (df_stack s) - set (df_out s)) \<le> card V" using assms(1) by (auto intro: card_mono)
    then have "visit succ n x s \<noteq> Inl Diverges"
      using visit_fuel [of UNIV succ V s x n] assms Cons.prems by (simp add: entered_def)
    moreover have "extends succ UNIV {x} s t" if "visit succ n x s = Inr t" for t
      using visit_ok [of UNIV succ s x n t] Cons.prems that by (simp add: entered_def)
    ultimately show ?case
      using Cons.IH Cons.prems by (auto simp: extends_def split: sum.split)
  qed simp
  moreover have "df_stack dfs_start = []" by (simp add: dfs_start_def)
  ultimately show ?thesis unfolding dfs_all_def using dfs_start_ok by blast
qed

text \<open>Nodes in topological order lie on no cycle.\<close>

lemma topological_acyclic:
  assumes "topological succ xs" "distinct xs" "x \<in> set xs"
  shows "(x, x) \<notin> (edges succ)\<^sup>+"
  using assms
proof (induction xs arbitrary: x rule: rev_induct)
  case Nil
  then show ?case by simp
next
  case (snoc y ys)
  have top: "topological succ ys" "set (succ y) \<subseteq> set ys" using snoc.prems(1) by (simp_all add: topological_snoc)
  have closed: "v \<in> set ys" if "(u, v) \<in> (edges succ)\<^sup>+" "u \<in> set ys" for u v
    using that
  proof (induction rule: trancl.induct)
    case (r_into_trancl a b)
    then obtain as bs where "ys = as @ a # bs" by (auto simp: in_set_conv_decomp)
    then show ?case using top(1) r_into_trancl(1) by (auto simp: topological_def edges_def)
  next
    case (trancl_into_trancl a b c)
    then obtain as bs where "ys = as @ b # bs" by (auto simp: in_set_conv_decomp)
    then show ?case using top(1) trancl_into_trancl(2) by (auto simp: topological_def edges_def)
  qed
  show ?case
  proof (cases "x = y")
    case False
    then show ?thesis using snoc top by simp
  next
    case True
    show ?thesis
    proof
      assume "(x, x) \<in> (edges succ)\<^sup>+"
      then obtain z where z: "(x, z) \<in> edges succ" "(z, x) \<in> (edges succ)\<^sup>*" by (auto dest: tranclD)
      have "z \<in> set ys" using z(1) top(2) True by (auto simp: edges_def)
      moreover have "z \<noteq> x" using calculation True snoc.prems(2) by auto
      ultimately have "x \<in> set ys" using closed z(2) by (meson rtranclD)
      then show False using True snoc.prems(2) by simp
    qed
  qed
qed

text \<open>The search over all nodes that have successors decides whether there is a cycle.\<close>

lemma dfs_all_decides:
  assumes "\<And>x. x \<notin> set xs \<Longrightarrow> succ x = []" "length xs + 2 \<le> n"
  shows "is_ok (dfs_all succ n xs) \<longleftrightarrow> acyclic (edges succ)"
proof
  assume "is_ok (dfs_all succ n xs)"
  then obtain t where t: "dfs_all succ n xs = Inr t" by (auto simp: is_ok_iff)
  have "(x, x) \<notin> (edges succ)\<^sup>+" for x
  proof (cases "x \<in> set xs")
    case True
    have "topological succ (df_out t)" "distinct (df_out t)" "set xs \<subseteq> set (df_out t)"
      using dfs_all_order [of UNIV succ xs n t] t by simp_all
    then show ?thesis using topological_acyclic [of succ "df_out t" x] True by blast
  next
    case False
    then have "(x, z) \<notin> edges succ" for z using assms(1) by (simp add: edges_def)
    then show ?thesis by (meson tranclD)
  qed
  then show "acyclic (edges succ)" by (simp add: acyclic_def)
next
  assume ac: "acyclic (edges succ)"
  have "dfs_all succ n xs \<noteq> Inl Diverges"
  proof (rule dfs_all_fuel)
    show "card (set xs) + 2 \<le> n" using card_length [of xs] assms(2) by linarith
  qed (use assms(1) in auto)
  moreover have "dfs_all succ n xs \<noteq> Inl (Cycle st y)" for st y
    using dfs_all_cycle [of succ n xs st y] ac by (auto simp: acyclic_def)
  ultimately have "dfs_all succ n xs \<noteq> Inl e" for e
    by (cases e) auto
  then show "is_ok (dfs_all succ n xs)"
    by (cases "dfs_all succ n xs") auto
qed

end
