(* ===== verification/CatResolver.thy ===== *)
theory CatResolver
  imports CatConditions Dfs
begin

text \<open>
  The dependency resolver of the signed catalog (\<^verbatim>\<open>model/component_resolver.go\<close>): the rules a catalog must
  keep (versions, references, no dependency cycle, every preset resolvable) and the deterministic resolution
  of a preset.  The recursive closures \<^verbatim>\<open>visit\<close> (theory \<open>Dfs\<close>) and \<^verbatim>\<open>activate\<close> run on fuel; \<open>NotReturned\<close> is
  the outcome of a recursion that does not return, which the lemmas rule out on acyclic catalogs.
\<close>

section \<open>Components by identifier\<close>

definition no_component :: component where
  "no_component =
     \<lparr>cp_id = [], cp_name = [], cp_files = [], cp_version = [], cp_dependencies = [], cp_conflicts = [],
      cp_exclusive = [], cp_conditions = None, cp_actions = [], cp_description = [], cp_category = [],
      cp_group = [], cp_required = False, cp_default = False, cp_visible = None, cp_limited = False,
      cp_metadata = []\<rparr>"

text \<open>The Go map filled by a loop over the components: of several with one identifier the last one stays.\<close>

definition items_of :: "component list \<Rightarrow> component gomap" where
  "items_of cs = map_of (rev (map (\<lambda>c. (cp_id c, c)) cs))"

definition item :: "component gomap \<Rightarrow> string \<Rightarrow> component" where
  "item m i = (case m i of Some c \<Rightarrow> c | None \<Rightarrow> no_component)"

definition dependency_ids :: "component gomap \<Rightarrow> string \<Rightarrow> string list" where
  "dependency_ids m i = map rq_id (cp_dependencies (item m i))"

section \<open>Errors\<close>

datatype resolution_error =
    InvalidVersion string semver_error
  | InvalidGroup string
  | LimitExceeded string
  | InvalidReference string string
  | InvalidRange string string range_error
  | DependencyCycle string "string list"
  | UnknownPreset string
  | MissingDependency string
  | RangeFailed range_error
  | VersionMismatch string string "string list"
  | ExclusiveGroup string string
  | ConflictingComponents string string
  | ConditionUnsatisfied string unavailable
  | UnresolvablePreset string resolution_error
  | NotReturned

section \<open>Resolution of a preset\<close>

definition initial_selection :: "catalog \<Rightarrow> string \<Rightarrow> resolution_error + string set" where
  "initial_selection cat preset =
     (let chosen = (if preset = [] then cat_default_preset cat else preset);
          required = set (map cp_id (filter cp_required (cat_components cat)))
      in if chosen \<noteq> [] then
           (case first_some (\<lambda>p. ps_id p = chosen) (cat_presets cat) of
              None \<Rightarrow> Inl (UnknownPreset chosen)
            | Some p \<Rightarrow> Inr (set (ps_components p) \<union> required))
         else Inr (set (map cp_id (filter cp_default (cat_components cat))) \<union> required))"

record resolve_state =
  rs_selected :: "string set"
  rs_expanded :: "string set"

fun activate ::
    "component gomap \<Rightarrow> nat \<Rightarrow> string \<Rightarrow> string list \<Rightarrow> resolve_state \<Rightarrow> resolution_error + resolve_state" where
  "activate m 0 i chain s = Inl NotReturned"
| "activate m (Suc n) i chain s =
     (case m i of
        None \<Rightarrow> Inl (MissingDependency i)
      | Some c \<Rightarrow>
          if i \<in> rs_expanded s then Inr s
          else
            (case for_each (\<lambda>d s.
                    case match_range (cp_version (item m (rq_id d))) (rq_range d) of
                      Inl e \<Rightarrow> Inl (RangeFailed e)
                    | Inr allowed \<Rightarrow>
                        if \<not> allowed then Inl (VersionMismatch i (rq_id d) (chain @ [i]))
                        else activate m n (rq_id d) (chain @ [i])
                               (s\<lparr>rs_selected := insert (rq_id d) (rs_selected s)\<rparr>))
                  (cp_dependencies c) s of
               Inl e \<Rightarrow> Inl e
             | Inr t \<Rightarrow> Inr (t\<lparr>rs_expanded := insert i (rs_expanded t)\<rparr>)))"

declare activate.simps [simp del]

text \<open>The loop that activates the selected components, in the order of the catalog.\<close>

definition activate_selected ::
    "component gomap \<Rightarrow> nat \<Rightarrow> component \<Rightarrow> resolve_state \<Rightarrow> resolution_error + resolve_state" where
  "activate_selected m n c s = (if cp_id c \<in> rs_selected s then activate m n (cp_id c) [] s else Inr s)"

definition check_conflict ::
    "component gomap \<Rightarrow> string set \<Rightarrow> component \<Rightarrow> requirement \<Rightarrow> resolution_error + unit" where
  "check_conflict m sel c k =
     (if rq_id k \<notin> sel then Inr ()
      else (case match_range (cp_version (item m (rq_id k))) (rq_range k) of
              Inr True \<Rightarrow> Inl (ConflictingComponents (cp_id c) (rq_id k))
            | _ \<Rightarrow> Inr ()))"

definition check_exclusion ::
    "component gomap \<Rightarrow> string set \<Rightarrow> component \<Rightarrow> (string \<Rightarrow> string) \<Rightarrow> resolution_error + (string \<Rightarrow> string)" where
  "check_exclusion m sel c groups =
     (if cp_id c \<notin> sel then Inr groups
      else if cp_exclusive c \<noteq> [] \<and> groups (cp_exclusive c) \<noteq> []
      then Inl (ExclusiveGroup (cp_id c) (groups (cp_exclusive c)))
      else
        (case for_each (\<lambda>k _. check_conflict m sel c k) (cp_conflicts c) () of
           Inl e \<Rightarrow> Inl e
         | Inr _ \<Rightarrow>
             Inr (if cp_exclusive c \<noteq> [] then groups(cp_exclusive c := cp_id c) else groups)))"

definition resolve_fuel :: "catalog \<Rightarrow> nat" where
  "resolve_fuel cat = length (cat_components cat) + 2"

definition resolve_graph :: "catalog \<Rightarrow> string \<Rightarrow> resolution_error + string list" where
  "resolve_graph cat preset =
     (let m = items_of (cat_components cat)
      in case initial_selection cat preset of
           Inl e \<Rightarrow> Inl e
         | Inr sel0 \<Rightarrow>
             (case for_each (activate_selected m (resolve_fuel cat)) (cat_components cat)
                     \<lparr>rs_selected = sel0, rs_expanded = {}\<rparr> of
                Inl e \<Rightarrow> Inl e
              | Inr s \<Rightarrow>
                  (case for_each (check_exclusion m (rs_selected s)) (cat_components cat) (\<lambda>_. []) of
                     Inl e \<Rightarrow> Inl e
                   | Inr _ \<Rightarrow>
                       Inr (map cp_id (filter (\<lambda>c. cp_id c \<in> rs_selected s) (cat_components cat))))))"

section \<open>The rules of a catalog\<close>

definition valid_component_id :: "string \<Rightarrow> bool" where
  "valid_component_id s =
     (if length s = 0 \<or> length s > 128 \<or> \<not> (is_lower (hd s) \<or> is_digit (hd s)) then False
      else if \<not> list_all (\<lambda>b. is_lower b \<or> is_digit b \<or> b = CHR ''-'' \<or> b = CHR ''_'' \<or> b = CHR ''.'') s
      then False
      else \<not> contains_str s ''..'')"

definition check_reference ::
    "component gomap \<Rightarrow> component \<Rightarrow> requirement \<Rightarrow> string set \<Rightarrow> resolution_error + string set" where
  "check_reference m c r seen =
     (case m (rq_id r) of
        None \<Rightarrow> Inl (InvalidReference (cp_id c) (rq_id r))
      | Some other \<Rightarrow>
          if rq_id r \<in> seen \<or> rq_id r = cp_id c then Inl (InvalidReference (cp_id c) (rq_id r))
          else
            (case match_range (cp_version other) (rq_range r) of
               Inl e \<Rightarrow> Inl (InvalidRange (cp_id c) (rq_id r) e)
             | Inr _ \<Rightarrow> Inr (str_set_add seen (rq_id r))))"

definition check_component_rules :: "component gomap \<Rightarrow> component \<Rightarrow> resolution_error + unit" where
  "check_component_rules m c =
     (case parse_semver (cp_version c) of
        Inl e \<Rightarrow> Inl (InvalidVersion (cp_id c) e)
      | Inr _ \<Rightarrow>
          if cp_exclusive c \<noteq> [] \<and> \<not> valid_component_id (cp_exclusive c) then Inl (InvalidGroup (cp_id c))
          else if length (cp_dependencies c) > 64 \<or> length (cp_conflicts c) > 64
          then Inl (LimitExceeded (cp_id c))
          else
            (case for_each (check_reference m c) (cp_dependencies c) {} of
               Inl e \<Rightarrow> Inl e
             | Inr _ \<Rightarrow>
                 (case for_each (check_reference m c) (cp_conflicts c) {} of
                    Inl e \<Rightarrow> Inl e | Inr _ \<Rightarrow> Inr ())))"

text \<open>The part of the stack from the node met again, and that node: the cycle of the message.\<close>

definition cycle_error :: "string dfs_error \<Rightarrow> resolution_error" where
  "cycle_error e =
     (case e of
        Cycle st x \<Rightarrow> DependencyCycle x (dropWhile (\<lambda>y. y \<noteq> x) st @ [x])
      | Diverges \<Rightarrow> NotReturned)"

definition check_cycles :: "catalog \<Rightarrow> resolution_error + unit" where
  "check_cycles cat =
     (case dfs_all (dependency_ids (items_of (cat_components cat))) (resolve_fuel cat)
             (map cp_id (cat_components cat)) of
        Inl e \<Rightarrow> Inl (cycle_error e)
      | Inr _ \<Rightarrow> Inr ())"

definition check_preset :: "catalog \<Rightarrow> preset \<Rightarrow> resolution_error + unit" where
  "check_preset cat p =
     (case resolve_graph cat (ps_id p) of
        Inl e \<Rightarrow> Inl (UnresolvablePreset (ps_id p) e)
      | Inr _ \<Rightarrow> Inr ())"

definition validate_catalog_rules :: "catalog \<Rightarrow> resolution_error + unit" where
  "validate_catalog_rules cat =
     and_then (for_each (\<lambda>c _. check_component_rules (items_of (cat_components cat)) c) (cat_components cat) ())
    (and_then (check_cycles cat)
    (and_then (if cat_schema cat \<noteq> schema4 \<and> cat_schema cat \<noteq> schema5
               then (case resolve_graph cat [] of Inl e \<Rightarrow> Inl e | Inr _ \<Rightarrow> Inr ())
               else Inr ())
       (for_each (\<lambda>p _. check_preset cat p) (cat_presets cat) ())))"

section \<open>Components by identifier: lemmas\<close>

lemma dom_items: "dom (items_of cs) = set (map cp_id cs)"
  by (auto simp: items_of_def dom_map_of_conv_image_fst image_image)

lemma items_of_Some: "items_of cs i = Some c \<Longrightarrow> c \<in> set cs \<and> cp_id c = i"
  by (auto simp: items_of_def dest: map_of_SomeD)

lemma items_of_member:
  assumes "distinct (map cp_id cs)" "c \<in> set cs"
  shows "items_of cs (cp_id c) = Some c"
proof -
  have "distinct (map fst (rev (map (\<lambda>c. (cp_id c, c)) cs)))"
    using assms(1) by (simp add: rev_map [symmetric] comp_def)
  moreover have "(cp_id c, c) \<in> set (rev (map (\<lambda>c. (cp_id c, c)) cs))" using assms(2) by simp
  ultimately show ?thesis unfolding items_of_def by (rule map_of_is_SomeI)
qed

lemma dependencies_missing: "m i = None \<Longrightarrow> dependency_ids m i = []"
  by (simp add: dependency_ids_def item_def no_component_def)

lemma dependencies_foreign: "i \<notin> set (map cp_id cs) \<Longrightarrow> dependency_ids (items_of cs) i = []"
  using dom_items [of cs] dependencies_missing by (metis domIff)

definition deps_ok :: "component gomap \<Rightarrow> string \<Rightarrow> bool" where
  "deps_ok m i \<longleftrightarrow>
     (\<forall>d \<in> set (cp_dependencies (item m i)). match_range (cp_version (item m (rq_id d))) (rq_range d) = Inr True)"

abbreviation dep_edges :: "component gomap \<Rightarrow> (string \<times> string) set" where
  "dep_edges m \<equiv> edges (dependency_ids m)"

text \<open>A dependency whose range holds names a component: a version that does not exist does not parse.\<close>

lemma match_item_exists: "match_range (cp_version (item m i)) r = Inr b \<Longrightarrow> m i \<noteq> None"
  using match_range_no_version by (cases "m i") (auto simp: item_def no_component_def)

section \<open>Activation\<close>

definition act_ok :: "component gomap \<Rightarrow> resolve_state \<Rightarrow> bool" where
  "act_ok m s \<longleftrightarrow> rs_expanded s \<subseteq> rs_selected s \<and>
     (\<forall>x \<in> rs_expanded s. deps_ok m x \<and> set (dependency_ids m x) \<subseteq> rs_expanded s)"

definition grows :: "component gomap \<Rightarrow> string set \<Rightarrow> resolve_state \<Rightarrow> resolve_state \<Rightarrow> bool" where
  "grows m X s t \<longleftrightarrow> act_ok m t \<and> rs_selected s \<subseteq> rs_selected t \<and> rs_expanded s \<union> X \<subseteq> rs_expanded t \<and>
     rs_selected t \<subseteq> rs_selected s \<union> rs_expanded t"

lemma grows_refl: "act_ok m s \<Longrightarrow> X \<subseteq> rs_expanded s \<Longrightarrow> grows m X s s"
  by (simp add: grows_def)

lemma grows_trans: "grows m X s u \<Longrightarrow> grows m Y u t \<Longrightarrow> grows m (X \<union> Y) s t"
  by (auto simp: grows_def)

lemma grows_select: "grows m {x} (s\<lparr>rs_selected := insert x (rs_selected s)\<rparr>) t \<Longrightarrow> grows m {x} s t"
  by (auto simp: grows_def)

lemma act_ok_select: "act_ok m s \<Longrightarrow> act_ok m (s\<lparr>rs_selected := insert x (rs_selected s)\<rparr>)"
  by (auto simp: act_ok_def)

lemma activate_grows:
  "act_ok m s \<Longrightarrow> i \<in> rs_selected s \<Longrightarrow> activate m n i chain s = Inr t \<Longrightarrow> grows m {i} s t"
proof (induction n arbitrary: i chain s t)
  case 0
  then show ?case by (simp add: activate.simps)
next
  case (Suc n)
  then obtain c where c: "m i = Some c" by (auto simp: activate.simps split: option.splits)
  show ?case
  proof (cases "i \<in> rs_expanded s")
    case True
    then show ?thesis using Suc.prems c by (simp add: activate.simps grows_refl)
  next
    case False
    let ?body = "\<lambda>d s. case match_range (cp_version (item m (rq_id d))) (rq_range d) of
        Inl e \<Rightarrow> Inl (RangeFailed e)
      | Inr allowed \<Rightarrow>
          if \<not> allowed then Inl (VersionMismatch i (rq_id d) (chain @ [i]))
          else activate m n (rq_id d) (chain @ [i]) (s\<lparr>rs_selected := insert (rq_id d) (rs_selected s)\<rparr>)"
    obtain u where u: "for_each ?body (cp_dependencies c) s = Inr u"
      and t: "t = u\<lparr>rs_expanded := insert i (rs_expanded u)\<rparr>"
      using Suc.prems(3) c False by (auto simp: activate.simps split: sum.splits)
    have step: "match_range (cp_version (item m (rq_id d))) (rq_range d) = Inr True \<and> grows m {rq_id d} s v"
      if "act_ok m s" "?body d s = Inr v" for d s v
    proof -
      from that(2) have r: "match_range (cp_version (item m (rq_id d))) (rq_range d) = Inr True"
        and a: "activate m n (rq_id d) (chain @ [i]) (s\<lparr>rs_selected := insert (rq_id d) (rs_selected s)\<rparr>) = Inr v"
        by (auto split: sum.splits if_splits)
      show ?thesis
        using r grows_select [OF Suc.IH [OF act_ok_select [OF that(1)] _ a]] by simp
    qed
    have loop: "grows m (set (map rq_id ds)) s v \<and>
        (\<forall>d \<in> set ds. match_range (cp_version (item m (rq_id d))) (rq_range d) = Inr True)"
      if "act_ok m s" "for_each ?body ds s = Inr v" for ds s v
      using that
    proof (induction ds arbitrary: s)
      case Nil
      then show ?case by (simp add: grows_refl)
    next
      case (Cons d ds)
      obtain w where w: "?body d s = Inr w" "for_each ?body ds w = Inr v"
        using Cons.prems(2) by (auto split: sum.splits if_splits)
      have d: "match_range (cp_version (item m (rq_id d))) (rq_range d) = Inr True" "grows m {rq_id d} s w"
        using step [OF Cons.prems(1) w(1)] by blast+
      have "grows m (set (map rq_id ds)) w v \<and>
          (\<forall>d \<in> set ds. match_range (cp_version (item m (rq_id d))) (rq_range d) = Inr True)"
        using Cons.IH [OF _ w(2)] d(2) by (simp add: grows_def)
      then show ?case using d grows_trans [OF d(2)] by fastforce
    qed
    have "grows m (set (dependency_ids m i)) s u" "deps_ok m i"
      using loop [OF Suc.prems(1) u] c by (simp_all add: dependency_ids_def item_def deps_ok_def)
    then show ?thesis
      using Suc.prems(2) by (auto simp: grows_def act_ok_def t)
  qed
qed

text \<open>Activation stays inside any set closed under dependencies.\<close>

definition dep_closed :: "component gomap \<Rightarrow> string set \<Rightarrow> bool" where
  "dep_closed m K \<longleftrightarrow> (\<forall>x \<in> K. set (dependency_ids m x) \<subseteq> K)"

definition inside :: "string set \<Rightarrow> resolve_state \<Rightarrow> bool" where
  "inside K s \<longleftrightarrow> rs_selected s \<subseteq> K \<and> rs_expanded s \<subseteq> K"

lemma activate_inside:
  assumes K: "dep_closed m K"
  shows "inside K s \<Longrightarrow> i \<in> K \<Longrightarrow> activate m n i chain s = Inr t \<Longrightarrow> inside K t"
proof (induction n arbitrary: i chain s t)
  case 0
  then show ?case by (simp add: activate.simps)
next
  case (Suc n)
  then obtain c where c: "m i = Some c" by (auto simp: activate.simps split: option.splits)
  show ?case
  proof (cases "i \<in> rs_expanded s")
    case True
    then show ?thesis using Suc.prems c by (simp add: activate.simps)
  next
    case False
    let ?body = "\<lambda>d s. case match_range (cp_version (item m (rq_id d))) (rq_range d) of
        Inl e \<Rightarrow> Inl (RangeFailed e)
      | Inr allowed \<Rightarrow>
          if \<not> allowed then Inl (VersionMismatch i (rq_id d) (chain @ [i]))
          else activate m n (rq_id d) (chain @ [i]) (s\<lparr>rs_selected := insert (rq_id d) (rs_selected s)\<rparr>)"
    obtain u where u: "for_each ?body (cp_dependencies c) s = Inr u"
      and t: "t = u\<lparr>rs_expanded := insert i (rs_expanded u)\<rparr>"
      using Suc.prems(3) c False by (auto simp: activate.simps split: sum.splits)
    have deps: "set (map rq_id (cp_dependencies c)) \<subseteq> K"
      using bspec [OF K [unfolded dep_closed_def] Suc.prems(2)] c by (simp add: dependency_ids_def item_def)
    have "inside K u"
    proof (rule for_each_invariant [OF u])
      show "inside K s" by (rule Suc.prems)
      fix d s' v
      assume d: "d \<in> set (cp_dependencies c)" "inside K s'" "?body d s' = Inr v"
      then have a: "activate m n (rq_id d) (chain @ [i]) (s'\<lparr>rs_selected := insert (rq_id d) (rs_selected s')\<rparr>) = Inr v"
        by (auto split: sum.splits if_splits)
      have "rq_id d \<in> K" using d(1) deps by auto
      then show "inside K v"
        using Suc.IH [OF _ _ a] d(2) by (simp add: inside_def)
    qed
    then show ?thesis using Suc.prems(2) by (simp add: inside_def t)
  qed
qed

text \<open>On an acyclic graph activation returns, and it fails only on a dependency that does not hold.\<close>

lemma activate_total:
  assumes ac: "acyclic (dep_edges m)" and fin: "finite (dom m)"
  shows "m i \<noteq> None \<Longrightarrow> \<forall>c \<in> set chain. (c, i) \<in> (dep_edges m)\<^sup>+ \<Longrightarrow>
    card (dom m - set chain) < n \<Longrightarrow> activate m n i chain s = Inl e \<Longrightarrow>
    \<exists>x. (i, x) \<in> (dep_edges m)\<^sup>* \<and> \<not> deps_ok m x"
proof (induction n arbitrary: i chain s)
  case 0
  then show ?case by simp
next
  case (Suc n)
  then obtain c where c: "m i = Some c" by auto
  let ?body = "\<lambda>d s. case match_range (cp_version (item m (rq_id d))) (rq_range d) of
      Inl e \<Rightarrow> Inl (RangeFailed e)
    | Inr allowed \<Rightarrow>
        if \<not> allowed then Inl (VersionMismatch i (rq_id d) (chain @ [i]))
        else activate m n (rq_id d) (chain @ [i]) (s\<lparr>rs_selected := insert (rq_id d) (rs_selected s)\<rparr>)"
  have "for_each ?body (cp_dependencies c) s = Inl e"
    using Suc.prems(4) c by (cases "i \<in> rs_expanded s") (simp_all add: activate.simps)
  then obtain d u where d: "d \<in> set (cp_dependencies c)" "?body d u = Inl e"
    by (rule for_each_Inl)
  show ?case
  proof (cases "match_range (cp_version (item m (rq_id d))) (rq_range d) = Inr True")
    case False
    then have "\<not> deps_ok m i" using d(1) c by (auto simp: deps_ok_def item_def)
    then show ?thesis by blast
  next
    case True
    have edge: "(i, rq_id d) \<in> dep_edges m"
      using d(1) c by (auto simp: edges_def dependency_ids_def item_def)
    have notin: "i \<notin> set chain" using Suc.prems(2) ac by (auto simp: acyclic_def)
    have "dom m - set (chain @ [i]) \<subset> dom m - set chain" using notin c by auto
    then have "card (dom m - set (chain @ [i])) < card (dom m - set chain)"
      by (rule psubset_card_mono [rotated]) (simp add: fin)
    then have fuel: "card (dom m - set (chain @ [i])) < n" using Suc.prems(3) by linarith
    have "\<exists>x. (rq_id d, x) \<in> (dep_edges m)\<^sup>* \<and> \<not> deps_ok m x"
    proof (rule Suc.IH [OF match_item_exists [OF True] _ fuel])
      show "\<forall>c \<in> set (chain @ [i]). (c, rq_id d) \<in> (dep_edges m)\<^sup>+"
      proof
        fix c
        assume "c \<in> set (chain @ [i])"
        then consider "(c, i) \<in> (dep_edges m)\<^sup>+" | "c = i" using Suc.prems(2) by auto
        then show "(c, rq_id d) \<in> (dep_edges m)\<^sup>+"
          by cases (use edge in \<open>auto intro: trancl_into_trancl\<close>)
      qed
      show "activate m n (rq_id d) (chain @ [i]) (u\<lparr>rs_selected := insert (rq_id d) (rs_selected u)\<rparr>) = Inl e"
        using d(2) True by simp
    qed
    then show ?thesis using edge by (meson converse_rtrancl_into_rtrancl)
  qed
qed

section \<open>The selected set\<close>

lemma reach_closed: "x \<in> E\<^sup>* `` R \<Longrightarrow> (x, y) \<in> E \<Longrightarrow> y \<in> E\<^sup>* `` R"
  by (auto intro: rtrancl_into_rtrancl)

lemma activate_selected_inside:
  assumes K: "dep_closed m K"
    and "inside K s" "activate_selected m n c s = Inr t"
  shows "inside K t"
proof (cases "cp_id c \<in> rs_selected s")
  case True
  then have a: "activate m n (cp_id c) [] s = Inr t" using assms(3) by (simp add: activate_selected_def)
  have "cp_id c \<in> K" using True assms(2) by (auto simp: inside_def)
  then show ?thesis by (rule activate_inside [OF K assms(2) _ a])
next
  case False
  then show ?thesis using assms(2,3) by (simp add: activate_selected_def)
qed

lemma select_loop:
  assumes "for_each (activate_selected m n) cs s = Inr t" "act_ok m s"
  shows "act_ok m t \<and> rs_selected s \<subseteq> rs_selected t \<and> rs_selected t \<subseteq> rs_selected s \<union> rs_expanded t \<and>
    rs_expanded s \<subseteq> rs_expanded t \<and> rs_selected s \<inter> set (map cp_id cs) \<subseteq> rs_expanded t"
  using assms
proof (induction cs arbitrary: s)
  case Nil
  then show ?case by simp
next
  case (Cons c cs)
  then obtain u where u: "activate_selected m n c s = Inr u" "for_each (activate_selected m n) cs u = Inr t"
    by (auto split: sum.splits)
  have "grows m (rs_selected s \<inter> {cp_id c}) s u"
    using u(1) activate_grows [OF Cons.prems(2)] Cons.prems(2)
    by (auto simp: activate_selected_def grows_refl split: if_splits)
  then show ?case using Cons.IH [OF u(2)] by (auto simp: grows_def)
qed

text \<open>The loop selects exactly what the roots reach along the dependencies.\<close>

lemma selected_reach:
  assumes "for_each (activate_selected (items_of cs) n) cs \<lparr>rs_selected = R, rs_expanded = {}\<rparr> = Inr t"
  shows "rs_selected t = (dep_edges (items_of cs))\<^sup>* `` R"
    and "\<forall>x \<in> rs_selected t. deps_ok (items_of cs) x"
proof -
  let ?m = "items_of cs"
  let ?K = "(dep_edges ?m)\<^sup>* `` R"
  have ok: "act_ok ?m t" "R \<subseteq> rs_selected t" "rs_selected t \<subseteq> R \<union> rs_expanded t"
    "R \<inter> set (map cp_id cs) \<subseteq> rs_expanded t"
    using select_loop [OF assms] by (simp_all add: act_ok_def)
  have K: "dep_closed ?m ?K"
    unfolding dep_closed_def using reach_closed [of _ "dep_edges ?m" R] by (auto simp: edges_def)
  have "inside ?K t"
  proof (rule for_each_invariant [OF assms])
    show "inside ?K \<lparr>rs_selected = R, rs_expanded = {}\<rparr>" by (auto simp: inside_def)
    fix c s u
    assume "inside ?K s" "activate_selected ?m n c s = Inr u"
    then show "inside ?K u"
      by (rule activate_selected_inside [OF K])
  qed
  moreover have expanded: "x \<in> rs_expanded t" if "x \<in> rs_selected t" "?m x \<noteq> None" for x
  proof -
    have "x \<in> set (map cp_id cs)" using that(2) dom_items [of cs] by (metis domIff)
    then show ?thesis using that(1) ok(3,4) by blast
  qed
  have closed: "set (dependency_ids ?m x) \<subseteq> rs_selected t" if "x \<in> rs_selected t" for x
  proof (cases "?m x")
    case None
    then show ?thesis by (simp add: dependencies_missing)
  next
    case (Some c)
    then show ?thesis using expanded [OF that] ok(1) by (auto simp: act_ok_def)
  qed
  have "?K \<subseteq> rs_selected t"
  proof -
    have "y \<in> rs_selected t" if "(x, y) \<in> (dep_edges ?m)\<^sup>*" "x \<in> R" for x y
      using that
    proof (induction rule: rtrancl_induct)
      case base
      then show ?case using ok(2) by auto
    next
      case (step y z)
      then show ?case using closed by (auto simp: edges_def)
    qed
    then show ?thesis by auto
  qed
  ultimately show "rs_selected t = ?K" by (auto simp: inside_def)
  show "\<forall>x \<in> rs_selected t. deps_ok ?m x"
  proof
    fix x
    assume x: "x \<in> rs_selected t"
    show "deps_ok ?m x"
    proof (cases "?m x")
      case None
      then show ?thesis by (simp add: deps_ok_def item_def no_component_def)
    next
      case (Some c)
      then show ?thesis using expanded [OF x] ok(1) by (simp add: act_ok_def)
    qed
  qed
qed

lemma selected_exists:
  assumes ac: "acyclic (dep_edges (items_of cs))" and n: "length cs + 2 \<le> n"
    and deps: "\<forall>x \<in> (dep_edges (items_of cs))\<^sup>* `` R. deps_ok (items_of cs) x"
  shows "is_ok (for_each (activate_selected (items_of cs) n) cs \<lparr>rs_selected = R, rs_expanded = {}\<rparr>)"
proof -
  let ?m = "items_of cs"
  let ?K = "(dep_edges ?m)\<^sup>* `` R"
  have K: "dep_closed ?m ?K"
    unfolding dep_closed_def using reach_closed [of _ "dep_edges ?m" R] by (auto simp: edges_def)
  have fin: "finite (dom ?m)" by (simp add: dom_items)
  have size: "card (dom ?m - set []) < n"
    using card_length [of "map cp_id cs"] n by (simp add: dom_items)
  have "is_ok (for_each (activate_selected ?m n) ds s)" if "inside ?K s" "set ds \<subseteq> set cs" for ds s
    using that
  proof (induction ds arbitrary: s)
    case Nil
    show ?case by simp
  next
    case (Cons c ds)
    show ?case
    proof (cases "activate_selected ?m n c s")
      case (Inl e)
      then have sel: "cp_id c \<in> rs_selected s" and a: "activate ?m n (cp_id c) [] s = Inl e"
        by (auto simp: activate_selected_def split: if_splits)
      have "?m (cp_id c) \<noteq> None" using dom_items [of cs] Cons.prems(2) by (auto simp: dom_def)
      then obtain x where "(cp_id c, x) \<in> (dep_edges ?m)\<^sup>*" "\<not> deps_ok ?m x"
        using activate_total [OF ac fin _ _ size a] by auto
      moreover have "cp_id c \<in> ?K" using sel Cons.prems(1) by (auto simp: inside_def)
      ultimately have False using deps by (auto intro: rtrancl_trans)
      then show ?thesis ..
    next
      case (Inr u)
      then have "inside ?K u"
        by (rule activate_selected_inside [OF K Cons.prems(1)])
      then show ?thesis using Cons Inr by simp
    qed
  qed
  moreover have "inside ?K \<lparr>rs_selected = R, rs_expanded = {}\<rparr>" by (auto simp: inside_def)
  ultimately show ?thesis by blast
qed

section \<open>Exclusion and conflicts\<close>

definition no_conflict :: "component gomap \<Rightarrow> string set \<Rightarrow> component \<Rightarrow> bool" where
  "no_conflict m sel c \<longleftrightarrow>
     (\<forall>k \<in> set (cp_conflicts c). rq_id k \<in> sel \<longrightarrow>
        match_range (cp_version (item m (rq_id k))) (rq_range k) \<noteq> Inr True)"

definition exclusive_groups :: "component list \<Rightarrow> string list" where
  "exclusive_groups cs = filter (\<lambda>g. g \<noteq> []) (map cp_exclusive cs)"

lemma check_conflict_Inr:
  "check_conflict m sel c k = Inr () \<longleftrightarrow>
     (rq_id k \<in> sel \<longrightarrow> match_range (cp_version (item m (rq_id k))) (rq_range k) \<noteq> Inr True)"
  by (auto simp: check_conflict_def split: sum.splits bool.splits)

lemma conflict_loop:
  "for_each (\<lambda>k _. check_conflict m sel c k) (cp_conflicts c) () = Inr () \<longleftrightarrow> no_conflict m sel c"
  by (simp add: for_each_unit_Inr check_conflict_Inr no_conflict_def)

lemma check_exclusion_Inr:
  assumes "cp_id c \<in> sel"
  shows "check_exclusion m sel c g = Inr h \<longleftrightarrow>
    no_conflict m sel c \<and> (cp_exclusive c \<noteq> [] \<longrightarrow> g (cp_exclusive c) = []) \<and>
    h = (if cp_exclusive c \<noteq> [] then g(cp_exclusive c := cp_id c) else g)"
  using assms unfolding conflict_loop [symmetric] check_exclusion_def
  by (auto split: sum.split)

lemma exclusion_loop:
  assumes "\<forall>c \<in> set cs. cp_id c \<in> sel \<and> cp_id c \<noteq> []"
  shows "is_ok (for_each (check_exclusion m sel) cs g) \<longleftrightarrow>
    (\<forall>c \<in> set cs. no_conflict m sel c) \<and> distinct (exclusive_groups cs) \<and>
    (\<forall>x \<in> set (exclusive_groups cs). g x = [])"
  using assms
proof (induction cs arbitrary: g)
  case Nil
  show ?case by (simp add: exclusive_groups_def)
next
  case (Cons c cs)
  have sel: "cp_id c \<in> sel" "cp_id c \<noteq> []" using Cons.prems by auto
  show ?case
  proof (cases "check_exclusion m sel c g")
    case (Inl e)
    then have "\<not> (no_conflict m sel c \<and> (cp_exclusive c \<noteq> [] \<longrightarrow> g (cp_exclusive c) = []))"
      using check_exclusion_Inr [OF sel(1), of m g] by auto
    then show ?thesis by (auto simp: Inl exclusive_groups_def)
  next
    case (Inr h)
    then have c: "no_conflict m sel c" "cp_exclusive c \<noteq> [] \<longrightarrow> g (cp_exclusive c) = []"
      and h: "h = (if cp_exclusive c \<noteq> [] then g(cp_exclusive c := cp_id c) else g)"
      by (simp_all add: check_exclusion_Inr [OF sel(1)])
    have "is_ok (for_each (check_exclusion m sel) (c # cs) g) = is_ok (for_each (check_exclusion m sel) cs h)"
      by (simp add: Inr)
    also have "\<dots> \<longleftrightarrow> (\<forall>c \<in> set cs. no_conflict m sel c) \<and> distinct (exclusive_groups cs) \<and>
        (\<forall>x \<in> set (exclusive_groups cs). h x = [])"
      using Cons by simp
    also have "\<dots> \<longleftrightarrow> (\<forall>c \<in> set (c # cs). no_conflict m sel c) \<and> distinct (exclusive_groups (c # cs)) \<and>
        (\<forall>x \<in> set (exclusive_groups (c # cs)). g x = [])"
    proof (cases "cp_exclusive c = []")
      case True
      then show ?thesis using c h by (simp add: exclusive_groups_def)
    next
      case False
      then have "(\<forall>x \<in> S. h x = []) \<longleftrightarrow> cp_exclusive c \<notin> S \<and> (\<forall>x \<in> S. g x = [])" for S
        using c h sel(2) by auto
      then show ?thesis using False c by (simp add: exclusive_groups_def) blast
    qed
    finally show ?thesis .
  qed
qed

section \<open>Resolution, exactly\<close>

definition picked :: "catalog \<Rightarrow> string set \<Rightarrow> component list" where
  "picked cat S = filter (\<lambda>c. cp_id c \<in> S) (cat_components cat)"

text \<open>What it means that a set of components can be installed together.\<close>

definition consistent :: "catalog \<Rightarrow> string set \<Rightarrow> bool" where
  "consistent cat S \<longleftrightarrow>
     (\<forall>x \<in> S. deps_ok (items_of (cat_components cat)) x) \<and>
     (\<forall>c \<in> set (picked cat S). no_conflict (items_of (cat_components cat)) S c) \<and>
     distinct (exclusive_groups (picked cat S))"

definition reach :: "catalog \<Rightarrow> string set \<Rightarrow> string set" where
  "reach cat R = (dep_edges (items_of (cat_components cat)))\<^sup>* `` R"

lemma exclusion_picked:
  assumes "\<forall>c \<in> set (cat_components cat). cp_id c \<noteq> []"
  shows "is_ok (for_each (check_exclusion m S) (cat_components cat) (\<lambda>_. [])) \<longleftrightarrow>
    (\<forall>c \<in> set (picked cat S). no_conflict m S c) \<and> distinct (exclusive_groups (picked cat S))"
proof -
  have "for_each (check_exclusion m S) (cat_components cat) g = for_each (check_exclusion m S) (picked cat S) g" for g
    unfolding picked_def by (rule for_each_filter) (simp add: check_exclusion_def)
  moreover have "\<forall>c \<in> set (picked cat S). cp_id c \<in> S \<and> cp_id c \<noteq> []"
    using assms by (simp add: picked_def)
  ultimately show ?thesis by (simp add: exclusion_loop)
qed

text \<open>Whatever the catalog, what is returned is right.\<close>

lemma resolve_graph_sound:
  assumes "resolve_graph cat preset = Inr ids" "\<forall>c \<in> set (cat_components cat). cp_id c \<noteq> []"
  obtains R where "initial_selection cat preset = Inr R" "consistent cat (reach cat R)"
    "ids = map cp_id (picked cat (reach cat R))"
proof -
  let ?m = "items_of (cat_components cat)"
  obtain R s g where R: "initial_selection cat preset = Inr R"
    and s: "for_each (activate_selected ?m (resolve_fuel cat)) (cat_components cat)
        \<lparr>rs_selected = R, rs_expanded = {}\<rparr> = Inr s"
    and g: "for_each (check_exclusion ?m (rs_selected s)) (cat_components cat) (\<lambda>_. []) = Inr g"
    and ids: "ids = map cp_id (picked cat (rs_selected s))"
    using assms(1) by (auto simp: resolve_graph_def Let_def picked_def split: sum.splits)
  have sel: "rs_selected s = reach cat R" "\<forall>x \<in> reach cat R. deps_ok ?m x"
    using selected_reach [OF s] by (simp_all add: reach_def)
  have "is_ok (for_each (check_exclusion ?m (reach cat R)) (cat_components cat) (\<lambda>_. []))"
    using g by (simp add: sel(1))
  then have "consistent cat (reach cat R)"
    using sel(2) by (simp add: exclusion_picked [OF assms(2)] consistent_def)
  then show ?thesis using that R ids sel(1) by simp
qed

lemma resolve_graph_complete:
  assumes "acyclic (dep_edges (items_of (cat_components cat)))" "\<forall>c \<in> set (cat_components cat). cp_id c \<noteq> []"
    and "initial_selection cat preset = Inr R" "consistent cat (reach cat R)"
  shows "resolve_graph cat preset = Inr (map cp_id (picked cat (reach cat R)))"
proof -
  let ?m = "items_of (cat_components cat)"
  obtain s where s: "for_each (activate_selected ?m (resolve_fuel cat)) (cat_components cat)
        \<lparr>rs_selected = R, rs_expanded = {}\<rparr> = Inr s"
    using selected_exists [OF assms(1), of "resolve_fuel cat" R] assms(4)
    by (auto simp: is_ok_iff resolve_fuel_def consistent_def reach_def)
  have sel: "rs_selected s = reach cat R" using selected_reach(1) [OF s] by (simp add: reach_def)
  obtain g where "for_each (check_exclusion ?m (reach cat R)) (cat_components cat) (\<lambda>_. []) = Inr g"
    using assms(4) exclusion_picked [OF assms(2), of ?m "reach cat R"] by (auto simp: consistent_def is_ok_iff)
  then show ?thesis
    by (simp add: resolve_graph_def Let_def assms(3) s sel picked_def)
qed

section \<open>The cycle check\<close>

lemma check_cycles_iff: "check_cycles cat = Inr () \<longleftrightarrow> acyclic (dep_edges (items_of (cat_components cat)))"
proof -
  let ?m = "items_of (cat_components cat)"
  have fuel: "length (map cp_id (cat_components cat)) + 2 \<le> resolve_fuel cat"
    by (simp add: resolve_fuel_def)
  have "is_ok (dfs_all (dependency_ids ?m) (resolve_fuel cat) (map cp_id (cat_components cat))) \<longleftrightarrow>
      acyclic (dep_edges ?m)"
    by (rule dfs_all_decides [OF dependencies_foreign fuel])
  then show ?thesis
    by (auto simp: check_cycles_def split: sum.split)
qed

text \<open>On an acyclic graph the recursion of \<^const>\<open>activate\<close> returns, even when it fails.\<close>

lemma activate_returns:
  assumes ac: "acyclic (dep_edges m)" and fin: "finite (dom m)"
  shows "\<forall>c \<in> set chain. (c, i) \<in> (dep_edges m)\<^sup>+ \<Longrightarrow> card (dom m - set chain) < n \<Longrightarrow>
    activate m n i chain s \<noteq> Inl NotReturned"
proof (induction n arbitrary: i chain s)
  case 0
  then show ?case by simp
next
  case (Suc n)
  show ?case
  proof (cases "m i")
    case None
    then show ?thesis by (simp add: activate.simps)
  next
    case (Some c)
    let ?body = "\<lambda>d s. case match_range (cp_version (item m (rq_id d))) (rq_range d) of
        Inl e \<Rightarrow> Inl (RangeFailed e)
      | Inr allowed \<Rightarrow>
          if \<not> allowed then Inl (VersionMismatch i (rq_id d) (chain @ [i]))
          else activate m n (rq_id d) (chain @ [i]) (s\<lparr>rs_selected := insert (rq_id d) (rs_selected s)\<rparr>)"
    have "for_each ?body (cp_dependencies c) s \<noteq> Inl NotReturned"
    proof
      assume "for_each ?body (cp_dependencies c) s = Inl NotReturned"
      then obtain d u where d: "d \<in> set (cp_dependencies c)" "?body d u = Inl NotReturned"
        by (rule for_each_Inl)
      then have a: "activate m n (rq_id d) (chain @ [i]) (u\<lparr>rs_selected := insert (rq_id d) (rs_selected u)\<rparr>) = Inl NotReturned"
        by (auto split: sum.splits if_splits)
      have edge: "(i, rq_id d) \<in> dep_edges m"
        using d(1) Some by (auto simp: edges_def dependency_ids_def item_def)
      have "i \<notin> set chain" using Suc.prems(1) ac by (auto simp: acyclic_def)
      then have "dom m - set (chain @ [i]) \<subset> dom m - set chain" using Some by auto
      then have "card (dom m - set (chain @ [i])) < card (dom m - set chain)"
        by (rule psubset_card_mono [rotated]) (simp add: fin)
      then have fuel: "card (dom m - set (chain @ [i])) < n" using Suc.prems(2) by linarith
      have "\<forall>c \<in> set (chain @ [i]). (c, rq_id d) \<in> (dep_edges m)\<^sup>+"
        using Suc.prems(1) edge by (simp add: r_into_trancl trancl_into_trancl [OF _ edge])
      from Suc.IH [OF this fuel] a show False by blast
    qed
    then show ?thesis using Some by (simp add: activate.simps split: sum.split)
  qed
qed

lemma check_exclusion_returns: "check_exclusion m sel c g \<noteq> Inl NotReturned"
proof
  assume "check_exclusion m sel c g = Inl NotReturned"
  then have "for_each (\<lambda>k _. check_conflict m sel c k) (cp_conflicts c) () = Inl NotReturned"
    by (auto simp: check_exclusion_def split: if_splits sum.splits)
  then obtain k where "check_conflict m sel c k = Inl NotReturned" by (rule for_each_Inl)
  then show False by (auto simp: check_conflict_def split: if_splits sum.splits bool.splits)
qed

lemma resolve_graph_returns:
  assumes "acyclic (dep_edges (items_of (cat_components cat)))"
  shows "resolve_graph cat preset \<noteq> Inl NotReturned"
proof
  let ?m = "items_of (cat_components cat)"
  assume a: "resolve_graph cat preset = Inl NotReturned"
  have init: "initial_selection cat preset \<noteq> Inl NotReturned"
    by (auto simp: initial_selection_def Let_def split: option.splits if_splits)
  have size: "card (dom ?m - set []) < resolve_fuel cat"
    using card_length [of "map cp_id (cat_components cat)"] by (simp add: dom_items resolve_fuel_def)
  have act: "activate_selected ?m (resolve_fuel cat) c s \<noteq> Inl NotReturned" for c s
    using activate_returns [OF assms, of "[]"] size by (simp add: activate_selected_def dom_items)
  have "for_each (activate_selected ?m (resolve_fuel cat)) (cat_components cat) s \<noteq> Inl NotReturned" for s
    using act by (metis for_each_Inl)
  moreover have "for_each (check_exclusion ?m sel) (cat_components cat) g \<noteq> Inl NotReturned" for sel g
    using check_exclusion_returns by (metis for_each_Inl)
  ultimately show False
    using a init by (auto simp: resolve_graph_def Let_def split: sum.splits)
qed

section \<open>Properties\<close>

text \<open>C1: The resolver computes exactly the least set that contains the preset (or the defaults) and the required
  components and is closed under dependencies: on an acyclic catalog it returns the identifiers of the
  reachable components, in catalog order, if and only if the preset is known and the reachable set is
  consistent, that is every dependency's range holds, no exclusive group has two members in it and no
  conflict range holds; in every other case it returns an error.\<close>
theorem resolve_graph_exact:
  assumes "check_cycles cat = Inr ()" "\<forall>c \<in> set (cat_components cat). cp_id c \<noteq> []"
  shows "resolve_graph cat preset = Inr ids \<longleftrightarrow>
    (\<exists>R. initial_selection cat preset = Inr R \<and> consistent cat (reach cat R) \<and>
         ids = map cp_id (picked cat (reach cat R)))"
proof
  assume "resolve_graph cat preset = Inr ids"
  then show "\<exists>R. initial_selection cat preset = Inr R \<and> consistent cat (reach cat R) \<and>
      ids = map cp_id (picked cat (reach cat R))"
    by (rule resolve_graph_sound [OF _ assms(2)]) blast
next
  assume "\<exists>R. initial_selection cat preset = Inr R \<and> consistent cat (reach cat R) \<and>
      ids = map cp_id (picked cat (reach cat R))"
  then show "resolve_graph cat preset = Inr ids"
    using resolve_graph_complete assms by (auto simp: check_cycles_iff)
qed

definition bare_component :: "string \<Rightarrow> string \<Rightarrow> requirement list \<Rightarrow> requirement list \<Rightarrow> component" where
  "bare_component i v ds ks =
     no_component\<lparr>cp_id := i, cp_name := i, cp_version := v, cp_dependencies := ds, cp_conflicts := ks,
       cp_visible := Some True\<rparr>"

definition resolver_sample :: catalog where
  "resolver_sample = (sample_catalog [] 1)\<lparr>cat_schema := schema3, cat_components :=
     [bare_component ''lib'' ''1.4.0'' [] [],
      bare_component ''map'' ''2.0.0'' [\<lparr>rq_id = ''lib'', rq_range = ''^1.2.0''\<rparr>] [],
      bare_component ''old'' ''0.9.0'' [] [\<lparr>rq_id = ''lib'', rq_range = ''>=1.0.0''\<rparr>]],
     cat_presets := [\<lparr>ps_id = ''full'', ps_name = ''Full'', ps_description = [], ps_components = [''map'']\<rparr>]\<rparr>"

lemma resolver_sample_runs:
  "check_cycles resolver_sample = Inr ()"
  "resolve_graph resolver_sample ''full'' = Inr [''lib'', ''map'']"
  "validate_catalog_rules resolver_sample = Inr ()"
  by code_simp+

theorem resolve_graph_exact_witness:
  "\<exists>R. initial_selection resolver_sample ''full'' = Inr R \<and> consistent resolver_sample (reach resolver_sample R)"
proof -
  have "\<forall>c \<in> set (cat_components resolver_sample). cp_id c \<noteq> []"
    by (simp add: resolver_sample_def bare_component_def)
  then show ?thesis
    using resolve_graph_exact [OF resolver_sample_runs(1), of "''full''" "[''lib'', ''map'']"]
      resolver_sample_runs(2) by auto
qed

text \<open>C39: The search for dependency cycles is exact on every catalog: it always returns, it accepts if and only if
  the dependency graph is acyclic, and the component it names in an error lies on a cycle.\<close>
theorem cycle_check_exact:
  "(check_cycles cat = Inr () \<longleftrightarrow> acyclic (dep_edges (items_of (cat_components cat)))) \<and>
   (check_cycles cat = Inr () \<or>
    (\<exists>x p. check_cycles cat = Inl (DependencyCycle x p) \<and> (x, x) \<in> (dep_edges (items_of (cat_components cat)))\<^sup>+))"
proof -
  let ?m = "items_of (cat_components cat)"
  let ?d = "dfs_all (dependency_ids ?m) (resolve_fuel cat) (map cp_id (cat_components cat))"
  have "?d \<noteq> Inl Diverges"
  proof (rule dfs_all_fuel [of "dom ?m"])
    show "card (dom ?m) + 2 \<le> resolve_fuel cat"
      using card_length [of "map cp_id (cat_components cat)"] by (simp add: dom_items resolve_fuel_def)
  qed (use dependencies_foreign in \<open>auto simp: dom_items\<close>)
  then have "check_cycles cat = Inr () \<or>
      (\<exists>x p. check_cycles cat = Inl (DependencyCycle x p) \<and> (x, x) \<in> (dep_edges ?m)\<^sup>+)"
    using dfs_all_cycle [of "dependency_ids ?m"]
    by (auto simp: check_cycles_def cycle_error_def split: sum.split dfs_error.split)
  then show ?thesis using check_cycles_iff by blast
qed

text \<open>Resolution always returns on a catalog that passed the cycle check: the recursion of the resolver
  never runs away, whatever the preset and whether or not the resolution succeeds.\<close>
lemma resolution_returns:
  assumes "check_cycles cat = Inr ()"
  shows "resolve_graph cat preset \<noteq> Inl NotReturned"
  using assms by (simp add: check_cycles_iff resolve_graph_returns)

end
