(* ===== verification/Manifest.thy ===== *)
theory Manifest
  imports Catalog
begin

text \<open>
  The release manifest (\<^verbatim>\<open>model/model.go\<close>, \<^verbatim>\<open>model/file_ownership.go\<close>, \<^verbatim>\<open>model/profile_schema.go\<close>): the data
  that the validators of the following theories read.  Go's \<^verbatim>\<open>int\<close> and \<^verbatim>\<open>int64\<close> fields are \<^typ>\<open>int\<close>s;
  the models that compute with them state the bounds that exclude a wrap-around.  The map \<^verbatim>\<open>Features\<close> and
  the field \<^verbatim>\<open>Directories\<close> are read by no modelled code and are left out.
\<close>

section \<open>Data\<close>

record minecraft_info =
  mc_version :: string
  mc_loader :: string
  mc_loader_version :: string
  mc_main_class :: string
  mc_game_args :: "string list"

record java_info =
  jv_major :: int
  jv_min :: int
  jv_rec :: int
  jv_max :: int
  jv_distribution :: string
  jv_custom_path :: bool

record memory_info =
  mem_min :: int
  mem_rec :: int
  mem_max :: int

record runtime_launch =
  rl_main_class :: string
  rl_strategy :: string
  rl_natives_dir :: string
  rl_metadata_path :: string
  rl_classpath :: "string list"
  rl_modulepath :: "string list"
  rl_main_module :: string
  rl_env :: "string list"
  rl_offline :: bool

record runtime_info =
  rt_java :: java_info
  rt_jvm_args :: "string list"
  rt_memory :: memory_info
  rt_launch :: runtime_launch

record manifest_file =
  mf_path :: string
  mf_size :: int
  mf_sha256 :: string
  mf_url :: string
  mf_mirrors :: "string list"
  mf_required :: bool
  mf_executable :: bool
  mf_target_os :: "string list"
  mf_ownership :: string

record file_rule =
  fr_pattern :: string
  fr_action :: string
  fr_ownership :: string

record profile_spec =
  sp_project :: string
  sp_id :: string
  sp_name :: string
  sp_description :: string
  sp_loader :: string
  sp_minecraft :: string
  sp_loader_version :: string
  sp_java :: int
  sp_preset :: string
  sp_default :: bool

record profile_snapshot =
  sn_schema :: string
  sn_revision :: int
  sn_digest :: string
  sn_spec :: profile_spec

record rollback_source =
  rb_version :: string
  rb_sha256 :: string
  rb_generation :: u64

record signature_info =
  sg_algorithm :: string
  sg_public_key :: string
  sg_signature :: string
  sg_signed_at :: string

record manifest =
  mn_schema :: string
  mn_project :: string
  mn_profile :: string
  mn_channel :: string
  mn_version :: string
  mn_generation :: u64
  mn_trust_epoch :: u64
  mn_rollback :: "rollback_source option"
  mn_minecraft :: minecraft_info
  mn_runtime :: runtime_info
  mn_files :: "manifest_file list"
  mn_rules :: "file_rule list"
  mn_snapshot :: "profile_snapshot option"
  mn_catalog :: "catalog option"
  mn_created :: string
  mn_signature :: "signature_info option"

definition manifest_schema2 :: string where "manifest_schema2 = ''2.0''"
definition manifest_schema3 :: string where "manifest_schema3 = ''3.0''"

section \<open>Hexadecimal text\<close>

definition hex_value :: "char \<Rightarrow> int option" where
  "hex_value c =
     (if is_digit c then Some (of_char c - 48)
      else if byte_in (CHR ''a'') c (CHR ''f'') then Some (of_char c - 87)
      else if byte_in (CHR ''A'') c (CHR ''F'') then Some (of_char c - 55)
      else None)"

fun hex_decode :: "string \<Rightarrow> string option" where \<comment> \<open>\<^verbatim>\<open>hex.DecodeString\<close>\<close>
  "hex_decode [] = Some []"
| "hex_decode [c] = None"
| "hex_decode (a # b # s) =
     (case (hex_value a, hex_value b, hex_decode s) of
        (Some x, Some y, Some r) \<Rightarrow> Some (char_of (16 * x + y) # r)
      | _ \<Rightarrow> None)"

lemma hex_decode_length: "hex_decode s = Some d \<Longrightarrow> length s = 2 * length d"
  by (induction s arbitrary: d rule: hex_decode.induct) (auto split: option.splits)

lemma hex_decode_digits: "hex_decode s = Some d \<Longrightarrow> c \<in> set s \<Longrightarrow> hex_value c \<noteq> None"
  by (induction s arbitrary: d rule: hex_decode.induct) (auto split: option.splits)

section \<open>Zero values, and sample data for concrete evaluations\<close>

definition no_minecraft :: minecraft_info where
  "no_minecraft = \<lparr>mc_version = [], mc_loader = [], mc_loader_version = [], mc_main_class = [], mc_game_args = []\<rparr>"

definition no_runtime :: runtime_info where
  "no_runtime =
     \<lparr>rt_java = \<lparr>jv_major = 0, jv_min = 0, jv_rec = 0, jv_max = 0, jv_distribution = [], jv_custom_path = False\<rparr>,
      rt_jvm_args = [], rt_memory = \<lparr>mem_min = 0, mem_rec = 0, mem_max = 0\<rparr>,
      rt_launch = \<lparr>rl_main_class = [], rl_strategy = [], rl_natives_dir = [], rl_metadata_path = [],
        rl_classpath = [], rl_modulepath = [], rl_main_module = [], rl_env = [], rl_offline = False\<rparr>\<rparr>"

definition no_manifest :: manifest where
  "no_manifest =
     \<lparr>mn_schema = [], mn_project = [], mn_profile = [], mn_channel = [], mn_version = [], mn_generation = 0,
      mn_trust_epoch = 0, mn_rollback = None, mn_minecraft = no_minecraft, mn_runtime = no_runtime, mn_files = [],
      mn_rules = [], mn_snapshot = None, mn_catalog = None, mn_created = [], mn_signature = None\<rparr>"

definition sample_file :: "string \<Rightarrow> manifest_file" where
  "sample_file p = \<lparr>mf_path = p, mf_size = 1, mf_sha256 = replicate 64 (CHR ''a''), mf_url = ''https://cdn/f'',
     mf_mirrors = [], mf_required = True, mf_executable = False, mf_target_os = [], mf_ownership = []\<rparr>"

definition sample_manifest :: "string \<Rightarrow> manifest_file list \<Rightarrow> file_rule list \<Rightarrow> catalog option \<Rightarrow> manifest" where
  "sample_manifest v fs rs c =
     no_manifest\<lparr>mn_schema := v, mn_project := ''p'', mn_profile := ''q'', mn_channel := ''stable'', mn_version := ''1'',
       mn_generation := 1, mn_files := fs, mn_rules := rs, mn_catalog := c\<rparr>"

end
