(* ===== verification/FilePolicy.thy ===== *)
theory FilePolicy
  imports Manifest
begin

text \<open>
  The file ownership policy of a manifest (\<^verbatim>\<open>model/file_ownership.go\<close>): which files the updater may touch,
  the include, exclude and verify rules, and the stricter check at publication.  The case tables of Unicode
  are the parameter \<open>U\<close>, the URL parser of \<^verbatim>\<open>net/url\<close> is the parameter \<open>parse_url\<close>.
\<close>

section \<open>Ownership and patterns\<close>

definition valid_ownership :: "string \<Rightarrow> bool" where
  "valid_ownership s =
     List.member [''managed'', ''required'', ''optional'', ''user-owned'', ''generated''] s"

definition file_ownership :: "manifest_file \<Rightarrow> string" where
  "file_ownership f =
     (if mf_ownership f \<noteq> [] then mf_ownership f
      else if mf_required f then ''required'' else ''optional'')"

definition protected_names :: "string list" where
  "protected_names = [''options.txt'', ''optionsof.txt'', ''servers.dat'', ''usercache.json'']"

definition protected_dirs :: "string list" where
  "protected_dirs =
     [''saves/'', ''screenshots/'', ''resourcepacks/'', ''shaderpacks/'', ''config/'', ''logs/'',
      ''crash-reports/'', ''diagnostics/'', ''.launcher/'', ''.launcher-quarantine/'']"

definition protected_path :: "unicode \<Rightarrow> string \<Rightarrow> bool" where
  "protected_path U p =
     (let s = to_lower U p
      in List.member protected_names s \<or>
         list_ex (\<lambda>d. has_prefix s d \<or> trim_suffix d ''/'' = s) protected_dirs)"

definition valid_policy_path :: "string \<Rightarrow> bool \<Rightarrow> bool" where
  "valid_policy_path s pattern =
     (if s = [] \<or> contains_any s [CHR 0x5C, CHR 0x00, CHR 0x0D, CHR 0x0A] \<or> has_prefix s ''/'' \<or>
         path_clean s \<noteq> s \<or> s = ''.'' \<or> s = ''..'' \<or> has_prefix s ''../'' \<or> contains_str s '':''
      then False
      else if list_ex (\<lambda>g. g = [] \<or> g = ''.'' \<or> g = ''..'') (split_char (CHR ''/'') s) then False
      else if pattern then
        \<not> (count_list s (CHR ''*'') > 0 \<and>
           (\<not> has_suffix s ''/**'' \<or> count_list s (CHR ''*'') \<noteq> 2))
      else \<not> contains_any s ''*?[]'')"

definition pattern_match :: "string \<Rightarrow> string \<Rightarrow> bool" where
  "pattern_match pt p =
     (if has_suffix pt ''/**'' then
        (let b = trim_suffix pt ''/**'' in p = b \<or> has_prefix p (b @ ''/''))
      else pt = p)"

definition patterns_overlap :: "string \<Rightarrow> string \<Rightarrow> bool" where
  "patterns_overlap a b =
     (pattern_match a (trim_suffix b ''/**'') \<or> pattern_match b (trim_suffix a ''/**''))"

section \<open>Validation\<close>

datatype file_error =
    UnsafePath string
  | RepeatedPath string
  | BadOwnership string
  | RequiredUserFile string
  | ContradictoryOwnership string
  | ProtectedManaged string
  | BadRule nat
  | BadAction string
  | IncludeMustManage
  | ExcludeMustProtect
  | VerifyUserFile
  | IncludeProtected string
  | OverlappingRules string string
  | ExcludedManaged string
  | IncludeUserFile string
  | IncompleteFile string
  | BadSha256 string
  | BadUrl string

definition user_side :: "string \<Rightarrow> bool" where
  "user_side own \<longleftrightarrow> own = ''user-owned'' \<or> own = ''generated''"

text \<open>The body of the loop over the files; the state is the set of the keys seen.\<close>

definition check_file :: "unicode \<Rightarrow> manifest_file \<Rightarrow> string set \<Rightarrow> file_error + string set" where
  "check_file U f seen =
     (if \<not> valid_policy_path (mf_path f) False then Inl (UnsafePath (mf_path f))
      else
        (let key = to_lower U (mf_path f);
             own = file_ownership f
         in if key \<in> seen then Inl (RepeatedPath (mf_path f))
            else if \<not> valid_ownership own then Inl (BadOwnership own)
            else if user_side own \<and> mf_required f then Inl (RequiredUserFile (mf_path f))
            else if mf_ownership f \<noteq> [] \<and>
              (own = ''required'' \<and> \<not> mf_required f \<or> own = ''optional'' \<and> mf_required f)
            then Inl (ContradictoryOwnership (mf_path f))
            else if protected_path U (mf_path f) \<and> own \<noteq> ''user-owned'' \<and> own \<noteq> ''generated''
            then Inl (ProtectedManaged (mf_path f))
            else Inr (str_set_add seen key)))"

definition check_rule_file :: "file_rule \<Rightarrow> manifest_file \<Rightarrow> file_error + unit" where
  "check_rule_file r f =
     (if pattern_match (fr_pattern r) (mf_path f) then
        if fr_action r = ''exclude'' \<and> \<not> user_side (file_ownership f) then Inl (ExcludedManaged (mf_path f))
        else if fr_action r = ''include'' \<and> user_side (file_ownership f) then Inl (IncludeUserFile (mf_path f))
        else Inr ()
      else Inr ())"

definition check_rule ::
    "unicode \<Rightarrow> file_rule list \<Rightarrow> manifest_file list \<Rightarrow> nat \<Rightarrow> file_rule \<Rightarrow> file_error + unit" where
  "check_rule U rules fs i r =
     (if \<not> valid_policy_path (fr_pattern r) True \<or> \<not> valid_ownership (fr_ownership r) then Inl (BadRule i)
      else if fr_action r \<noteq> ''include'' \<and> fr_action r \<noteq> ''exclude'' \<and> fr_action r \<noteq> ''verify''
      then Inl (BadAction (fr_action r))
      else if fr_action r = ''include'' \<and> fr_ownership r \<noteq> ''managed'' \<and> fr_ownership r \<noteq> ''required''
      then Inl IncludeMustManage
      else if fr_action r = ''exclude'' \<and> \<not> user_side (fr_ownership r) then Inl ExcludeMustProtect
      else if fr_action r = ''verify'' \<and> user_side (fr_ownership r) then Inl VerifyUserFile
      else if protected_path U (trim_suffix (fr_pattern r) ''/**'') \<and> fr_action r = ''include''
      then Inl (IncludeProtected (fr_pattern r))
      else
        (case for_each (\<lambda>q _. check (\<not> patterns_overlap (fr_pattern q) (fr_pattern r))
                 (OverlappingRules (fr_pattern q) (fr_pattern r))) (take i rules) () of
           Inl e \<Rightarrow> Inl e
         | Inr _ \<Rightarrow> for_each (\<lambda>f _. check_rule_file r f) fs ()))"

definition policy_schema :: "manifest \<Rightarrow> bool" where
  "policy_schema m \<longleftrightarrow> mn_schema m = manifest_schema2 \<or> mn_schema m = manifest_schema3"

definition validate_file_ownership :: "unicode \<Rightarrow> manifest \<Rightarrow> file_error + unit" where
  "validate_file_ownership U m =
     (if \<not> policy_schema m then Inr ()
      else
        (case for_each (check_file U) (mn_files m) {} of
           Inl e \<Rightarrow> Inl e
         | Inr _ \<Rightarrow>
             for_each (\<lambda>(i, r) _. check_rule U (mn_rules m) (mn_files m) i r)
               (List.enumerate 0 (mn_rules m)) ()))"

record url =
  url_scheme :: string
  url_host :: string
  url_has_user :: bool
  url_fragment :: string

definition check_publish_file :: "(string \<Rightarrow> url option) \<Rightarrow> manifest_file \<Rightarrow> file_error + unit" where
  "check_publish_file parse_url f =
     (let own = file_ownership f
      in if own = ''required'' \<or> own = ''managed'' \<or> own = ''optional'' then
           if mf_url f = [] \<or> length (mf_sha256 f) \<noteq> 64 \<or> mf_size f < 0 then Inl (IncompleteFile (mf_path f))
           else
             (case hex_decode (mf_sha256 f) of
                None \<Rightarrow> Inl (BadSha256 (mf_path f))
              | Some d \<Rightarrow>
                  if length d \<noteq> 32 then Inl (BadSha256 (mf_path f))
                  else
                    (case parse_url (mf_url f) of
                       None \<Rightarrow> Inl (BadUrl (mf_path f))
                     | Some u \<Rightarrow>
                         if url_scheme u \<noteq> ''http'' \<and> url_scheme u \<noteq> ''https'' \<or> url_host u = [] \<or>
                            url_has_user u \<or> url_fragment u \<noteq> []
                         then Inl (BadUrl (mf_path f)) else Inr ()))
         else Inr ())"

definition validate_publish_ownership ::
    "unicode \<Rightarrow> (string \<Rightarrow> url option) \<Rightarrow> manifest \<Rightarrow> file_error + unit" where
  "validate_publish_ownership U parse_url m =
     (case validate_file_ownership U m of
        Inl e \<Rightarrow> Inl e
      | Inr _ \<Rightarrow>
          if \<not> policy_schema m then Inr ()
          else for_each (\<lambda>f _. check_publish_file parse_url f) (mn_files m) ())"

section \<open>What a validated policy guarantees\<close>

lemma suffix_dir: "has_suffix pt ''/**'' \<longleftrightarrow> (\<exists>b. pt = b @ ''/**'')"
  by (simp add: has_suffix_iff suffix_def)

lemma trim_exact: "\<not> has_suffix pt ''/**'' \<Longrightarrow> trim_suffix pt ''/**'' = pt"
  by (simp add: trim_suffix_def)

lemma pattern_match_dir: "pattern_match (b @ ''/**'') p \<longleftrightarrow> p = b \<or> prefix (b @ ''/'') p"
  by (simp add: pattern_match_def suffix_dir has_prefix_iff Let_def)

lemma pattern_match_exact: "\<not> has_suffix pt ''/**'' \<Longrightarrow> pattern_match pt p \<longleftrightarrow> pt = p"
  by (simp add: pattern_match_def)

lemma prefix_dir_cases: "prefix (b @ [d]) (c @ [d]) \<Longrightarrow> b = c \<or> prefix (b @ [d]) c"
  by (auto simp: prefix_snoc)

text \<open>Two patterns that match a common path overlap, so rules that do not overlap are disjoint.\<close>

lemma common_path_overlap:
  assumes "pattern_match a p" "pattern_match b p"
  shows "patterns_overlap a b"
proof (cases "has_suffix a ''/**'' \<and> has_suffix b ''/**''")
  case False
  then show ?thesis
    using assms by (auto simp: patterns_overlap_def pattern_match_exact trim_exact)
next
  case True
  then obtain c d where ab: "a = c @ ''/**''" "b = d @ ''/**''" by (auto simp: suffix_dir)
  have "c = d \<or> prefix (c @ ''/'') d \<or> prefix (d @ ''/'') c"
  proof -
    have "p = c \<or> prefix (c @ ''/'') p" "p = d \<or> prefix (d @ ''/'') p"
      using assms by (simp_all add: ab pattern_match_dir)
    then consider "p = c" "p = d" | "p = c" "prefix (d @ ''/'') p" | "p = d" "prefix (c @ ''/'') p"
      | "prefix (c @ ''/'') p" "prefix (d @ ''/'') p" by metis
    then show ?thesis
    proof cases
      case 4
      then consider "prefix (c @ ''/'') (d @ ''/'')" | "prefix (d @ ''/'') (c @ ''/'')"
        using prefix_same_cases by metis
      then show ?thesis by cases (metis prefix_dir_cases)+
    qed simp_all
  qed
  moreover have "patterns_overlap a b \<longleftrightarrow>
      d = c \<or> prefix (c @ ''/'') d \<or> c = d \<or> prefix (d @ ''/'') c"
    unfolding patterns_overlap_def ab trim_suffix_append pattern_match_dir by blast
  ultimately show ?thesis by blast
qed

lemma hex_decode_sha: "length s = 64 \<Longrightarrow> hex_decode s = Some d \<Longrightarrow> length d = 32"
  using hex_decode_length [of s d] by simp

text \<open>The loop over the files: it ends well exactly when each file is sound and the keys are distinct.\<close>

definition file_sound :: "unicode \<Rightarrow> manifest_file \<Rightarrow> bool" where
  "file_sound U f \<longleftrightarrow>
     valid_policy_path (mf_path f) False \<and> valid_ownership (file_ownership f) \<and>
     \<not> (user_side (file_ownership f) \<and> mf_required f) \<and>
     \<not> (mf_ownership f = ''required'' \<and> \<not> mf_required f) \<and>
     \<not> (mf_ownership f = ''optional'' \<and> mf_required f) \<and>
     (protected_path U (mf_path f) \<longrightarrow> user_side (file_ownership f))"

lemma check_file_sound:
  "file_sound U f \<Longrightarrow> to_lower U (mf_path f) \<notin> seen \<Longrightarrow>
     check_file U f seen = Inr (insert (to_lower U (mf_path f)) seen)"
  unfolding check_file_def file_sound_def user_side_def Let_def
  by (cases "mf_ownership f = []") (simp_all add: file_ownership_def)

lemma check_file_accepts:
  assumes "check_file U f seen = Inr s"
  shows "file_sound U f" "to_lower U (mf_path f) \<notin> seen" "s = insert (to_lower U (mf_path f)) seen"
proof -
  show "file_sound U f"
    using assms unfolding check_file_def file_sound_def user_side_def Let_def
    by (cases "mf_ownership f = []") (simp_all add: file_ownership_def split: if_split_asm)
  show "to_lower U (mf_path f) \<notin> seen" "s = insert (to_lower U (mf_path f)) seen"
    using assms unfolding check_file_def Let_def by (simp_all split: if_split_asm)
qed

lemma check_file_Inr:
  "check_file U f seen = Inr s \<longleftrightarrow>
     file_sound U f \<and> to_lower U (mf_path f) \<notin> seen \<and> s = insert (to_lower U (mf_path f)) seen"
  using check_file_sound check_file_accepts by metis

lemma check_files_Inr:
  "is_ok (for_each (check_file U) fs seen) \<longleftrightarrow>
     (\<forall>f \<in> set fs. file_sound U f) \<and> distinct (map (\<lambda>f. to_lower U (mf_path f)) fs) \<and>
     (\<forall>f \<in> set fs. to_lower U (mf_path f) \<notin> seen)"
proof (induction fs arbitrary: seen)
  case Nil
  show ?case by simp
next
  case (Cons f fs)
  show ?case
  proof (cases "check_file U f seen")
    case (Inl e)
    then have "\<not> (file_sound U f \<and> to_lower U (mf_path f) \<notin> seen)"
      using check_file_Inr [of U f seen] by auto
    then show ?thesis using Inl by auto
  next
    case (Inr s)
    then have "file_sound U f" "to_lower U (mf_path f) \<notin> seen" "s = insert (to_lower U (mf_path f)) seen"
      by (simp_all add: check_file_Inr)
    moreover have "for_each (check_file U) (f # fs) seen = for_each (check_file U) fs s"
      by (simp add: Inr)
    ultimately show ?thesis using Cons.IH [of s] by (simp add: image_iff del: for_each.simps) metis
  qed
qed

definition rule_sound ::
    "unicode \<Rightarrow> file_rule list \<Rightarrow> manifest_file list \<Rightarrow> nat \<Rightarrow> file_rule \<Rightarrow> bool" where
  "rule_sound U rules fs i r \<longleftrightarrow>
     valid_policy_path (fr_pattern r) True \<and> valid_ownership (fr_ownership r) \<and>
     (fr_action r = ''include'' \<or> fr_action r = ''exclude'' \<or> fr_action r = ''verify'') \<and>
     (fr_action r = ''include'' \<longrightarrow> (fr_ownership r = ''managed'' \<or> fr_ownership r = ''required'') \<and>
        \<not> protected_path U (trim_suffix (fr_pattern r) ''/**'')) \<and>
     (fr_action r = ''exclude'' \<longrightarrow> user_side (fr_ownership r)) \<and>
     (fr_action r = ''verify'' \<longrightarrow> \<not> user_side (fr_ownership r)) \<and>
     (\<forall>q \<in> set (take i rules). \<not> patterns_overlap (fr_pattern q) (fr_pattern r)) \<and>
     (\<forall>f \<in> set fs. check_rule_file r f = Inr ())"

lemma check_rule_Inr: "check_rule U rules fs i r = Inr () \<longleftrightarrow> rule_sound U rules fs i r"
proof -
  have loop: "for_each (\<lambda>q _. check (\<not> patterns_overlap (fr_pattern q) (fr_pattern r))
                 (OverlappingRules (fr_pattern q) (fr_pattern r))) (take i rules) () = Inr () \<longleftrightarrow>
     (\<forall>q \<in> set (take i rules). \<not> patterns_overlap (fr_pattern q) (fr_pattern r))"
    by (simp add: for_each_unit_Inr)
  show ?thesis
    unfolding check_rule_def rule_sound_def for_each_unit_Inr [symmetric] loop [symmetric]
    by (simp split: sum.split) blast
qed

lemma check_rule_file_Inr:
  "check_rule_file r f = Inr () \<longleftrightarrow>
     (pattern_match (fr_pattern r) (mf_path f) \<longrightarrow>
        (fr_action r = ''exclude'' \<longrightarrow> user_side (file_ownership f)) \<and>
        (fr_action r = ''include'' \<longrightarrow> \<not> user_side (file_ownership f)))"
  by (simp add: check_rule_file_def)

lemma validate_ownership_Inr:
  assumes "policy_schema m"
  shows "validate_file_ownership U m = Inr () \<longleftrightarrow>
     (\<forall>f \<in> set (mn_files m). file_sound U f) \<and>
     distinct (map (\<lambda>f. to_lower U (mf_path f)) (mn_files m)) \<and>
     (\<forall>i < length (mn_rules m). check_rule U (mn_rules m) (mn_files m) i (mn_rules m ! i) = Inr ())"
proof -
  have enum: "for_each (\<lambda>(i, r) _. check_rule U (mn_rules m) (mn_files m) i r)
       (List.enumerate 0 (mn_rules m)) () = Inr () \<longleftrightarrow>
     (\<forall>i < length (mn_rules m). check_rule U (mn_rules m) (mn_files m) i (mn_rules m ! i) = Inr ())"
    by (rule for_each_enumerate_Inr)
  have "is_ok (for_each (check_file U) (mn_files m) {}) \<longleftrightarrow>
     (\<forall>f \<in> set (mn_files m). file_sound U f) \<and> distinct (map (\<lambda>f. to_lower U (mf_path f)) (mn_files m))"
    by (simp add: check_files_Inr)
  then show ?thesis
    using assms enum unfolding validate_file_ownership_def by (auto simp: is_ok_def split: sum.splits)
qed

subsection \<open>Properties\<close>

text \<open>In a manifest of schema 2.0 or 3.0 that passes validation every path matches at most one file
  rule: rules that match a common path overlap, and overlapping rules are refused.\<close>
lemma rules_disjoint:
  assumes "policy_schema m" "validate_file_ownership U m = Inr ()"
    and "i < length (mn_rules m)" "j < length (mn_rules m)"
    and "pattern_match (fr_pattern (mn_rules m ! i)) p" "pattern_match (fr_pattern (mn_rules m ! j)) p"
  shows "i = j"
proof -
  have sound: "rule_sound U (mn_rules m) (mn_files m) k (mn_rules m ! k)" if "k < length (mn_rules m)" for k
    using assms(1,2) that by (simp add: validate_ownership_Inr check_rule_Inr)
  have False if "k < l" "l < length (mn_rules m)"
    "pattern_match (fr_pattern (mn_rules m ! k)) p" "pattern_match (fr_pattern (mn_rules m ! l)) p" for k l
  proof -
    have "mn_rules m ! k \<in> set (take l (mn_rules m))"
      using that(1,2) by (auto simp: in_set_conv_nth intro!: exI [of _ k])
    then show False
      using sound [OF that(2)] common_path_overlap [OF that(3,4)] by (auto simp: rule_sound_def)
  qed
  then show ?thesis
    using assms(3-6) by (meson linorder_neqE_nat)
qed

definition policy_sample :: manifest where
  "policy_sample = sample_manifest manifest_schema3 [sample_file ''mods/a.jar'']
     [\<lparr>fr_pattern = ''mods/**'', fr_action = ''include'', fr_ownership = ''managed''\<rparr>,
      \<lparr>fr_pattern = ''saves/**'', fr_action = ''exclude'', fr_ownership = ''user-owned''\<rparr>] None"

lemmas policy_eval =
  policy_sample_def sample_manifest_def sample_file_def policy_schema_def manifest_schema2_def manifest_schema3_def

lemma policy_sample_valid: "validate_file_ownership ascii_only policy_sample = Inr ()"
  by code_simp

text \<open>C38: In a manifest of schema 2.0 or 3.0 that passes validation, a file under a protected path (worlds,
  screenshots, packs, configuration, logs, options, server list) is owned by the user or generated and is not
  required, no include rule names a protected path, and the file paths are distinct whatever their case.  Manifests of
  the other schemas are accepted unchecked, see \<open>policy_schema\<close>.\<close>
theorem protected_data_unmanaged:
  assumes "policy_schema m" "validate_file_ownership U m = Inr ()"
  shows "(\<forall>f \<in> set (mn_files m). protected_path U (mf_path f) \<longrightarrow>
            user_side (file_ownership f) \<and> \<not> mf_required f) \<and>
         (\<forall>r \<in> set (mn_rules m). fr_action r = ''include'' \<longrightarrow>
            \<not> protected_path U (trim_suffix (fr_pattern r) ''/**'')) \<and>
         distinct (map (\<lambda>f. to_lower U (mf_path f)) (mn_files m))"
proof -
  have files: "\<forall>f \<in> set (mn_files m). file_sound U f"
    and "distinct (map (\<lambda>f. to_lower U (mf_path f)) (mn_files m))"
    and "\<forall>i < length (mn_rules m). rule_sound U (mn_rules m) (mn_files m) i (mn_rules m ! i)"
    using assms by (simp_all add: validate_ownership_Inr check_rule_Inr)
  moreover have "\<forall>r \<in> set (mn_rules m). fr_action r = ''include'' \<longrightarrow>
      \<not> protected_path U (trim_suffix (fr_pattern r) ''/**'')"
    using calculation(3) by (auto simp: in_set_conv_nth rule_sound_def)
  ultimately show ?thesis
    by (simp add: file_sound_def)
qed

definition world_sample :: manifest where
  "world_sample = policy_sample\<lparr>mn_files :=
     [sample_file ''mods/a.jar'',
      (sample_file ''Saves/level.dat'')\<lparr>mf_required := False, mf_ownership := ''user-owned''\<rparr>]\<rparr>"

text \<open>A manifest with a world: validation accepts it, and so the world is the user's; listed as managed or required the
  same file is refused.\<close>

theorem protected_data_unmanaged_witness:
  "(\<exists>f \<in> set (mn_files world_sample). protected_path ascii_only (mf_path f) \<and> user_side (file_ownership f) \<and> \<not> mf_required f) \<and>
   validate_file_ownership ascii_only (world_sample\<lparr>mn_files := [sample_file ''Saves/level.dat'']\<rparr>) =
     Inl (ProtectedManaged ''Saves/level.dat'')"
proof -
  have s: "policy_schema world_sample" by (simp add: world_sample_def policy_eval)
  have v: "validate_file_ownership ascii_only world_sample = Inr ()" by code_simp
  have p: "list_ex (\<lambda>f. protected_path ascii_only (mf_path f)) (mn_files world_sample)" by code_simp
  have r: "validate_file_ownership ascii_only (world_sample\<lparr>mn_files := [sample_file ''Saves/level.dat'']\<rparr>) =
     Inl (ProtectedManaged ''Saves/level.dat'')" by code_simp
  show ?thesis using protected_data_unmanaged [OF s v] p r by (auto simp: list_ex_iff)
qed

text \<open>A file the updater may manage, in a manifest that passes the check at publication, comes with
  everything needed to verify it: a size that is not negative, 64 hexadecimal digits that decode to a
  32-byte digest, and an http or https URL with a host and without credentials or fragment.  Its path is a
  clean relative path.\<close>
lemma published_file_verifiable:
  assumes "validate_publish_ownership U pu m = Inr ()" "policy_schema m"
    and "f \<in> set (mn_files m)" "\<not> user_side (file_ownership f)"
  shows "(\<exists>d. hex_decode (mf_sha256 f) = Some d \<and> length d = 32) \<and> 0 \<le> mf_size f \<and>
     (\<exists>u. pu (mf_url f) = Some u \<and> (url_scheme u = ''http'' \<or> url_scheme u = ''https'') \<and>
        url_host u \<noteq> [] \<and> \<not> url_has_user u \<and> url_fragment u = []) \<and>
     path_clean (mf_path f) = mf_path f \<and> \<not> has_prefix (mf_path f) ''/'' \<and>
     ''..'' \<notin> set (split_char (CHR ''/'') (mf_path f))"
proof -
  have own: "validate_file_ownership U m = Inr ()" and pub: "check_publish_file pu f = Inr ()"
    using assms(1-3)
    by (auto simp: validate_publish_ownership_def for_each_unit_Inr split: sum.splits if_splits)
  have sound: "file_sound U f"
    using own assms(2,3) by (simp add: validate_ownership_Inr)
  then have "file_ownership f = ''required'' \<or> file_ownership f = ''managed'' \<or> file_ownership f = ''optional''"
    using assms(4) by (auto simp: file_sound_def valid_ownership_def user_side_def)
  then have checked: "(\<exists>d. hex_decode (mf_sha256 f) = Some d \<and> length d = 32) \<and> 0 \<le> mf_size f \<and>
     (\<exists>u. pu (mf_url f) = Some u \<and> (url_scheme u = ''http'' \<or> url_scheme u = ''https'') \<and>
        url_host u \<noteq> [] \<and> \<not> url_has_user u \<and> url_fragment u = [])"
    using pub by (simp add: check_publish_file_def Let_def split: if_splits option.splits)
  have "valid_policy_path (mf_path f) False" using sound by (simp add: file_sound_def)
  then have "path_clean (mf_path f) = mf_path f" "\<not> has_prefix (mf_path f) ''/''"
    "''..'' \<notin> set (split_char (CHR ''/'') (mf_path f))"
    by (auto simp: valid_policy_path_def list_ex_iff split: if_splits)
  with checked show ?thesis by blast
qed

definition sample_url :: "string \<Rightarrow> url option" where
  "sample_url s = (if has_prefix s ''https://'' then
     Some \<lparr>url_scheme = ''https'', url_host = ''cdn'', url_has_user = False, url_fragment = []\<rparr> else None)"

end
