(* ===== verification/CatActions.thy ===== *)
theory CatActions
  imports FilePolicy
begin

text \<open>
  The signed actions of catalog components (\<^verbatim>\<open>model/component_actions.go\<close>): which arguments an optional
  component may add to the launch, and the validation of every action of a catalog.
\<close>

section \<open>Arguments\<close>

definition shell_meta :: string where
  "shell_meta =
     [CHR 0x00, CHR 0x0D, CHR 0x0A, CHR 0x09, CHR '' '', CHR ''@'', CHR 0x5C, CHR 0x22, CHR 0x27,
      CHR 0x60, CHR ''$'', CHR '';'', CHR ''|'', CHR ''&'', CHR ''<'', CHR ''>'']"

definition printable :: "char \<Rightarrow> bool" where
  "printable b = (\<not> (of_char b < (33 :: int) \<or> of_char b > (126 :: int)))"

definition gc_flag :: string where "gc_flag = ''-XX:MaxGCPauseMillis=''"

definition property_prefixes :: "string list" where
  "property_prefixes = [''launcher.optional.'', ''fabric.'', ''forge.'', ''neoforge.'', ''mixin.'']"

definition client_prefixes :: "string list" where
  "client_prefixes = [''--optional-'', ''--fabric-'', ''--forge-'', ''--neoforge-'', ''--mixin-'']"

definition property_byte :: "char \<Rightarrow> bool" where
  "property_byte b =
     (is_lower b \<or> is_upper b \<or> is_digit b \<or> b = CHR ''.'' \<or> b = CHR ''_'' \<or> b = CHR ''-'')"

definition client_byte :: "char \<Rightarrow> bool" where
  "client_byte b =
     (is_lower b \<or> is_digit b \<or> b = CHR ''-'' \<or> b = CHR ''_'' \<or> b = CHR ''='' \<or> b = CHR ''.'')"

definition safe_jvm_argument :: "string \<Rightarrow> bool" where
  "safe_jvm_argument arg =
     (if arg = ''-ea'' \<or> arg = ''-da'' \<or> arg = ''-XX:+UseG1GC'' then True
      else if has_prefix arg gc_flag then
        (let raw = trim_prefix arg gc_flag
         in if has_prefix raw ''+'' \<or> has_prefix raw ''-'' then False
            else (case parse_int64 raw of None \<Rightarrow> False | Some n \<Rightarrow> 1 \<le> n \<and> n \<le> 10000))
      else if \<not> has_prefix arg ''-D'' then False
      else
        (case cut_char (CHR ''='') (trim_prefix arg ''-D'') of
           (k, None) \<Rightarrow> False
         | (k, Some v) \<Rightarrow>
             if v = [] \<or> length v > 128 then False
             else if \<not> list_ex (has_prefix k) property_prefixes \<or> contains_any v ''/:='' then False
             else list_all property_byte (k @ v)))"

definition safe_client_argument :: "string \<Rightarrow> bool" where
  "safe_client_argument arg =
     (case first_some (has_prefix arg) client_prefixes of
        None \<Rightarrow> False
      | Some p \<Rightarrow>
          (let rest = trim_prefix arg p
           in if length rest = 0 then False else list_all client_byte rest))"

definition safe_optional_argument :: "string \<Rightarrow> string \<Rightarrow> bool" where
  "safe_optional_argument t arg =
     (if length arg = 0 \<or> length arg > 256 \<or> contains_any arg shell_meta then False
      else if \<not> list_all printable arg then False
      else if t = ''JvmArgs'' then safe_jvm_argument arg
      else if t = ''ClientArgs'' then safe_client_argument arg
      else False)"

section \<open>Validation of a catalog's actions\<close>

datatype action_error =
    UnsignedActions string
  | TooManyComponents
  | TooManyActions string
  | ForeignFile string string string
  | ClasspathNotJar string
  | RepeatedAction string string
  | BadArgumentAction string
  | UnsafeArgument string string string
  | RepeatedArgument string string
  | UnsupportedAction string string

definition check_argument ::
    "component \<Rightarrow> component_action \<Rightarrow> string \<Rightarrow> string set \<Rightarrow> action_error + string set" where
  "check_argument c a arg seen =
     (if \<not> safe_optional_argument (ac_type a) arg then Inl (UnsafeArgument (cp_id c) (ac_type a) arg)
      else
        (let key = ac_type a @ '':'' @ arg
         in if key \<in> seen then Inl (RepeatedArgument (cp_id c) arg) else Inr (str_set_add seen key)))"

definition check_action ::
    "unicode \<Rightarrow> component \<Rightarrow> component_action \<Rightarrow> string set \<Rightarrow> action_error + string set" where
  "check_action U c a seen =
     (if ac_type a = ''File'' \<or> ac_type a = ''ClassPath'' then
        (if ac_args a \<noteq> [] \<or> ac_path a \<notin> set (cp_files c) \<or> \<not> valid_policy_path (ac_path a) False
         then Inl (ForeignFile (cp_id c) (ac_type a) (ac_path a))
         else if ac_type a = ''ClassPath'' \<and> \<not> has_suffix (to_lower U (ac_path a)) ''.jar''
         then Inl (ClasspathNotJar (cp_id c))
         else
           (let key = ac_type a @ '':'' @ to_lower U (ac_path a)
            in if key \<in> seen then Inl (RepeatedAction (cp_id c) key) else Inr (str_set_add seen key)))
      else if ac_type a = ''JvmArgs'' \<or> ac_type a = ''ClientArgs'' then
        (if ac_path a \<noteq> [] \<or> length (ac_args a) = 0 \<or> length (ac_args a) > 32
         then Inl (BadArgumentAction (cp_id c))
         else for_each (check_argument c a) (ac_args a) seen)
      else Inl (UnsupportedAction (cp_id c) (ac_type a)))"

definition check_component_actions :: "unicode \<Rightarrow> component \<Rightarrow> action_error + unit" where
  "check_component_actions U c =
     (if length (cp_actions c) > 64 then Inl (TooManyActions (cp_id c))
      else (case for_each (check_action U c) (cp_actions c) {} of Inl e \<Rightarrow> Inl e | Inr _ \<Rightarrow> Inr ()))"

definition validate_catalog_actions :: "unicode \<Rightarrow> catalog \<Rightarrow> action_error + unit" where
  "validate_catalog_actions U cat =
     (if cat_schema cat \<noteq> schema5 then
        for_each (\<lambda>c _. check (cp_actions c = []) (UnsignedActions (cp_id c))) (cat_components cat) ()
      else if length (cat_components cat) > 4096 then Inl TooManyComponents
      else for_each (\<lambda>c _. check_component_actions U c) (cat_components cat) ())"

section \<open>What a validated action is\<close>

definition action_sound :: "unicode \<Rightarrow> component \<Rightarrow> component_action \<Rightarrow> bool" where
  "action_sound U c a \<longleftrightarrow>
     ((ac_type a = ''File'' \<or> ac_type a = ''ClassPath'') \<and> ac_args a = [] \<and> ac_path a \<in> set (cp_files c) \<and>
        valid_policy_path (ac_path a) False \<and>
        (ac_type a = ''ClassPath'' \<longrightarrow> has_suffix (to_lower U (ac_path a)) ''.jar'')) \<or>
     ((ac_type a = ''JvmArgs'' \<or> ac_type a = ''ClientArgs'') \<and> ac_path a = [] \<and>
        ac_args a \<noteq> [] \<and> length (ac_args a) \<le> 32 \<and>
        (\<forall>arg \<in> set (ac_args a). safe_optional_argument (ac_type a) arg))"

text \<open>The keys under which an action is counted once.\<close>

definition action_keys :: "unicode \<Rightarrow> component_action \<Rightarrow> string list" where
  "action_keys U a =
     (if ac_type a = ''File'' \<or> ac_type a = ''ClassPath''
      then [ac_type a @ '':'' @ to_lower U (ac_path a)]
      else map (\<lambda>arg. ac_type a @ '':'' @ arg) (ac_args a))"

lemma check_arguments_Inr:
  "for_each (check_argument c a) xs seen = Inr t \<Longrightarrow>
     (\<forall>arg \<in> set xs. safe_optional_argument (ac_type a) arg) \<and>
     distinct (map (\<lambda>arg. ac_type a @ '':'' @ arg) xs) \<and>
     set (map (\<lambda>arg. ac_type a @ '':'' @ arg) xs) \<inter> seen = {} \<and>
     t = set (map (\<lambda>arg. ac_type a @ '':'' @ arg) xs) \<union> seen"
proof (induction xs arbitrary: seen)
  case Nil
  then show ?case by simp
next
  case (Cons x xs)
  obtain s where s: "check_argument c a x seen = Inr s" "for_each (check_argument c a) xs s = Inr t"
    using Cons.prems by (auto split: sum.splits)
  have "safe_optional_argument (ac_type a) x" "ac_type a @ '':'' @ x \<notin> seen"
    "s = insert (ac_type a @ '':'' @ x) seen"
    using s(1) by (simp_all add: check_argument_def Let_def split: if_split_asm)
  then show ?case using Cons.IH [OF s(2)] by auto
qed

lemma check_action_Inr:
  assumes "check_action U c a seen = Inr t"
  shows "action_sound U c a \<and> distinct (action_keys U a) \<and> set (action_keys U a) \<inter> seen = {} \<and>
    t = set (action_keys U a) \<union> seen"
proof (cases "ac_type a = ''File'' \<or> ac_type a = ''ClassPath''")
  case True
  then show ?thesis
    using assms by (simp add: check_action_def action_sound_def action_keys_def Let_def split: if_split_asm)
next
  case False
  then have ty: "ac_type a = ''JvmArgs'' \<or> ac_type a = ''ClientArgs''" "ac_path a = []"
    "ac_args a \<noteq> []" "length (ac_args a) \<le> 32"
    and loop: "for_each (check_argument c a) (ac_args a) seen = Inr t"
    using assms by (simp_all add: check_action_def split: if_split_asm)
  then show ?thesis
    using False check_arguments_Inr [OF loop] unfolding action_sound_def action_keys_def by simp
qed

lemma check_actions_Inr:
  "for_each (check_action U c) as seen = Inr t \<Longrightarrow>
     (\<forall>a \<in> set as. action_sound U c a) \<and> distinct (concat (map (action_keys U) as)) \<and>
     set (concat (map (action_keys U) as)) \<inter> seen = {}"
proof (induction as arbitrary: seen)
  case Nil
  then show ?case by simp
next
  case (Cons a as)
  obtain s where s: "check_action U c a seen = Inr s" "for_each (check_action U c) as s = Inr t"
    using Cons.prems by (auto split: sum.splits)
  show ?case using check_action_Inr [OF s(1)] Cons.IH [OF s(2)] by auto
qed

lemma validate_actions_components:
  assumes "validate_catalog_actions U cat = Inr ()" "c \<in> set (cat_components cat)"
  shows "(\<forall>a \<in> set (cp_actions c). action_sound U c a) \<and> distinct (concat (map (action_keys U) (cp_actions c)))"
proof (cases "cat_schema cat = schema5")
  case False
  then have "cp_actions c = []"
    using assms by (simp add: validate_catalog_actions_def for_each_unit_Inr)
  then show ?thesis by simp
next
  case True
  then have "check_component_actions U c = Inr ()"
    using assms by (simp add: validate_catalog_actions_def for_each_unit_Inr split: if_split_asm)
  then obtain t where "for_each (check_action U c) (cp_actions c) {} = Inr t"
    by (auto simp: check_component_actions_def split: if_split_asm sum.splits)
  then show ?thesis using check_actions_Inr by blast
qed

text \<open>An accepted argument starts with one of few prefixes and holds no character a shell would read.\<close>

lemma safe_argument_text:
  assumes "safe_optional_argument t arg"
  shows "arg \<noteq> [] \<and> length arg \<le> 256 \<and> list_all printable arg \<and> set arg \<inter> set shell_meta = {}"
  using assms by (auto simp: safe_optional_argument_def contains_any_def list_ex_iff split: if_split_asm)

lemma safe_jvm_prefix:
  assumes "safe_optional_argument ''JvmArgs'' arg"
  shows "arg \<in> {''-ea'', ''-da'', ''-XX:+UseG1GC''} \<or> prefix gc_flag arg \<or>
    (\<exists>p \<in> set property_prefixes. prefix (''-D'' @ p) arg)"
proof -
  have "safe_jvm_argument arg" using assms by (simp add: safe_optional_argument_def split: if_split_asm)
  moreover have "\<exists>p \<in> set property_prefixes. prefix (''-D'' @ p) arg"
    if d: "has_prefix arg ''-D''" and k: "cut_char (CHR ''='') (trim_prefix arg ''-D'') = (k, v)"
      and p: "list_ex (has_prefix k) property_prefixes" for k v
  proof -
    obtain r where r: "arg = ''-D'' @ r" using d by (auto simp: has_prefix_iff prefix_def)
    have "r = k @ (case v of None \<Rightarrow> [] | Some t \<Rightarrow> CHR ''='' # t)"
      using cut_char_recombine [OF k] d r by (simp add: trim_prefix_def)
    then have "prefix k r" by simp
    moreover obtain q where "q \<in> set property_prefixes" "prefix q k"
      using p by (auto simp: list_ex_iff has_prefix_iff)
    ultimately have "q \<in> set property_prefixes \<and> prefix (''-D'' @ q) arg"
      using r prefix_order.trans by auto
    then show ?thesis by blast
  qed
  ultimately show ?thesis
    unfolding safe_jvm_argument_def
    by (simp add: has_prefix_iff split: if_split_asm prod.splits option.splits; blast)
qed

text \<open>Every action of a validated catalog touches only its own component: a file action names one of the
  component's signed files by a clean relative path, a class path action names a jar; an argument is
  printable, free of shell characters and, for the JVM, one of three fixed flags, a pause goal, or a
  property under one of five prefixes.  No action of a component is repeated.\<close>
lemma catalog_actions_confined:
  assumes "validate_catalog_actions U cat = Inr ()" "c \<in> set (cat_components cat)" "a \<in> set (cp_actions c)"
  shows "distinct (concat (map (action_keys U) (cp_actions c))) \<and>
    (ac_path a \<noteq> [] \<longrightarrow> ac_path a \<in> set (cp_files c) \<and> valid_policy_path (ac_path a) False) \<and>
    (ac_type a = ''ClassPath'' \<longrightarrow> has_suffix (to_lower U (ac_path a)) ''.jar'') \<and>
    (\<forall>arg \<in> set (ac_args a). list_all printable arg \<and> set arg \<inter> set shell_meta = {} \<and>
       (ac_type a = ''JvmArgs'' \<longrightarrow>
          arg \<in> {''-ea'', ''-da'', ''-XX:+UseG1GC''} \<or> prefix gc_flag arg \<or>
          (\<exists>p \<in> set property_prefixes. prefix (''-D'' @ p) arg)))"
proof -
  have sound: "action_sound U c a" and dist: "distinct (concat (map (action_keys U) (cp_actions c)))"
    using validate_actions_components [OF assms(1,2)] assms(3) by blast+
  have own_file: "ac_path a \<noteq> [] \<longrightarrow> ac_path a \<in> set (cp_files c) \<and> valid_policy_path (ac_path a) False"
    and jar: "ac_type a = ''ClassPath'' \<longrightarrow> has_suffix (to_lower U (ac_path a)) ''.jar''"
    using sound unfolding action_sound_def by auto
  have arg: "safe_optional_argument (ac_type a) arg" if "arg \<in> set (ac_args a)" for arg
    using sound that unfolding action_sound_def by auto
  have chars: "list_all printable arg \<and> set arg \<inter> set shell_meta = {}" if "arg \<in> set (ac_args a)" for arg
    using safe_argument_text [OF arg [OF that]] by blast
  have jvm: "arg \<in> {''-ea'', ''-da'', ''-XX:+UseG1GC''} \<or> prefix gc_flag arg \<or>
      (\<exists>p \<in> set property_prefixes. prefix (''-D'' @ p) arg)"
    if "arg \<in> set (ac_args a)" "ac_type a = ''JvmArgs''" for arg
    using safe_jvm_prefix arg [OF that(1)] unfolding that(2) by blast
  show ?thesis
    using dist own_file jar chars jvm by blast
qed

definition actions_sample :: catalog where
  "actions_sample = (sample_catalog [] 1) \<lparr>cat_schema := schema5, cat_components :=
     [(sample_component []) \<lparr>cp_files := [''mods/a.jar''], cp_actions :=
        [\<lparr>ac_type = ''ClassPath'', ac_path = ''mods/a.jar'', ac_args = []\<rparr>,
         \<lparr>ac_type = ''JvmArgs'', ac_path = [], ac_args = [''-Dfabric.x=1'', ''-XX:MaxGCPauseMillis=50'']\<rparr>]\<rparr>]\<rparr>"

end
