(* ===== verification/CatTopology.thy ===== *)
theory CatTopology
  imports CatResolver CatActions
begin

text \<open>
  The topology of a catalog (categories, groups, presets) and the entry points of the resolver
  (\<^verbatim>\<open>model/component_catalog.go\<close>, \<^verbatim>\<open>ResolveCatalogConditional0244\<close> of \<^verbatim>\<open>component_conditions.go\<close> and
  \<^verbatim>\<open>PreviewCatalogGraph0248\<close> of \<^verbatim>\<open>component_resolver.go\<close>), and the validation of the catalog of a manifest.
  Go iterates a map in an order of its own choosing: the parameter \<open>order\<close> is the order in which the keys
  of the categories and of the groups are visited, and the lemmas show that acceptance does not depend on it.
\<close>

section \<open>Validation of the topology\<close>

datatype topology_error =
    TopologyInV1
  | FieldsInV1 string
  | RulesInV2 string
  | TopologyLimits
  | BadCategory string
  | RepeatedCategory string
  | BadGroup string
  | RepeatedGroup string
  | CategoryNesting string
  | UnknownCategory string
  | GroupNesting string
  | UnknownGroup string
  | UnknownGroupCategory string
  | InconsistentGroupCategory string
  | VisibleMissing string
  | BadComponentMetadata string
  | UnknownComponentCategory string
  | UnknownComponentGroup string
  | ComponentGroupCategory string
  | BadMetadataEntry string
  | BadPreset string
  | BadPresetComponent string string
  | UnknownDefaultPreset string
  | RulesError resolution_error
  | TopologyConditions condition_error

definition valid_display :: "string \<Rightarrow> string \<Rightarrow> bool" where
  "valid_display name description \<longleftrightarrow>
     trim_space name \<noteq> [] \<and> length name \<le> 256 \<and> length description \<le> 2048 \<and>
     \<not> contains_any (name @ description) [CHR 0x00, CHR 0x0D]"

definition has_rules :: "component \<Rightarrow> bool" where
  "has_rules c \<longleftrightarrow> cp_version c \<noteq> [] \<or> cp_dependencies c \<noteq> [] \<or> cp_conflicts c \<noteq> [] \<or> cp_exclusive c \<noteq> []"

definition has_topology :: "component \<Rightarrow> bool" where
  "has_topology c \<longleftrightarrow>
     has_rules c \<or> cp_description c \<noteq> [] \<or> cp_category c \<noteq> [] \<or> cp_group c \<noteq> [] \<or> cp_required c \<or>
     cp_default c \<or> cp_visible c \<noteq> None \<or> cp_limited c \<or> cp_metadata c \<noteq> []"

definition add_category :: "category \<Rightarrow> category gomap \<Rightarrow> topology_error + category gomap" where
  "add_category v m =
     (if \<not> valid_component_id (ct_id v) \<or> \<not> valid_display (ct_name v) (ct_description v)
      then Inl (BadCategory (ct_id v))
      else if m (ct_id v) \<noteq> None then Inl (RepeatedCategory (ct_id v))
      else Inr (m(ct_id v \<mapsto> v)))"

definition add_group :: "cat_group \<Rightarrow> cat_group gomap \<Rightarrow> topology_error + cat_group gomap" where
  "add_group v m =
     (if \<not> valid_component_id (gr_id v) \<or> \<not> valid_display (gr_name v) (gr_description v)
      then Inl (BadGroup (gr_id v))
      else if m (gr_id v) \<noteq> None then Inl (RepeatedGroup (gr_id v))
      else Inr (m(gr_id v \<mapsto> v)))"

text \<open>The walk along the parents; the first number counts the steps that are left of nine.\<close>

fun walk_category ::
    "category gomap \<Rightarrow> string \<Rightarrow> nat \<Rightarrow> string \<Rightarrow> string set \<Rightarrow> topology_error + unit" where
  "walk_category m start 0 cur seen = (if cur = [] then Inr () else Inl (CategoryNesting start))"
| "walk_category m start (Suc n) cur seen =
     (if cur = [] then Inr ()
      else if cur \<in> seen then Inl (CategoryNesting start)
      else
        (case m cur of
           None \<Rightarrow> Inl (UnknownCategory cur)
         | Some v \<Rightarrow> walk_category m start n (ct_parent v) (str_set_add seen cur)))"

fun walk_group ::
    "category gomap \<Rightarrow> cat_group gomap \<Rightarrow> string \<Rightarrow> nat \<Rightarrow> string \<Rightarrow> string set \<Rightarrow> string \<Rightarrow>
     topology_error + unit" where
  "walk_group cm m start 0 cur seen category = (if cur = [] then Inr () else Inl (GroupNesting start))"
| "walk_group cm m start (Suc n) cur seen category =
     (if cur = [] then Inr ()
      else if cur \<in> seen then Inl (GroupNesting start)
      else
        (case m cur of
           None \<Rightarrow> Inl (UnknownGroup cur)
         | Some v \<Rightarrow>
             if gr_category v \<noteq> [] then
               if cm (gr_category v) = None then Inl (UnknownGroupCategory (gr_category v))
               else if category \<noteq> [] \<and> category \<noteq> gr_category v then Inl (InconsistentGroupCategory start)
               else walk_group cm m start n (gr_parent v) (str_set_add seen cur) (gr_category v)
             else walk_group cm m start n (gr_parent v) (str_set_add seen cur) category))"

definition valid_metadata_entry :: "string \<times> string \<Rightarrow> bool" where
  "valid_metadata_entry e \<longleftrightarrow>
     (case e of (k, v) \<Rightarrow> \<not> (\<not> valid_component_id k \<or> length k > 64 \<or> length v > 1024 \<or>
        contains_any v [CHR 0x00, CHR 0x0D]))"

definition check_component_topology ::
    "category gomap \<Rightarrow> cat_group gomap \<Rightarrow> component \<Rightarrow> topology_error + unit" where
  "check_component_topology cm gm c =
     (if cp_visible c = None then Inl (VisibleMissing (cp_id c))
      else if \<not> valid_display (cp_name c) (cp_description c) \<or> length (cp_metadata c) > 32
      then Inl (BadComponentMetadata (cp_id c))
      else if cp_category c \<noteq> [] \<and> cm (cp_category c) = None then Inl (UnknownComponentCategory (cp_id c))
      else
        and_then
          (if cp_group c \<noteq> [] then
             (case gm (cp_group c) of
                None \<Rightarrow> Inl (UnknownComponentGroup (cp_id c))
              | Some g \<Rightarrow>
                  if gr_category g \<noteq> [] \<and> cp_category c \<noteq> [] \<and> gr_category g \<noteq> cp_category c
                  then Inl (ComponentGroupCategory (cp_id c)) else Inr ())
           else Inr ())
          (for_each (\<lambda>e _. check (valid_metadata_entry e) (BadMetadataEntry (cp_id c))) (cp_metadata c) ()))"

definition check_preset_component ::
    "string set \<Rightarrow> preset \<Rightarrow> string \<Rightarrow> string set \<Rightarrow> topology_error + string set" where
  "check_preset_component ids p i seen =
     (if i \<notin> ids \<or> i \<in> seen then Inl (BadPresetComponent (ps_id p) i) else Inr (str_set_add seen i))"

definition check_preset_topology :: "string set \<Rightarrow> preset \<Rightarrow> string set \<Rightarrow> topology_error + string set" where
  "check_preset_topology ids p presets =
     (if \<not> valid_component_id (ps_id p) \<or> \<not> valid_display (ps_name p) (ps_description p) \<or>
         ps_id p \<in> presets \<or> length (ps_components p) > 4096
      then Inl (BadPreset (ps_id p))
      else
        (case for_each (check_preset_component ids p) (ps_components p) {} of
           Inl e \<Rightarrow> Inl e
         | Inr _ \<Rightarrow> Inr (str_set_add presets (ps_id p))))"

definition check_presets :: "catalog \<Rightarrow> topology_error + unit" where
  "check_presets cat =
     (case for_each (check_preset_topology (set (map cp_id (cat_components cat)))) (cat_presets cat) {} of
        Inl e \<Rightarrow> Inl e
      | Inr presets \<Rightarrow>
          if cat_default_preset cat \<noteq> [] \<and> cat_default_preset cat \<notin> presets
          then Inl (UnknownDefaultPreset (cat_default_preset cat)) else Inr ())"

definition check_structure :: "(string list \<Rightarrow> string list) \<Rightarrow> catalog \<Rightarrow> topology_error + unit" where
  "check_structure order cat =
     (case for_each add_category (cat_categories cat) Map.empty of
        Inl e \<Rightarrow> Inl e
      | Inr cm \<Rightarrow>
          (case for_each add_group (cat_groups cat) Map.empty of
             Inl e \<Rightarrow> Inl e
           | Inr gm \<Rightarrow>
               and_then (for_each (\<lambda>i _. walk_category cm i 9 i {}) (order (map ct_id (cat_categories cat))) ())
              (and_then (for_each (\<lambda>i _. walk_group cm gm i 9 i {} []) (order (map gr_id (cat_groups cat))) ())
              (and_then (for_each (\<lambda>c _. check_component_topology cm gm c) (cat_components cat) ())
                 (check_presets cat)))))"

definition validate_catalog_topology :: "(string list \<Rightarrow> string list) \<Rightarrow> catalog \<Rightarrow> topology_error + unit" where
  "validate_catalog_topology order cat =
     (if cat_schema cat = schema1 then
        if cat_categories cat \<noteq> [] \<or> cat_groups cat \<noteq> [] \<or> cat_presets cat \<noteq> [] \<or> cat_default_preset cat \<noteq> []
        then Inl TopologyInV1
        else for_each (\<lambda>c _. check (\<not> has_topology c) (FieldsInV1 (cp_id c))) (cat_components cat) ()
      else
        and_then
          (if cat_schema cat = schema2
           then for_each (\<lambda>c _. check (\<not> has_rules c) (RulesInV2 (cp_id c))) (cat_components cat) ()
           else Inr ())
       (and_then
          (check (\<not> (length (cat_categories cat) > 256 \<or> length (cat_groups cat) > 1024 \<or>
                       length (cat_presets cat) > 128)) TopologyLimits)
       (and_then (check_structure order cat)
          (if cat_schema cat = schema3 \<or> cat_schema cat = schema4 \<or> cat_schema cat = schema5 then
             and_then (case validate_catalog_rules cat of Inl e \<Rightarrow> Inl (RulesError e) | Inr _ \<Rightarrow> Inr ())
               (case validate_catalog_conditions cat of Inl e \<Rightarrow> Inl (TopologyConditions e) | Inr _ \<Rightarrow> Inr ())
           else Inr ()))))"

section \<open>The entry points of the resolver\<close>

datatype catalog_error =
    TopologyError topology_error
  | ConditionsError condition_error
  | ActionsError action_error
  | ResolutionError resolution_error
  | NeedsSchema4
  | UnknownComponentPreset string
  | CatalogInOldManifest
  | BadSnapshot
  | BadComponent string
  | UnsafeComponentPath string
  | FileOwned string string
  | NotSignedOptional string string
  | OrphanFile string

definition lift_error :: "('e \<Rightarrow> 'f) \<Rightarrow> 'e + 'a \<Rightarrow> 'f + 'a" where
  "lift_error w r = (case r of Inl e \<Rightarrow> Inl (w e) | Inr x \<Rightarrow> Inr x)"

lemma lift_error_Inr [simp]: "lift_error w r = Inr x \<longleftrightarrow> r = Inr x"
  by (cases r) (auto simp: lift_error_def)

lemma lift_error_Inl [simp]: "lift_error w r = Inl e \<longleftrightarrow> (\<exists>d. r = Inl d \<and> e = w d)"
  by (cases r) (auto simp: lift_error_def)

text \<open>The first loop: an unavailable required component is an error, an unavailable default is dropped unless
  a preset was named.\<close>

definition drop_unavailable ::
    "unicode \<Rightarrow> environment \<Rightarrow> bool \<Rightarrow> component \<Rightarrow> component list \<Rightarrow> catalog_error + component list" where
  "drop_unavailable U env named c done_so_far =
     (case unavailable_reason U (cp_conditions c) env of
        None \<Rightarrow> Inr (done_so_far @ [c])
      | Some reason \<Rightarrow>
          if cp_required c then Inl (ResolutionError (ConditionUnsatisfied (cp_id c) reason))
          else Inr (done_so_far @ [if named then c else c\<lparr>cp_default := False\<rparr>]))"

definition check_available ::
    "unicode \<Rightarrow> environment \<Rightarrow> component gomap \<Rightarrow> string \<Rightarrow> catalog_error + unit" where
  "check_available U env m i =
     (case unavailable_reason U (cp_conditions (item m i)) env of
        None \<Rightarrow> Inr ()
      | Some reason \<Rightarrow> Inl (ResolutionError (ConditionUnsatisfied i reason)))"

definition resolve_conditional ::
    "unicode \<Rightarrow> catalog \<Rightarrow> string \<Rightarrow> environment \<Rightarrow> catalog_error + string list" where
  "resolve_conditional U cat preset env =
     (if cat_schema cat \<noteq> schema4 \<and> cat_schema cat \<noteq> schema5 then Inl NeedsSchema4
      else
        (case validate_catalog_conditions cat of
           Inl e \<Rightarrow> Inl (ConditionsError e)
         | Inr _ \<Rightarrow>
             (let named = (preset \<noteq> [] \<or> cat_default_preset cat \<noteq> [])
              in case for_each (drop_unavailable U env named) (cat_components cat) [] of
                   Inl e \<Rightarrow> Inl e
                 | Inr comps \<Rightarrow>
                     (case resolve_graph (cat\<lparr>cat_components := comps\<rparr>) preset of
                        Inl e \<Rightarrow> Inl (ResolutionError e)
                      | Inr selected \<Rightarrow>
                          (case for_each (\<lambda>i _. check_available U env (items_of (cat_components cat)) i) selected () of
                             Inl e \<Rightarrow> Inl e
                           | Inr _ \<Rightarrow> Inr selected)))))"

definition resolve_preset2 :: "catalog \<Rightarrow> string \<Rightarrow> catalog_error + string list" where
  "resolve_preset2 cat preset0 =
     (let preset = (if preset0 = [] then cat_default_preset cat else preset0);
          pick = (\<lambda>chosen. map cp_id (filter (\<lambda>c. cp_required c \<or> cp_id c \<in> chosen) (cat_components cat)))
      in if preset \<noteq> [] then
           (case first_some (\<lambda>p. ps_id p = preset) (cat_presets cat) of
              None \<Rightarrow> Inl (UnknownComponentPreset preset)
            | Some p \<Rightarrow> Inr (pick (set (ps_components p))))
         else Inr (pick (set (map cp_id (filter cp_default (cat_components cat))))))"

definition resolve_preset ::
    "unicode \<Rightarrow> (string list \<Rightarrow> string list) \<Rightarrow> catalog \<Rightarrow> string \<Rightarrow> catalog_error + string list" where
  "resolve_preset U order cat preset =
     (case validate_catalog_topology order cat of
        Inl e \<Rightarrow> Inl (TopologyError e)
      | Inr _ \<Rightarrow>
          if cat_schema cat = schema3 then lift_error ResolutionError (resolve_graph cat preset)
          else if cat_schema cat = schema4 \<or> cat_schema cat = schema5
          then resolve_conditional U cat preset no_environment
          else if cat_schema cat = schema1 then Inr (map cp_id (cat_components cat))
          else resolve_preset2 cat preset)"

definition preview_graph :: "(string list \<Rightarrow> string list) \<Rightarrow> catalog \<Rightarrow> string \<Rightarrow> catalog_error + string list" where
  "preview_graph order cat preset =
     (case validate_catalog_topology order cat of
        Inl e \<Rightarrow> Inl (TopologyError e)
      | Inr _ \<Rightarrow> lift_error ResolutionError (resolve_graph cat preset))"

section \<open>The catalog of a manifest\<close>

definition files_by_key :: "unicode \<Rightarrow> manifest_file list \<Rightarrow> manifest_file gomap" where
  "files_by_key U fs = map_of (rev (map (\<lambda>f. (to_lower U (mf_path f), f)) fs))"

definition check_component_file ::
    "unicode \<Rightarrow> manifest_file gomap \<Rightarrow> component \<Rightarrow> string \<Rightarrow> string gomap \<Rightarrow> catalog_error + string gomap" where
  "check_component_file U files c p owners =
     (if \<not> valid_policy_path p False then Inl (UnsafeComponentPath p)
      else
        (let key = to_lower U p
         in case owners key of
              Some owner \<Rightarrow> Inl (FileOwned p owner)
            | None \<Rightarrow>
                (case files key of
                   None \<Rightarrow> Inl (NotSignedOptional (cp_id c) p)
                 | Some f \<Rightarrow>
                     if mf_path f \<noteq> p \<or> mf_required f \<or> file_ownership f \<noteq> ''optional''
                     then Inl (NotSignedOptional (cp_id c) p)
                     else Inr (owners(key \<mapsto> cp_id c)))))"

definition check_component ::
    "unicode \<Rightarrow> manifest_file gomap \<Rightarrow> component \<Rightarrow> string set \<times> string gomap \<Rightarrow>
     catalog_error + (string set \<times> string gomap)" where
  "check_component U files c st =
     (case st of (ids, owners) \<Rightarrow>
        if \<not> valid_component_id (cp_id c) \<or> cp_id c \<in> ids \<or> trim_space (cp_name c) = [] \<or>
           length (cp_name c) > 256 \<or> contains_any (cp_name c) [CHR 0x00, CHR 0x0D, CHR 0x0A] \<or>
           length (cp_files c) = 0 \<or> length (cp_files c) > 8192
        then Inl (BadComponent (cp_id c))
        else
          (case for_each (check_component_file U files c) (cp_files c) owners of
             Inl e \<Rightarrow> Inl e
           | Inr owners' \<Rightarrow> Inr (str_set_add ids (cp_id c), owners')))"

definition owner_of :: "string gomap \<Rightarrow> string \<Rightarrow> string" where
  "owner_of owners k = (case owners k of Some i \<Rightarrow> i | None \<Rightarrow> [])"

definition validate_component_catalog ::
    "unicode \<Rightarrow> (string \<Rightarrow> string) \<Rightarrow> (string list \<Rightarrow> string list) \<Rightarrow> manifest \<Rightarrow> catalog_error + unit" where
  "validate_component_catalog U sha order m =
     (if mn_schema m \<noteq> manifest_schema3 then
        (if mn_catalog m \<noteq> None then Inl CatalogInOldManifest else Inr ())
      else
        (case mn_catalog m of
           None \<Rightarrow> Inl BadSnapshot
         | Some cat \<Rightarrow>
             if cat_schema cat \<notin> {schema1, schema2, schema3, schema4, schema5} \<or> cat_revision cat = 0 \<or>
                length (cat_components cat) > 4096 \<or> length (cat_digest cat) \<noteq> 64 \<or>
                cat_digest cat \<noteq> catalog_digest5 sha cat
             then Inl BadSnapshot
             else
               and_then (lift_error ActionsError (validate_catalog_actions U cat))
              (and_then (lift_error ConditionsError (validate_catalog_conditions cat))
              (and_then (lift_error TopologyError (validate_catalog_topology order cat))
                 (case for_each (check_component U (files_by_key U (mn_files m))) (cat_components cat)
                         ({}, Map.empty) of
                    Inl e \<Rightarrow> Inl e
                  | Inr (ids, owners) \<Rightarrow>
                      for_each
                        (\<lambda>f _. check (\<not> (file_ownership f = ''optional'' \<and>
                                          owner_of owners (to_lower U (mf_path f)) = []))
                                 (OrphanFile (mf_path f)))
                        (mn_files m) ())))))"

section \<open>The conditional resolver\<close>

lemma drop_loop:
  assumes "for_each (drop_unavailable U env named) cs acc = Inr out"
  shows "map cp_id out = map cp_id acc @ map cp_id cs \<and>
    map (\<lambda>c. c\<lparr>cp_default := False\<rparr>) out = map (\<lambda>c. c\<lparr>cp_default := False\<rparr>) (acc @ cs) \<and>
    (named \<longrightarrow> out = acc @ cs) \<and>
    (\<forall>c \<in> set cs. cp_required c \<longrightarrow> unavailable_reason U (cp_conditions c) env = None)"
  using assms
proof (induction cs arbitrary: acc)
  case Nil
  then show ?case by simp
next
  case (Cons c cs)
  show ?case
  proof (cases "unavailable_reason U (cp_conditions c) env")
    case None
    then have "drop_unavailable U env named c acc = Inr (acc @ [c])" by (simp add: drop_unavailable_def)
    then have loop: "for_each (drop_unavailable U env named) cs (acc @ [c]) = Inr out"
      using Cons.prems by simp
    show ?thesis using Cons.IH [OF loop] None by simp
  next
    case (Some reason)
    then have one: "drop_unavailable U env named c acc =
        (if cp_required c then Inl (ResolutionError (ConditionUnsatisfied (cp_id c) reason))
         else Inr (acc @ [if named then c else c\<lparr>cp_default := False\<rparr>]))"
      by (simp add: drop_unavailable_def)
    then have nreq: "\<not> cp_required c" using Cons.prems by (cases "cp_required c") simp_all
    then have loop: "for_each (drop_unavailable U env named) cs
        (acc @ [if named then c else c\<lparr>cp_default := False\<rparr>]) = Inr out"
      using Cons.prems one by simp
    show ?thesis using Cons.IH [OF loop] nreq by simp
  qed
qed

lemma resolve_conditional_Inr:
  assumes "resolve_conditional U cat preset env = Inr ids"
  obtains comps where "for_each (drop_unavailable U env (preset \<noteq> [] \<or> cat_default_preset cat \<noteq> []))
      (cat_components cat) [] = Inr comps"
    "resolve_graph (cat\<lparr>cat_components := comps\<rparr>) preset = Inr ids"
    "\<forall>i \<in> set ids. unavailable_reason U (cp_conditions (item (items_of (cat_components cat)) i)) env = None"
proof -
  obtain comps where 1: "for_each (drop_unavailable U env (preset \<noteq> [] \<or> cat_default_preset cat \<noteq> []))
      (cat_components cat) [] = Inr comps"
    and 2: "resolve_graph (cat\<lparr>cat_components := comps\<rparr>) preset = Inr ids"
    and 3: "for_each (\<lambda>i _. check_available U env (items_of (cat_components cat)) i) ids () = Inr ()"
    using assms by (auto simp: resolve_conditional_def Let_def split: if_split_asm sum.split_asm)
  from 3 have "\<forall>i \<in> set ids. check_available U env (items_of (cat_components cat)) i = Inr ()"
    by (simp add: for_each_unit_Inr)
  then have "\<forall>i \<in> set ids. unavailable_reason U (cp_conditions (item (items_of (cat_components cat)) i)) env = None"
    by (auto simp: check_available_def split: option.split_asm)
  then show ?thesis using that 1 2 by blast
qed

text \<open>Dropping defaults changes no version, dependency, conflict or exclusive group.\<close>

definition erase :: "component \<Rightarrow> component" where
  "erase c = c\<lparr>cp_default := False\<rparr>"

lemma erase_simps [simp]:
  "cp_id (erase c) = cp_id c" "cp_version (erase c) = cp_version c"
  "cp_dependencies (erase c) = cp_dependencies c" "cp_conflicts (erase c) = cp_conflicts c"
  "cp_exclusive (erase c) = cp_exclusive c" "cp_required (erase c) = cp_required c"
  by (simp_all add: erase_def)

lemma item_erase: "item (items_of (map erase cs)) i = erase (item (items_of cs) i)"
proof -
  have "items_of (map erase cs) = map_option erase \<circ> items_of cs"
  proof -
    have "rev (map (\<lambda>c. (cp_id c, c)) (map erase cs)) = map (\<lambda>(k, c). (k, erase c)) (rev (map (\<lambda>c. (cp_id c, c)) cs))"
      by (simp add: rev_map)
    then show ?thesis by (simp add: items_of_def map_of_map)
  qed
  then show ?thesis
    by (cases "items_of cs i") (simp_all add: item_def no_component_def erase_def)
qed

lemma graph_erase:
  "dependency_ids (items_of (map erase cs)) = dependency_ids (items_of cs)"
  "deps_ok (items_of (map erase cs)) = deps_ok (items_of cs)"
  "no_conflict (items_of (map erase cs)) S (erase c) = no_conflict (items_of cs) S c"
  by (simp_all add: dependency_ids_def deps_ok_def no_conflict_def item_erase fun_eq_iff)

lemma picked_erase: "picked (cat\<lparr>cat_components := map erase cs\<rparr>) S = map erase (picked (cat\<lparr>cat_components := cs\<rparr>) S)"
  by (simp add: picked_def filter_map comp_def)

lemma groups_erase: "exclusive_groups (map erase cs) = exclusive_groups cs"
  by (simp add: exclusive_groups_def comp_def)

lemma consistent_erase:
  "consistent (cat\<lparr>cat_components := map erase cs\<rparr>) S = consistent (cat\<lparr>cat_components := cs\<rparr>) S"
  by (simp add: consistent_def picked_erase groups_erase graph_erase)

lemma consistent_same:
  assumes "map erase cs = map erase ds"
  shows "consistent (cat\<lparr>cat_components := cs\<rparr>) S = consistent (cat\<lparr>cat_components := ds\<rparr>) S"
    and "dependency_ids (items_of cs) = dependency_ids (items_of ds)"
  using consistent_erase [where cat = cat and cs = cs and S = S] consistent_erase [where cat = cat and cs = ds and S = S]
    graph_erase(1) [of cs] graph_erase(1) [of ds] assms by metis+

text \<open>The result of a resolution, as a set: installable together, closed, and with all that is required.\<close>

definition installable :: "catalog \<Rightarrow> string set \<Rightarrow> bool" where
  "installable cat S \<longleftrightarrow> consistent cat S \<and>
     (\<forall>i \<in> S. set (dependency_ids (items_of (cat_components cat)) i) \<subseteq> S) \<and>
     (\<forall>c \<in> set (cat_components cat). cp_required c \<longrightarrow> cp_id c \<in> S) \<and>
     S \<subseteq> set (map cp_id (cat_components cat))"

lemma consistent_subset:
  assumes "consistent cat S" "T = S \<inter> set (map cp_id (cat_components cat))"
  shows "consistent cat T"
proof -
  have "picked cat T = picked cat S" unfolding picked_def using assms(2) by (auto intro: filter_cong)
  then show ?thesis using assms by (auto simp: consistent_def no_conflict_def)
qed

lemma resolve_graph_installable:
  assumes "resolve_graph cat preset = Inr ids" "\<forall>c \<in> set (cat_components cat). cp_id c \<noteq> []"
  shows "installable cat (set ids)"
proof -
  let ?m = "items_of (cat_components cat)"
  obtain R where R: "initial_selection cat preset = Inr R" and c: "consistent cat (reach cat R)"
    and ids: "ids = map cp_id (picked cat (reach cat R))"
    by (rule resolve_graph_sound [OF assms])
  have S: "set ids = reach cat R \<inter> set (map cp_id (cat_components cat))"
    by (auto simp: ids picked_def)
  have "set (dependency_ids ?m i) \<subseteq> set ids" if "i \<in> set ids" for i
  proof
    fix j
    assume j: "j \<in> set (dependency_ids ?m i)"
    then obtain d where d: "d \<in> set (cp_dependencies (item ?m i))" "j = rq_id d"
      by (auto simp: dependency_ids_def)
    have "deps_ok ?m i" using c that S by (auto simp: consistent_def)
    then have "?m j \<noteq> None" using d match_item_exists by (auto simp: deps_ok_def)
    then have "j \<in> set (map cp_id (cat_components cat))" using dom_items by (metis domIff)
    moreover have "j \<in> reach cat R"
      using that S j unfolding reach_def by (auto simp: edges_def intro: rtrancl_into_rtrancl)
    ultimately show "j \<in> set ids" using S by blast
  qed
  moreover have "cp_id c \<in> set ids" if "c \<in> set (cat_components cat)" "cp_required c" for c
  proof -
    have "cp_id c \<in> R"
      using R that by (auto simp: initial_selection_def Let_def split: if_splits option.splits)
    then show ?thesis using that S by (auto simp: reach_def)
  qed
  ultimately show ?thesis
    using consistent_subset [OF c S] S by (auto simp: installable_def)
qed

text \<open>C2: What the conditional resolver returns can be installed on the host: every component of it is available
  there, every required component is in it, it is closed under dependencies whose version ranges hold, and
  no two of its components conflict or share an exclusive group.\<close>
theorem conditional_resolution_sound:
  assumes "resolve_conditional U cat preset env = Inr ids" "\<forall>c \<in> set (cat_components cat). cp_id c \<noteq> []"
  shows "installable cat (set ids) \<and>
    (\<forall>i \<in> set ids. unavailable_reason U (cp_conditions (item (items_of (cat_components cat)) i)) env = None)"
proof -
  obtain comps where drop: "for_each (drop_unavailable U env (preset \<noteq> [] \<or> cat_default_preset cat \<noteq> []))
      (cat_components cat) [] = Inr comps"
    and res: "resolve_graph (cat\<lparr>cat_components := comps\<rparr>) preset = Inr ids"
    and av: "\<forall>i \<in> set ids. unavailable_reason U (cp_conditions (item (items_of (cat_components cat)) i)) env = None"
    by (rule resolve_conditional_Inr [OF assms(1)])
  have ids: "map cp_id comps = map cp_id (cat_components cat)"
    and er: "map erase comps = map erase (cat_components cat)"
    using drop_loop [OF drop] by (simp_all add: erase_def [abs_def])
  have "\<forall>c \<in> set comps. cp_id c \<noteq> []"
    using assms(2) arg_cong [OF ids, of set] by (metis (no_types, lifting) image_iff list.set_map)
  then have "installable (cat\<lparr>cat_components := comps\<rparr>) (set ids)"
    using resolve_graph_installable [OF res] by simp
  moreover have "(\<forall>c \<in> set comps. cp_required c \<longrightarrow> cp_id c \<in> S) \<longleftrightarrow>
      (\<forall>c \<in> set (cat_components cat). cp_required c \<longrightarrow> cp_id c \<in> S)" for S
  proof -
    have "(\<forall>c \<in> set cs. cp_required c \<longrightarrow> cp_id c \<in> S) \<longleftrightarrow> (\<forall>c \<in> set (map erase cs). cp_required c \<longrightarrow> cp_id c \<in> S)" for cs
      by simp
    then show ?thesis using er by metis
  qed
  moreover have "cat\<lparr>cat_components := cat_components cat\<rparr> = cat" by simp
  moreover have "set (map cp_id comps) = set (map cp_id (cat_components cat))" by (simp only: ids)
  ultimately have "installable cat (set ids)"
    using consistent_same(1) [OF er, where cat = cat and S = "set ids"] consistent_same(2) [OF er]
    by (simp add: installable_def)
  then show ?thesis using av by blast
qed

definition sample_conditions :: conditions where
  "sample_conditions = \<lparr>cd_schema = ''1.0'', cd_os = [''linux''], cd_arch = [], cd_java_min = 17, cd_java_max = 0,
     cd_minecraft = [], cd_minecraft_range = ''>=1.20.0'', cd_loaders = [''fabric''], cd_loader_range = [],
     cd_permissions = [''vip'']\<rparr>"

definition sample_host :: environment where
  "sample_host = \<lparr>en_os = ''linux'', en_arch = ''x86_64'', en_java = 21, en_minecraft = ''1.20.4'',
     en_loader = ''Fabric'', en_loader_version = ''0.15.0'', en_permissions = {''vip''}\<rparr>"

definition conditional_sample :: catalog where
  "conditional_sample = resolver_sample\<lparr>cat_schema := schema5, cat_components :=
     [bare_component ''lib'' ''1.4.0'' [] [],
      (bare_component ''map'' ''2.0.0'' [\<lparr>rq_id = ''lib'', rq_range = ''^1.2.0''\<rparr>] [])
        \<lparr>cp_conditions := Some sample_conditions\<rparr>]\<rparr>"

lemma conditional_sample_runs:
  "resolve_conditional ascii_only conditional_sample ''full'' sample_host = Inr [''lib'', ''map'']"
  "validate_catalog_topology id conditional_sample = Inr ()"
  by code_simp+

lemma conditional_sample_available:
  "\<forall>c \<in> set (cat_components conditional_sample). \<not> cp_required c"
  "unavailable_reason ascii_only (cp_conditions (item (items_of (cat_components conditional_sample)) ''lib'')) env = None"
  "unavailable_reason ascii_only (cp_conditions (item (items_of (cat_components conditional_sample)) ''map'')) sample_host = None"
  "unavailable_reason ascii_only (cp_conditions (item (items_of (cat_components conditional_sample)) ''map'')) no_environment =
     Some WrongOs"
proof -
  show "\<forall>c \<in> set (cat_components conditional_sample). \<not> cp_required c"
    by (simp add: conditional_sample_def bare_component_def no_component_def)
  show "unavailable_reason ascii_only (cp_conditions (item (items_of (cat_components conditional_sample)) ''lib'')) env = None"
    by (simp add: conditional_sample_def bare_component_def no_component_def items_of_def item_def unavailable_reason_def)
qed code_simp+

theorem conditional_resolution_sound_witness:
  "installable conditional_sample {''lib'', ''map''}"
proof -
  have "\<forall>c \<in> set (cat_components conditional_sample). cp_id c \<noteq> []"
    by (simp add: conditional_sample_def bare_component_def)
  from conditional_resolution_sound [OF conditional_sample_runs(1) this] show ?thesis by simp
qed

section \<open>Named presets\<close>

lemma topology_rules:
  assumes "validate_catalog_topology order cat = Inr ()"
    and "cat_schema cat = schema3 \<or> cat_schema cat = schema4 \<or> cat_schema cat = schema5"
  shows "validate_catalog_rules cat = Inr ()" "validate_catalog_conditions cat = Inr ()"
    "check_structure order cat = Inr ()"
proof -
  have "cat_schema cat \<noteq> schema1" using assms(2) by (auto simp: schema_defs)
  then show "validate_catalog_rules cat = Inr ()" "validate_catalog_conditions cat = Inr ()"
    "check_structure order cat = Inr ()"
    using assms by (simp_all add: validate_catalog_topology_def split: sum.split_asm)
qed

lemma rules_presets:
  assumes "validate_catalog_rules cat = Inr ()"
  shows "check_cycles cat = Inr ()" "p \<in> set (cat_presets cat) \<Longrightarrow> is_ok (resolve_graph cat (ps_id p))"
proof -
  have "check_cycles cat = Inr () \<and> (\<forall>p \<in> set (cat_presets cat). check_preset cat p = Inr ())"
    using assms unfolding validate_catalog_rules_def and_then_Inr for_each_unit_Inr by blast
  then show "check_cycles cat = Inr ()" "p \<in> set (cat_presets cat) \<Longrightarrow> is_ok (resolve_graph cat (ps_id p))"
    by (auto simp: check_preset_def is_ok_def split: sum.split_asm sum.split)
qed

lemma drop_loop_error:
  assumes "for_each (drop_unavailable U env named) cs acc = Inl e"
  shows "\<exists>c \<in> set cs. \<exists>why. e = ResolutionError (ConditionUnsatisfied (cp_id c) why) \<and> cp_required c \<and>
    unavailable_reason U (cp_conditions c) env = Some why"
proof -
  obtain c u where c: "c \<in> set cs" "drop_unavailable U env named c u = Inl e"
    using assms by (rule for_each_Inl)
  then show ?thesis
    by (intro bexI [OF _ c(1)]) (auto simp: drop_unavailable_def split: option.split_asm if_split_asm)
qed

text \<open>What can keep a selection from being installed on a host: a required component, or a selected one, that is
  not available there, with the reason.\<close>

definition blocks :: "unicode \<Rightarrow> environment \<Rightarrow> catalog \<Rightarrow> string list \<Rightarrow> string \<Rightarrow> unavailable \<Rightarrow> bool" where
  "blocks U env cat ids i why \<longleftrightarrow>
     (\<exists>c \<in> set (cat_components cat). cp_required c \<and> cp_id c = i \<and> unavailable_reason U (cp_conditions c) env = Some why) \<or>
     (i \<in> set ids \<and> unavailable_reason U (cp_conditions (item (items_of (cat_components cat)) i)) env = Some why)"

lemma named_resolution:
  assumes "cat_schema cat = schema4 \<or> cat_schema cat = schema5" "validate_catalog_conditions cat = Inr ()"
    and "preset \<noteq> []" "resolve_graph cat preset = Inr ids"
  shows "resolve_conditional U cat preset env = Inr ids \<and> (\<forall>i why. \<not> blocks U env cat ids i why) \<or>
    (\<exists>i why. resolve_conditional U cat preset env = Inl (ResolutionError (ConditionUnsatisfied i why)) \<and>
             blocks U env cat ids i why)"
proof (cases "for_each (drop_unavailable U env True) (cat_components cat) []")
  case (Inl e)
  then have "resolve_conditional U cat preset env = Inl e"
    using assms(1-3) by (auto simp: resolve_conditional_def)
  then show ?thesis using drop_loop_error [OF Inl] by (auto simp: blocks_def)
next
  case (Inr comps)
  have drop: "comps = cat_components cat"
    "\<forall>c \<in> set (cat_components cat). cp_required c \<longrightarrow> unavailable_reason U (cp_conditions c) env = None"
    using drop_loop [OF Inr] by simp_all
  have same: "cat\<lparr>cat_components := comps\<rparr> = cat" by (simp add: drop(1))
  let ?check = "check_available U env (items_of (cat_components cat))"
  have r: "resolve_conditional U cat preset env = (case for_each (\<lambda>i _. ?check i) ids () of Inl e \<Rightarrow> Inl e | Inr _ \<Rightarrow> Inr ids)"
    using assms Inr same by (auto simp: resolve_conditional_def)
  show ?thesis
  proof (cases "for_each (\<lambda>i _. ?check i) ids ()")
    case (Inl e)
    then obtain i where "i \<in> set ids" "?check i = Inl e" by (rule for_each_Inl)
    then show ?thesis using r Inl by (auto simp: check_available_def blocks_def split: option.split_asm)
  next
    case (Inr u)
    then have "\<forall>i \<in> set ids. ?check i = Inr ()" by (simp add: for_each_unit_Inr)
    then have "\<forall>i why. \<not> blocks U env cat ids i why"
      using drop(2) by (auto simp: check_available_def blocks_def split: option.split_asm)
    then show ?thesis using r Inr by simp
  qed
qed

text \<open>C11: A catalog of schema 4.0 or 5.0 that passed validation resolves each of its named presets, on every host, to
  the components of the static preview exactly when every required component and every component of the preview is
  available on that host.  Otherwise it fails, and the error names a component that is required or in the preview
  and is not available on the host, with the reason why it is not.\<close>
theorem named_preset_on_any_host:
  assumes "validate_catalog_topology order cat = Inr ()" "cat_schema cat = schema4 \<or> cat_schema cat = schema5"
    and "p \<in> set (cat_presets cat)" "ps_id p \<noteq> []"
  shows "\<exists>ids. preview_graph order cat (ps_id p) = Inr ids \<and>
    (resolve_conditional U cat (ps_id p) env = Inr ids \<and> (\<forall>i why. \<not> blocks U env cat ids i why) \<or>
     (\<exists>i why. resolve_conditional U cat (ps_id p) env = Inl (ResolutionError (ConditionUnsatisfied i why)) \<and>
              blocks U env cat ids i why))"
proof -
  have rules: "validate_catalog_rules cat = Inr ()" and conds: "validate_catalog_conditions cat = Inr ()"
    using topology_rules [OF assms(1)] assms(2) by blast+
  obtain ids where ids: "resolve_graph cat (ps_id p) = Inr ids"
    using rules_presets(2) [OF rules assms(3)] by (auto simp: is_ok_iff)
  have "preview_graph order cat (ps_id p) = Inr ids"
    by (simp add: preview_graph_def assms(1) ids)
  then show ?thesis using named_resolution [OF assms(2) conds assms(4) ids] by blast
qed

text \<open>On the Linux host the preset resolves; on a host that states nothing, the map is refused for its system.\<close>
theorem named_preset_on_any_host_witness:
  "resolve_conditional ascii_only conditional_sample ''full'' sample_host = Inr [''lib'', ''map''] \<and>
   resolve_conditional ascii_only conditional_sample ''full'' no_environment =
     Inl (ResolutionError (ConditionUnsatisfied ''map'' WrongOs))"
proof -
  have p: "\<lparr>ps_id = ''full'', ps_name = ''Full'', ps_description = [], ps_components = [''map'']\<rparr>
      \<in> set (cat_presets conditional_sample)"
    by (simp add: conditional_sample_def resolver_sample_def)
  have s: "cat_schema conditional_sample = schema4 \<or> cat_schema conditional_sample = schema5"
    by (simp add: conditional_sample_def)
  have pre: "preview_graph id conditional_sample ''full'' = Inr [''lib'', ''map'']" by code_simp
  have free: "\<not> blocks ascii_only sample_host conditional_sample [''lib'', ''map''] i why" for i why
    using conditional_sample_available by (auto simp: blocks_def)
  have map: "blocks ascii_only no_environment conditional_sample [''lib'', ''map''] i why \<longleftrightarrow> i = ''map'' \<and> why = WrongOs" for i why
    using conditional_sample_available by (auto simp: blocks_def)
  from named_preset_on_any_host [OF conditional_sample_runs(2) s p, of ascii_only sample_host]
    named_preset_on_any_host [OF conditional_sample_runs(2) s p, of ascii_only no_environment]
  show ?thesis using pre free map by auto
qed

section \<open>The order of iteration\<close>

text \<open>The order in which Go iterates its maps of categories and groups never decides whether a catalog is
  valid: with any two orders that visit the same keys, either both runs accept or both refuse.\<close>
lemma topology_order_irrelevant:
  assumes "\<And>xs. set (order1 xs) = set xs" "\<And>xs. set (order2 xs) = set xs"
  shows "validate_catalog_topology order1 cat = Inr () \<longleftrightarrow> validate_catalog_topology order2 cat = Inr ()"
proof -
  have "check_structure order1 cat = Inr () \<longleftrightarrow> check_structure order2 cat = Inr ()"
    by (simp add: check_structure_def for_each_unit_Inr assms split: sum.split)
  then show ?thesis
    by (simp add: validate_catalog_topology_def)
qed

section \<open>Nesting\<close>

definition step_up :: "category gomap \<Rightarrow> string \<Rightarrow> string" where
  "step_up m i = (case m i of Some v \<Rightarrow> ct_parent v | None \<Rightarrow> [])"

definition parent_of :: "catalog \<Rightarrow> string \<Rightarrow> string" where
  "parent_of cat = step_up (map_of (map (\<lambda>v. (ct_id v, v)) (cat_categories cat)))"

lemma add_categories:
  assumes "for_each add_category vs m = Inr m'"
  shows "m' = m ++ map_of (map (\<lambda>v. (ct_id v, v)) vs) \<and> distinct (map ct_id vs) \<and>
    dom m \<inter> set (map ct_id vs) = {}"
  using assms
proof (induction vs arbitrary: m)
  case Nil
  then show ?case by simp
next
  case (Cons v vs)
  obtain u where u: "add_category v m = Inr u" "for_each add_category vs u = Inr m'"
    using Cons.prems by (auto split: sum.splits)
  have step: "m (ct_id v) = None" "u = m(ct_id v \<mapsto> v)"
    using u(1) by (simp_all add: add_category_def split: if_split_asm)
  have IH: "m' = u ++ map_of (map (\<lambda>v. (ct_id v, v)) vs)" "distinct (map ct_id vs)"
    "dom u \<inter> set (map ct_id vs) = {}"
    using Cons.IH [OF u(2)] by blast+
  have notin: "ct_id v \<notin> set (map ct_id vs)" using IH(3) step(2) by auto
  then have "map_of (map (\<lambda>v. (ct_id v, v)) vs) (ct_id v) = None"
    by (simp add: map_of_eq_None_iff image_image)
  then have eq: "m' = m ++ map_of (map (\<lambda>v. (ct_id v, v)) (v # vs))"
    using IH(1) step(2) by (intro ext) (simp add: map_add_def split: option.split)
  have "distinct (map ct_id (v # vs))" "dom m \<inter> set (map ct_id (v # vs)) = {}"
    using IH(2,3) step notin by auto
  with eq show ?case by blast
qed

lemma walk_category_ends:
  assumes "walk_category m start n cur seen = Inr ()"
  shows "\<exists>k \<le> n. (step_up m ^^ k) cur = [] \<and> (\<forall>j < k. m ((step_up m ^^ j) cur) \<noteq> None)"
  using assms
proof (induction m start n cur seen rule: walk_category.induct)
  case (1 m start cur seen)
  then show ?case by (auto split: if_split_asm)
next
  case (2 m start n cur seen)
  let ?p = "step_up m"
  show ?case
  proof (cases "cur = []")
    case True
    then show ?thesis by (intro exI [of _ 0]) simp
  next
    case False
    then obtain v where v: "m cur = Some v" "cur \<notin> seen"
      and w: "walk_category m start n (ct_parent v) (insert cur seen) = Inr ()"
      using "2.prems" by (auto split: if_split_asm option.split_asm)
    then obtain k where k: "k \<le> n" "(?p ^^ k) (?p cur) = []" "\<forall>j < k. m ((?p ^^ j) (?p cur)) \<noteq> None"
      using "2.IH" [OF False v(2,1) w] v(1) by (auto simp: step_up_def [of m cur])
    have "\<forall>j < Suc k. m ((?p ^^ j) cur) \<noteq> None"
    proof (intro allI impI)
      fix j
      assume "j < Suc k"
      then show "m ((?p ^^ j) cur) \<noteq> None" using k(3) v(1) by (cases j) (simp_all add: funpow_Suc_right del: funpow.simps(2))
    qed
    then show ?thesis
      using k by (intro exI [of _ "Suc k"]) (simp add: funpow_Suc_right del: funpow.simps(2))
  qed
qed

text \<open>In a valid catalog every category lies at most nine levels deep: following the parents from it leads
  to the top in at most nine steps, through declared categories only, so no category contains itself.\<close>
lemma category_nesting_bounded:
  assumes "check_structure order cat = Inr ()" "\<And>xs. set (order xs) = set xs" "v \<in> set (cat_categories cat)"
  shows "\<exists>k \<le> 9. (parent_of cat ^^ k) (ct_id v) = [] \<and>
    (\<forall>j < k. (parent_of cat ^^ j) (ct_id v) \<in> set (map ct_id (cat_categories cat)))"
proof -
  obtain cm where cm: "for_each add_category (cat_categories cat) Map.empty = Inr cm"
    using assms(1) by (auto simp: check_structure_def split: sum.split_asm)
  have m: "cm = map_of (map (\<lambda>v. (ct_id v, v)) (cat_categories cat))"
    using add_categories [OF cm] by simp
  have p: "parent_of cat = step_up cm" by (simp add: parent_of_def m)
  have "walk_category cm (ct_id v) 9 (ct_id v) {} = Inr ()"
    using assms cm by (auto simp: check_structure_def for_each_unit_Inr split: sum.split_asm)
  from walk_category_ends [OF this] obtain k where k: "k \<le> 9" "(parent_of cat ^^ k) (ct_id v) = []"
    "\<forall>j < k. cm ((parent_of cat ^^ j) (ct_id v)) \<noteq> None"
    unfolding p by blast
  moreover have "x \<in> set (map ct_id (cat_categories cat))" if "cm x \<noteq> None" for x
    using that by (simp add: m map_of_eq_None_iff image_image)
  ultimately show ?thesis by blast
qed

definition nested_sample :: catalog where
  "nested_sample = resolver_sample\<lparr>cat_categories :=
     [\<lparr>ct_id = ''a'', ct_name = ''A'', ct_description = [], ct_parent = []\<rparr>,
      \<lparr>ct_id = ''b'', ct_name = ''B'', ct_description = [], ct_parent = ''a''\<rparr>]\<rparr>"

section \<open>Components own the optional files\<close>

lemma distinct_concat_unique:
  "distinct (concat (map g xs)) \<Longrightarrow> x \<in> set xs \<Longrightarrow> y \<in> set xs \<Longrightarrow> k \<in> set (g x) \<Longrightarrow> k \<in> set (g y) \<Longrightarrow> x = y"
  by (induction xs) auto

definition component_keys :: "unicode \<Rightarrow> component \<Rightarrow> string list" where
  "component_keys U c = map (to_lower U) (cp_files c)"

definition owned_file :: "unicode \<Rightarrow> manifest_file gomap \<Rightarrow> string \<Rightarrow> bool" where
  "owned_file U files p \<longleftrightarrow>
     (\<exists>f. files (to_lower U p) = Some f \<and> mf_path f = p \<and> \<not> mf_required f \<and> file_ownership f = ''optional'')"

lemma component_files_loop:
  assumes "for_each (check_component_file U files c) ps owners = Inr owners'"
  shows "distinct (map (to_lower U) ps) \<and> (\<forall>p \<in> set ps. owned_file U files p \<and> owners (to_lower U p) = None) \<and>
    owners' = (\<lambda>k. if k \<in> to_lower U ` set ps then Some (cp_id c) else owners k)"
  using assms
proof (induction ps arbitrary: owners)
  case Nil
  then show ?case by simp
next
  case (Cons p ps)
  obtain u where u: "check_component_file U files c p owners = Inr u"
    "for_each (check_component_file U files c) ps u = Inr owners'"
    using Cons.prems by (auto split: sum.splits)
  have step: "owners (to_lower U p) = None" "owned_file U files p" "u = owners(to_lower U p \<mapsto> cp_id c)"
    using u(1) by (auto simp: check_component_file_def owned_file_def Let_def split: if_split_asm option.split_asm)
  have IH: "distinct (map (to_lower U) ps)" "\<forall>p \<in> set ps. owned_file U files p \<and> u (to_lower U p) = None"
    "owners' = (\<lambda>k. if k \<in> to_lower U ` set ps then Some (cp_id c) else u k)"
    using Cons.IH [OF u(2)] by blast+
  have fresh: "owners (to_lower U q) = None \<and> to_lower U q \<noteq> to_lower U p" if "q \<in> set ps" for q
    using IH(2) that step(3) by (auto split: if_split_asm)
  show ?case
  proof (intro conjI)
    show "distinct (map (to_lower U) (p # ps))" using IH(1) fresh by fastforce
    show "\<forall>q \<in> set (p # ps). owned_file U files q \<and> owners (to_lower U q) = None"
      using IH(2) fresh step by auto
    show "owners' = (\<lambda>k. if k \<in> to_lower U ` set (p # ps) then Some (cp_id c) else owners k)"
      by (auto simp: IH(3) step(3) fun_eq_iff)
  qed
qed

lemma components_loop:
  assumes "for_each (check_component U files) cs (ids, owners) = Inr (ids', owners')"
  shows "distinct (map cp_id cs) \<and> (\<forall>c \<in> set cs. valid_component_id (cp_id c) \<and> cp_id c \<notin> ids) \<and>
    distinct (concat (map (component_keys U) cs)) \<and>
    (\<forall>c \<in> set cs. \<forall>p \<in> set (cp_files c). owned_file U files p \<and> owners (to_lower U p) = None) \<and>
    (\<forall>k. owners' k \<noteq> None \<longrightarrow> owners k \<noteq> None \<or> (\<exists>c \<in> set cs. k \<in> set (component_keys U c)))"
  using assms
proof (induction cs arbitrary: ids owners)
  case Nil
  then show ?case by simp
next
  case (Cons c cs)
  obtain st where st: "check_component U files c (ids, owners) = Inr st"
    and rest0: "for_each (check_component U files) cs st = Inr (ids', owners')"
    using Cons.prems by (auto split: sum.splits)
  obtain o' where o': "for_each (check_component_file U files c) (cp_files c) owners = Inr o'"
    and st_eq: "st = (insert (cp_id c) ids, o')"
    and c: "valid_component_id (cp_id c)" "cp_id c \<notin> ids"
    using st by (auto simp: check_component_def split: sum.splits if_split_asm)
  note rest = rest0 [unfolded st_eq]
  have files: "distinct (component_keys U c)"
    "\<forall>p \<in> set (cp_files c). owned_file U files p \<and> owners (to_lower U p) = None"
    "o' = (\<lambda>k. if k \<in> set (component_keys U c) then Some (cp_id c) else owners k)"
    using component_files_loop [OF o'] by (simp_all add: component_keys_def)
  have IH: "distinct (map cp_id cs)" "\<forall>c' \<in> set cs. valid_component_id (cp_id c') \<and> cp_id c' \<notin> insert (cp_id c) ids"
    "distinct (concat (map (component_keys U) cs))"
    "\<forall>c \<in> set cs. \<forall>p \<in> set (cp_files c). owned_file U files p \<and> o' (to_lower U p) = None"
    "\<forall>k. owners' k \<noteq> None \<longrightarrow> o' k \<noteq> None \<or> (\<exists>c \<in> set cs. k \<in> set (component_keys U c))"
    using Cons.IH [OF rest] by blast+
  have fresh: "owners k = None \<and> k \<notin> set (component_keys U c)" if "k \<in> set (component_keys U d)" "d \<in> set cs" for k d
  proof -
    have "o' k = None" using IH(4) that by (auto simp: component_keys_def)
    then show ?thesis by (simp add: files(3) split: if_split_asm)
  qed
  show ?case
  proof (intro conjI)
    show "distinct (map cp_id (c # cs))" using IH(1,2) by auto
    show "\<forall>d \<in> set (c # cs). valid_component_id (cp_id d) \<and> cp_id d \<notin> ids" using IH(2) c by auto
    show "distinct (concat (map (component_keys U) (c # cs)))" using IH(3) files(1) fresh by auto
    show "\<forall>d \<in> set (c # cs). \<forall>p \<in> set (cp_files d). owned_file U files p \<and> owners (to_lower U p) = None"
    proof (intro ballI)
      fix d p
      assume d: "d \<in> set (c # cs)" "p \<in> set (cp_files d)"
      have "to_lower U p \<in> set (component_keys U d)" using d(2) by (simp add: component_keys_def)
      then show "owned_file U files p \<and> owners (to_lower U p) = None"
        using d IH(4) files(2) fresh by auto
    qed
    show "\<forall>k. owners' k \<noteq> None \<longrightarrow> owners k \<noteq> None \<or> (\<exists>d \<in> set (c # cs). k \<in> set (component_keys U d))"
    proof (intro allI impI)
      fix k
      assume "owners' k \<noteq> None"
      then have "o' k \<noteq> None \<or> (\<exists>c \<in> set cs. k \<in> set (component_keys U c))" using IH(5) by blast
      then show "owners k \<noteq> None \<or> (\<exists>d \<in> set (c # cs). k \<in> set (component_keys U d))"
        by (cases "k \<in> set (component_keys U c)") (auto simp: files(3))
    qed
  qed
qed

lemma files_by_key_Some: "files_by_key U fs k = Some f \<Longrightarrow> f \<in> set fs \<and> to_lower U (mf_path f) = k"
  by (auto simp: files_by_key_def dest: map_of_SomeD)

text \<open>What the validation of the catalog of a manifest established, taken apart once.\<close>

lemma validated_catalog:
  assumes "validate_component_catalog U sha order m = Inr ()" "mn_schema m = manifest_schema3"
  obtains cat ids owners where "mn_catalog m = Some cat" "cat_digest cat = catalog_digest5 sha cat"
    "cat_revision cat \<noteq> 0" "length (cat_components cat) \<le> 4096"
    "validate_catalog_actions U cat = Inr ()" "validate_catalog_conditions cat = Inr ()"
    "validate_catalog_topology order cat = Inr ()"
    "for_each (check_component U (files_by_key U (mn_files m))) (cat_components cat) ({}, Map.empty) = Inr (ids, owners)"
    "\<forall>f \<in> set (mn_files m). file_ownership f = ''optional'' \<longrightarrow> owner_of owners (to_lower U (mf_path f)) \<noteq> []"
proof -
  obtain cat where cat: "mn_catalog m = Some cat"
    using assms by (auto simp: validate_component_catalog_def split: option.split_asm)
  let ?loop = "for_each (check_component U (files_by_key U (mn_files m))) (cat_components cat) ({}, Map.empty)"
  have parts: "cat_digest cat = catalog_digest5 sha cat" "cat_revision cat \<noteq> 0"
    "length (cat_components cat) \<le> 4096" "validate_catalog_actions U cat = Inr ()"
    "validate_catalog_conditions cat = Inr ()" "validate_catalog_topology order cat = Inr ()"
    and tail: "(case ?loop of Inl e \<Rightarrow> Inl e
       | Inr (ids, owners) \<Rightarrow>
           for_each (\<lambda>f _. check (\<not> (file_ownership f = ''optional'' \<and>
               owner_of owners (to_lower U (mf_path f)) = [])) (OrphanFile (mf_path f))) (mn_files m) ()) = Inr ()"
    using assms cat by (simp_all add: validate_component_catalog_def split: if_split_asm)
  from tail obtain ids owners where loop: "?loop = Inr (ids, owners)"
    and "for_each (\<lambda>f _. check (\<not> (file_ownership f = ''optional'' \<and>
               owner_of owners (to_lower U (mf_path f)) = [])) (OrphanFile (mf_path f))) (mn_files m) () = Inr ()"
    by (auto split: sum.split_asm)
  then have "\<forall>f \<in> set (mn_files m). file_ownership f = ''optional'' \<longrightarrow> owner_of owners (to_lower U (mf_path f)) \<noteq> []"
    by (simp add: for_each_unit_Inr)
  then show ?thesis using that cat parts loop by blast
qed

text \<open>C9: In a valid manifest of schema 3.0 the catalog's components partition the optional files: each optional
  file belongs to exactly one component, each file of a component is an optional file of the manifest that
  is not required, component identifiers are distinct, and the catalog carries its own digest.\<close>
theorem components_partition_files:
  assumes "validate_component_catalog U sha order m = Inr ()" "mn_schema m = manifest_schema3"
    and "validate_file_ownership U m = Inr ()"
  shows "\<exists>cat. mn_catalog m = Some cat \<and> cat_digest cat = catalog_digest5 sha cat \<and>
    distinct (map cp_id (cat_components cat)) \<and>
    (\<forall>f \<in> set (mn_files m). file_ownership f = ''optional'' \<longrightarrow>
       (\<exists>!c. c \<in> set (cat_components cat) \<and> mf_path f \<in> set (cp_files c))) \<and>
    (\<forall>c \<in> set (cat_components cat). \<forall>p \<in> set (cp_files c). \<exists>f \<in> set (mn_files m).
       mf_path f = p \<and> file_ownership f = ''optional'' \<and> \<not> mf_required f)"
proof -
  obtain cat ids owners where cat: "mn_catalog m = Some cat" "cat_digest cat = catalog_digest5 sha cat"
    and loop: "for_each (check_component U (files_by_key U (mn_files m))) (cat_components cat) ({}, Map.empty) = Inr (ids, owners)"
    and orphan: "\<forall>f \<in> set (mn_files m). file_ownership f = ''optional'' \<longrightarrow> owner_of owners (to_lower U (mf_path f)) \<noteq> []"
    by (rule validated_catalog [OF assms(1,2)])
  note comps = components_loop [OF loop]
  have paths: "distinct (map (\<lambda>f. to_lower U (mf_path f)) (mn_files m))"
    using assms(2,3) by (simp add: validate_ownership_Inr policy_schema_def)
  have owned: "\<exists>f \<in> set (mn_files m). mf_path f = p \<and> file_ownership f = ''optional'' \<and> \<not> mf_required f"
    if "c \<in> set (cat_components cat)" "p \<in> set (cp_files c)" for c p
    using comps that by (fastforce simp: owned_file_def dest: files_by_key_Some)
  have ex1: "\<exists>!c. c \<in> set (cat_components cat) \<and> mf_path f \<in> set (cp_files c)"
    if f: "f \<in> set (mn_files m)" "file_ownership f = ''optional''" for f
  proof -
    have "owners (to_lower U (mf_path f)) \<noteq> None" using bspec [OF orphan f(1)] f(2)
      by (cases "owners (to_lower U (mf_path f))") (simp_all add: owner_of_def)
    then obtain c where c: "c \<in> set (cat_components cat)" "to_lower U (mf_path f) \<in> set (component_keys U c)"
      using comps by auto
    then obtain p where p: "p \<in> set (cp_files c)" "to_lower U p = to_lower U (mf_path f)"
      by (auto simp: component_keys_def)
    then obtain g where "g \<in> set (mn_files m)" "mf_path g = p" using owned c(1) by blast
    then have "g = f" using paths p(2) f(1) by (auto simp: distinct_map dest: inj_onD)
    then have "mf_path f \<in> set (cp_files c)" using p(1) \<open>mf_path g = p\<close> by simp
    moreover have "d = c" if "d \<in> set (cat_components cat)" "mf_path f \<in> set (cp_files d)" for d
      using distinct_concat_unique [of "component_keys U" "cat_components cat" d c "to_lower U (mf_path f)"]
        comps that c by (auto simp: component_keys_def)
    ultimately show ?thesis using c(1) by blast
  qed
  show ?thesis
    using cat comps ex1 owned by (intro exI [of _ cat]) auto
qed

definition partition_sample :: manifest where
  "partition_sample =
     (let cat = new_catalog5 length_hash
            (actions_sample\<lparr>cat_schema := schema5, cat_components :=
               [(bare_component ''map'' ''1.0.0'' [] [])\<lparr>cp_files := [''mods/a.jar'']\<rparr>]\<rparr>) 1
      in (sample_manifest manifest_schema3
            [(sample_file ''mods/a.jar'')\<lparr>mf_required := False\<rparr>, sample_file ''lib/core.jar''] [] (Some cat)))"

theorem components_partition_files_witness:
  "\<exists>cat. mn_catalog partition_sample = Some cat \<and> distinct (map cp_id (cat_components cat))"
proof -
  have v: "validate_component_catalog ascii_only length_hash id partition_sample = Inr ()" by code_simp
  have o: "validate_file_ownership ascii_only partition_sample = Inr ()" by code_simp
  have "mn_schema partition_sample = manifest_schema3"
    by (simp add: partition_sample_def sample_manifest_def Let_def)
  from components_partition_files [OF v this o] show ?thesis by blast
qed

end
