(* ===== verification/RuntimeRules.thy ===== *)
theory RuntimeRules
  imports FilePolicy CatConditions
begin

text \<open>
  The runtime constraints of a manifest (\<^verbatim>\<open>model/runtime_constraints.go\<close>): the Java and memory ranges, the
  arguments of the virtual machine, the launch paths and the environment.  The three regular expressions of
  the file are written out as functions on the bytes; the case-insensitive one also accepts the two letters
  that Unicode folds to \<^verbatim>\<open>s\<close> and \<^verbatim>\<open>k\<close> (the long s and the Kelvin sign).  Go's \<^verbatim>\<open>int64\<close> is \<^typ>\<open>int\<close>;
  \<open>heap_mb_range\<close> shows that no operation on it wraps around.
\<close>

section \<open>The regular expressions\<close>

definition word_start :: "char \<Rightarrow> bool" where
  "word_start c \<longleftrightarrow> is_upper c \<or> is_lower c \<or> c = CHR ''_''"

definition word_byte :: "char \<Rightarrow> bool" where
  "word_byte c \<longleftrightarrow> word_start c \<or> is_digit c"

definition environment_name :: "string \<Rightarrow> bool" where
  "environment_name s \<longleftrightarrow> s \<noteq> [] \<and> word_start (hd s) \<and> list_all word_byte (tl s)"

definition java_module :: "string \<Rightarrow> bool" where
  "java_module s =
     (case cut_char (CHR ''/'') s of
        (m, r) \<Rightarrow>
          m \<noteq> [] \<and> word_start (hd m) \<and> list_all (\<lambda>c. word_byte c \<or> c = CHR ''.'') (tl m) \<and>
          (case r of
             None \<Rightarrow> True
           | Some k \<Rightarrow>
               k \<noteq> [] \<and> (word_start (hd k) \<or> hd k = CHR ''$'') \<and>
               list_all (\<lambda>c. word_byte c \<or> c = CHR ''.'' \<or> c = CHR ''$'') (tl k)))"

definition long_s :: string where "long_s = [CHR 0xC5, CHR 0xBF]"
definition kelvin :: string where "kelvin = [CHR 0xE2, CHR 0x84, CHR 0xAA]"

definition heap_kinds :: "string list" where "heap_kinds = [''s'', ''S'', ''x'', ''X'', long_s]"
definition heap_units :: "string list" where "heap_units = [[], ''k'', ''K'', kelvin, ''m'', ''M'', ''g'', ''G'']"

text \<open>\<^verbatim>\<open>heapSize0223.FindStringSubmatch\<close>: the letter, the digits and the unit.\<close>

definition heap_match :: "string \<Rightarrow> (string \<times> string \<times> string) option" where
  "heap_match arg =
     (if map lower_byte (take 3 arg) \<noteq> ''-xm'' then None
      else
        (case first_some (has_prefix (drop 3 arg)) heap_kinds of
           None \<Rightarrow> None
         | Some k \<Rightarrow>
             (let r = drop (3 + length k) arg;
                  ds = takeWhile is_digit r;
                  u = dropWhile is_digit r
              in if ds = [] \<or> hd ds = CHR ''0'' \<or> \<not> List.member heap_units u then None
                 else Some (k, ds, u))))"

section \<open>Errors\<close>

datatype runtime_error =
    BadJavaMajor
  | JavaRangeContradiction
  | MemoryOrder
  | BadJvmArgument
  | PathFlag string
  | AgentFlag string
  | BadHeapArgument string
  | RepeatedHeap char
  | HeapNumber
  | HeapTooLarge
  | HeapOutOfBounds string
  | HeapOrder
  | BadStrategy string
  | BadLaunchPath string
  | PathNotRequired string
  | RepeatedLaunchPath string
  | BadMainModule
  | ModuleMissing
  | BadEnvironmentName string
  | BadGameArgument

section \<open>Ranges\<close>

definition check_java :: "java_info \<Rightarrow> runtime_error + unit" where
  "check_java j =
     (let mi = jv_min j; rc = jv_rec j; ma = jv_max j
      in if jv_major j < 1 \<or> jv_major j > 255 then Inl BadJavaMajor
         else if mi < 0 \<or> rc < 0 \<or> ma < 0 \<or> mi > 255 \<or> rc > 255 \<or> ma > 255 \<or>
           (mi > 0 \<and> ma > 0 \<and> mi > ma) \<or>
           (rc > 0 \<and> mi > 0 \<and> rc < mi) \<or> (rc > 0 \<and> ma > 0 \<and> rc > ma) \<or>
           (mi > 0 \<and> jv_major j < mi) \<or> (ma > 0 \<and> jv_major j > ma)
         then Inl JavaRangeContradiction else Inr ())"

definition check_memory :: "memory_info \<Rightarrow> runtime_error + unit" where
  "check_memory m =
     (if mem_min m < 0 \<or> mem_rec m < 0 \<or> mem_max m < 0 \<or>
         (mem_max m > 0 \<and> mem_min m > mem_max m) \<or>
         (mem_rec m > 0 \<and> mem_min m > 0 \<and> mem_rec m < mem_min m) \<or>
         (mem_max m > 0 \<and> mem_rec m > mem_max m)
      then Inl MemoryOrder else Inr ())"

section \<open>Arguments of the virtual machine\<close>

definition path_flags :: "string list" where
  "path_flags =
     [''-cp'', ''-classpath'', ''--class-path'', ''--module-path'', ''--patch-module'',
      ''--upgrade-module-path'', ''-p'', ''-m'', ''--module'', ''-jar'']"

definition agent_prefixes :: "string list" where
  "agent_prefixes =
     [''-xbootclasspath'', ''--class-path='', ''--module-path='', ''--patch-module='',
      ''--upgrade-module-path='', ''-xx:onerror='', ''-xx:onoutofmemoryerror='', ''-javaagent:'',
      ''-agentpath:'', ''-agentlib:'']"

text \<open>The heap size in megabytes, rounded up.\<close>

definition heap_mb :: "unicode \<Rightarrow> string \<Rightarrow> string \<Rightarrow> runtime_error + int" where
  "heap_mb U digits u =
     (case parse_int64 digits of
        None \<Rightarrow> Inl HeapNumber
      | Some n \<Rightarrow>
          if to_lower U u = ''k'' then Inr (n div 1024 + (if n mod 1024 > 0 then 1 else 0))
          else if to_lower U u = ''g'' then (if n > 2 ^ 50 then Inl HeapTooLarge else Inr (n * 1024))
          else if to_lower U u = [] then Inr (n div 1048576 + (if n mod 1048576 > 0 then 1 else 0))
          else Inr n)"

definition check_heap ::
    "unicode \<Rightarrow> memory_info \<Rightarrow> string \<Rightarrow> (char \<rightharpoonup> int) \<Rightarrow> runtime_error + (char \<rightharpoonup> int)" where
  "check_heap U mem arg heap =
     (case heap_match arg of
        None \<Rightarrow> Inl (BadHeapArgument arg)
      | Some (k, ds, u) \<Rightarrow>
          if heap (hd k) \<noteq> None then Inl (RepeatedHeap (hd k))
          else
            (case heap_mb U ds u of
               Inl e \<Rightarrow> Inl e
             | Inr n \<Rightarrow>
                 if (mem_min mem > 0 \<and> n < mem_min mem) \<or> (mem_max mem > 0 \<and> n > mem_max mem)
                 then Inl (HeapOutOfBounds arg) else Inr (heap(hd k \<mapsto> n))))"

text \<open>The body of the loop over the arguments.  The two Go maps \<^verbatim>\<open>seenHeap\<close> and \<^verbatim>\<open>heapValues\<close> get the same
  keys in every iteration that does not return, so they are one map.\<close>

definition check_jvm_arg ::
    "unicode \<Rightarrow> memory_info \<Rightarrow> string \<Rightarrow> (char \<rightharpoonup> int) \<Rightarrow> runtime_error + (char \<rightharpoonup> int)" where
  "check_jvm_arg U mem arg heap =
     (if trim_space arg = [] \<or> contains_any arg [CHR 0x00, CHR 0x0D, CHR 0x0A] then Inl BadJvmArgument
      else
        (let low = to_lower U arg
         in if List.member path_flags low then Inl (PathFlag arg)
            else if list_ex (has_prefix low) agent_prefixes then Inl (AgentFlag arg)
            else if has_prefix low ''-xmx'' \<or> has_prefix low ''-xms'' then check_heap U mem arg heap
            else Inr heap))"

definition check_heap_order :: "(char \<rightharpoonup> int) \<Rightarrow> runtime_error + unit" where
  "check_heap_order heap =
     (case (heap (CHR ''s''), heap (CHR ''x'')) of
        (Some s, Some x) \<Rightarrow> if s > x then Inl HeapOrder else Inr ()
      | _ \<Rightarrow> Inr ())"

section \<open>Launch paths and environment\<close>

definition strategies :: "string list" where
  "strategies = [[], ''manifest'', ''libraries'', ''compatibility'', ''mojang'']"

definition check_launch_path :: "unicode \<Rightarrow> string set \<Rightarrow> string \<Rightarrow> string set \<Rightarrow> runtime_error + string set" where
  "check_launch_path U declared entry used =
     (if entry = [] \<or> contains_any entry [CHR 0x5C, CHR '':'', CHR 0x00, CHR 0x0D, CHR 0x0A] \<or>
         has_prefix entry ''/'' \<or> path_clean entry \<noteq> entry \<or> entry = ''.'' \<or> has_prefix entry ''../'' \<or>
         \<not> has_suffix (to_lower U entry) ''.jar''
      then Inl (BadLaunchPath entry)
      else if entry \<notin> declared then Inl (PathNotRequired entry)
      else if entry \<in> used then Inl (RepeatedLaunchPath entry)
      else Inr (str_set_add used entry))"

definition check_main_module :: "runtime_launch \<Rightarrow> runtime_error + unit" where
  "check_main_module l =
     (if rl_main_module l \<noteq> [] then
        (if \<not> java_module (rl_main_module l) \<or> length (rl_modulepath l) = 0 then Inl BadMainModule else Inr ())
      else if length (rl_modulepath l) > 0 then Inl ModuleMissing else Inr ())"

definition reserved_environment :: "string list" where
  "reserved_environment = [''JAVA_TOOL_OPTIONS'', ''_JAVA_OPTIONS'', ''JDK_JAVA_OPTIONS'', ''CLASSPATH'']"

definition check_environment :: "unicode \<Rightarrow> string \<Rightarrow> string set \<Rightarrow> runtime_error + string set" where
  "check_environment U name env =
     (let up = to_upper U name
      in if \<not> environment_name name \<or> up \<in> env \<or> List.member reserved_environment up
         then Inl (BadEnvironmentName name) else Inr (str_set_add env up))"

definition no_runtime_yet :: "runtime_info \<Rightarrow> bool" where
  "no_runtime_yet r \<longleftrightarrow>
     jv_major (rt_java r) = 0 \<and> jv_distribution (rt_java r) = [] \<and> length (rt_jvm_args r) = 0 \<and>
     rt_memory r = \<lparr>mem_min = 0, mem_rec = 0, mem_max = 0\<rparr> \<and>
     length (rl_classpath (rt_launch r)) = 0 \<and> length (rl_modulepath (rt_launch r)) = 0 \<and>
     rl_main_class (rt_launch r) = [] \<and> rl_strategy (rt_launch r) = [] \<and>
     length (rl_env (rt_launch r)) = 0 \<and> rl_main_module (rt_launch r) = []"

definition required_paths :: "manifest_file list \<Rightarrow> string set" where
  "required_paths fs = set (map mf_path (filter mf_required fs))"

text \<open>The launch section: the strategy, the paths, the module, the environment and the game arguments.\<close>

definition check_launch :: "unicode \<Rightarrow> manifest \<Rightarrow> runtime_error + unit" where
  "check_launch U m =
     (let l = rt_launch (mn_runtime m)
      in if \<not> List.member strategies (to_lower U (trim_space (rl_strategy l)))
         then Inl (BadStrategy (rl_strategy l))
         else
           (case for_each (check_launch_path U (required_paths (mn_files m))) (rl_classpath l @ rl_modulepath l) {} of
              Inl e \<Rightarrow> Inl e
            | Inr _ \<Rightarrow>
                and_then (check_main_module l)
               (and_then (case for_each (check_environment U) (rl_env l) {} of Inl e \<Rightarrow> Inl e | Inr _ \<Rightarrow> Inr ())
                  (for_each (\<lambda>arg _. check (\<not> contains_any arg [CHR 0x00, CHR 0x0D, CHR 0x0A]) BadGameArgument)
                     (mc_game_args (mn_minecraft m)) ()))))"

definition validate_runtime :: "unicode \<Rightarrow> manifest \<Rightarrow> runtime_error + unit" where
  "validate_runtime U m =
     (if no_runtime_yet (mn_runtime m) then Inr ()
      else
        and_then (check_java (rt_java (mn_runtime m)))
       (and_then (check_memory (rt_memory (mn_runtime m)))
          (case for_each (check_jvm_arg U (rt_memory (mn_runtime m))) (rt_jvm_args (mn_runtime m)) Map.empty of
             Inl e \<Rightarrow> Inl e
           | Inr heap \<Rightarrow> and_then (check_heap_order heap) (check_launch U m))))"

section \<open>Lemmas\<close>

text \<open>The arithmetic on \<^verbatim>\<open>int64\<close> never wraps around.\<close>

lemma heap_mb_range:
  assumes "heap_mb U ds u = Inr n" "list_all is_digit ds"
  shows "0 \<le> n \<and> n < 2 ^ 63"
proof -
  obtain v where v: "parse_int64 ds = Some v" using assms(1) by (auto simp: heap_mb_def split: option.splits)
  have nosign: "ds = [] \<or> hd ds \<noteq> CHR ''-'' \<and> hd ds \<noteq> CHR ''+''"
    using assms(2) by (cases ds) (auto simp: is_digit_def byte_in_def)
  have "v = decimal_value ds" using v nosign by (auto simp: parse_int64_def Let_def split: if_splits)
  then have pos: "0 \<le> v" using decimal_value_nonneg assms(2) by simp
  have "v < 2 ^ 63" using parse_int64_bounds [OF v] by simp
  then show ?thesis
    using assms(1) v pos by (auto simp: heap_mb_def split: if_splits)
qed

lemma heap_match_digits: "heap_match arg = Some (k, ds, u) \<Longrightarrow> list_all is_digit ds"
  by (auto simp: heap_match_def Let_def list_all_iff dest: set_takeWhileD split: option.splits if_splits)

definition heap_ok :: "memory_info \<Rightarrow> (char \<rightharpoonup> int) \<Rightarrow> bool" where
  "heap_ok mem heap \<longleftrightarrow> (\<forall>k n. heap k = Some n \<longrightarrow> 0 \<le> n \<and> n < 2 ^ 63 \<and>
     (mem_min mem > 0 \<longrightarrow> mem_min mem \<le> n) \<and> (mem_max mem > 0 \<longrightarrow> n \<le> mem_max mem))"

lemma check_heap_ok:
  assumes "heap_ok mem heap" "check_heap U mem arg heap = Inr heap'"
  shows "heap_ok mem heap'"
proof -
  obtain k ds u where m: "heap_match arg = Some (k, ds, u)"
    using assms(2) by (auto simp: check_heap_def split: option.splits)
  obtain n where n: "heap_mb U ds u = Inr n"
    using assms(2) m by (auto simp: check_heap_def split: if_split_asm sum.splits)
  have "0 \<le> n \<and> n < 2 ^ 63" by (rule heap_mb_range [OF n heap_match_digits [OF m]])
  then show ?thesis
    using assms m n by (auto simp: check_heap_def heap_ok_def not_less split: if_split_asm)
qed

lemma check_jvm_arg_ok:
  assumes "check_jvm_arg U mem arg heap = Inr heap'"
  shows "heap_ok mem heap \<Longrightarrow> heap_ok mem heap'"
    and "\<not> List.member path_flags (to_lower U arg)" "\<not> list_ex (has_prefix (to_lower U arg)) agent_prefixes"
    and "trim_space arg \<noteq> []" "\<not> contains_any arg [CHR 0x00, CHR 0x0D, CHR 0x0A]"
  using assms unfolding check_jvm_arg_def Let_def
  by (auto split: if_split_asm intro: check_heap_ok)

lemma launch_path_loop:
  assumes "for_each (check_launch_path U declared) es used = Inr used'"
  shows "distinct es \<and> (\<forall>e \<in> set es. e \<in> declared \<and> e \<notin> used \<and> e \<noteq> [] \<and> path_clean e = e \<and>
    \<not> has_prefix e ''/'' \<and> \<not> has_prefix e ''../'' \<and> has_suffix (to_lower U e) ''.jar'')"
  using assms
proof (induction es arbitrary: used)
  case Nil
  then show ?case by simp
next
  case (Cons e es)
  then obtain u where u: "check_launch_path U declared e used = Inr u"
    "for_each (check_launch_path U declared) es u = Inr used'"
    by (auto split: sum.splits)
  have e: "e \<in> declared" "e \<notin> used" "e \<noteq> []" "path_clean e = e" "\<not> has_prefix e ''/''"
    "\<not> has_prefix e ''../''" "has_suffix (to_lower U e) ''.jar''" "u = insert e used"
    using u(1) by (simp_all add: check_launch_path_def split: if_split_asm)
  show ?case using Cons.IH [OF u(2)] e by auto
qed

lemma environment_loop:
  assumes "for_each (check_environment U) ns env = Inr env'"
  shows "distinct (map (to_upper U) ns) \<and> (\<forall>n \<in> set ns. environment_name n \<and> to_upper U n \<notin> env \<and>
    \<not> List.member reserved_environment (to_upper U n))"
  using assms
proof (induction ns arbitrary: env)
  case Nil
  then show ?case by simp
next
  case (Cons n ns)
  then obtain e where e: "check_environment U n env = Inr e" "for_each (check_environment U) ns e = Inr env'"
    by (auto split: sum.splits)
  have n: "environment_name n" "to_upper U n \<notin> env" "\<not> List.member reserved_environment (to_upper U n)"
    "e = insert (to_upper U n) env"
    using e(1) by (simp_all add: check_environment_def Let_def split: if_split_asm)
  show ?case using Cons.IH [OF e(2)] n by auto
qed

lemma validate_runtime_parts:
  assumes "validate_runtime U m = Inr ()" "\<not> no_runtime_yet (mn_runtime m)"
  obtains heap where "check_java (rt_java (mn_runtime m)) = Inr ()" "check_memory (rt_memory (mn_runtime m)) = Inr ()"
    "for_each (check_jvm_arg U (rt_memory (mn_runtime m))) (rt_jvm_args (mn_runtime m)) Map.empty = Inr heap"
    "check_heap_order heap = Inr ()" "check_launch U m = Inr ()"
  using assms unfolding validate_runtime_def
  by (auto split: sum.split_asm)

section \<open>Properties\<close>

text \<open>The heap sizes of a valid manifest are consistent and computed without wrap-around: every accepted
  size in megabytes is a number of 63 bits inside the declared memory range, and a minimum given as
  \<^verbatim>\<open>-Xms\<close> does not exceed a maximum given as \<^verbatim>\<open>-Xmx\<close>.\<close>
lemma heap_sizes_consistent:
  assumes "for_each (check_jvm_arg U mem) args Map.empty = Inr heap" "check_heap_order heap = Inr ()"
  shows "heap_ok mem heap \<and>
    (\<forall>s x. heap (CHR ''s'') = Some s \<longrightarrow> heap (CHR ''x'') = Some x \<longrightarrow> s \<le> x)"
proof
  show "heap_ok mem heap"
    by (rule for_each_invariant [OF assms(1), where P = "heap_ok mem"])
      (auto simp: heap_ok_def [of mem Map.empty] intro: check_jvm_arg_ok(1))
  show "\<forall>s x. heap (CHR ''s'') = Some s \<longrightarrow> heap (CHR ''x'') = Some x \<longrightarrow> s \<le> x"
    using assms(2) by (auto simp: check_heap_order_def not_less split: option.split_asm if_split_asm)
qed

lemma sample_heap:
  "for_each (check_jvm_arg ascii_only \<lparr>mem_min = 512, mem_rec = 0, mem_max = 4096\<rparr>) [''-Xms1g'', ''-Xmx2048m'']
     Map.empty = Inr [CHR ''s'' \<mapsto> 1024, CHR ''x'' \<mapsto> 2048]"
proof -
  have "heap_match ''-Xms1g'' = Some (''s'', ''1'', ''g'')" "heap_match ''-Xmx2048m'' = Some (''x'', ''2048'', ''m'')"
    "heap_mb ascii_only ''1'' ''g'' = Inr 1024" "heap_mb ascii_only ''2048'' ''m'' = Inr 2048"
    by code_simp+
  moreover have "check_jvm_arg ascii_only mem ''-Xms1g'' h = check_heap ascii_only mem ''-Xms1g'' h"
    "check_jvm_arg ascii_only mem ''-Xmx2048m'' h = check_heap ascii_only mem ''-Xmx2048m'' h" for mem h
  proof -
    have a: "trim_space ''-Xms1g'' \<noteq> []" "\<not> contains_any ''-Xms1g'' [CHR 0x00, CHR 0x0D, CHR 0x0A]"
      "to_lower ascii_only ''-Xms1g'' = ''-xms1g''" "\<not> List.member path_flags ''-xms1g''"
      "\<not> list_ex (has_prefix ''-xms1g'') agent_prefixes" "has_prefix ''-xms1g'' ''-xms''"
      by code_simp+
    have b: "trim_space ''-Xmx2048m'' \<noteq> []" "\<not> contains_any ''-Xmx2048m'' [CHR 0x00, CHR 0x0D, CHR 0x0A]"
      "to_lower ascii_only ''-Xmx2048m'' = ''-xmx2048m''" "\<not> List.member path_flags ''-xmx2048m''"
      "\<not> list_ex (has_prefix ''-xmx2048m'') agent_prefixes" "has_prefix ''-xmx2048m'' ''-xmx''"
      by code_simp+
    show "check_jvm_arg ascii_only mem ''-Xms1g'' h = check_heap ascii_only mem ''-Xms1g'' h"
      unfolding check_jvm_arg_def Let_def using a by (simp only: a simp_thms if_False if_True)
    show "check_jvm_arg ascii_only mem ''-Xmx2048m'' h = check_heap ascii_only mem ''-Xmx2048m'' h"
      unfolding check_jvm_arg_def Let_def using b by (simp only: b simp_thms if_False if_True)
  qed
  ultimately show ?thesis
    by (simp add: check_heap_def)
qed

text \<open>A valid manifest starts only code it declares: the class path and the module path together hold no
  entry twice, each entry is a clean relative path to a jar that is a required file of the manifest, a main
  module is named exactly when there is a module path, no argument sets a path, an entry point, an agent or
  an error hook, and no environment name that the virtual machine reads is passed on.\<close>
lemma launch_is_declared:
  assumes "validate_runtime U m = Inr ()" "\<not> no_runtime_yet (mn_runtime m)"
  shows "distinct (rl_classpath (rt_launch (mn_runtime m)) @ rl_modulepath (rt_launch (mn_runtime m))) \<and>
    (\<forall>e \<in> set (rl_classpath (rt_launch (mn_runtime m)) @ rl_modulepath (rt_launch (mn_runtime m))).
       path_clean e = e \<and> \<not> has_prefix e ''/'' \<and> has_suffix (to_lower U e) ''.jar'' \<and>
       (\<exists>f \<in> set (mn_files m). mf_path f = e \<and> mf_required f)) \<and>
    (rl_main_module (rt_launch (mn_runtime m)) = [] \<longleftrightarrow> rl_modulepath (rt_launch (mn_runtime m)) = []) \<and>
    (\<forall>arg \<in> set (rt_jvm_args (mn_runtime m)). \<not> List.member path_flags (to_lower U arg) \<and>
       \<not> list_ex (has_prefix (to_lower U arg)) agent_prefixes) \<and>
    (\<forall>n \<in> set (rl_env (rt_launch (mn_runtime m))). \<not> List.member reserved_environment (to_upper U n))"
proof -
  let ?l = "rt_launch (mn_runtime m)"
  obtain heap where args: "for_each (check_jvm_arg U (rt_memory (mn_runtime m))) (rt_jvm_args (mn_runtime m)) Map.empty = Inr heap"
    and launch: "check_launch U m = Inr ()"
    by (rule validate_runtime_parts [OF assms])
  obtain used where paths: "for_each (check_launch_path U (required_paths (mn_files m))) (rl_classpath ?l @ rl_modulepath ?l) {} = Inr used"
    and main: "check_main_module ?l = Inr ()"
    and envs: "(case for_each (check_environment U) (rl_env ?l) {} of Inl e \<Rightarrow> Inl e | Inr _ \<Rightarrow> Inr ()) = Inr ()"
    using launch unfolding check_launch_def Let_def
    by (cases "for_each (check_launch_path U (required_paths (mn_files m))) (rl_classpath ?l @ rl_modulepath ?l) {}")
      (simp_all split: if_split_asm)
  obtain env where "for_each (check_environment U) (rl_env ?l) {} = Inr env"
    using envs by (auto split: sum.split_asm)
  note env = environment_loop [OF this]
  have arg: "\<not> List.member path_flags (to_lower U arg) \<and> \<not> list_ex (has_prefix (to_lower U arg)) agent_prefixes"
    if "arg \<in> set (rt_jvm_args (mn_runtime m))" for arg
    using for_each_split [OF args that] check_jvm_arg_ok(2,3) by metis
  have mods: "rl_main_module ?l = [] \<longleftrightarrow> rl_modulepath ?l = []"
    using main by (auto simp: check_main_module_def split: if_split_asm)
  have entry: "path_clean e = e \<and> \<not> has_prefix e ''/'' \<and> has_suffix (to_lower U e) ''.jar'' \<and>
      (\<exists>f \<in> set (mn_files m). mf_path f = e \<and> mf_required f)"
    if "e \<in> set (rl_classpath ?l @ rl_modulepath ?l)" for e
  proof -
    have "e \<in> required_paths (mn_files m)" using launch_path_loop [OF paths] that by blast
    then have "\<exists>f \<in> set (mn_files m). mf_path f = e \<and> mf_required f"
      by (auto simp: required_paths_def)
    then show ?thesis using launch_path_loop [OF paths] that by blast
  qed
  show ?thesis
    using launch_path_loop [OF paths] env arg mods entry by blast
qed

definition runtime_sample :: manifest where
  "runtime_sample =
     (sample_manifest manifest_schema3 [sample_file ''lib/core.jar''] [] None)
       \<lparr>mn_runtime := no_runtime\<lparr>rt_java := (rt_java no_runtime)\<lparr>jv_major := 17\<rparr>, rt_jvm_args := [''-ea''],
          rt_launch := (rt_launch no_runtime)\<lparr>rl_classpath := [''lib/core.jar''], rl_env := [''LANG'']\<rparr>\<rparr>\<rparr>"

end
