(* ===== verification/ProfileRules.thy ===== *)
theory ProfileRules
  imports CatTopology RuntimeRules
begin

text \<open>
  Profiles, their frozen snapshots and the validation of a whole manifest (\<^verbatim>\<open>model/profile_schema.go\<close>,
  \<^verbatim>\<open>model/profile_management.go\<close>, \<^verbatim>\<open>model/profile_launch.go\<close>): the digest of a profile, normalisation, the
  rules of a release draft, export and import, differences and built-in presets.  SHA-256 with its
  hexadecimal text is the parameter \<open>sha\<close>.
\<close>

section \<open>Decimal text\<close>

function dec_pos :: "int \<Rightarrow> string" where \<comment> \<open>the decimal digits of a number that is not negative\<close>
  "dec_pos n =
     (if n < 10 then [char_of (48 + n)] else dec_pos (n div 10) @ [char_of (48 + n mod 10)])"
  by pat_completeness auto
termination
  by (relation "measure nat") auto

declare dec_pos.simps [simp del]

definition show_int :: "int \<Rightarrow> string" where \<comment> \<open>\<^verbatim>\<open>fmt.Sprint\<close> of an \<^verbatim>\<open>int\<close>\<close>
  "show_int n = (if n < 0 then CHR ''-'' # dec_pos (- n) else dec_pos n)"

definition show_bool :: "bool \<Rightarrow> string" where \<comment> \<open>\<^verbatim>\<open>fmt.Sprint\<close> of a \<^verbatim>\<open>bool\<close>\<close>
  "show_bool b = (if b then ''true'' else ''false'')"

section \<open>Profiles and snapshots\<close>

record profile =
  pf_schema :: string
  pf_revision :: int
  pf_digest :: string
  pf_id :: string
  pf_project :: string
  pf_name :: string
  pf_description :: string
  pf_loader :: string
  pf_minecraft :: string
  pf_loader_version :: string
  pf_java :: int
  pf_preset :: string
  pf_default :: bool
  pf_created :: time
  pf_updated :: time

definition no_profile :: profile where
  "no_profile =
     \<lparr>pf_schema = [], pf_revision = 0, pf_digest = [], pf_id = [], pf_project = [], pf_name = [],
      pf_description = [], pf_loader = [], pf_minecraft = [], pf_loader_version = [], pf_java = 0,
      pf_preset = [], pf_default = False, pf_created = 0, pf_updated = 0\<rparr>"

definition profile_schema2 :: string where "profile_schema2 = ''2.0''"

definition profile_spec_of :: "profile \<Rightarrow> profile_spec" where
  "profile_spec_of p =
     \<lparr>sp_project = pf_project p, sp_id = pf_id p, sp_name = pf_name p, sp_description = pf_description p,
      sp_loader = pf_loader p, sp_minecraft = pf_minecraft p, sp_loader_version = pf_loader_version p,
      sp_java = pf_java p, sp_preset = pf_preset p, sp_default = pf_default p\<rparr>"

definition launch_configured :: "string \<Rightarrow> string \<Rightarrow> int \<Rightarrow> bool" where
  "launch_configured minecraft loader_version java \<longleftrightarrow> minecraft \<noteq> [] \<or> loader_version \<noteq> [] \<or> java \<noteq> 0"

definition profile_fields :: "profile_spec \<Rightarrow> string list" where
  "profile_fields s =
     [sp_project s, sp_id s, sp_name s, sp_description s, sp_loader s, sp_preset s, show_bool (sp_default s)] @
     (if launch_configured (sp_minecraft s) (sp_loader_version s) (sp_java s)
      then [''launch-0382'', sp_minecraft s, sp_loader_version s, show_int (sp_java s)] else [])"

definition profile_text :: "profile_spec \<Rightarrow> string" where
  "profile_text s = join_char (CHR 0x00) (profile_fields s)"

definition profile_digest :: "(string \<Rightarrow> string) \<Rightarrow> profile_spec \<Rightarrow> string" where
  "profile_digest sha s = sha (profile_text s)"

definition snapshot_profile :: "(string \<Rightarrow> string) \<Rightarrow> profile \<Rightarrow> profile_snapshot" where
  "snapshot_profile sha p =
     (let spec = profile_spec_of p
      in \<lparr>sn_schema = profile_schema2, sn_revision = pf_revision p, sn_digest = profile_digest sha spec,
          sn_spec = spec\<rparr>)"

datatype profile_error =
    SnapshotIdentity
  | SnapshotDigest
  | UnsupportedProfileSchema string
  | ProfileIdentityMissing
  | UnsupportedLoader
  | LaunchIncomplete
  | BadLaunchVersion
  | LoaderVersionMissing
  | VanillaLoaderVersion
  | NulInProfile
  | BadProfileId
  | BadProfileLength
  | BadBundleFormat string
  | UnknownProfilePreset string

definition validate_snapshot ::
    "(string \<Rightarrow> string) \<Rightarrow> profile_snapshot \<Rightarrow> string \<Rightarrow> string \<Rightarrow> profile_error + unit" where
  "validate_snapshot sha s project profile =
     (if sn_schema s \<noteq> profile_schema2 \<or> sn_revision s < 1 \<or> sp_project (sn_spec s) \<noteq> project \<or>
         sp_id (sn_spec s) \<noteq> profile \<or> sp_name (sn_spec s) = [] \<or> sp_loader (sn_spec s) = []
      then Inl SnapshotIdentity
      else if sn_digest s \<noteq> profile_digest sha (sn_spec s) then Inl SnapshotDigest
      else Inr ())"

section \<open>Normalisation\<close>

definition version_blanks :: string where
  "version_blanks = [CHR '' '', CHR ''/'', CHR 0x5C, CHR 0x09, CHR 0x0A, CHR 0x0D]"

definition check_launch_settings :: "profile \<Rightarrow> profile_error + unit" where
  "check_launch_settings p =
     (if \<not> launch_configured (pf_minecraft p) (pf_loader_version p) (pf_java p) then Inr ()
      else if \<not> List.member [''vanilla'', ''fabric'', ''quilt'', ''forge'', ''neoforge''] (pf_loader p)
      then Inl UnsupportedLoader
      else if pf_minecraft p = [] \<or> pf_java p < 8 \<or> pf_java p > 255 then Inl LaunchIncomplete
      else if length (pf_minecraft p) > 64 \<or> length (pf_loader_version p) > 128 \<or>
        contains_any (pf_minecraft p) version_blanks \<or> contains_any (pf_loader_version p) version_blanks
      then Inl BadLaunchVersion
      else if pf_loader p \<noteq> ''vanilla'' \<and> pf_loader_version p = [] then Inl LoaderVersionMissing
      else if pf_loader p = ''vanilla'' \<and> pf_loader_version p \<noteq> [] then Inl VanillaLoaderVersion
      else Inr ())"

definition profile_texts :: "profile \<Rightarrow> string list" where
  "profile_texts p =
     [pf_project p, pf_id p, pf_name p, pf_description p, pf_loader p, pf_preset p, pf_minecraft p,
      pf_loader_version p]"

definition normalize_profile :: "(string \<Rightarrow> string) \<Rightarrow> profile \<Rightarrow> profile_error + profile" where
  "normalize_profile sha p0 =
     (if pf_schema p0 \<noteq> [] \<and> pf_schema p0 \<noteq> profile_schema2 then Inl (UnsupportedProfileSchema (pf_schema p0))
      else
        (let p1 = p0\<lparr>pf_schema := profile_schema2\<rparr>;
             p = (if pf_loader p1 = [] then p1\<lparr>pf_loader := ''vanilla''\<rparr> else p1)
         in if pf_project p = [] \<or> pf_id p = [] \<or> pf_name p = [] then Inl ProfileIdentityMissing
            else
              (case check_launch_settings p of
                 Inl e \<Rightarrow> Inl e
               | Inr _ \<Rightarrow>
                   if list_ex (\<lambda>v. List.member v (CHR 0x00)) (profile_texts p) then Inl NulInProfile
                   else Inr (p\<lparr>pf_digest := profile_digest sha (profile_spec_of p)\<rparr>))))"

section \<open>Manifests\<close>

datatype schema_error =
    BadRollback
  | BadRollbackDigest
  | SnapshotInV1
  | SnapshotMissing
  | UnsupportedManifestSchema string
  | SnapshotProblem profile_error
  | CatalogProblem catalog_error
  | RuntimeProblem runtime_error
  | FilesProblem file_error
  | StoredManifest schema_error
  | SchemaChanged
  | SnapshotChanged
  | IdentityChanged

definition check_rollback :: "manifest \<Rightarrow> schema_error + unit" where
  "check_rollback m =
     (case mn_rollback m of
        None \<Rightarrow> Inr ()
      | Some src \<Rightarrow>
          if mn_generation m = 0 \<or> rb_generation src \<ge> mn_generation m \<or> rb_version src = [] \<or>
             length (rb_sha256 src) \<noteq> 64
          then Inl BadRollback
          else (case hex_decode (rb_sha256 src) of
                  None \<Rightarrow> Inl BadRollbackDigest
                | Some d \<Rightarrow> if length d \<noteq> 32 then Inl BadRollbackDigest else Inr ()))"

definition check_snapshot :: "(string \<Rightarrow> string) \<Rightarrow> manifest \<Rightarrow> schema_error + unit" where
  "check_snapshot sha m =
     (if mn_schema m = ''1.0'' then (if mn_snapshot m \<noteq> None then Inl SnapshotInV1 else Inr ())
      else if policy_schema m then
        (case mn_snapshot m of
           None \<Rightarrow> Inl SnapshotMissing
         | Some s \<Rightarrow> lift_error SnapshotProblem (validate_snapshot sha s (mn_project m) (mn_profile m)))
      else Inl (UnsupportedManifestSchema (mn_schema m)))"

definition validate_manifest_schema ::
    "unicode \<Rightarrow> (string \<Rightarrow> string) \<Rightarrow> (string list \<Rightarrow> string list) \<Rightarrow> manifest \<Rightarrow> schema_error + unit" where
  "validate_manifest_schema U sha order m =
     and_then (check_rollback m)
    (and_then (check_snapshot sha m)
    (and_then (lift_error CatalogProblem (validate_component_catalog U sha order m))
       (if policy_schema m then
          and_then (lift_error RuntimeProblem (validate_runtime U m))
            (lift_error FilesProblem (validate_file_ownership U m))
        else Inr ())))"

definition validate_transition ::
    "unicode \<Rightarrow> (string \<Rightarrow> string) \<Rightarrow> (string list \<Rightarrow> string list) \<Rightarrow> manifest \<Rightarrow> manifest \<Rightarrow> schema_error + unit" where
  "validate_transition U sha order existing candidate =
     and_then (lift_error StoredManifest (validate_manifest_schema U sha order existing))
    (and_then (validate_manifest_schema U sha order candidate)
       (if mn_schema existing \<noteq> mn_schema candidate then Inl SchemaChanged
        else if policy_schema existing \<and> mn_snapshot existing \<noteq> mn_snapshot candidate then Inl SnapshotChanged
        else if mn_project existing \<noteq> mn_project candidate \<or> mn_profile existing \<noteq> mn_profile candidate \<or>
          mn_channel existing \<noteq> mn_channel candidate \<or> mn_version existing \<noteq> mn_version candidate
        then Inl IdentityChanged
        else Inr ()))"

section \<open>Export, import and copies\<close>

definition bundle_format :: string where "bundle_format = ''launcher.profile.v1''"

record portable_profile =
  bn_format :: string
  bn_snapshot :: profile_snapshot

definition export_profile :: "(string \<Rightarrow> string) \<Rightarrow> profile_snapshot \<Rightarrow> profile_error + portable_profile" where
  "export_profile sha s =
     (case validate_snapshot sha s (sp_project (sn_spec s)) (sp_id (sn_spec s)) of
        Inl e \<Rightarrow> Inl e
      | Inr _ \<Rightarrow> Inr \<lparr>bn_format = bundle_format, bn_snapshot = s\<rparr>)"

definition id_byte :: "char \<Rightarrow> bool" where
  "id_byte c \<longleftrightarrow> is_lower c \<or> is_digit c"

definition valid_profile_id :: "string \<Rightarrow> bool" where
  "valid_profile_id s \<longleftrightarrow>
     s \<noteq> [] \<and> length s \<le> 64 \<and> id_byte (hd s) \<and>
     list_all (\<lambda>c. id_byte c \<or> c = CHR ''_'' \<or> c = CHR ''.'' \<or> c = CHR ''-'') (tl s)"

definition create_from_snapshot ::
    "(string \<Rightarrow> string) \<Rightarrow> profile_snapshot \<Rightarrow> string \<Rightarrow> string \<Rightarrow> string \<Rightarrow> profile_error + profile" where
  "create_from_snapshot sha src project new_id0 new_name0 =
     (case validate_snapshot sha src (sp_project (sn_spec src)) (sp_id (sn_spec src)) of
        Inl e \<Rightarrow> Inl e
      | Inr _ \<Rightarrow>
          (let new_id = trim_space new_id0; new_name = trim_space new_name0; spec = sn_spec src
           in if \<not> valid_profile_id new_id \<or> new_id = ''.'' \<or> new_id = ''..'' then Inl BadProfileId
              else if new_name = [] \<or> length new_name > 120 \<or> length (sp_description spec) > 4096
              then Inl BadProfileLength
              else
                normalize_profile sha
                  (no_profile\<lparr>pf_project := project, pf_id := new_id, pf_name := new_name,
                     pf_description := sp_description spec, pf_loader := sp_loader spec,
                     pf_minecraft := sp_minecraft spec, pf_loader_version := sp_loader_version spec,
                     pf_java := sp_java spec, pf_preset := sp_preset spec, pf_default := False\<rparr>)))"

definition import_profile ::
    "(string \<Rightarrow> string) \<Rightarrow> portable_profile \<Rightarrow> string \<Rightarrow> string \<Rightarrow> string \<Rightarrow> profile_error + profile" where
  "import_profile sha b project new_id new_name =
     (if bn_format b \<noteq> bundle_format then Inl (BadBundleFormat (bn_format b))
      else create_from_snapshot sha (bn_snapshot b) project new_id new_name)"

section \<open>Differences\<close>

datatype field_value = TextValue string | IntValue int | BoolValue bool

type_synonym field_change = "string \<times> field_value \<times> field_value"

record difference =
  df_from :: profile_snapshot
  df_to :: profile_snapshot
  df_changes :: "field_change list"
  df_equal :: bool

definition spec_fields :: "profile_spec \<Rightarrow> (string \<times> field_value) list" where
  "spec_fields s =
     [(''projectId'', TextValue (sp_project s)), (''id'', TextValue (sp_id s)), (''name'', TextValue (sp_name s)),
      (''description'', TextValue (sp_description s)), (''loader'', TextValue (sp_loader s)),
      (''minecraftVersion'', TextValue (sp_minecraft s)), (''loaderVersion'', TextValue (sp_loader_version s)),
      (''javaMajor'', IntValue (sp_java s)), (''preset'', TextValue (sp_preset s)),
      (''isDefault'', BoolValue (sp_default s))]"

definition spec_changes :: "profile_spec \<Rightarrow> profile_spec \<Rightarrow> field_change list" where
  "spec_changes a b =
     map (\<lambda>((f, x), (_, y)). (f, x, y))
       (filter (\<lambda>((_, x), (_, y)). x \<noteq> y) (zip (spec_fields a) (spec_fields b)))"

definition diff_profile ::
    "(string \<Rightarrow> string) \<Rightarrow> profile_snapshot \<Rightarrow> profile_snapshot \<Rightarrow> profile_error + difference" where
  "diff_profile sha a b =
     (case for_each (\<lambda>s _. validate_snapshot sha s (sp_project (sn_spec s)) (sp_id (sn_spec s))) [a, b] () of
        Inl e \<Rightarrow> Inl e
      | Inr _ \<Rightarrow>
          (let ch = spec_changes (sn_spec a) (sn_spec b)
           in Inr \<lparr>df_from = a, df_to = b, df_changes = ch, df_equal = (length ch = 0)\<rparr>))"

section \<open>Built-in presets\<close>

record profile_preset =
  pp_id :: string
  pp_name :: string
  pp_description :: string
  pp_loader :: string
  pp_preset :: string

definition builtin_presets :: "profile_preset list" where
  "builtin_presets =
     [
      \<lparr>pp_id = ''vanilla'', pp_name = ''Vanilla'',
       pp_description = utf8 [1054, 1092, 1080, 1094, 1080, 1072, 1083, 1100, 1085, 1099, 1081, 32, 1082, 1083, 1080, 1077,
         1085, 1090, 32, 1073, 1077, 1079, 32, 1084, 1086, 1076, 1080, 1092, 1080, 1094, 1080, 1088, 1086,
         1074, 1072, 1085, 1085, 1086, 1075, 1086, 32, 1079, 1072, 1075, 1088, 1091, 1079, 1095, 1080, 1082,
         1072],
       pp_loader = ''vanilla'', pp_preset = ''custom''\<rparr>,
      \<lparr>pp_id = ''fabric'', pp_name = ''Fabric'',
       pp_description = utf8 [1050, 1083, 1080, 1077, 1085, 1090, 32, 1089, 32, 1079, 1072, 1075, 1088, 1091, 1079, 1095,
         1080, 1082, 1086, 1084] @ '' Fabric'',
       pp_loader = ''fabric'', pp_preset = ''custom''\<rparr>,
      \<lparr>pp_id = ''quilt'', pp_name = ''Quilt'',
       pp_description = utf8 [1050, 1083, 1080, 1077, 1085, 1090, 32, 1089, 32, 1079, 1072, 1075, 1088, 1091, 1079, 1095,
         1080, 1082, 1086, 1084] @ '' Quilt'',
       pp_loader = ''quilt'', pp_preset = ''custom''\<rparr>,
      \<lparr>pp_id = ''forge'', pp_name = ''Forge'',
       pp_description = utf8 [1050, 1083, 1080, 1077, 1085, 1090, 32, 1089, 32, 1079, 1072, 1075, 1088, 1091, 1079, 1095,
         1080, 1082, 1086, 1084] @ '' Forge'',
       pp_loader = ''forge'', pp_preset = ''custom''\<rparr>,
      \<lparr>pp_id = ''neoforge'', pp_name = ''NeoForge'',
       pp_description = utf8 [1050, 1083, 1080, 1077, 1085, 1090, 32, 1089, 32, 1079, 1072, 1075, 1088, 1091, 1079, 1095,
         1080, 1082, 1086, 1084] @ '' NeoForge'',
       pp_loader = ''neoforge'', pp_preset = ''custom''\<rparr>,
      \<lparr>pp_id = ''vanilla-lite'', pp_name = utf8 [1054, 1073, 1083, 1077, 1075, 1095, 1105, 1085, 1085, 1072, 1103] @ '' Vanilla'',
       pp_description = utf8 [1054, 1073, 1083, 1077, 1075, 1095, 1105, 1085, 1085, 1099, 1081, 32, 1087, 1088, 1077, 1089,
         1077, 1090] @ '' Vanilla'',
       pp_loader = ''vanilla'', pp_preset = ''lite''\<rparr>]"

definition list_presets :: "profile_preset list" where
  "list_presets = sort_key pp_id builtin_presets"

definition create_from_preset ::
    "(string \<Rightarrow> string) \<Rightarrow> string \<Rightarrow> string \<Rightarrow> string \<Rightarrow> string \<Rightarrow> profile_error + profile" where
  "create_from_preset sha project new_id name0 preset =
     (case first_some (\<lambda>p. pp_id p = preset) builtin_presets of
        None \<Rightarrow> Inl (UnknownProfilePreset preset)
      | Some p \<Rightarrow>
          (let spec = \<lparr>sp_project = project, sp_id = ''_preset'', sp_name = pp_name p,
                 sp_description = pp_description p, sp_loader = pp_loader p, sp_minecraft = [],
                 sp_loader_version = [], sp_java = 0, sp_preset = pp_preset p, sp_default = False\<rparr>;
               snap = \<lparr>sn_schema = profile_schema2, sn_revision = 1, sn_digest = profile_digest sha spec,
                 sn_spec = spec\<rparr>;
               name = (if name0 = [] then pp_name p else name0)
           in create_from_snapshot sha snap project new_id name))"

section \<open>The launch settings of a build\<close>

datatype launch_error =
    MinecraftMismatch string string
  | LoaderMismatch string string
  | LoaderVersionMismatch string string
  | JavaMismatch int int

definition validate_launch :: "profile_spec \<Rightarrow> minecraft_info \<Rightarrow> int \<Rightarrow> bool \<Rightarrow> launch_error + unit" where
  "validate_launch spec game java with_java =
     (if sp_minecraft spec = [] then Inr ()
      else if mc_version game \<noteq> sp_minecraft spec then Inl (MinecraftMismatch (sp_minecraft spec) (mc_version game))
      else if mc_loader game \<noteq> sp_loader spec then Inl (LoaderMismatch (sp_loader spec) (mc_loader game))
      else if mc_loader_version game \<noteq> [] \<and> mc_loader_version game \<noteq> sp_loader_version spec
      then Inl (LoaderVersionMismatch (sp_loader_version spec) (mc_loader_version game))
      else if with_java \<and> java \<noteq> sp_java spec then Inl (JavaMismatch (sp_java spec) java)
      else Inr ())"

section \<open>Lemmas\<close>

lemma char_of_digit: "0 \<le> k \<Longrightarrow> k < 10 \<Longrightarrow> of_char (char_of (48 + k :: int) :: char) = 48 + k"
  by simp

lemma dec_pos_value: "0 \<le> n \<Longrightarrow> decimal_value (dec_pos n) = n"
proof (induction n rule: dec_pos.induct)
  case (1 n)
  show ?case
  proof (cases "n < 10")
    case True
    then show ?thesis
      using "1.prems" by (subst dec_pos.simps) (simp add: decimal_value_def digit_value_def)
  next
    case False
    then have "decimal_value (dec_pos (n div 10)) = n div 10" using 1 by simp
    moreover have "0 \<le> n mod 10" "n mod 10 < 10" by simp_all
    ultimately show ?thesis
      using False by (subst dec_pos.simps) (simp add: decimal_value_snoc digit_value_def)
  qed
qed

definition decimal_byte :: "char \<Rightarrow> bool" where
  "decimal_byte c \<longleftrightarrow> 48 \<le> (of_char c :: int) \<and> (of_char c :: int) \<le> 57"

lemma dec_pos_digits: "0 \<le> n \<Longrightarrow> list_all decimal_byte (dec_pos n)"
proof (induction n rule: dec_pos.induct)
  case (1 n)
  have d: "decimal_byte (char_of (48 + k))" if "0 \<le> k" "k < 10" for k :: int
    using that by (simp add: decimal_byte_def)
  show ?case
  proof (cases "n < 10")
    case True
    then show ?thesis using "1.prems" d by (subst dec_pos.simps) simp
  next
    case False
    then show ?thesis using 1 d [of "n mod 10"] by (subst dec_pos.simps) simp
  qed
qed

lemma decimal_byte_no: "\<not> decimal_byte (CHR ''-'')" "\<not> decimal_byte (CHR 0x00)"
  by (simp_all add: decimal_byte_def)

lemma show_int_inject: "show_int m = show_int n \<longleftrightarrow> m = n"
proof
  assume eq: "show_int m = show_int n"
  have neg: "hd (show_int k) = CHR ''-''" if "k < 0" for k using that by (simp add: show_int_def)
  have pos: "hd (show_int k) \<noteq> CHR ''-''" if "0 \<le> k" for k
  proof -
    have "dec_pos k \<noteq> []" by (subst dec_pos.simps) simp
    then have "hd (dec_pos k) \<in> set (dec_pos k)" by simp
    then have "decimal_byte (hd (dec_pos k))" using dec_pos_digits [OF that] by (simp add: list_all_iff)
    then show ?thesis using that decimal_byte_no by (auto simp: show_int_def)
  qed
  have same: "m < 0 \<longleftrightarrow> n < 0" using neg pos eq by (metis not_less)
  show "m = n"
  proof (cases "m < 0")
    case True
    then have "dec_pos (- m) = dec_pos (- n)" using eq same by (simp add: show_int_def)
    moreover have "0 \<le> - m" "0 \<le> - n" using True same by simp_all
    ultimately have "- m = - n" by (metis dec_pos_value)
    then show ?thesis by simp
  next
    case False
    then have "dec_pos m = dec_pos n" using eq same by (simp add: show_int_def)
    moreover have "0 \<le> m" "0 \<le> n" using False same by simp_all
    ultimately show ?thesis by (metis dec_pos_value)
  qed
qed simp

lemma show_int_no_nul: "CHR 0x00 \<notin> set (show_int n)"
proof -
  have "CHR 0x00 \<notin> set (dec_pos k)" if "0 \<le> k" for k
    using dec_pos_digits [OF that] decimal_byte_no(2) by (auto simp: list_all_iff)
  then show ?thesis by (auto simp: show_int_def)
qed

lemma show_bool_inject: "show_bool a = show_bool b \<longleftrightarrow> a = b"
  by (simp add: show_bool_def)

definition spec_texts :: "profile_spec \<Rightarrow> string list" where
  "spec_texts s =
     [sp_project s, sp_id s, sp_name s, sp_description s, sp_loader s, sp_preset s, sp_minecraft s,
      sp_loader_version s]"

definition spec_clean :: "profile_spec \<Rightarrow> bool" where
  "spec_clean s \<longleftrightarrow> (\<forall>v \<in> set (spec_texts s). CHR 0x00 \<notin> set v)"

lemma profile_fields_clean: "spec_clean s \<Longrightarrow> \<forall>w \<in> set (profile_fields s). CHR 0x00 \<notin> set w"
  by (auto simp: spec_clean_def spec_texts_def profile_fields_def show_bool_def show_int_no_nul split: if_splits)

lemma profile_fields_nonempty: "profile_fields s \<noteq> []"
  by (simp add: profile_fields_def)

text \<open>The digest text tells its fields apart, so it determines the specification.\<close>

lemma profile_text_inject:
  assumes "spec_clean s" "spec_clean t" "profile_text s = profile_text t"
  shows "s = t"
proof -
  have "profile_fields s = profile_fields t"
    using split_join_char [OF _ profile_fields_clean, of s] split_join_char [OF _ profile_fields_clean, of t]
      assms unfolding profile_text_def by (metis profile_fields_nonempty)
  moreover have "launch_configured (sp_minecraft s) (sp_loader_version s) (sp_java s) \<longleftrightarrow>
      launch_configured (sp_minecraft t) (sp_loader_version t) (sp_java t)"
    using arg_cong [OF calculation, of length] by (auto simp: profile_fields_def split: if_splits)
  ultimately have "sp_project s = sp_project t" "sp_id s = sp_id t" "sp_name s = sp_name t"
    "sp_description s = sp_description t" "sp_loader s = sp_loader t" "sp_preset s = sp_preset t"
    "sp_default s = sp_default t" "sp_minecraft s = sp_minecraft t"
    "sp_loader_version s = sp_loader_version t" "sp_java s = sp_java t"
    by (auto simp: profile_fields_def show_bool_inject show_int_inject launch_configured_def split: if_splits)
  then show ?thesis by (cases s, cases t) simp
qed

lemma normalize_Inr:
  assumes "normalize_profile sha p = Inr q"
  shows "pf_schema q = profile_schema2" "pf_digest q = profile_digest sha (profile_spec_of q)"
    "pf_project q \<noteq> []" "pf_id q \<noteq> []" "pf_name q \<noteq> []" "pf_loader q \<noteq> []"
    "check_launch_settings q = Inr ()" "\<not> list_ex (\<lambda>v. List.member v (CHR 0x00)) (profile_texts q)"
    "q = p\<lparr>pf_schema := profile_schema2, pf_loader := (if pf_loader p = [] then ''vanilla'' else pf_loader p),
           pf_digest := pf_digest q\<rparr>"
proof -
  define r where "r = p\<lparr>pf_schema := profile_schema2, pf_loader := (if pf_loader p = [] then ''vanilla'' else pf_loader p)\<rparr>"
  have r: "(if pf_loader (p\<lparr>pf_schema := profile_schema2\<rparr>) = [] then p\<lparr>pf_schema := profile_schema2\<rparr>\<lparr>pf_loader := ''vanilla''\<rparr>
      else p\<lparr>pf_schema := profile_schema2\<rparr>) = r"
    by (cases p) (simp add: r_def)
  have "pf_project r \<noteq> []" "pf_id r \<noteq> []" "pf_name r \<noteq> []" "check_launch_settings r = Inr ()"
    "\<not> list_ex (\<lambda>v. List.member v (CHR 0x00)) (profile_texts r)"
    and q: "q = r\<lparr>pf_digest := profile_digest sha (profile_spec_of r)\<rparr>"
    using assms unfolding normalize_profile_def Let_def r by (auto split: if_split_asm sum.split_asm)
  moreover have "pf_loader r \<noteq> []" "pf_schema r = profile_schema2" by (simp_all add: r_def)
  moreover have "profile_spec_of q = profile_spec_of r" "check_launch_settings q = check_launch_settings r"
    "profile_texts q = profile_texts r"
    by (simp_all add: q profile_spec_of_def check_launch_settings_def profile_texts_def)
  ultimately show "pf_schema q = profile_schema2" "pf_digest q = profile_digest sha (profile_spec_of q)"
    "pf_project q \<noteq> []" "pf_id q \<noteq> []" "pf_name q \<noteq> []" "pf_loader q \<noteq> []"
    "check_launch_settings q = Inr ()" "\<not> list_ex (\<lambda>v. List.member v (CHR 0x00)) (profile_texts q)"
    by simp_all
  show "q = p\<lparr>pf_schema := profile_schema2, pf_loader := (if pf_loader p = [] then ''vanilla'' else pf_loader p),
           pf_digest := pf_digest q\<rparr>"
    by (simp add: q r_def)
qed

lemma normalize_fixed:
  assumes "pf_schema q = profile_schema2" "pf_digest q = profile_digest sha (profile_spec_of q)"
    "pf_project q \<noteq> []" "pf_id q \<noteq> []" "pf_name q \<noteq> []" "pf_loader q \<noteq> []"
    "check_launch_settings q = Inr ()" "\<not> list_ex (\<lambda>v. List.member v (CHR 0x00)) (profile_texts q)"
  shows "normalize_profile sha q = Inr q"
proof -
  have "q\<lparr>pf_schema := profile_schema2\<rparr> = q" "q\<lparr>pf_digest := profile_digest sha (profile_spec_of q)\<rparr> = q"
    using assms(1,2) by (cases q, simp)+
  then show ?thesis
    unfolding normalize_profile_def Let_def using assms(1,3-8)
    by (simp only: if_False if_True simp_thms sum.case)
qed

section \<open>Properties\<close>

text \<open>The digest of a profile binds the whole specification: for two specifications without NUL bytes (which
  normalisation refuses) and a hash that does not collide on their texts, equal digests mean equal
  specifications, whether or not launch settings are configured.\<close>
lemma profile_digest_binds:
  assumes "spec_clean s" "spec_clean t" "profile_digest sha s = profile_digest sha t"
    and "inj_on sha {profile_text s, profile_text t}"
  shows "s = t"
proof -
  have "profile_text s = profile_text t"
    using assms(3) inj_onD [OF assms(4)] unfolding profile_digest_def by blast
  then show ?thesis using profile_text_inject [OF assms(1,2)] by blast
qed

definition spec_sample :: "int \<Rightarrow> profile_spec" where
  "spec_sample java = \<lparr>sp_project = ''p'', sp_id = ''q'', sp_name = ''N'', sp_description = [], sp_loader = ''fabric'',
     sp_minecraft = ''1.20.4'', sp_loader_version = ''0.15.0'', sp_java = java, sp_preset = ''custom'', sp_default = True\<rparr>"

text \<open>Normalisation is idempotent and changes nothing but the schema, an empty loader and the digest.\<close>
lemma normalize_idempotent:
  assumes "normalize_profile sha p = Inr q"
  shows "normalize_profile sha q = Inr q \<and>
    q = p\<lparr>pf_schema := profile_schema2, pf_loader := (if pf_loader p = [] then ''vanilla'' else pf_loader p),
          pf_digest := profile_digest sha (profile_spec_of q)\<rparr>"
  using normalize_fixed [OF normalize_Inr(1-8) [OF assms]] normalize_Inr(2,9) [OF assms] by metis

subsection \<open>Release drafts\<close>

inductive revised :: "unicode \<Rightarrow> (string \<Rightarrow> string) \<Rightarrow> (string list \<Rightarrow> string list) \<Rightarrow> manifest \<Rightarrow> manifest \<Rightarrow> bool"
  for U sha order where \<comment> \<open>a draft replaced by any number of accepted candidates\<close>
  unchanged: "revised U sha order m m"
| accepted: "revised U sha order m n \<Longrightarrow> validate_transition U sha order n k = Inr () \<Longrightarrow> revised U sha order m k"

lemma validate_transition_Inr:
  assumes "validate_transition U sha order a b = Inr ()"
  shows "validate_manifest_schema U sha order a = Inr ()" "validate_manifest_schema U sha order b = Inr ()"
    "mn_schema b = mn_schema a" "policy_schema a \<Longrightarrow> mn_snapshot b = mn_snapshot a"
    "mn_project b = mn_project a" "mn_profile b = mn_profile a" "mn_channel b = mn_channel a"
    "mn_version b = mn_version a"
  using assms unfolding validate_transition_def and_then_Inr lift_error_Inr
  by (auto split: if_splits)

lemma validate_manifest_Inr:
  assumes "validate_manifest_schema U sha order m = Inr ()"
  shows "check_rollback m = Inr ()" "check_snapshot sha m = Inr ()"
    "validate_component_catalog U sha order m = Inr ()"
    "policy_schema m \<Longrightarrow> validate_runtime U m = Inr ()"
    "policy_schema m \<Longrightarrow> validate_file_ownership U m = Inr ()"
  using assms unfolding validate_manifest_schema_def and_then_Inr lift_error_Inr
  by (auto simp: and_then_Inr lift_error_Inr split: if_splits)

lemma check_snapshot_v1: "check_snapshot sha m = Inr () \<Longrightarrow> \<not> policy_schema m \<Longrightarrow> mn_snapshot m = None"
  by (auto simp: check_snapshot_def split: if_splits)

lemma transition_snapshot:
  assumes "validate_transition U sha order a b = Inr ()"
  shows "mn_snapshot b = mn_snapshot a"
proof (cases "policy_schema a")
  case True
  then show ?thesis using validate_transition_Inr(4) [OF assms] by simp
next
  case False
  moreover have "policy_schema b = policy_schema a"
    using validate_transition_Inr(3) [OF assms] by (simp add: policy_schema_def)
  ultimately show ?thesis
    using check_snapshot_v1 validate_manifest_Inr(2) validate_transition_Inr(1,2) [OF assms] by metis
qed

text \<open>However often a release draft is replaced by an accepted candidate, its schema, the frozen profile
  snapshot and the release identity (project, profile, channel, version) never change, also for schema 1.0,
  where the transition check itself does not compare snapshots.\<close>
lemma draft_identity_frozen:
  assumes "revised U sha order m n"
  shows "mn_schema n = mn_schema m \<and> mn_snapshot n = mn_snapshot m \<and> mn_project n = mn_project m \<and>
    mn_profile n = mn_profile m \<and> mn_channel n = mn_channel m \<and> mn_version n = mn_version m"
  using assms
  by (induction rule: revised.induct) (auto dest: transition_snapshot validate_transition_Inr)

subsection \<open>Snapshots\<close>

lemma validate_snapshot_Inr:
  "validate_snapshot sha s a b = Inr u \<longleftrightarrow>
     sn_schema s = profile_schema2 \<and> 1 \<le> sn_revision s \<and> sp_project (sn_spec s) = a \<and> sp_id (sn_spec s) = b \<and>
     sp_name (sn_spec s) \<noteq> [] \<and> sp_loader (sn_spec s) \<noteq> [] \<and> sn_digest s = profile_digest sha (sn_spec s)"
  by (auto simp: validate_snapshot_def)

lemma spec_changes_Nil: "spec_changes a b = [] \<longleftrightarrow> a = b"
  by (cases a, cases b) (auto simp: spec_changes_def spec_fields_def)

lemma diff_profile_Inr:
  assumes "diff_profile sha a b = Inr d"
  shows "df_changes d = spec_changes (sn_spec a) (sn_spec b)" "df_equal d \<longleftrightarrow> sn_spec a = sn_spec b"
  using assms by (auto simp: diff_profile_def Let_def spec_changes_Nil split: sum.splits)

lemma changes_exact:
  assumes "map fst xs = map fst ys" "distinct (map fst xs)"
  shows "(f, x, y) \<in> set (map (\<lambda>((f, x), (_, y)). (f, x, y)) (filter (\<lambda>((_, x), (_, y)). x \<noteq> y) (zip xs ys))) \<longleftrightarrow>
    (f, x) \<in> set xs \<and> (f, y) \<in> set ys \<and> x \<noteq> y"
  using assms
proof (induction xs arbitrary: ys)
  case Nil
  then show ?case by simp
next
  case (Cons u xs)
  then obtain v zs where ys: "ys = v # zs" "map fst xs = map fst zs" "fst u = fst v"
    by (cases ys) auto
  obtain k p q where uv: "u = (k, p)" "v = (k, q)" using ys(3) by (cases u, cases v) auto
  have "k \<notin> set (map fst xs)" using Cons.prems(2) uv by simp
  moreover have "k \<notin> set (map fst zs)" using calculation ys(2) by simp
  ultimately have n: "(k, x) \<notin> set xs" "(k, y) \<notin> set zs" for x y
    by (force simp: image_iff)+
  have IH: "(f, x, y) \<in> set (map (\<lambda>((f, x), (_, y)). (f, x, y)) (filter (\<lambda>((_, x), (_, y)). x \<noteq> y) (zip xs zs))) \<longleftrightarrow>
    (f, x) \<in> set xs \<and> (f, y) \<in> set zs \<and> x \<noteq> y" using Cons.IH [OF ys(2)] Cons.prems(2) by simp
  have split: "set (map (\<lambda>((f, x), (_, y)). (f, x, y)) (filter (\<lambda>((_, x), (_, y)). x \<noteq> y) (zip (u # xs) ys))) =
    (if p \<noteq> q then {(k, p, q)} else {}) \<union>
    set (map (\<lambda>((f, x), (_, y)). (f, x, y)) (filter (\<lambda>((_, x), (_, y)). x \<noteq> y) (zip xs zs)))"
    by (simp add: ys(1) uv)
  show ?case unfolding split Un_iff IH unfolding ys(1) uv using n by auto
qed

lemma spec_changes_exact:
  "(f, x, y) \<in> set (spec_changes a b) \<longleftrightarrow> (f, x) \<in> set (spec_fields a) \<and> (f, y) \<in> set (spec_fields b) \<and> x \<noteq> y"
proof -
  have "map fst (spec_fields a) = map fst (spec_fields b)" "distinct (map fst (spec_fields a))"
    by (simp_all add: spec_fields_def)
  then show ?thesis unfolding spec_changes_def by (rule changes_exact)
qed

text \<open>The difference of two snapshots lists exactly the fields whose values differ, with both values, and says
  equal exactly when the two specifications are equal; equal snapshots therefore have the same digest.\<close>
lemma difference_exact:
  assumes "diff_profile sha a b = Inr d"
  shows "(\<forall>f x y. (f, x, y) \<in> set (df_changes d) \<longleftrightarrow>
      (f, x) \<in> set (spec_fields (sn_spec a)) \<and> (f, y) \<in> set (spec_fields (sn_spec b)) \<and> x \<noteq> y) \<and>
    (df_equal d \<longleftrightarrow> sn_spec a = sn_spec b) \<and> (df_equal d \<longrightarrow> sn_digest a = sn_digest b)"
proof -
  have "validate_snapshot sha s (sp_project (sn_spec s)) (sp_id (sn_spec s)) = Inr ()" if "s \<in> {a, b}" for s
    using assms that by (auto simp: diff_profile_def split: sum.splits)
  then have "sn_digest s = profile_digest sha (sn_spec s)" if "s \<in> {a, b}" for s
    using that validate_snapshot_Inr by blast
  then show ?thesis using diff_profile_Inr [OF assms] spec_changes_exact by simp
qed

definition snapshot_sample :: "int \<Rightarrow> profile_snapshot" where
  "snapshot_sample java =
     \<lparr>sn_schema = profile_schema2, sn_revision = 1, sn_digest = profile_text (spec_sample java),
      sn_spec = spec_sample java\<rparr>"

subsection \<open>Copies of a profile\<close>

lemma create_Inr:
  assumes "create_from_snapshot sha src project new_id new_name = Inr p"
  shows "profile_spec_of p = (sn_spec src)\<lparr>sp_project := project, sp_id := trim_space new_id,
      sp_name := trim_space new_name, sp_default := False\<rparr>"
    and "normalize_profile sha p = Inr p" and "valid_profile_id (pf_id p)"
proof -
  define q where "q = no_profile\<lparr>pf_project := project, pf_id := trim_space new_id, pf_name := trim_space new_name,
      pf_description := sp_description (sn_spec src), pf_loader := sp_loader (sn_spec src),
      pf_minecraft := sp_minecraft (sn_spec src), pf_loader_version := sp_loader_version (sn_spec src),
      pf_java := sp_java (sn_spec src), pf_preset := sp_preset (sn_spec src), pf_default := False\<rparr>"
  have v: "validate_snapshot sha src (sp_project (sn_spec src)) (sp_id (sn_spec src)) = Inr ()"
    and n: "normalize_profile sha q = Inr p" and i: "valid_profile_id (pf_id q)"
    using assms by (auto simp: create_from_snapshot_def Let_def q_def split: sum.splits if_splits)
  have "pf_loader q \<noteq> []" using v by (simp add: validate_snapshot_Inr q_def)
  then have p: "p = q\<lparr>pf_schema := profile_schema2, pf_digest := pf_digest p\<rparr>"
    using normalize_Inr(9) [OF n] by (cases q) simp
  show "profile_spec_of p = (sn_spec src)\<lparr>sp_project := project, sp_id := trim_space new_id,
      sp_name := trim_space new_name, sp_default := False\<rparr>"
    by (subst p, cases "sn_spec src") (simp add: profile_spec_of_def q_def)
  show "normalize_profile sha p = Inr p" using normalize_fixed normalize_Inr(1-8) [OF n] by blast
  show "valid_profile_id (pf_id p)" using i by (subst p) simp
qed

lemma valid_id_clean:
  assumes "valid_profile_id s"
  shows "CHR 0x00 \<notin> set s" "s \<noteq> ''.''" "s \<noteq> ''..''"
proof -
  have b: "\<not> id_byte (CHR 0x00)" "\<not> id_byte (CHR ''.'')"
    by (simp_all add: id_byte_def is_lower_def is_digit_def byte_in_def less_eq_char_def)
  obtain c t where s: "s = c # t" "id_byte c"
    "\<forall>d \<in> set t. id_byte d \<or> d = CHR ''_'' \<or> d = CHR ''.'' \<or> d = CHR ''-''"
    using assms by (cases s) (auto simp: valid_profile_id_def list_all_iff)
  then show "CHR 0x00 \<notin> set s" "s \<noteq> ''.''" "s \<noteq> ''..''" using b by auto
qed

lemma export_normalized:
  assumes "normalize_profile sha q = Inr q" "1 \<le> pf_revision q"
  shows "export_profile sha (snapshot_profile sha q) =
    Inr \<lparr>bn_format = bundle_format, bn_snapshot = snapshot_profile sha q\<rparr>"
  using normalize_Inr(3-6) [OF assms(1)] assms(2)
  by (simp add: export_profile_def snapshot_profile_def Let_def validate_snapshot_def profile_spec_of_def)

lemma check_launch_cong:
  assumes "pf_minecraft p = pf_minecraft q" "pf_loader_version p = pf_loader_version q" "pf_java p = pf_java q"
    "pf_loader p = pf_loader q" "check_launch_settings q = r"
  shows "check_launch_settings p = r"
  using assms(5) unfolding check_launch_settings_def assms(1-4) .

lemma copy_within_limit:
  assumes "normalize_profile sha p = Inr q" "1 \<le> pf_revision q" "length (pf_description q) \<le> 4096"
    and "valid_profile_id (trim_space new_id)" "trim_space new_name \<noteq> []" "length (trim_space new_name) \<le> 120"
    and "CHR 0x00 \<notin> set (trim_space new_name)" "project \<noteq> []" "CHR 0x00 \<notin> set project"
  shows "\<exists>b r. export_profile sha (snapshot_profile sha q) = Inr b \<and>
    import_profile sha b project new_id new_name = Inr r \<and> normalize_profile sha r = Inr r \<and>
    profile_spec_of r = (profile_spec_of q)\<lparr>sp_project := project, sp_id := trim_space new_id,
      sp_name := trim_space new_name, sp_default := False\<rparr>"
proof -
  note q = normalize_Inr [OF assms(1)] and i = valid_id_clean [OF assms(4)]
  have qq: "normalize_profile sha q = Inr q" using normalize_fixed q(1-8) by blast
  let ?b = "\<lparr>bn_format = bundle_format, bn_snapshot = snapshot_profile sha q\<rparr>"
  define n where "n = no_profile\<lparr>pf_project := project, pf_id := trim_space new_id, pf_name := trim_space new_name,
      pf_description := pf_description q, pf_loader := pf_loader q, pf_minecraft := pf_minecraft q,
      pf_loader_version := pf_loader_version q, pf_java := pf_java q, pf_preset := pf_preset q, pf_default := False\<rparr>"
  have "check_launch_settings n = Inr ()" "check_launch_settings (n\<lparr>pf_schema := profile_schema2\<rparr>) = Inr ()"
    by (simp_all add: n_def check_launch_cong [OF _ _ _ _ q(7)])
  moreover have "\<not> list_ex (\<lambda>v. List.member v (CHR 0x00)) (profile_texts n)"
    "\<not> list_ex (\<lambda>v. List.member v (CHR 0x00)) (profile_texts (n\<lparr>pf_schema := profile_schema2\<rparr>))"
    using q(8) i(1) assms(7,9) by (simp_all add: profile_texts_def n_def)
  moreover have "valid_profile_id (trim_space new_id) \<Longrightarrow> trim_space new_id \<noteq> []" by (simp add: valid_profile_id_def)
  ultimately have "is_ok (normalize_profile sha n)"
    using q(6) assms(4,5,8) unfolding normalize_profile_def Let_def by (simp add: n_def no_profile_def)
  moreover have "import_profile sha ?b project new_id new_name = normalize_profile sha n"
    using assms(2-6) q(3-6) i(2,3)
    by (simp add: import_profile_def create_from_snapshot_def validate_snapshot_def snapshot_profile_def Let_def
      profile_spec_of_def n_def)
  ultimately obtain r where r: "import_profile sha ?b project new_id new_name = Inr r"
    unfolding is_ok_iff by metis
  then have "create_from_snapshot sha (snapshot_profile sha q) project new_id new_name = Inr r"
    by (simp add: import_profile_def)
  from create_Inr(1,2) [OF this] show ?thesis
    using r export_normalized [OF qq assms(2)] by (auto simp: snapshot_profile_def Let_def)
qed

text \<open>C40: Round trip of a profile: a stored profile (normalised, saved at least once) exports, and importing the bundle
  into any project under any well-formed identity and name succeeds exactly when the description has at most 4096
  bytes, a bound that storing a profile does not check.  The import is then a valid profile with the same loader,
  versions, Java major, preset and description; it is never the default.\<close>
theorem profile_copy_roundtrip:
  assumes "normalize_profile sha p = Inr q" "1 \<le> pf_revision q"
    and "valid_profile_id (trim_space new_id)" "trim_space new_name \<noteq> []" "length (trim_space new_name) \<le> 120"
    and "CHR 0x00 \<notin> set (trim_space new_name)" "project \<noteq> []" "CHR 0x00 \<notin> set project"
  shows "\<exists>b. export_profile sha (snapshot_profile sha q) = Inr b \<and>
    (if length (pf_description q) \<le> 4096
     then \<exists>r. import_profile sha b project new_id new_name = Inr r \<and> normalize_profile sha r = Inr r \<and>
       profile_spec_of r = (profile_spec_of q)\<lparr>sp_project := project, sp_id := trim_space new_id,
         sp_name := trim_space new_name, sp_default := False\<rparr>
     else import_profile sha b project new_id new_name = Inl BadProfileLength)"
proof (cases "length (pf_description q) \<le> 4096")
  case True
  then show ?thesis using copy_within_limit [OF assms(1,2) True assms(3-8)] by auto
next
  case False
  have qq: "normalize_profile sha q = Inr q" using normalize_fixed normalize_Inr(1-8) [OF assms(1)] by blast
  let ?s = "snapshot_profile sha q"
  let ?b = "\<lparr>bn_format = bundle_format, bn_snapshot = ?s\<rparr>"
  have x: "export_profile sha ?s = Inr ?b" using export_normalized [OF qq assms(2)] by (simp add: snapshot_profile_def Let_def)
  then have "is_ok (validate_snapshot sha ?s (sp_project (sn_spec ?s)) (sp_id (sn_spec ?s)))"
    by (auto simp: export_profile_def split: sum.split_asm)
  then have "import_profile sha ?b project new_id new_name = Inl BadProfileLength"
    using assms(3) valid_id_clean(2,3) [OF assms(3)] False
    by (auto simp: import_profile_def create_from_snapshot_def Let_def snapshot_profile_def profile_spec_of_def is_ok_iff
        split: sum.split)
  then show ?thesis using x False by auto
qed

definition profile_sample :: profile where
  "profile_sample = no_profile\<lparr>pf_revision := 3, pf_project := ''p'', pf_id := ''q'', pf_name := ''N'',
     pf_loader := ''fabric'', pf_minecraft := ''1.20.4'', pf_loader_version := ''0.15.0'', pf_java := 17\<rparr>"

lemma profile_sample_valid: "is_ok (normalize_profile id profile_sample)"
  by (simp add: profile_sample_def no_profile_def normalize_profile_def Let_def check_launch_settings_def
    launch_configured_def profile_texts_def version_blanks_def contains_any_def)

theorem profile_copy_roundtrip_witness:
  "\<exists>q b r. normalize_profile id profile_sample = Inr q \<and> export_profile id (snapshot_profile id q) = Inr b \<and>
    import_profile id b ''other'' '' copy '' ''Copy'' = Inr r \<and> pf_id r = ''copy'' \<and> pf_minecraft r = ''1.20.4''"
proof -
  obtain q where q: "normalize_profile id profile_sample = Inr q"
    using profile_sample_valid unfolding is_ok_iff by blast
  have f: "pf_revision q = 3" "pf_description q = []" "pf_minecraft q = ''1.20.4''"
    by (subst normalize_Inr(9) [OF q], simp add: profile_sample_def no_profile_def)+
  have t: "trim_space '' copy '' = ''copy''" "trim_space ''Copy'' = ''Copy''" "valid_profile_id ''copy''"
    by code_simp+
  obtain b r where "export_profile id (snapshot_profile id q) = Inr b"
    "import_profile id b ''other'' '' copy '' ''Copy'' = Inr r"
    "profile_spec_of r = (profile_spec_of q)\<lparr>sp_project := ''other'', sp_id := ''copy'', sp_name := ''Copy'',
      sp_default := False\<rparr>"
    using profile_copy_roundtrip [OF q, of "'' copy ''" "''Copy''" "''other''"] by (auto simp: f t)
  moreover from this(3) have "pf_id r = ''copy''" "pf_minecraft r = ''1.20.4''"
    by (simp_all add: profile_spec_of_def f)
  ultimately show ?thesis using q by blast
qed

end
