(* ===== verification/ExtSemver.thy ===== *)
theory ExtSemver
  imports GoText GoOrder
begin

text \<open>
  The lenient versions and constraints of extensions (\<^verbatim>\<open>extensionresolver/semver.go\<close>): two or three numbers
  of a signed 64-bit \<^verbatim>\<open>int\<close>, any pre-release text, and constraints whose predicates are functions on
  versions, as the closures of the code are.
\<close>

section \<open>Versions\<close>

record ext_version =
  ev_major :: int
  ev_minor :: int
  ev_patch :: int
  ev_pre :: "string list"
  ev_raw :: string

datatype ext_error =
    EmptyVersion
  | BadVersion string
  | BadPrereleaseText string
  | EmptyConstraint
  | BadConstraint string
  | BadWildcard string
  | BadConstraintVersion string ext_error

definition version_number :: "string \<Rightarrow> string \<Rightarrow> ext_error + int" where
  "version_number raw part =
     (case parse_int64 part of
        None \<Rightarrow> Inl (BadVersion raw)
      | Some n \<Rightarrow> if n < 0 then Inl (BadVersion raw) else Inr n)"

definition version_numbers :: "string \<Rightarrow> string list \<Rightarrow> ext_error + int list" where
  "version_numbers raw parts =
     for_each (\<lambda>p vals. case version_number raw p of Inl e \<Rightarrow> Inl e | Inr n \<Rightarrow> Inr (vals @ [n])) parts []"

definition pad_numbers :: "int list \<Rightarrow> int \<times> int \<times> int" where
  "pad_numbers vals =
     (case vals of a # b # c # _ \<Rightarrow> (a, b, c) | [a, b] \<Rightarrow> (a, b, 0) | [a] \<Rightarrow> (a, 0, 0) | [] \<Rightarrow> (0, 0, 0))"

definition parse_version :: "string \<Rightarrow> ext_error + ext_version" where
  "parse_version raw0 =
     (let raw = trim_space (trim_prefix (trim_space raw0) ''v'')
      in if raw = [] then Inl EmptyVersion
         else
           (let (core_text, pre) = cut_char (CHR ''-'') (fst (cut_char (CHR ''+'') raw));
                core = split_char (CHR ''.'') core_text
            in if length core < 2 \<or> length core > 3 then Inl (BadVersion raw)
               else
                 (case version_numbers raw core of
                    Inl e \<Rightarrow> Inl e
                  | Inr vals \<Rightarrow>
                      (let (a, b, c) = pad_numbers vals;
                           v = \<lparr>ev_major = a, ev_minor = b, ev_patch = c, ev_pre = [], ev_raw = raw\<rparr>
                       in case pre of
                            None \<Rightarrow> Inr v
                          | Some p \<Rightarrow>
                              if p = [] then Inl (BadPrereleaseText raw)
                              else Inr (v\<lparr>ev_pre := split_char (CHR ''.'') p\<rparr>)))))"

section \<open>Precedence\<close>

fun compare_pre :: "string list \<Rightarrow> string list \<Rightarrow> int" where
  "compare_pre (x # xs) (y # ys) =
     (case (parse_int64 x, parse_int64 y) of
        (Some m, Some n) \<Rightarrow> if m < n then -1 else if m > n then 1 else compare_pre xs ys
      | (Some _, None) \<Rightarrow> -1
      | (None, Some _) \<Rightarrow> 1
      | (None, None) \<Rightarrow> if x < y then -1 else if x > y then 1 else compare_pre xs ys)"
| "compare_pre [] (y # ys) = -1"
| "compare_pre (x # xs) [] = 1"
| "compare_pre [] [] = 0"

definition compare_version :: "ext_version \<Rightarrow> ext_version \<Rightarrow> int" where
  "compare_version a b =
     (if ev_major a < ev_major b then -1 else if ev_major a > ev_major b then 1
      else if ev_minor a < ev_minor b then -1 else if ev_minor a > ev_minor b then 1
      else if ev_patch a < ev_patch b then -1 else if ev_patch a > ev_patch b then 1
      else if ev_pre a = [] \<and> ev_pre b = [] then 0
      else if ev_pre a = [] then 1
      else if ev_pre b = [] then -1
      else compare_pre (ev_pre a) (ev_pre b))"

section \<open>Constraints\<close>

definition normalize_constraint_version :: "string \<Rightarrow> ext_error + ext_version" where
  "normalize_constraint_version s0 =
     (let s = trim_space (trim_prefix s0 ''v'');
          core = split_char (CHR ''.'') (fst (cut_char (CHR ''-'') (fst (cut_char (CHR ''+'') s))));
          t = (if length core = 1 then s @ ''.0.0'' else if length core = 2 then s @ ''.0'' else s)
      in parse_version t)"

type_synonym predicate = "ext_version \<Rightarrow> bool"

definition wild :: "string \<Rightarrow> bool" where
  "wild p \<longleftrightarrow> p = ''x'' \<or> p = ''X'' \<or> p = ''*''"

fun wildcard_numbers :: "string \<Rightarrow> string list \<Rightarrow> ext_error + int list" where
  "wildcard_numbers tok [] = Inr []"
| "wildcard_numbers tok (p # ps) =
     (if wild p then Inr []
      else
        (case parse_int64 p of
           None \<Rightarrow> Inl (BadWildcard tok)
         | Some n \<Rightarrow> (case wildcard_numbers tok ps of Inl e \<Rightarrow> Inl e | Inr ns \<Rightarrow> Inr (n # ns))))"

definition wildcard_match :: "int list \<Rightarrow> predicate" where
  "wildcard_match nums v \<longleftrightarrow>
     (case nums of
        [] \<Rightarrow> True
      | [a] \<Rightarrow> ev_major v = a
      | [a, b] \<Rightarrow> ev_major v = a \<and> ev_minor v = b
      | a # b # c # _ \<Rightarrow> ev_major v = a \<and> ev_minor v = b \<and> ev_patch v = c)"

definition constraint_ops :: "string list" where
  "constraint_ops = [''>='', ''<='', ''>'', ''<'', ''^'', ''~'', ''='']"

definition next_int :: "int \<Rightarrow> int" where \<comment> \<open>\<^verbatim>\<open>n + 1\<close> of a 64-bit \<^verbatim>\<open>int\<close>, which wraps\<close>
  "next_int n = (if n = 2 ^ 63 - 1 then - (2 ^ 63) else n + 1)"

definition plain_version :: "int \<Rightarrow> int \<Rightarrow> int \<Rightarrow> ext_version" where
  "plain_version a b c = \<lparr>ev_major = a, ev_minor = b, ev_patch = c, ev_pre = [], ev_raw = []\<rparr>"

definition caret_upper :: "ext_version \<Rightarrow> ext_version" where
  "caret_upper v =
     (if ev_major v > 0 then plain_version (next_int (ev_major v)) 0 0
      else if ev_minor v > 0 then plain_version 0 (next_int (ev_minor v)) 0
      else plain_version 0 0 (next_int (ev_patch v)))"

definition tilde_upper :: "ext_version \<Rightarrow> ext_version" where
  "tilde_upper v = plain_version (ev_major v) (next_int (ev_minor v)) 0"

definition op_predicates :: "string \<Rightarrow> ext_version \<Rightarrow> predicate list" where
  "op_predicates op v =
     (if op = ''='' then [\<lambda>x. compare_version x v = 0]
      else if op = ''>='' then [\<lambda>x. compare_version x v \<ge> 0]
      else if op = ''<='' then [\<lambda>x. compare_version x v \<le> 0]
      else if op = ''>'' then [\<lambda>x. compare_version x v > 0]
      else if op = ''<'' then [\<lambda>x. compare_version x v < 0]
      else if op = ''^'' then [\<lambda>x. compare_version x v \<ge> 0, \<lambda>x. compare_version x (caret_upper v) < 0]
      else [\<lambda>x. compare_version x v \<ge> 0, \<lambda>x. compare_version x (tilde_upper v) < 0])"

definition split_constraint_op :: "string \<Rightarrow> string \<times> string" where
  "split_constraint_op tok =
     (case first_some (has_prefix tok) constraint_ops of
        Some op \<Rightarrow> (op, trim_space (trim_prefix tok op))
      | None \<Rightarrow> (''='', tok))"

definition parse_token :: "string \<Rightarrow> ext_error + predicate list" where
  "parse_token tok0 =
     (let tok = trim_space tok0
      in if tok = [] then Inr []
         else if tok = ''*'' \<or> tok = ''x'' \<or> tok = ''X'' then Inr [\<lambda>_. True]
         else if contains_any tok ''xX*'' then
           (case wildcard_numbers tok (split_char (CHR ''.'') (trim_prefix tok ''='')) of
              Inl e \<Rightarrow> Inl e
            | Inr [] \<Rightarrow> Inr [\<lambda>_. True]
            | Inr nums \<Rightarrow> Inr [wildcard_match nums])
         else
           (let (op, val) = split_constraint_op tok
            in case normalize_constraint_version val of
                 Inl e \<Rightarrow> Inl (BadConstraintVersion tok e)
               | Inr v \<Rightarrow> Inr (op_predicates op v)))"

definition parse_alternative :: "string \<Rightarrow> string \<Rightarrow> ext_error + predicate list" where
  "parse_alternative raw alt0 =
     (let alt = trim_space (map (\<lambda>c. if c = CHR '','' then CHR '' '' else c) alt0)
      in if alt = [] then Inl (BadConstraint raw)
         else for_each (\<lambda>tok preds. case parse_token tok of Inl e \<Rightarrow> Inl e | Inr ps \<Rightarrow> Inr (preds @ ps))
                (str_fields alt) [])"

definition parse_constraint :: "string \<Rightarrow> ext_error + predicate list list" where
  "parse_constraint raw0 =
     (let raw = trim_space raw0
      in if raw = [] then Inl EmptyConstraint
         else if raw = ''*'' \<or> raw = ''x'' \<or> raw = ''X'' then Inr [[\<lambda>_. True]]
         else for_each (\<lambda>alt alts. case parse_alternative raw alt of Inl e \<Rightarrow> Inl e | Inr ps \<Rightarrow> Inr (alts @ [ps]))
                (split_two (CHR ''|'') (CHR ''|'') raw) [])"

definition constraint_match :: "predicate list list \<Rightarrow> ext_version \<Rightarrow> bool" where
  "constraint_match alts v \<longleftrightarrow> list_ex (\<lambda>alt. list_all (\<lambda>p. p v) alt) alts"

definition ext_matches :: "string \<Rightarrow> string \<Rightarrow> bool" where
  "ext_matches version expr =
     (case parse_version version of
        Inl _ \<Rightarrow> False
      | Inr v \<Rightarrow> (case parse_constraint expr of Inl _ \<Rightarrow> False | Inr alts \<Rightarrow> constraint_match alts v))"

section \<open>Precedence is an order\<close>

definition compare_id :: "string \<Rightarrow> string \<Rightarrow> int" where
  "compare_id x y =
     (case (parse_int64 x, parse_int64 y) of
        (Some m, Some n) \<Rightarrow> order_cmp m n
      | (Some _, None) \<Rightarrow> -1
      | (None, Some _) \<Rightarrow> 1
      | (None, None) \<Rightarrow> order_cmp x y)"

interpretation pre_id: comparator compare_id
proof
  fix a b c :: string
  show "compare_id a b \<in> {-1, 0, 1}"
    by (simp add: compare_id_def order_cmp_def split: option.split)
  show "compare_id b a = - compare_id a b"
    by (cases "parse_int64 a"; cases "parse_int64 b") (auto simp: compare_id_def order_cmp_def)
  assume "compare_id a b \<le> 0" "compare_id b c \<le> 0"
  then show "compare_id a c \<le> 0"
    by (cases "parse_int64 a"; cases "parse_int64 b"; cases "parse_int64 c")
      (simp_all add: compare_id_def, (erule (1) comparator.le_trans [OF order_comparator])+)
qed

lemma compare_pre_lex: "compare_pre xs ys = lex_cmp compare_id xs ys"
  by (induction xs ys rule: compare_pre.induct) (auto simp: compare_id_def order_cmp_def split: option.splits)

definition compare_tail :: "string list \<Rightarrow> string list \<Rightarrow> int" where
  "compare_tail p q =
     (if p = [] \<and> q = [] then 0 else if p = [] then 1 else if q = [] then -1 else lex_cmp compare_id p q)"

interpretation pre_list: comparator "lex_cmp compare_id"
  by (rule pre_id.lex_comparator)

interpretation pre_tail: comparator compare_tail
proof
  fix a b c :: "string list"
  show "compare_tail a b \<in> {-1, 0, 1}"
    using pre_list.range [of a b] by (auto simp: compare_tail_def)
  show "compare_tail b a = - compare_tail a b"
    using pre_list.anti [of a b] by (auto simp: compare_tail_def)
  assume "compare_tail a b \<le> 0" "compare_tail b c \<le> 0"
  then show "compare_tail a c \<le> 0"
    using pre_list.le_trans [of a b c] by (auto simp: compare_tail_def split: if_splits)
qed

lemma compare_version_stages:
  "compare_version =
     then_cmp (\<lambda>a b. order_cmp (ev_major a) (ev_major b))
       (then_cmp (\<lambda>a b. order_cmp (ev_minor a) (ev_minor b))
         (then_cmp (\<lambda>a b. order_cmp (ev_patch a) (ev_patch b))
           (\<lambda>a b. compare_tail (ev_pre a) (ev_pre b))))"
  by (intro ext)
    (simp add: compare_version_def then_cmp_def order_cmp_def compare_tail_def compare_pre_lex)

interpretation ext_order: comparator compare_version
  unfolding compare_version_stages
  by (rule comparator.then_comparator [OF comparator.on_key [OF order_comparator]])+
    (rule pre_tail.on_key)

lemma compare_upper:
  "compare_version x (plain_version a b c) < 0 \<longleftrightarrow>
     ev_major x < a \<or> (ev_major x = a \<and> (ev_minor x < b \<or> (ev_minor x = b \<and>
       (ev_patch x < c \<or> (ev_patch x = c \<and> ev_pre x \<noteq> [])))))"
  by (auto simp: compare_version_def plain_version_def)

section \<open>Parsing\<close>

definition int63 :: "int \<Rightarrow> bool" where
  "int63 n \<longleftrightarrow> 0 \<le> n \<and> n < 2 ^ 63"

lemma int63_zero: "int63 0"
  by (simp add: int63_def)

lemma version_number_int63:
  assumes "version_number raw p = Inr n"
  shows "int63 n"
proof -
  have "parse_int64 p = Some n" "0 \<le> n"
    using assms by (cases "parse_int64 p"; simp add: version_number_def split: if_split_asm)+
  then show ?thesis using parse_int64_bounds [of p n] unfolding int63_def by blast
qed

lemma version_numbers_Inr:
  assumes "version_numbers raw parts = Inr vals"
  shows "length vals = length parts" "\<forall>n \<in> set vals. int63 n"
proof -
  define body where "body = (\<lambda>p (vals :: int list). case version_number raw p of Inl e \<Rightarrow> Inl e | Inr n \<Rightarrow> Inr (vals @ [n]))"
  have *: "length out = length acc + length parts \<and> ((\<forall>n \<in> set acc. int63 n) \<longrightarrow> (\<forall>n \<in> set out. int63 n))"
    if "for_each body parts acc = Inr out" for acc out
    using that
  proof (induction parts arbitrary: acc)
    case Nil
    then show ?case by simp
  next
    case (Cons p ps)
    then obtain n where n: "version_number raw p = Inr n" "for_each body ps (acc @ [n]) = Inr out"
      by (auto simp: body_def split: sum.splits)
    note IH = Cons.IH [OF n(2)]
    have "\<forall>k \<in> set (acc @ [n]). int63 k" if "\<forall>k \<in> set acc. int63 k"
      using that version_number_int63 [OF n(1)] by simp
    then have "(\<forall>k \<in> set acc. int63 k) \<longrightarrow> (\<forall>k \<in> set out. int63 k)" using IH by blast
    moreover have "length out = length acc + length (p # ps)" using conjunct1 [OF IH] by simp
    ultimately show ?case by blast
  qed
  have "for_each body parts [] = Inr vals" using assms unfolding version_numbers_def body_def .
  from * [OF this] show "length vals = length parts" "\<forall>n \<in> set vals. int63 n" by simp_all
qed

lemma pad_numbers_bounds:
  assumes "\<forall>n \<in> set vals. int63 n" "pad_numbers vals = (a, b, c)"
  shows "int63 a" "int63 b" "int63 c"
  using assms by (auto simp: pad_numbers_def int63_zero split: list.splits)

lemma parse_version_numbers:
  assumes "parse_version raw = Inr v"
  shows "\<exists>r core vals. version_numbers r core = Inr vals \<and> pad_numbers vals = (ev_major v, ev_minor v, ev_patch v)"
proof -
  define r where "r = trim_space (trim_prefix (trim_space raw) ''v'')"
  obtain core pre where cp: "cut_char (CHR ''-'') (fst (cut_char (CHR ''+'') r)) = (core, pre)" by fastforce
  obtain vals where v: "version_numbers r (split_char (CHR ''.'') core) = Inr vals"
    using assms unfolding parse_version_def Let_def r_def [symmetric] cp
    by (auto split: if_split_asm sum.split_asm)
  obtain a b c where abc: "pad_numbers vals = (a, b, c)" by (cases "pad_numbers vals")
  have "ev_major v = a \<and> ev_minor v = b \<and> ev_patch v = c"
    using assms unfolding parse_version_def Let_def r_def [symmetric] cp
    by (auto simp: v abc split: if_split_asm option.split_asm)
  then show ?thesis using v abc by blast
qed

definition bounded_version :: "ext_version \<Rightarrow> bool" where
  "bounded_version v \<longleftrightarrow> int63 (ev_major v) \<and> int63 (ev_minor v) \<and> int63 (ev_patch v)"

lemma parse_version_bounds:
  assumes "parse_version raw = Inr v"
  shows "bounded_version v"
proof -
  obtain r core vals where v: "version_numbers r core = Inr vals"
    and p: "pad_numbers vals = (ev_major v, ev_minor v, ev_patch v)"
    using parse_version_numbers [OF assms] by blast
  show ?thesis
    using pad_numbers_bounds [OF version_numbers_Inr(2) [OF v] p] by (simp add: bounded_version_def)
qed

section \<open>Properties\<close>

text \<open>The precedence of extension versions is a total preorder, whatever the pre-release texts: the comparison is
  three-valued, antisymmetric and transitive, so the resolver's candidate order is well defined.\<close>
lemma ext_precedence_order:
  "compare_version a b \<in> {-1, 0, 1} \<and> compare_version b a = - compare_version a b \<and>
   (compare_version a b \<le> 0 \<and> compare_version b c \<le> 0 \<longrightarrow> compare_version a c \<le> 0)"
  using ext_order.range ext_order.anti ext_order.le_trans by blast

text \<open>A caret constraint above a version whose leading number can still be incremented accepts the version
  itself, and every release it accepts (as parsed versions are, with numbers below 2^63) keeps the leading number; at the largest 64-bit number the bound wraps
  around and the constraint accepts nothing, not even the version it names.\<close>
lemma caret_interval:
  assumes "bounded_version v" "0 < ev_major v"
  shows "if ev_major v < 2 ^ 63 - 1
    then constraint_match [op_predicates ''^'' v] v \<and>
      (\<forall>x. constraint_match [op_predicates ''^'' v] x \<and> bounded_version x \<and> ev_pre x = [] \<longrightarrow> ev_major x = ev_major v)
    else \<forall>x. bounded_version x \<longrightarrow> \<not> constraint_match [op_predicates ''^'' v] x"
proof -
  have m: "constraint_match [op_predicates ''^'' v] x \<longleftrightarrow>
      0 \<le> compare_version x v \<and> compare_version x (caret_upper v) < 0" for x
    by (simp add: constraint_match_def op_predicates_def)
  have u: "caret_upper v = plain_version (next_int (ev_major v)) 0 0" using assms(2) by (simp add: caret_upper_def)
  have lo: "ev_major v \<le> ev_major x" if "0 \<le> compare_version x v" for x
    using that by (auto simp: compare_version_def split: if_splits)
  show ?thesis
  proof (cases "ev_major v < 2 ^ 63 - 1")
    case True
    then have n: "next_int (ev_major v) = ev_major v + 1" by (simp add: next_int_def)
    have "constraint_match [op_predicates ''^'' v] v" by (simp add: m u n compare_upper)
    moreover have "ev_major x = ev_major v" if "constraint_match [op_predicates ''^'' v] x" "bounded_version x" "ev_pre x = []"
      for x
      using that lo [of x] by (auto simp: m u n compare_upper bounded_version_def int63_def)
    ultimately show ?thesis using True by simp
  next
    case False
    then have "next_int (ev_major v) = - (2 ^ 63)" using assms(1) by (simp add: next_int_def int63_def bounded_version_def)
    then show ?thesis using False by (auto simp: m u compare_upper int63_def bounded_version_def)
  qed
qed

subsection \<open>Tags that look like wildcards\<close>

lemma digit_graphic: "is_digit c \<Longrightarrow> graphic c"
  by (auto simp: is_digit_def graphic_def byte_in_def less_eq_char_def)

lemma digit_plain: "is_digit c \<Longrightarrow> c \<noteq> CHR ''.'' \<and> c \<noteq> CHR ''-'' \<and> c \<noteq> CHR '','' \<and> c \<noteq> CHR ''|'' \<and> c \<noteq> CHR ''+''"
  by (auto simp: is_digit_def byte_in_def less_eq_char_def)

lemma digits_not_wild: "all_digits s \<Longrightarrow> \<not> wild s"
  by (auto simp: all_digits_def wild_def is_digit_def byte_in_def less_eq_char_def)

lemma tagged_not_number:
  assumes "all_digits c"
  shows "parse_int64 (c @ CHR ''-'' # p) = None" "\<not> wild (c @ CHR ''-'' # p)"
proof -
  obtain d r where c: "c = d # r" "is_digit d" using assms by (cases c) (auto simp: all_digits_def)
  have "\<not> is_digit (CHR ''-'')" by (simp add: is_digit_def byte_in_def less_eq_char_def)
  then show "parse_int64 (c @ CHR ''-'' # p) = None"
    using c digit_plain [OF c(2)] by (simp add: parse_int64_def all_digits_def)
  show "\<not> wild (c @ CHR ''-'' # p)" using c by (auto simp: wild_def)
qed

definition own_ops :: "string list" where
  "own_ops = [[], ''='', ''>='', ''<='', ''>'', ''<'', ''^'', ''~'']"

lemma wildcard_numbers_stop:
  "\<not> wild p \<Longrightarrow> parse_int64 p = None \<Longrightarrow> wildcard_numbers tok (p # ps) = Inl (BadWildcard tok)"
  by simp

lemma wildcard_numbers_tagged:
  assumes "all_digits a" "all_digits b" "all_digits c"
  shows "wildcard_numbers tok (a # b # (c @ CHR ''-'' # p) # ps) = Inl (BadWildcard tok)"
  using digits_not_wild [OF assms(1)] digits_not_wild [OF assms(2)] tagged_not_number [OF assms(3)]
  by (simp split: option.split)

lemma op_not_number:
  assumes "op \<in> set constraint_ops"
  shows "parse_int64 (op @ s) = None" "\<not> wild (op @ s)"
proof -
  have "\<not> is_digit (CHR ''>'')" "\<not> is_digit (CHR ''<'')" "\<not> is_digit (CHR ''^'')" "\<not> is_digit (CHR ''~'')"
    "\<not> is_digit (CHR ''='')"
    by (simp_all add: is_digit_def byte_in_def less_eq_char_def)
  then show "parse_int64 (op @ s) = None"
    using assms by (auto simp: constraint_ops_def parse_int64_def all_digits_def)
  show "\<not> wild (op @ s)" using assms by (auto simp: constraint_ops_def wild_def)
qed

lemma split_char_tagged:
  assumes "d \<notin> set c"
  shows "\<exists>p' ps. split_char d (c @ e # p) = (c @ e # p') # ps \<or> e = d"
proof (cases "e = d")
  case False
  obtain w ws where w: "split_char d p = w # ws" by (metis list.exhaust split_char_nonempty)
  have "split_char d (c @ e # p) = (c @ e # w) # ws"
    using assms False w by (induction c) auto
  then show ?thesis by blast
qed simp

lemma split_tagged_version:
  assumes "all_digits a" "all_digits b" "all_digits c" "CHR ''.'' \<notin> set op"
  shows "\<exists>p' ps. split_char (CHR ''.'') (op @ a @ CHR ''.'' # b @ CHR ''.'' # c @ CHR ''-'' # p) =
    (op @ a) # b # (c @ CHR ''-'' # p') # ps"
proof -
  have d: "CHR ''.'' \<notin> set s" if "all_digits s" for s
    using that digit_plain by (auto simp: all_digits_def list_all_iff)
  have "split_char (CHR ''.'') (op @ a @ CHR ''.'' # r) = (op @ a) # split_char (CHR ''.'') r" for r
    using split_char_app [of "CHR ''.''" "op @ a" r] d [OF assms(1)] assms(4) by simp
  then show ?thesis
    using split_char_tagged [OF d [OF assms(3)], of "CHR ''-''" p] split_char_app [OF d [OF assms(2)]] by auto
qed

definition tagged_version :: "string \<Rightarrow> string \<Rightarrow> string \<Rightarrow> string \<Rightarrow> string" where
  "tagged_version a b c p = a @ CHR ''.'' # b @ CHR ''.'' # c @ CHR ''-'' # p"

lemma tagged_wildcard_numbers:
  assumes "all_digits a" "all_digits b" "all_digits c" "op \<in> set own_ops"
  shows "wildcard_numbers tok (split_char (CHR ''.'') (trim_prefix (op @ tagged_version a b c p) ''='')) =
    Inl (BadWildcard tok)"
proof -
  obtain d r where a: "a = d # r" "is_digit d" using assms(1) by (cases a) (auto simp: all_digits_def)
  have eq: "d \<noteq> CHR ''=''" using a(2) by (auto simp: is_digit_def byte_in_def less_eq_char_def)
  define op' where "op' = (if op = ''='' then [] else op)"
  have t: "trim_prefix (op @ tagged_version a b c p) ''='' = op' @ tagged_version a b c p"
    using assms(4) a(1) eq
    by (auto simp: own_ops_def op'_def trim_prefix_def has_prefix_def tagged_version_def)
  have dot: "CHR ''.'' \<notin> set op'" using assms(4) by (auto simp: own_ops_def op'_def)
  obtain p' ps where s: "split_char (CHR ''.'') (op' @ tagged_version a b c p) = (op' @ a) # b # (c @ CHR ''-'' # p') # ps"
    using split_tagged_version [OF assms(1-3) dot] unfolding tagged_version_def by blast
  show ?thesis
  proof (cases "op' = []")
    case True
    then show ?thesis unfolding t s using wildcard_numbers_tagged [OF assms(1-3)] by simp
  next
    case False
    then have "op' \<in> set constraint_ops" using assms(4) by (auto simp: own_ops_def constraint_ops_def op'_def)
    then show ?thesis unfolding t s using op_not_number wildcard_numbers_stop by metis
  qed
qed

text \<open>A version with a pre-release tag that contains the letter x (or X, or a star), as in \<open>1.0.0-next.1\<close>, cannot
  be named in any constraint: whatever operator is put before it, the constraint is refused as a malformed
  wildcard, although the version itself parses; so no extension can depend on such a version.\<close>
lemma tag_with_x_rejected:
  assumes "all_digits a" "all_digits b" "all_digits c" "op \<in> set own_ops"
    and "\<forall>k \<in> set p. graphic k \<and> k \<noteq> CHR '','' \<and> k \<noteq> CHR ''|''" "contains_any p ''xX*''"
  shows "parse_constraint (op @ tagged_version a b c p) = Inl (BadWildcard (op @ tagged_version a b c p)) \<and>
    \<not> ext_matches v (op @ tagged_version a b c p)"
proof -
  let ?t = "op @ tagged_version a b c p"
  have plain: "\<forall>k \<in> set ?t. graphic k \<and> k \<noteq> CHR '','' \<and> k \<noteq> CHR ''|''"
  proof -
    have "\<forall>k \<in> set op. graphic k \<and> k \<noteq> CHR '','' \<and> k \<noteq> CHR ''|''"
      using assms(4) by (auto simp: own_ops_def graphic_def byte_in_def less_eq_char_def)
    moreover have "\<forall>k \<in> set s. graphic k \<and> k \<noteq> CHR '','' \<and> k \<noteq> CHR ''|''" if "all_digits s" for s
      using that digit_graphic digit_plain by (auto simp: all_digits_def list_all_iff)
    moreover have "graphic (CHR ''.'')" "graphic (CHR ''-'')" by (simp_all add: graphic_def byte_in_def less_eq_char_def)
    ultimately show ?thesis using assms(1-3,5) by (auto simp: tagged_version_def)
  qed
  then have g: "\<forall>k \<in> set ?t. graphic k" by blast
  have ne: "?t \<noteq> []" "length ?t \<noteq> 1" by (simp_all add: tagged_version_def)
  then have nw: "?t \<noteq> ''*''" "?t \<noteq> ''x''" "?t \<noteq> ''X''" by (metis One_nat_def length_Cons list.size(3))+
  have comma: "map (\<lambda>c. if c = CHR '','' then CHR '' '' else c) ?t = ?t"
    using plain by (intro map_idI) auto
  have any: "contains_any ?t ''xX*''" using assms(6) by (auto simp: contains_any_def tagged_version_def)
  have "parse_token ?t = Inl (BadWildcard ?t)"
    using tagged_wildcard_numbers [OF assms(1-4), of ?t p] ne nw any unfolding parse_token_def Let_def trim_space_graphic [OF g]
    by simp
  then have "parse_alternative ?t ?t = Inl (BadWildcard ?t)"
    using ne unfolding parse_alternative_def Let_def comma trim_space_graphic [OF g] str_fields_graphic [OF g ne(1)]
    by simp
  moreover have "split_two (CHR ''|'') (CHR ''|'') ?t = [?t]" using plain by (blast intro: split_two_single)
  ultimately have "parse_constraint ?t = Inl (BadWildcard ?t)"
    using ne nw unfolding parse_constraint_def Let_def trim_space_graphic [OF g]
    by (simp del: append_assoc)
  then show ?thesis by (simp add: ext_matches_def split: sum.split)
qed

subsection \<open>A version satisfies the constraint that names it\<close>

definition nameable :: "string \<Rightarrow> bool" where \<comment> \<open>three numbers, then a tag or build text without \<open>x\<close>, \<open>X\<close>, \<open>*\<close>, \<open>,\<close>, \<open>|\<close>\<close>
  "nameable raw \<longleftrightarrow>
     raw \<noteq> [] \<and> is_digit (hd raw) \<and> (\<forall>k \<in> set raw. graphic k \<and> k \<noteq> CHR '','' \<and> k \<noteq> CHR ''|'') \<and>
     \<not> contains_any raw ''xX*'' \<and>
     length (split_char (CHR ''.'') (fst (cut_char (CHR ''-'') (fst (cut_char (CHR ''+'') raw))))) = 3"

lemma nameable_parts:
  assumes "nameable raw"
  shows "trim_prefix raw ''v'' = raw" "trim_space raw = raw" "raw \<noteq> []" "raw \<noteq> ''*''" "raw \<noteq> ''x''" "raw \<noteq> ''X''"
    "\<And>p. p \<in> set constraint_ops \<Longrightarrow> \<not> has_prefix raw p"
proof -
  obtain d r where raw: "raw = d # r" "is_digit d" using assms by (cases raw) (auto simp: nameable_def)
  have "d \<notin> {CHR ''v'', CHR ''>'', CHR ''<'', CHR ''^'', CHR ''~'', CHR ''='', CHR ''*'', CHR ''x'', CHR ''X''}"
    using raw(2) by (auto simp: is_digit_def byte_in_def less_eq_char_def)
  then show "trim_prefix raw ''v'' = raw" "raw \<noteq> []" "raw \<noteq> ''*''" "raw \<noteq> ''x''" "raw \<noteq> ''X''"
    "\<And>p. p \<in> set constraint_ops \<Longrightarrow> \<not> has_prefix raw p"
    using raw(1) by (auto simp: trim_prefix_def has_prefix_def constraint_ops_def)
  show "trim_space raw = raw" using assms by (auto simp: nameable_def intro: trim_space_graphic)
qed

lemma split_own_op:
  assumes "nameable raw" "op \<in> set own_ops"
  shows "split_constraint_op (op @ raw) = (if op = [] then ''='' else op, raw)"
proof (cases "op = []")
  case True
  have "first_some (has_prefix raw) constraint_ops = None"
    using nameable_parts(7) [OF assms(1)] by (simp add: first_some_None)
  then show ?thesis using True by (simp add: split_constraint_op_def)
next
  case False
  obtain d r where raw: "raw = d # r" "is_digit d" using assms(1) by (cases raw) (auto simp: nameable_def)
  have "d \<noteq> CHR ''=''" using raw(2) by (auto simp: is_digit_def byte_in_def less_eq_char_def)
  then have "first_some (has_prefix (op @ raw)) constraint_ops = Some op"
    using assms(2) False raw(1) by (auto simp: own_ops_def constraint_ops_def has_prefix_def)
  then show ?thesis using False nameable_parts(2) [OF assms(1)]
    by (simp add: split_constraint_op_def trim_prefix_def has_prefix_def)
qed

lemma parse_own_token:
  assumes "nameable raw" "op \<in> set own_ops" "parse_version raw = Inr v"
  shows "parse_constraint (op @ raw) = Inr [op_predicates (if op = [] then ''='' else op) v]"
proof -
  let ?t = "op @ raw"
  have opg: "\<forall>k \<in> set op. graphic k \<and> k \<noteq> CHR '','' \<and> k \<noteq> CHR ''|'' \<and> k \<notin> set ''xX*''"
    using assms(2) by (auto simp: own_ops_def graphic_def byte_in_def less_eq_char_def)
  have rg: "\<forall>k \<in> set raw. graphic k \<and> k \<noteq> CHR '','' \<and> k \<noteq> CHR ''|'' \<and> k \<notin> set ''xX*''"
    using assms(1) by (auto simp: nameable_def contains_any_def list_ex_iff)
  have all: "\<forall>k \<in> set ?t. graphic k \<and> k \<noteq> CHR '','' \<and> k \<noteq> CHR ''|'' \<and> k \<notin> set ''xX*''"
    using opg rg by auto
  then have g: "\<forall>k \<in> set ?t. graphic k" by blast
  have ne: "?t \<noteq> []" using nameable_parts(3) [OF assms(1)] by simp
  have any: "\<not> contains_any ?t ''xX*''" using all by (auto simp: contains_any_def list_ex_iff)
  have "contains_any ''*'' ''xX*''" "contains_any ''x'' ''xX*''" "contains_any ''X'' ''xX*''"
    by (simp_all add: contains_any_def)
  then have nw: "?t \<noteq> ''*''" "?t \<noteq> ''x''" "?t \<noteq> ''X''" using any by metis+
  have norm: "normalize_constraint_version raw = Inr v"
    unfolding normalize_constraint_version_def Let_def nameable_parts(1,2) [OF assms(1)]
    using assms(1,3) by (simp add: nameable_def)
  have tok: "parse_token ?t = Inr (op_predicates (if op = [] then ''='' else op) v)"
    using ne nw any norm unfolding parse_token_def Let_def trim_space_graphic [OF g] split_own_op [OF assms(1,2)]
    by (simp del: append_is_Nil_conv)
  have comma: "map (\<lambda>c. if c = CHR '','' then CHR '' '' else c) ?t = ?t"
    using all by (intro map_idI) auto
  have alt: "parse_alternative ?t ?t = Inr (op_predicates (if op = [] then ''='' else op) v)"
    using ne tok unfolding parse_alternative_def Let_def comma trim_space_graphic [OF g] str_fields_graphic [OF g ne]
    by simp
  have "split_two (CHR ''|'') (CHR ''|'') ?t = [?t]" using all by (blast intro: split_two_single)
  then show ?thesis using ne nw alt unfolding parse_constraint_def Let_def trim_space_graphic [OF g]
    by (simp del: append_assoc)
qed

text \<open>Round trip of exact dependencies: the constraint that spells a three-number version, plainly or after
  \<open>=\<close>, \<open>>=\<close> or \<open><=\<close>, is well formed and the version satisfies it, and it is refused after \<open><\<close> and \<open>>\<close>.\<close>
lemma own_version_matches:
  assumes "nameable raw" "parse_version raw = Inr v"
  shows "ext_matches raw raw \<and> ext_matches raw (''='' @ raw) \<and> ext_matches raw (''>='' @ raw) \<and>
    ext_matches raw (''<='' @ raw) \<and> \<not> ext_matches raw (''<'' @ raw) \<and> \<not> ext_matches raw (''>'' @ raw)"
proof -
  have m: "ext_matches raw (op @ raw) \<longleftrightarrow> constraint_match [op_predicates (if op = [] then ''='' else op) v] v"
    if "op \<in> set own_ops" for op
    unfolding ext_matches_def parse_own_token [OF assms(1) that assms(2)] by (simp add: assms(2))
  have o: "{[], ''='', ''>='', ''<='', ''<'', ''>''} \<subseteq> set own_ops" by (simp add: own_ops_def)
  show ?thesis
    using m [of "[]"] m [of "''=''"] m [of "''>=''"] m [of "''<=''"] m [of "''<''"] m [of "''>''"] o
    by (simp add: constraint_match_def op_predicates_def)
qed

end
