(* ===== verification/ExtResolver.thy ===== *)
theory ExtResolver
  imports ExtSemver Dfs "HOL-Library.AList" "HOL-Library.Multiset"
begin

text \<open>
  The dependency resolver of extensions (\<^verbatim>\<open>extensionresolver/resolver.go\<close>): compatibility of a registry
  version with the environment, the backtracking search \<^verbatim>\<open>solve\<close>, the final conflict check, the
  topological order and the plan.  Go maps are association lists without duplicate keys, read with \<open>map_of\<close>
  and written with \<open>AList.update\<close>; the iteration order of a map is the parameter \<open>order\<close>, the unstable
  \<^verbatim>\<open>sort.Slice\<close> of the candidates the parameter \<open>arrange\<close>.  The repository interface is a record of
  functions.
\<close>

section \<open>Data\<close>

record dependency =
  dp_id :: string
  dp_version :: string
  dp_optional :: bool

record conflict =
  cf_id :: string
  cf_version :: string

record ext_manifest =
  em_api :: string
  em_dependencies :: "dependency list"
  em_conflicts :: "conflict list"

record compatibility =
  cy_min_launcher :: string
  cy_max_launcher :: string
  cy_min_api :: string
  cy_max_api :: string
  cy_os :: "string list"
  cy_arch :: "string list"

record ext_item =
  ei_id :: string
  ei_version :: string
  ei_manifest :: ext_manifest
  ei_compat :: compatibility
  ei_identity :: string
  ei_channels :: "string list"
  ei_yanked :: "time option"

record ext_environment =
  ee_launcher :: string
  ee_api :: string
  ee_os :: string
  ee_arch :: string
  ee_channel :: string

record ext_requirement =
  tk_id :: string
  tk_constraint :: string
  tk_channel :: string
  tk_from :: string
  tk_optional :: bool
  tk_root :: bool

record selection =
  sl_item :: ext_item
  sl_channel :: string
  sl_required_by :: "string set"
  sl_optional :: bool
  sl_root :: bool

type_synonym selected = "(string \<times> selection) list"
type_synonym candidates = "(string \<times> ext_item list) list"

datatype api_error = ApiMissing | ApiUnsupported string | ApiVersion ext_error

datatype solve_error =
    Mismatch string string string string
  | MalformedConstraint string string ext_error
  | PinUnavailable string string string string
  | NoCandidate string string string
  | CandidateConflict string string
  | NoSelection string

datatype resolve_error =
    BadScope
  | ScopeIdMissing
  | BadDefaultChannel
  | RepositoryFailed string
  | NothingToResolve
  | RootIdMissing
  | BadRootChannel string
  | Unsolvable solve_error
  | InstalledManifest string string string
  | ConflictBetween string string string string
  | DependencyCycle "string list" string
  | CycleSearchFuel

section \<open>Channels, scopes and the environment\<close>

definition normalize_scope :: "unicode \<Rightarrow> string \<times> string \<Rightarrow> resolve_error + string \<times> string" where
  "normalize_scope U s =
     (let scope0 = to_lower U (trim_space (fst s)); scope_id = trim_space (snd s);
          scope = (if scope0 = [] then ''global'' else scope0)
      in if scope \<noteq> ''global'' \<and> scope \<noteq> ''project'' then Inl BadScope
         else if scope = ''global'' then Inr (scope, [])
         else if scope_id = [] then Inl ScopeIdMissing
         else Inr (scope, scope_id))"

definition normalize_channel :: "unicode \<Rightarrow> string \<Rightarrow> string" where
  "normalize_channel U ch = (let c = to_lower U (trim_space ch) in if c = [] then ''stable'' else c)"

definition allowed_channel :: "string \<Rightarrow> bool" where
  "allowed_channel ch \<longleftrightarrow> ch = ''stable'' \<or> ch = ''beta'' \<or> ch = ''dev''"

definition channel_rank :: "string \<Rightarrow> string list" where
  "channel_rank ch =
     (if ch = ''dev'' then [''dev'', ''beta'', ''stable'']
      else if ch = ''beta'' then [''beta'', ''stable'']
      else [''stable''])"

definition has_channel :: "ext_item \<Rightarrow> string \<Rightarrow> bool" where
  "has_channel v ch = List.member (ei_channels v) ch"

definition exact_constraint :: "string \<Rightarrow> bool" where
  "exact_constraint raw = is_ok (parse_version (trim_space (trim_prefix (trim_space raw) ''='')))"

definition api_version :: string where "api_version = ''1.0''"

definition new_resolver :: "string \<Rightarrow> string \<Rightarrow> ext_environment \<Rightarrow> ext_environment" where
  "new_resolver goos goarch env =
     env\<lparr>ee_os := (if ee_os env = [] then goos else ee_os env),
         ee_arch := (if ee_arch env = [] then goarch else ee_arch env),
         ee_channel := (if ee_channel env = [] then ''stable'' else ee_channel env),
         ee_api := (if ee_api env = [] then api_version else ee_api env)\<rparr>"

definition canonical_api :: "string \<Rightarrow> api_error + string" where
  "canonical_api raw =
     (if List.member [''1.0'', ''1.0.0'', ''v1'', ''v1.0'', ''v1.0.0''] (trim_space raw) then Inr api_version
      else if List.member [''3.7'', ''3.7.0''] (trim_space raw) then Inr api_version
      else if trim_space raw = [] then Inl ApiMissing
      else Inl (ApiUnsupported raw))"

definition normalize_api :: "string \<Rightarrow> api_error + ext_version" where
  "normalize_api v =
     (case canonical_api v of
        Inl e \<Rightarrow> Inl e
      | Inr c0 \<Rightarrow>
          (let c = (if length (filter (\<lambda>x. x = CHR ''.'') c0) = 1 then c0 @ ''.0'' else c0)
           in case parse_version c of Inl e \<Rightarrow> Inl (ApiVersion e) | Inr x \<Rightarrow> Inr x))"

definition at_least :: "('e + ext_version) \<Rightarrow> ext_version \<Rightarrow> bool" where
  "at_least bound v = (case bound of Inl _ \<Rightarrow> False | Inr x \<Rightarrow> \<not> compare_version v x < 0)"

definition at_most :: "('e + ext_version) \<Rightarrow> ext_version \<Rightarrow> bool" where
  "at_most bound v = (case bound of Inl _ \<Rightarrow> False | Inr x \<Rightarrow> \<not> compare_version v x > 0)"

definition supports :: "unicode \<Rightarrow> string list \<Rightarrow> string \<Rightarrow> bool" where
  "supports U xs v = (xs = [] \<or> list_ex (\<lambda>x. equal_fold U x v) xs)"

definition compatible :: "unicode \<Rightarrow> ext_item \<Rightarrow> ext_environment \<Rightarrow> bool" where
  "compatible U item env =
     (if ei_yanked item \<noteq> None then False
      else
        (case parse_version (ee_launcher env) of
           Inl _ \<Rightarrow> False
         | Inr lv \<Rightarrow>
             (let c = ei_compat item in
              if cy_min_launcher c \<noteq> [] \<and> \<not> at_least (parse_version (cy_min_launcher c)) lv then False
              else if cy_max_launcher c \<noteq> [] \<and> \<not> at_most (parse_version (cy_max_launcher c)) lv then False
              else
                (case normalize_api (ee_api env) of
                   Inl _ \<Rightarrow> False
                 | Inr api \<Rightarrow>
                     if cy_min_api c \<noteq> [] \<and> \<not> at_least (normalize_api (cy_min_api c)) api then False
                     else if cy_max_api c \<noteq> [] \<and> \<not> at_most (normalize_api (cy_max_api c)) api then False
                     else if cy_min_api c = [] \<and> cy_max_api c = [] \<and> trim_space (em_api (ei_manifest item)) \<noteq> [] \<and>
                       (case normalize_api (em_api (ei_manifest item)) of
                          Inl _ \<Rightarrow> True
                        | Inr d \<Rightarrow> ev_major d \<noteq> ev_major api \<or> ev_minor d \<noteq> ev_minor api)
                     then False
                     else supports U (cy_os c) (ee_os env) \<and> supports U (cy_arch c) (ee_arch env)))))"

section \<open>Conflicts\<close>

definition conflict_match :: "ext_manifest \<Rightarrow> string \<Rightarrow> string \<Rightarrow> bool" where
  "conflict_match m other version =
     list_ex (\<lambda>c. cf_id c = other \<and> ext_matches version (cf_version c)) (em_conflicts m)"

definition conflicts_selected :: "ext_item \<Rightarrow> selected \<Rightarrow> bool" where
  "conflicts_selected cand sel =
     list_ex (\<lambda>(i, other). i \<noteq> ei_id cand \<and>
        (conflict_match (ei_manifest cand) i (ei_version (sl_item other)) \<or>
         conflict_match (ei_manifest (sl_item other)) (ei_id cand) (ei_version cand))) sel"

section \<open>Candidates\<close>

definition item_matches :: "predicate list list \<Rightarrow> ext_item \<Rightarrow> bool" where
  "item_matches alts v = (case parse_version (ei_version v) of Inl _ \<Rightarrow> False | Inr x \<Rightarrow> constraint_match alts x)"

definition take_candidate ::
    "predicate list list \<Rightarrow> string \<Rightarrow> ext_item \<Rightarrow> string set \<times> ext_item list \<Rightarrow> string set \<times> ext_item list" where
  "take_candidate alts channel v s =
     (case s of (seen, out) \<Rightarrow>
        if \<not> item_matches alts v \<or> \<not> has_channel v channel then (seen, out)
        else if ei_version v \<in> seen then (seen, out)
        else (insert (ei_version v) seen, out @ [v]))"

definition channel_candidates :: "predicate list list \<Rightarrow> ext_item list \<Rightarrow> string list \<Rightarrow> ext_item list" where
  "channel_candidates alts cands channels =
     snd (fold (\<lambda>channel. fold (take_candidate alts channel) cands) channels ({}, []))"

definition pin_of :: "(string \<times> string) list \<Rightarrow> string \<Rightarrow> string" where
  "pin_of pins i = (case map_of pins i of None \<Rightarrow> [] | Some p \<Rightarrow> p)"

definition candidates_of :: "candidates \<Rightarrow> string \<Rightarrow> ext_item list" where
  "candidates_of by_id i = (case map_of by_id i of None \<Rightarrow> [] | Some vs \<Rightarrow> vs)"

definition filter_candidates ::
    "candidates \<Rightarrow> (string \<times> string) list \<Rightarrow> ext_requirement \<Rightarrow> predicate list list \<Rightarrow> ext_item list" where
  "filter_candidates by_id pins req alts =
     (let cands = candidates_of by_id (tk_id req); pin = pin_of pins (tk_id req)
      in if pin \<noteq> [] \<or> exact_constraint (tk_constraint req)
         then filter (\<lambda>v. item_matches alts v \<and> \<not> (pin \<noteq> [] \<and> ei_version v \<noteq> pin)) cands
         else channel_candidates alts cands (channel_rank (tk_channel req)))"

section \<open>The search\<close>

fun first_ok :: "('a \<Rightarrow> 'e + 'b) \<Rightarrow> 'a list \<Rightarrow> 'e option \<Rightarrow> 'e option + 'b" where
  \<comment> \<open>the first attempt that succeeds, or the error of the last one\<close>
  "first_ok f [] err = Inl err"
| "first_ok f (x # xs) err = (case f x of Inr r \<Rightarrow> Inr r | Inl e \<Rightarrow> first_ok f xs (Some e))"

lemma first_ok_cong [fundef_cong]:
  "xs = ys \<Longrightarrow> (\<And>x. x \<in> set ys \<Longrightarrow> f x = g x) \<Longrightarrow> l = l' \<Longrightarrow> first_ok f xs l = first_ok g ys l'"
  by (induction xs arbitrary: ys l l') (auto split: sum.split)

definition require_again :: "ext_requirement \<Rightarrow> selection \<Rightarrow> selection" where
  "require_again req x =
     x\<lparr>sl_required_by := (if tk_from req \<noteq> ''root'' then insert (tk_from req) (sl_required_by x) else sl_required_by x),
       sl_root := sl_root x \<or> tk_root req, sl_optional := sl_optional x \<and> tk_optional req\<rparr>"

definition new_selection :: "ext_requirement \<Rightarrow> ext_item \<Rightarrow> selection" where
  "new_selection req cand =
     \<lparr>sl_item = cand, sl_channel = tk_channel req,
      sl_required_by = (if tk_from req \<noteq> ''root'' then {tk_from req} else {}),
      sl_optional = tk_optional req, sl_root = tk_root req\<rparr>"

definition dependency_tasks :: "ext_requirement \<Rightarrow> ext_item \<Rightarrow> ext_requirement list" where
  "dependency_tasks req cand =
     map (\<lambda>d. \<lparr>tk_id = dp_id d, tk_constraint = dp_version d, tk_channel = tk_channel req, tk_from = tk_id req,
              tk_optional = dp_optional d, tk_root = False\<rparr>)
       (filter (\<lambda>d. \<not> dp_optional d) (em_dependencies (ei_manifest cand)) @
        filter dp_optional (em_dependencies (ei_manifest cand)))"

lemma filter_candidates_subset: "set (filter_candidates by_id pins req alts) \<subseteq> set (candidates_of by_id (tk_id req))"
proof -
  have inner: "set (snd (fold (take_candidate alts ch) cands s)) \<subseteq> set (snd s) \<union> set cands" for ch cands s
    by (induction cands arbitrary: s) (fastforce simp: take_candidate_def split: prod.splits if_splits)+
  have "set (snd (fold (\<lambda>channel. fold (take_candidate alts channel) cands) chs s)) \<subseteq> set (snd s) \<union> set cands"
    for cands chs s
  proof (induction chs arbitrary: s)
    case (Cons ch chs)
    show ?case using Cons [of "fold (take_candidate alts ch) cands s"] inner [of ch cands s] by auto
  qed simp
  from this [of "candidates_of by_id (tk_id req)" "channel_rank (tk_channel req)" "({}, [])"] show ?thesis
    by (auto simp: filter_candidates_def Let_def channel_candidates_def)
qed

lemma candidate_listed:
  assumes "cand \<in> set (filter_candidates by_id pins req alts)"
  shows "tk_id req \<in> fst ` set by_id"
proof -
  have "cand \<in> set (candidates_of by_id (tk_id req))" using assms filter_candidates_subset by blast
  then have "map_of by_id (tk_id req) \<noteq> None" by (cases "map_of by_id (tk_id req)") (auto simp: candidates_of_def)
  then show ?thesis by (simp add: map_of_eq_None_iff)
qed

definition open_ids :: "candidates \<Rightarrow> selected \<Rightarrow> nat" where
  "open_ids by_id sel = card (fst ` set by_id - fst ` set sel)"

lemma open_ids_decreases:
  "i \<in> fst ` set by_id \<Longrightarrow> map_of sel i = None \<Longrightarrow> open_ids by_id (AList.update i x sel) < open_ids by_id sel"
  unfolding open_ids_def by (rule psubset_card_mono) (auto simp: dom_update map_of_eq_None_iff)

lemma open_ids_same:
  "map_of sel i = Some y \<Longrightarrow> open_ids by_id (AList.update i x sel) = open_ids by_id sel"
proof -
  assume "map_of sel i = Some y"
  then have "i \<in> fst ` set sel" by (metis map_of_eq_None_iff option.distinct(1))
  then show ?thesis by (simp add: open_ids_def dom_update insert_absorb)
qed

function solve ::
    "candidates \<Rightarrow> (string \<times> string) list \<Rightarrow> ext_requirement list \<Rightarrow> selected \<Rightarrow> solve_error + selected" where
  "solve by_id pins [] sel = Inr sel"
| "solve by_id pins (req # rest) sel =
     (case map_of sel (tk_id req) of
        Some x \<Rightarrow>
          if \<not> ext_matches (ei_version (sl_item x)) (tk_constraint req) then
            (if tk_optional req then solve by_id pins rest sel
             else Inl (Mismatch (tk_id req) (ei_version (sl_item x)) (tk_constraint req) (tk_from req)))
          else solve by_id pins rest (AList.update (tk_id req) (require_again req x) sel)
      | None \<Rightarrow>
          (case parse_constraint (tk_constraint req) of
             Inl e \<Rightarrow> Inl (MalformedConstraint (tk_id req) (tk_constraint req) e)
           | Inr alts \<Rightarrow>
               if filter_candidates by_id pins req alts = [] then
                 (if tk_optional req then solve by_id pins rest sel
                  else if pin_of pins (tk_id req) \<noteq> [] then
                    Inl (PinUnavailable (tk_id req) (pin_of pins (tk_id req)) (tk_constraint req) (tk_channel req))
                  else Inl (NoCandidate (tk_id req) (tk_constraint req) (tk_channel req)))
               else
                 (case first_ok (\<lambda>cand.
                          if conflicts_selected cand sel then Inl (CandidateConflict (ei_id cand) (ei_version cand))
                          else solve by_id pins (dependency_tasks req cand @ rest)
                                 (AList.update (tk_id req) (new_selection req cand) sel))
                        (filter_candidates by_id pins req alts) None of
                    Inr got \<Rightarrow> Inr got
                  | Inl err \<Rightarrow>
                      if tk_optional req then solve by_id pins rest sel
                      else Inl (case err of Some e \<Rightarrow> e | None \<Rightarrow> NoSelection (tk_id req)))))"
  by pat_completeness auto
termination
  by (relation "measures [\<lambda>(by_id, _, _, sel). open_ids by_id sel, \<lambda>(_, _, tasks, _). length tasks]")
    (auto simp: open_ids_same intro: open_ids_decreases candidate_listed)

declare solve.simps(2) [simp del]

section \<open>The final checks and the plan\<close>

definition check_pair :: "string \<times> ext_manifest \<times> string \<Rightarrow> string \<times> ext_manifest \<times> string \<Rightarrow> resolve_error + unit" where
  "check_pair p q =
     (case (p, q) of ((a, ma, va), (b, mb, vb)) \<Rightarrow>
        check (\<not> (conflict_match ma b vb \<or> conflict_match mb a va)) (ConflictBetween a va b vb))"

fun check_pairs :: "(string \<times> ext_manifest \<times> string) list \<Rightarrow> resolve_error + unit" where
  "check_pairs [] = Inr ()"
| "check_pairs (p # rest) =
     (case for_each (\<lambda>q _. check_pair p q) rest () of
        Inl e \<Rightarrow> Inl e
      | Inr _ \<Rightarrow> check_pairs rest)"

definition load_installed ::
    "(string \<Rightarrow> string \<Rightarrow> string + ext_manifest) \<Rightarrow> selected \<Rightarrow> string \<times> string \<Rightarrow>
     (string \<times> ext_manifest \<times> string) list \<Rightarrow> resolve_error + (string \<times> ext_manifest \<times> string) list" where
  "load_installed get_version sel ins finals =
     (case ins of (i, current) \<Rightarrow>
        if map_of sel i \<noteq> None then Inr finals
        else (case get_version i current of
                Inl why \<Rightarrow> Inl (InstalledManifest i current why)
              | Inr m \<Rightarrow> Inr (AList.update i (m, current) finals)))"

definition validate_final_conflicts ::
    "(string \<Rightarrow> string \<Rightarrow> string + ext_manifest) \<Rightarrow> ((string \<times> string) list \<Rightarrow> (string \<times> string) list) \<Rightarrow>
     selected \<Rightarrow> (string \<times> string) list \<Rightarrow> resolve_error + unit" where
  "validate_final_conflicts get_version order sel installed =
     (case for_each (load_installed get_version sel) (order installed)
            (map (\<lambda>(i, s). (i, ei_manifest (sl_item s), ei_version (sl_item s))) sel) of
        Inl e \<Rightarrow> Inl e
      | Inr finals \<Rightarrow> check_pairs (sort_key fst finals))"

definition selected_dependencies :: "selected \<Rightarrow> string \<Rightarrow> string list" where
  "selected_dependencies sel i =
     (case map_of sel i of
        None \<Rightarrow> []
      | Some x \<Rightarrow> filter (\<lambda>d. map_of sel d \<noteq> None) (sort (map dp_id (em_dependencies (ei_manifest (sl_item x))))))"

definition topological_order :: "selected \<Rightarrow> resolve_error + string list" where
  "topological_order sel =
     (case dfs_all (selected_dependencies sel) (length sel + 2) (sort (map fst sel)) of
        Inl (Cycle st i) \<Rightarrow> Inl (DependencyCycle st i)
      | Inl Diverges \<Rightarrow> Inl CycleSearchFuel
      | Inr t \<Rightarrow> Inr (df_out t))"

record update_root =
  ur_id :: string
  ur_version :: string
  ur_channel :: string

record ext_install =
  in_id :: string
  in_version :: string
  in_state :: string

record plan_item =
  pi_id :: string
  pi_from :: string
  pi_to :: string
  pi_identity :: string
  pi_operation :: string
  pi_channel :: string
  pi_required_by :: "string list"
  pi_optional :: bool
  pi_pinned :: bool

record update_plan =
  up_scope :: string
  up_scope_id :: string
  up_environment :: ext_environment
  up_items :: "plan_item list"
  up_resolved :: time

record registry_reader = \<comment> \<open>the calls of the repository that the resolver makes\<close>
  rr_installs :: "string \<Rightarrow> string \<Rightarrow> string + ext_install list"
  rr_pins :: "string \<Rightarrow> string \<Rightarrow> string + (string \<times> string) list"
  rr_search :: "string + ext_item list"
  rr_manifest :: "string \<Rightarrow> string \<Rightarrow> string + ext_manifest"

definition installed_versions :: "ext_install list \<Rightarrow> (string \<times> string) list" where
  "installed_versions installs =
     fold (\<lambda>x m. if in_state x \<noteq> ''absent'' then AList.update (in_id x) (in_version x) m else m) installs []"

definition root_task :: "unicode \<Rightarrow> update_root \<Rightarrow> ext_requirement list \<Rightarrow> resolve_error + ext_requirement list" where
  "root_task U root tasks =
     (let i = to_lower U (trim_space (ur_id root)); ch = normalize_channel U (ur_channel root)
      in if i = [] then Inl RootIdMissing
         else if \<not> allowed_channel ch then Inl (BadRootChannel ch)
         else
           (let c = (if trim_space (ur_version root) \<noteq> [] then CHR ''='' # trim_space (ur_version root) else ''*'')
            in Inr (tasks @ [\<lparr>tk_id = i, tk_constraint = c, tk_channel = ch, tk_from = ''root'',
                              tk_optional = False, tk_root = True\<rparr>])))"

definition group_items :: "ext_item list \<Rightarrow> candidates" where
  "group_items vs = fold (\<lambda>v m. AList.update (ei_id v) (candidates_of m (ei_id v) @ [v]) m) vs []"

definition plan_entry ::
    "(string \<times> string) list \<Rightarrow> (string \<times> string) list \<Rightarrow> selected \<Rightarrow> string \<Rightarrow> plan_item" where
  "plan_entry installed pins sel i =
     (let s = the (map_of sel i);
          v = ei_version (sl_item s);
          from = (case map_of installed i of None \<Rightarrow> [] | Some x \<Rightarrow> x);
          oper = (case map_of installed i of
                    None \<Rightarrow> ''install''
                  | Some x \<Rightarrow> if x = v then ''unchanged'' else ''update'')
      in \<lparr>pi_id = i, pi_from = from, pi_to = v, pi_identity = ei_identity (sl_item s), pi_operation = oper,
          pi_channel = sl_channel s, pi_required_by = sorted_list_of_set (sl_required_by s),
          pi_optional = sl_optional s, pi_pinned = (map_of pins i \<noteq> None)\<rparr>)"

definition build_plan ::
    "unicode \<Rightarrow> ((string \<times> string) list \<Rightarrow> (string \<times> string) list) \<Rightarrow> registry_reader \<Rightarrow> ext_environment \<Rightarrow> time \<Rightarrow>
     string \<times> string \<Rightarrow> (string \<times> string) list \<Rightarrow> (string \<times> string) list \<Rightarrow> candidates \<Rightarrow> ext_requirement list \<Rightarrow>
     resolve_error + update_plan" where
  "build_plan U order repo env now scope installed pins by_id tasks =
     (case solve by_id pins tasks [] of
        Inl e \<Rightarrow> Inl (Unsolvable e)
      | Inr sel \<Rightarrow>
          (case validate_final_conflicts (rr_manifest repo) order sel installed of
             Inl e \<Rightarrow> Inl e
           | Inr _ \<Rightarrow>
               (case topological_order sel of
                  Inl e \<Rightarrow> Inl e
                | Inr ids \<Rightarrow>
                    Inr \<lparr>up_scope = fst scope, up_scope_id = snd scope,
                         up_environment = env\<lparr>ee_channel := normalize_channel U (ee_channel env)\<rparr>,
                         up_items = map (plan_entry installed pins sel) ids, up_resolved = now\<rparr>)))"

definition registry_candidates ::
    "unicode \<Rightarrow> (ext_item list \<Rightarrow> ext_item list) \<Rightarrow> ext_environment \<Rightarrow> ext_item list \<Rightarrow> candidates" where
  "registry_candidates U arrange env all =
     map (\<lambda>(i, vs). (i, arrange vs)) (group_items (filter (\<lambda>v. compatible U v env) all))"

definition pin_map :: "(string \<times> string) list \<Rightarrow> (string \<times> string) list" where
  "pin_map pins = fold (\<lambda>(i, v). AList.update i v) pins []"

definition default_roots :: "ext_environment \<Rightarrow> ext_install list \<Rightarrow> update_root list" where
  "default_roots env installs =
     map (\<lambda>x. \<lparr>ur_id = in_id x, ur_version = [], ur_channel = ee_channel env\<rparr>)
       (filter (\<lambda>x. in_state x \<noteq> ''absent'') installs)"

definition plan_roots ::
    "unicode \<Rightarrow> (ext_item list \<Rightarrow> ext_item list) \<Rightarrow> ((string \<times> string) list \<Rightarrow> (string \<times> string) list) \<Rightarrow>
     registry_reader \<Rightarrow> ext_environment \<Rightarrow> time \<Rightarrow> string \<times> string \<Rightarrow> ext_install list \<Rightarrow> update_root list \<Rightarrow>
     resolve_error + update_plan" where
  "plan_roots U arrange order repo env now scope installs roots =
     (case rr_pins repo (fst scope) (snd scope) of
        Inl why \<Rightarrow> Inl (RepositoryFailed why)
      | Inr pins \<Rightarrow>
          (case for_each (root_task U) roots [] of
             Inl e \<Rightarrow> Inl e
           | Inr tasks \<Rightarrow>
               (case rr_search repo of
                  Inl why \<Rightarrow> Inl (RepositoryFailed why)
                | Inr all \<Rightarrow>
                    build_plan U order repo env now scope (installed_versions installs) (pin_map pins)
                      (registry_candidates U arrange env all) tasks)))"

definition resolve_plan ::
    "unicode \<Rightarrow> (ext_item list \<Rightarrow> ext_item list) \<Rightarrow> ((string \<times> string) list \<Rightarrow> (string \<times> string) list) \<Rightarrow>
     registry_reader \<Rightarrow> ext_environment \<Rightarrow> time \<Rightarrow> string \<times> string \<Rightarrow> update_root list \<Rightarrow> resolve_error + update_plan" where
  "resolve_plan U arrange order repo env now scope0 roots0 =
     (case normalize_scope U scope0 of
        Inl e \<Rightarrow> Inl e
      | Inr scope \<Rightarrow>
          if \<not> allowed_channel (normalize_channel U (ee_channel env)) then Inl BadDefaultChannel
          else
            (case rr_installs repo (fst scope) (snd scope) of
               Inl why \<Rightarrow> Inl (RepositoryFailed why)
             | Inr installs \<Rightarrow>
                 (let roots = (if roots0 = [] then default_roots env installs else roots0)
                  in if roots = [] then Inl NothingToResolve
                     else plan_roots U arrange order repo env now scope installs roots)))"

section \<open>The search is sound\<close>

lemma first_ok_Inr: "first_ok f xs e = Inr r \<Longrightarrow> \<exists>x \<in> set xs. f x = Inr r"
  by (induction xs arbitrary: e) (auto split: sum.splits)

lemma first_ok_Inl: "first_ok f xs e = Inl l \<Longrightarrow> x \<in> set xs \<Longrightarrow> \<exists>d. f x = Inl d"
  by (induction xs arbitrary: e) (auto split: sum.splits)

lemma channel_candidates_matches: "v \<in> set (channel_candidates alts cands chs) \<Longrightarrow> item_matches alts v"
proof -
  have inner: "\<forall>v \<in> set (snd (fold (take_candidate alts ch) cands s)). item_matches alts v"
    if "\<forall>v \<in> set (snd s). item_matches alts v" for ch cands s
    using that
  proof (induction cands arbitrary: s)
    case (Cons v cands)
    have "\<forall>v \<in> set (snd (take_candidate alts ch v s)). item_matches alts v"
      using Cons.prems by (cases s) (auto simp: take_candidate_def)
    then show ?case using Cons.IH by simp
  qed simp
  have "\<forall>v \<in> set (snd (fold (\<lambda>channel. fold (take_candidate alts channel) cands) chs s)). item_matches alts v"
    if "\<forall>v \<in> set (snd s). item_matches alts v" for s
    using that
  proof (induction chs arbitrary: s)
    case (Cons ch chs)
    show ?case using Cons.IH [OF inner [OF Cons.prems]] by simp
  qed simp
  from this [of "({}, [])"] show "v \<in> set (channel_candidates alts cands chs) \<Longrightarrow> item_matches alts v"
    by (simp add: channel_candidates_def)
qed

lemma filter_candidates_matches:
  assumes "v \<in> set (filter_candidates by_id pins req alts)" "parse_constraint (tk_constraint req) = Inr alts"
  shows "ext_matches (ei_version v) (tk_constraint req)"
proof -
  have "item_matches alts v"
    using assms(1) channel_candidates_matches by (auto simp: filter_candidates_def Let_def split: if_splits)
  then show ?thesis using assms(2) by (auto simp: item_matches_def ext_matches_def split: sum.splits)
qed

lemma filter_candidates_pin:
  "v \<in> set (filter_candidates by_id pins req alts) \<Longrightarrow> pin_of pins (tk_id req) \<noteq> [] \<Longrightarrow>
     ei_version v = pin_of pins (tk_id req)"
  by (simp add: filter_candidates_def Let_def)

definition clash :: "ext_item \<Rightarrow> ext_item \<Rightarrow> bool" where
  "clash a b \<longleftrightarrow> conflict_match (ei_manifest a) (ei_id b) (ei_version b) \<or>
     conflict_match (ei_manifest b) (ei_id a) (ei_version a)"

definition supplies :: "selected \<Rightarrow> string \<Rightarrow> string \<Rightarrow> bool" where
  "supplies sel i c \<longleftrightarrow> (\<exists>x. map_of sel i = Some x \<and> ext_matches (ei_version (sl_item x)) c)"

definition keyed :: "candidates \<Rightarrow> bool" where
  "keyed by_id \<longleftrightarrow> (\<forall>i. \<forall>v \<in> set (candidates_of by_id i). ei_id v = i)"

definition solve_inv :: "candidates \<Rightarrow> (string \<times> string) list \<Rightarrow> selected \<Rightarrow> bool" where
  "solve_inv by_id pins sel \<longleftrightarrow>
     distinct (map fst sel) \<and>
     (\<forall>i x. map_of sel i = Some x \<longrightarrow> sl_item x \<in> set (candidates_of by_id i) \<and>
        (pin_of pins i = [] \<or> ei_version (sl_item x) = pin_of pins i)) \<and>
     (\<forall>i j x y. map_of sel i = Some x \<longrightarrow> map_of sel j = Some y \<longrightarrow> i \<noteq> j \<longrightarrow> \<not> clash (sl_item x) (sl_item y))"

definition unmet :: "selected \<Rightarrow> ext_requirement list \<Rightarrow> bool" where
  "unmet sel tasks \<longleftrightarrow>
     (\<forall>i x. map_of sel i = Some x \<longrightarrow> (\<forall>d \<in> set (em_dependencies (ei_manifest (sl_item x))).
        dp_optional d \<or> supplies sel (dp_id d) (dp_version d) \<or>
        (\<exists>t \<in> set tasks. tk_id t = dp_id d \<and> tk_constraint t = dp_version d \<and> \<not> tk_optional t)))"

definition keeps :: "selected \<Rightarrow> selected \<Rightarrow> bool" where
  "keeps sel sel' \<longleftrightarrow>
     (\<forall>i x. map_of sel i = Some x \<longrightarrow> (\<exists>y. map_of sel' i = Some y \<and> sl_item y = sl_item x))"

lemma keeps_refl: "keeps s s" and keeps_trans: "keeps s t \<Longrightarrow> keeps t u \<Longrightarrow> keeps s u"
  by (auto simp: keeps_def) (metis (no_types))

lemma supplies_keeps: "keeps s t \<Longrightarrow> supplies s i c \<Longrightarrow> supplies t i c"
  by (fastforce simp: keeps_def supplies_def)

lemma unmet_keeps_item:
  assumes "unmet sel tasks" "map_of sel i = Some x" "sl_item y = sl_item x"
  shows "unmet (AList.update i y sel) tasks"
  using assms by (force simp: unmet_def supplies_def update_conv' split: if_splits)

lemma keeps_again: "map_of sel i = Some x \<Longrightarrow> keeps sel (AList.update i (require_again req x) sel)"
  by (simp add: keeps_def update_conv' require_again_def)

lemma keeps_new: "map_of sel i = None \<Longrightarrow> keeps sel (AList.update i y sel)"
  by (auto simp: keeps_def update_conv')

lemma solve_inv_again:
  assumes "solve_inv by_id pins sel" "map_of sel i = Some x"
  shows "solve_inv by_id pins (AList.update i (require_again req x) sel)"
proof -
  have s: "sl_item (require_again req x) = sl_item x" by (simp add: require_again_def)
  show ?thesis
    using assms unfolding solve_inv_def
    by (simp add: update_conv' s distinct_update del: not_Some_eq)
qed

lemma not_conflicting:
  assumes "\<not> conflicts_selected cand sel" "map_of sel i = Some x" "i \<noteq> ei_id cand" "ei_id (sl_item x) = i"
  shows "\<not> clash cand (sl_item x) \<and> \<not> clash (sl_item x) cand"
  using assms map_of_SomeD [OF assms(2)]
  by (fastforce simp: conflicts_selected_def list_ex_iff clash_def)

lemma solve_inv_new:
  assumes "solve_inv by_id pins sel" "map_of sel (tk_id req) = None" "keyed by_id"
    and "cand \<in> set (filter_candidates by_id pins req alts)" "\<not> conflicts_selected cand sel"
  shows "solve_inv by_id pins (AList.update (tk_id req) (new_selection req cand) sel)"
proof -
  have s: "sl_item (new_selection req cand) = cand" by (simp add: new_selection_def)
  have c: "cand \<in> set (candidates_of by_id (tk_id req))" using assms(4) filter_candidates_subset by blast
  have i: "ei_id cand = tk_id req" using c assms(3) by (simp add: keyed_def)
  have p: "pin_of pins (tk_id req) = [] \<or> ei_version cand = pin_of pins (tk_id req)"
    using filter_candidates_pin [OF assms(4)] by blast
  have n: "\<not> clash cand (sl_item x) \<and> \<not> clash (sl_item x) cand" if "map_of sel j = Some x" "j \<noteq> tk_id req" for j x
  proof (rule not_conflicting [OF assms(5) that(1)])
    show "ei_id (sl_item x) = j" using assms(1,3) that(1) by (auto simp: solve_inv_def keyed_def)
  qed (simp add: i that(2))
  show ?thesis
    using assms(1) c p n unfolding solve_inv_def by (simp add: update_conv' s distinct_update del: not_Some_eq)
qed

lemma dependency_task:
  assumes "d \<in> set (em_dependencies (ei_manifest cand))"
  shows "\<exists>t \<in> set (dependency_tasks req cand). tk_id t = dp_id d \<and> tk_constraint t = dp_version d \<and>
    tk_optional t = dp_optional d"
  using assms unfolding dependency_tasks_def by (cases "dp_optional d") force+

lemma unmet_new:
  assumes "unmet sel (req # rest)" "map_of sel (tk_id req) = None" "ext_matches (ei_version cand) (tk_constraint req)"
  shows "unmet (AList.update (tk_id req) (new_selection req cand) sel) (dependency_tasks req cand @ rest)"
  unfolding unmet_def
proof (intro allI impI ballI)
  fix i x d
  let ?s = "AList.update (tk_id req) (new_selection req cand) sel"
  assume x: "map_of ?s i = Some x" and d: "d \<in> set (em_dependencies (ei_manifest (sl_item x)))"
  have k: "keeps sel ?s" by (rule keeps_new [OF assms(2)])
  show "dp_optional d \<or> supplies ?s (dp_id d) (dp_version d) \<or>
    (\<exists>t \<in> set (dependency_tasks req cand @ rest). tk_id t = dp_id d \<and> tk_constraint t = dp_version d \<and> \<not> tk_optional t)"
  proof (cases "i = tk_id req")
    case True
    then have "sl_item x = cand" using x by (auto simp: update_conv' new_selection_def)
    then show ?thesis using d dependency_task [of d cand req] by auto
  next
    case False
    then have old: "map_of sel i = Some x" using x by (simp add: update_conv')
    have "supplies ?s (tk_id req) (tk_constraint req)"
      using assms(3) by (simp add: supplies_def update_conv' new_selection_def)
    then show ?thesis
      using assms(1) old d supplies_keeps [OF k] unfolding unmet_def by fastforce
  qed
qed

lemma unmet_drop:
  assumes "unmet sel (req # rest)" "tk_optional req \<or> supplies sel (tk_id req) (tk_constraint req)"
  shows "unmet sel rest"
  using assms unfolding unmet_def by fastforce

lemma solve_result:
  assumes "keyed by_id" "solve by_id pins tasks sel = Inr out" "solve_inv by_id pins sel" "unmet sel tasks"
  shows "solve_inv by_id pins out \<and> keeps sel out \<and> unmet out [] \<and>
    (\<forall>t \<in> set tasks. tk_optional t \<or> supplies out (tk_id t) (tk_constraint t))"
  using assms
proof (induction by_id pins tasks sel rule: solve.induct)
  case (1 by_id pins sel)
  then show ?case by (simp add: keeps_refl)
next
  case (2 by_id pins req rest sel)
  note run = "2.prems"(2) [unfolded solve.simps(2)]
  have skip: ?case if "solve by_id pins rest sel = Inr out" "tk_optional req"
    "solve by_id pins rest sel = Inr out \<Longrightarrow> solve_inv by_id pins sel \<Longrightarrow> unmet sel rest \<Longrightarrow>
      solve_inv by_id pins out \<and> keeps sel out \<and> unmet out [] \<and>
      (\<forall>t \<in> set rest. tk_optional t \<or> supplies out (tk_id t) (tk_constraint t))"
  proof -
    have "unmet sel rest" using unmet_drop [OF "2.prems"(4)] that(2) by blast
    then show ?thesis using that(1,2) that(3) "2.prems"(3) by simp
  qed
  show ?case
  proof (cases "map_of sel (tk_id req)")
    case (Some x)
    show ?thesis
    proof (cases "ext_matches (ei_version (sl_item x)) (tk_constraint req)")
      case True
      let ?s = "AList.update (tk_id req) (require_again req x) sel"
      have k: "keeps sel ?s" by (rule keeps_again [OF Some])
      have sup: "supplies sel (tk_id req) (tk_constraint req)" using Some True by (simp add: supplies_def)
      have r: "solve by_id pins rest ?s = Inr out" using run Some True by simp
      have "unmet ?s rest"
        using unmet_keeps_item [OF unmet_drop [OF "2.prems"(4)] Some] sup by (simp add: require_again_def)
      then have "solve_inv by_id pins out \<and> keeps ?s out \<and> unmet out [] \<and>
          (\<forall>t \<in> set rest. tk_optional t \<or> supplies out (tk_id t) (tk_constraint t))"
        using "2.IH"(5) [OF Some _ "2.prems"(1) r solve_inv_again [OF "2.prems"(3) Some]] True by blast
      then show ?thesis using k sup keeps_trans supplies_keeps by (metis set_ConsD)
    next
      case False
      then have "tk_optional req" "solve by_id pins rest sel = Inr out"
        using run Some by (simp_all split: if_split_asm)
      then show ?thesis using skip "2.IH"(4) [OF Some False _ "2.prems"(1)] by blast
    qed
  next
    case None
    then obtain alts where alts: "parse_constraint (tk_constraint req) = Inr alts"
      using run by (auto split: sum.split_asm)
    show ?thesis
    proof (cases "filter_candidates by_id pins req alts = []")
      case True
      then have "tk_optional req" "solve by_id pins rest sel = Inr out"
        using run None alts by (simp_all split: if_split_asm)
      then show ?thesis using skip "2.IH"(1) [OF None alts True _ "2.prems"(1)] by blast
    next
      case False
      define attempt where "attempt = (\<lambda>cand. if conflicts_selected cand sel
        then Inl (CandidateConflict (ei_id cand) (ei_version cand))
        else solve by_id pins (dependency_tasks req cand @ rest) (AList.update (tk_id req) (new_selection req cand) sel))"
      show ?thesis
      proof (cases "first_ok attempt (filter_candidates by_id pins req alts) None")
        case (Inl err)
        then have "tk_optional req" "solve by_id pins rest sel = Inr out"
          using run None alts False by (simp_all add: attempt_def split: if_split_asm)
        then show ?thesis using skip "2.IH"(3) [OF None alts False Inl [unfolded attempt_def] _ "2.prems"(1)] by blast
      next
        case (Inr got)
        then have "got = out" using run None alts False by (simp add: attempt_def)
        then obtain cand where cand: "cand \<in> set (filter_candidates by_id pins req alts)" "attempt cand = Inr out"
          using first_ok_Inr [OF Inr] by blast
        then have nc: "\<not> conflicts_selected cand sel" by (auto simp: attempt_def)
        let ?s = "AList.update (tk_id req) (new_selection req cand) sel"
        have m: "ext_matches (ei_version cand) (tk_constraint req)" using filter_candidates_matches [OF cand(1) alts] .
        have "solve by_id pins (dependency_tasks req cand @ rest) ?s = Inr out" using cand(2) nc by (simp add: attempt_def)
        then have fin: "solve_inv by_id pins out \<and> keeps ?s out \<and> unmet out [] \<and>
            (\<forall>t \<in> set (dependency_tasks req cand @ rest). tk_optional t \<or> supplies out (tk_id t) (tk_constraint t))"
          using "2.IH"(2) [OF None alts False cand(1) nc "2.prems"(1)]
            solve_inv_new [OF "2.prems"(3) None "2.prems"(1) cand(1) nc] unmet_new [OF "2.prems"(4) None m] by blast
        have "supplies ?s (tk_id req) (tk_constraint req)"
          using m by (simp add: supplies_def update_conv' new_selection_def)
        then show ?thesis using fin keeps_trans [OF keeps_new [OF None]] supplies_keeps by (metis UnI2 set_ConsD set_append)
      qed
    qed
  qed
qed

section \<open>The search is complete\<close>

lemma take_candidate_fold:
  assumes "fst s = ei_version ` set (snd s)" "set (snd s) \<subseteq> set all" "set cands \<subseteq> set all"
    and "s' = fold (take_candidate alts ch) cands s"
  shows "fst s' = ei_version ` set (snd s') \<and> set (snd s') \<subseteq> set all \<and> set (snd s) \<subseteq> set (snd s') \<and>
    (\<forall>v \<in> set cands. item_matches alts v \<and> has_channel v ch \<longrightarrow> ei_version v \<in> fst s')"
  using assms
proof (induction cands arbitrary: s)
  case Nil
  then show ?case by simp
next
  case (Cons w cands)
  define t where "t = take_candidate alts ch w s"
  have t: "fst t = ei_version ` set (snd t)" "set (snd t) \<subseteq> set all" "set (snd s) \<subseteq> set (snd t)"
    "item_matches alts w \<and> has_channel w ch \<longrightarrow> ei_version w \<in> fst t"
    using Cons.prems(1-3) by (cases s; auto simp: t_def take_candidate_def)+
  have "s' = fold (take_candidate alts ch) cands t" using Cons.prems(4) by (simp add: t_def)
  then have IH: "fst s' = ei_version ` set (snd s') \<and> set (snd s') \<subseteq> set all \<and> set (snd t) \<subseteq> set (snd s') \<and>
    (\<forall>v \<in> set cands. item_matches alts v \<and> has_channel v ch \<longrightarrow> ei_version v \<in> fst s')"
    using Cons.IH [OF t(1,2)] Cons.prems(3) by (metis insert_subset list.simps(15))
  moreover have "fst t \<subseteq> fst s'" using IH t(1) by auto
  ultimately show ?case using t(3,4) by (auto dest: subsetD)
qed

lemma channel_candidates_all:
  assumes "v \<in> set cands" "item_matches alts v" "list_ex (has_channel v) chs" "distinct (map ei_version cands)"
  shows "v \<in> set (channel_candidates alts cands chs)"
proof -
  have *: "fst s' = ei_version ` set (snd s') \<and> set (snd s') \<subseteq> set cands \<and> fst s \<subseteq> fst s' \<and>
      (list_ex (has_channel v) cs \<longrightarrow> ei_version v \<in> fst s')"
    if "fst s = ei_version ` set (snd s)" "set (snd s) \<subseteq> set cands"
      "s' = fold (\<lambda>channel. fold (take_candidate alts channel) cands) cs s" for s s' cs
    using that
  proof (induction cs arbitrary: s)
    case Nil
    then show ?case by simp
  next
    case (Cons c cs)
    define t where "t = fold (take_candidate alts c) cands s"
    have t: "fst t = ei_version ` set (snd t) \<and> set (snd t) \<subseteq> set cands \<and> set (snd s) \<subseteq> set (snd t) \<and>
      (\<forall>v \<in> set cands. item_matches alts v \<and> has_channel v c \<longrightarrow> ei_version v \<in> fst t)"
      by (rule take_candidate_fold [OF Cons.prems(1,2) subset_refl t_def])
    have st: "fst s \<subseteq> fst t" unfolding Cons.prems(1) conjunct1 [OF t] using t by blast
    have "s' = fold (\<lambda>channel. fold (take_candidate alts channel) cands) cs t"
      using Cons.prems(3) by (simp add: t_def)
    then have IH: "fst s' = ei_version ` set (snd s') \<and> set (snd s') \<subseteq> set cands \<and> fst t \<subseteq> fst s' \<and>
      (list_ex (has_channel v) cs \<longrightarrow> ei_version v \<in> fst s')"
      using Cons.IH [of t] t by blast
    have "has_channel v c \<longrightarrow> ei_version v \<in> fst t" using t assms(1,2) by blast
    then have "list_ex (has_channel v) (c # cs) \<longrightarrow> ei_version v \<in> fst s'"
      using IH by (auto simp del: not_Some_eq)
    then show ?case using IH st by blast
  qed
  let ?s = "fold (\<lambda>channel. fold (take_candidate alts channel) cands) chs ({}, [])"
  have "fst ({}, [] :: ext_item list) = ei_version ` set (snd ({} :: string set, []))"
    "set (snd ({} :: string set, [])) \<subseteq> set cands" by simp_all
  note f0 = * [OF this refl, of chs]
  have f: "fst ?s = ei_version ` set (snd ?s)" "set (snd ?s) \<subseteq> set cands" "ei_version v \<in> fst ?s"
    using conjunct1 [OF f0] conjunct1 [OF conjunct2 [OF f0]]
      mp [OF conjunct2 [OF conjunct2 [OF conjunct2 [OF f0]]] assms(3)] .
  from f(3) have "ei_version v \<in> ei_version ` set (snd ?s)" unfolding f(1) .
  then obtain w where w: "w \<in> set (snd ?s)" "ei_version w = ei_version v" by (elim imageE) simp
  have inj: "inj_on ei_version (set cands)" using assms(4) by (simp add: distinct_map)
  have "w = v" by (rule inj_onD [OF inj w(2) subsetD [OF f(2) w(1)] assms(1)])
  then show ?thesis using w(1) by (simp add: channel_candidates_def)
qed

text \<open>A consistent choice of versions, available on every one of the channels asked for, and a task it settles.\<close>

definition consistent_choice ::
    "candidates \<Rightarrow> (string \<times> string) list \<Rightarrow> string list \<Rightarrow> (string \<rightharpoonup> ext_item) \<Rightarrow> bool" where
  "consistent_choice by_id pins channels f \<longleftrightarrow>
     (\<forall>i v. f i = Some v \<longrightarrow>
        v \<in> set (candidates_of by_id i) \<and> (pin_of pins i = [] \<or> ei_version v = pin_of pins i) \<and>
        (pin_of pins i \<noteq> [] \<or> list_all (\<lambda>c. list_ex (has_channel v) (channel_rank c)) channels) \<and>
        (\<forall>d \<in> set (em_dependencies (ei_manifest v)).
           if dp_optional d then is_ok (parse_constraint (dp_version d))
           else \<exists>w. f (dp_id d) = Some w \<and> ext_matches (ei_version w) (dp_version d))) \<and>
     (\<forall>i j v w. f i = Some v \<longrightarrow> f j = Some w \<longrightarrow> i \<noteq> j \<longrightarrow> \<not> clash v w)"

definition settled :: "string list \<Rightarrow> (string \<rightharpoonup> ext_item) \<Rightarrow> ext_requirement \<Rightarrow> bool" where
  "settled channels f t \<longleftrightarrow>
     tk_channel t \<in> set channels \<and>
     (if tk_optional t then is_ok (parse_constraint (tk_constraint t))
      else \<exists>w. f (tk_id t) = Some w \<and> ext_matches (ei_version w) (tk_constraint t))"

definition within :: "(string \<rightharpoonup> ext_item) \<Rightarrow> selected \<Rightarrow> bool" where
  "within f sel \<longleftrightarrow> (\<forall>i x. map_of sel i = Some x \<longrightarrow> f i = Some (sl_item x))"

lemma choice_filtered:
  assumes "consistent_choice by_id pins channels f" "f (tk_id req) = Some v" "tk_channel req \<in> set channels"
    and "ext_matches (ei_version v) (tk_constraint req)" "parse_constraint (tk_constraint req) = Inr alts"
    and "\<forall>i. distinct (map ei_version (candidates_of by_id i))"
  shows "v \<in> set (filter_candidates by_id pins req alts)"
proof -
  have v: "v \<in> set (candidates_of by_id (tk_id req))"
    "pin_of pins (tk_id req) = [] \<or> ei_version v = pin_of pins (tk_id req)"
    "pin_of pins (tk_id req) \<noteq> [] \<or> list_ex (has_channel v) (channel_rank (tk_channel req))"
    using assms(1-3) unfolding consistent_choice_def list_all_iff by blast+
  have m: "item_matches alts v"
    using assms(4,5) by (auto simp: ext_matches_def item_matches_def split: sum.splits)
  show ?thesis
    using v m assms(3,6) channel_candidates_all [OF v(1) m]
    by (auto simp: filter_candidates_def Let_def)
qed

lemma settled_dependencies:
  assumes "consistent_choice by_id pins channels f" "f (tk_id req) = Some v" "tk_channel req \<in> set channels"
  shows "\<forall>t \<in> set (dependency_tasks req v). settled channels f t"
proof
  fix t
  assume "t \<in> set (dependency_tasks req v)"
  then obtain d where d: "d \<in> set (em_dependencies (ei_manifest v))" "tk_id t = dp_id d"
    "tk_constraint t = dp_version d" "tk_optional t = dp_optional d" "tk_channel t = tk_channel req"
    by (auto simp: dependency_tasks_def)
  then show "settled channels f t" using assms unfolding consistent_choice_def settled_def by metis
qed

lemma within_new:
  "within f sel \<Longrightarrow> f (tk_id req) = Some v \<Longrightarrow> within f (AList.update (tk_id req) (new_selection req v) sel)"
  by (simp add: within_def update_conv' new_selection_def)

lemma within_again:
  "within f sel \<Longrightarrow> map_of sel i = Some x \<Longrightarrow> within f (AList.update i (require_again req x) sel)"
  by (simp add: within_def update_conv' require_again_def)

lemma choice_no_conflict:
  assumes "consistent_choice by_id pins channels f" "keyed by_id" "within f sel" "distinct (map fst sel)" "f i = Some v"
  shows "\<not> conflicts_selected v sel"
proof
  assume "conflicts_selected v sel"
  then obtain j y where y: "(j, y) \<in> set sel" "j \<noteq> ei_id v"
    "conflict_match (ei_manifest v) j (ei_version (sl_item y)) \<or>
     conflict_match (ei_manifest (sl_item y)) (ei_id v) (ei_version v)"
    by (auto simp: conflicts_selected_def list_ex_iff)
  have fj: "f j = Some (sl_item y)" using y(1) assms(3,4) by (auto simp: within_def)
  have i: "ei_id v = i" "ei_id (sl_item y) = j"
    using assms(1,2,5) fj unfolding consistent_choice_def keyed_def by blast+
  then have "clash v (sl_item y)" using y(3) by (auto simp: clash_def)
  then show False using assms(1,5) fj y(2) i(1) unfolding consistent_choice_def by blast
qed

lemma matches_parses: "ext_matches v c \<Longrightarrow> is_ok (parse_constraint c)"
  by (cases "parse_version v"; cases "parse_constraint c") (simp_all add: ext_matches_def)

lemma solve_returns:
  assumes "keyed by_id" "\<forall>i. distinct (map ei_version (candidates_of by_id i))"
    and "consistent_choice by_id pins channels f" "\<forall>t \<in> set tasks. settled channels f t"
    and "within f sel" "distinct (map fst sel)"
  shows "is_ok (solve by_id pins tasks sel)"
  using assms
proof (induction by_id pins tasks sel rule: solve.induct)
  case (1 by_id pins sel)
  then show ?case by simp
next
  case (2 by_id pins req rest sel)
  note p = "2.prems"
  have rest: "\<forall>t \<in> set rest. settled channels f t" and req: "settled channels f req" using p(4) by simp_all
  show ?case
  proof (cases "map_of sel (tk_id req)")
    case (Some x)
    then have fx: "f (tk_id req) = Some (sl_item x)" using p(5) by (simp add: within_def)
    show ?thesis
    proof (cases "ext_matches (ei_version (sl_item x)) (tk_constraint req)")
      case True
      then show ?thesis
        using "2.IH"(5) [OF Some _ p(1-3) rest within_again [OF p(5) Some] distinct_update [OF p(6)]]
        by (simp add: solve.simps(2) Some)
    next
      case False
      then have "tk_optional req" using req fx unfolding settled_def by (metis False option.inject)
      then show ?thesis
        using "2.IH"(4) [OF Some False _ p(1-3) rest p(5,6)] False by (simp add: solve.simps(2) Some)
    qed
  next
    case None
    have "is_ok (parse_constraint (tk_constraint req))"
      using req matches_parses unfolding settled_def by metis
    then obtain alts where alts: "parse_constraint (tk_constraint req) = Inr alts" unfolding is_ok_iff by blast
    have chosen: "\<exists>v. f (tk_id req) = Some v \<and> v \<in> set (filter_candidates by_id pins req alts)" if "\<not> tk_optional req"
      using that req choice_filtered [OF p(3) _ _ _ alts p(2)] by (auto simp: settled_def)
    show ?thesis
    proof (cases "filter_candidates by_id pins req alts = []")
      case True
      then have "tk_optional req" using chosen by auto
      then show ?thesis
        using "2.IH"(1) [OF None alts True _ p(1-3) rest p(5,6)] True by (simp add: solve.simps(2) None alts)
    next
      case False
      define attempt where "attempt = (\<lambda>cand. if conflicts_selected cand sel
        then Inl (CandidateConflict (ei_id cand) (ei_version cand))
        else solve by_id pins (dependency_tasks req cand @ rest) (AList.update (tk_id req) (new_selection req cand) sel))"
      have run: "solve by_id pins (req # rest) sel =
          (case first_ok attempt (filter_candidates by_id pins req alts) None of
             Inr got \<Rightarrow> Inr got
           | Inl err \<Rightarrow> if tk_optional req then solve by_id pins rest sel
                         else Inl (case err of Some e \<Rightarrow> e | None \<Rightarrow> NoSelection (tk_id req)))"
        using False by (simp add: solve.simps(2) None alts attempt_def)
      show ?thesis
      proof (cases "first_ok attempt (filter_candidates by_id pins req alts) None")
        case (Inr got)
        then show ?thesis by (simp add: run)
      next
        case (Inl err)
        have "tk_optional req"
        proof (rule ccontr)
          assume "\<not> tk_optional req"
          then obtain v where v: "f (tk_id req) = Some v" "v \<in> set (filter_candidates by_id pins req alts)"
            using chosen by blast
          have nc: "\<not> conflicts_selected v sel" by (rule choice_no_conflict [OF p(3,1,5,6) v(1)])
          have ch: "tk_channel req \<in> set channels" using req by (simp add: settled_def)
          have "\<forall>t \<in> set (dependency_tasks req v @ rest). settled channels f t"
            using settled_dependencies [OF p(3) v(1) ch] rest by auto
          then have "is_ok (attempt v)"
            using "2.IH"(2) [OF None alts False v(2) nc p(1-3) _ within_new [OF p(5) v(1)] distinct_update [OF p(6)]] nc
            by (simp add: attempt_def)
          then show False using first_ok_Inl [OF Inl v(2)] by auto
        qed
        then show ?thesis
          using "2.IH"(3) [OF None alts False Inl [unfolded attempt_def] _ p(1-3) rest p(5,6)] run Inl by simp
      qed
    qed
  qed
qed

section \<open>Order and plan\<close>

lemma selected_dependencies_set:
  "set (selected_dependencies sel i) = {d. \<exists>x. map_of sel i = Some x \<and> d \<in> dp_id ` set (em_dependencies (ei_manifest (sl_item x))) \<and>
     map_of sel d \<noteq> None}"
  by (cases "map_of sel i") (auto simp: selected_dependencies_def)

lemma topological_order_Inr:
  assumes "topological_order sel = Inr ids"
  shows "distinct ids \<and> set ids = fst ` set sel \<and> topological (selected_dependencies sel) ids"
proof -
  obtain t where t: "dfs_all (selected_dependencies sel) (length sel + 2) (sort (map fst sel)) = Inr t" "ids = df_out t"
    using assms by (auto simp: topological_order_def split: sum.splits dfs_error.splits)
  have sub: "set (selected_dependencies sel i) \<subseteq> fst ` set sel" for i
    unfolding selected_dependencies_set map_of_eq_None_iff by blast
  have "distinct (df_out t) \<and> topological (selected_dependencies sel) (df_out t) \<and>
      set (sort (map fst sel)) \<subseteq> set (df_out t) \<and> set (df_out t) \<subseteq> fst ` set sel"
    by (rule dfs_all_order [OF sub _ t(1)]) simp
  then show ?thesis unfolding t(2) by (simp add: subset_antisym)
qed

lemma topological_order_total:
  assumes "distinct (map fst sel)"
  shows "topological_order sel \<noteq> Inl CycleSearchFuel"
proof -
  have "selected_dependencies sel i = []" if "i \<notin> fst ` set sel" for i
    using that by (simp add: selected_dependencies_def map_of_eq_None_iff [symmetric])
  moreover have "card (fst ` set sel) + 2 \<le> length sel + 2"
    using card_length [of "map fst sel"] by simp
  ultimately have "dfs_all (selected_dependencies sel) (length sel + 2) (sort (map fst sel)) \<noteq> Inl Diverges"
    using dfs_all_fuel [of "fst ` set sel"] by blast
  then show ?thesis by (auto simp: topological_order_def split: sum.splits dfs_error.splits)
qed

lemma candidates_update:
  "candidates_of (AList.update k vs m) i = (if i = k then vs else candidates_of m i)"
  by (simp add: candidates_of_def update_conv')

lemma group_items_candidates: "candidates_of (group_items vs) i = filter (\<lambda>v. ei_id v = i) vs"
proof -
  define step where "step = (\<lambda>v m. AList.update (ei_id v) (candidates_of m (ei_id v) @ [v]) m)"
  have "candidates_of (fold step vs m) i = candidates_of m i @ filter (\<lambda>v. ei_id v = i) vs" for m
    by (induction vs arbitrary: m) (auto simp: step_def candidates_update)
  from this [of "[]"] show ?thesis by (simp add: group_items_def step_def candidates_of_def)
qed

lemma candidates_of_map: "candidates_of (map (\<lambda>(i, vs). (i, g vs)) m) i = (if map_of m i = None then [] else g (candidates_of m i))"
  by (induction m) (auto simp: candidates_of_def)

text \<open>What these facts rely on in \<^verbatim>\<open>sort.Slice\<close>: it permutes the versions.\<close>

definition permutes_items :: "(ext_item list \<Rightarrow> ext_item list) \<Rightarrow> bool" where
  "permutes_items arrange \<longleftrightarrow> (\<forall>vs. mset (arrange vs) = mset vs)"

lemma registry_candidates_set:
  assumes "permutes_items arrange"
  shows "set (candidates_of (registry_candidates U arrange env all) i) \<subseteq>
    {v \<in> set all. compatible U v env \<and> ei_id v = i}"
proof -
  have "set (arrange vs) = set vs" for vs
    using assms by (metis mset_eq_setD permutes_items_def)
  then show ?thesis
    by (auto simp: registry_candidates_def candidates_of_map group_items_candidates split: if_splits)
qed

lemma registry_keyed: "permutes_items arrange \<Longrightarrow> keyed (registry_candidates U arrange env all)"
  using registry_candidates_set by (fastforce simp: keyed_def)

lemma plan_entry_fields:
  "pi_id (plan_entry installed pins sel i) = i"
  "pi_to (plan_entry installed pins sel i) = ei_version (sl_item (the (map_of sel i)))"
  by (simp_all add: plan_entry_def Let_def)

lemma check_pairs_Inr: "check_pairs fs = Inr u \<Longrightarrow> fs = xs @ p # ys @ q # zs \<Longrightarrow> check_pair p q = Inr ()"
proof (induction fs arbitrary: xs rule: check_pairs.induct)
  case 1
  then show ?case by simp
next
  case (2 c rest)
  obtain w where w: "for_each (\<lambda>q _. check_pair c q) rest () = Inr w" "check_pairs rest = Inr u"
    using "2.prems"(1) by (auto split: sum.splits)
  show ?case
  proof (cases xs)
    case Nil
    then have "q \<in> set rest" "c = p" using "2.prems"(2) by auto
    then show ?thesis using w(1) by (cases w) (simp add: for_each_unit_Inr)
  next
    case (Cons r rs)
    then have "rest = rs @ p # ys @ q # zs" using "2.prems"(2) by simp
    then show ?thesis by (rule "2.IH" [OF w])
  qed
qed

lemma check_pairs_members:
  assumes "check_pairs fs = Inr ()" "(a, ma, va) \<in> set fs" "(b, mb, vb) \<in> set fs" "a \<noteq> b"
  shows "\<not> conflict_match ma b vb \<and> \<not> conflict_match mb a va"
proof -
  obtain xs ys where fs: "fs = xs @ (a, ma, va) # ys" using assms(2) by (meson split_list)
  then consider "(b, mb, vb) \<in> set xs" | "(b, mb, vb) \<in> set ys" using assms(3,4) by auto
  then show ?thesis
  proof cases
    case 1
    then obtain us vs where "xs = us @ (b, mb, vb) # vs" by (meson split_list)
    then have "fs = us @ (b, mb, vb) # vs @ (a, ma, va) # ys" using fs by simp
    from check_pairs_Inr [OF assms(1) this] show ?thesis by (simp add: check_pair_def)
  next
    case 2
    then obtain us vs where "ys = us @ (b, mb, vb) # vs" by (meson split_list)
    then have "fs = xs @ (a, ma, va) # us @ (b, mb, vb) # vs" using fs by simp
    from check_pairs_Inr [OF assms(1) this] show ?thesis by (simp add: check_pair_def)
  qed
qed

lemma load_installed_loop:
  assumes "for_each (load_installed get sel) ins fs = Inr out" "distinct (map fst ins)"
    and "\<forall>(i, v) \<in> set ins. map_of sel i = None \<longrightarrow> map_of fs i = None"
  shows "(\<forall>i x. map_of fs i = Some x \<longrightarrow> map_of out i = Some x) \<and>
    (\<forall>(i, v) \<in> set ins. map_of sel i = None \<longrightarrow> (\<exists>m. get i v = Inr m \<and> map_of out i = Some (m, v)))"
  using assms
proof (induction ins arbitrary: fs)
  case Nil
  then show ?case by simp
next
  case (Cons p ins)
  obtain i v where p: "p = (i, v)" by (cases p)
  show ?case
  proof (cases "map_of sel i")
    case (Some x)
    then have "load_installed get sel (i, v) fs = Inr fs" by (simp add: load_installed_def)
    then have "for_each (load_installed get sel) ins fs = Inr out" using Cons.prems(1) by (simp add: p)
    then show ?thesis using Cons.IH [of fs] Cons.prems(2,3) Some by (simp add: p)
  next
    case None
    then have "load_installed get sel (i, v) fs =
        (case get i v of Inl why \<Rightarrow> Inl (InstalledManifest i v why) | Inr m \<Rightarrow> Inr (AList.update i (m, v) fs))"
      by (simp add: load_installed_def)
    then obtain m where m: "get i v = Inr m" "for_each (load_installed get sel) ins (AList.update i (m, v) fs) = Inr out"
      using Cons.prems(1) by (auto simp: p split: sum.split_asm)
    have "\<forall>(j, w) \<in> set ins. map_of sel j = None \<longrightarrow> map_of (AList.update i (m, v) fs) j = None"
    proof (intro ballI, clarify)
      fix j w
      assume j: "(j, w) \<in> set ins" "map_of sel j = None"
      then have "j \<noteq> i" using Cons.prems(2) by (force simp: p)
      then show "map_of (AList.update i (m, v) fs) j = None" using Cons.prems(3) j by (auto simp: p update_conv')
    qed
    then have IH: "(\<forall>j x. map_of (AList.update i (m, v) fs) j = Some x \<longrightarrow> map_of out j = Some x) \<and>
      (\<forall>(j, w) \<in> set ins. map_of sel j = None \<longrightarrow> (\<exists>n. get j w = Inr n \<and> map_of out j = Some (n, w)))"
      using Cons.IH [OF m(2)] Cons.prems(2) by simp
    have o: "map_of out i = Some (m, v)" using IH by (simp add: update_conv')
    have f: "map_of fs i = None" using Cons.prems(3) None by (simp add: p)
    have "map_of out k = Some x" if "map_of fs k = Some x" for k x
    proof -
      have "k \<noteq> i" using f that by auto
      then have "map_of (AList.update i (m, v) fs) k = Some x" using that by (simp add: update_conv')
      then show ?thesis using IH by blast
    qed
    then show ?thesis using conjunct2 [OF IH] m(1) o by (simp add: p)
  qed
qed

lemma map_of_manifests:
  "map_of (map (\<lambda>(i, s). (i, ei_manifest (sl_item s), ei_version (sl_item s))) sel) i =
     map_option (\<lambda>s. (ei_manifest (sl_item s), ei_version (sl_item s))) (map_of sel i)"
  by (induction sel) auto

lemma final_conflicts_Inr:
  assumes "validate_final_conflicts get order sel installed = Inr ()" "distinct (map fst installed)"
    and "mset (order installed) = mset installed" "(i, v) \<in> set installed" "map_of sel i = None" "map_of sel j = Some y"
  shows "\<exists>m. get i v = Inr m \<and> \<not> conflict_match m j (ei_version (sl_item y)) \<and>
    \<not> conflict_match (ei_manifest (sl_item y)) i v"
proof -
  let ?fs = "map (\<lambda>(i, s). (i, ei_manifest (sl_item s), ei_version (sl_item s))) sel"
  obtain out where out: "for_each (load_installed get sel) (order installed) ?fs = Inr out"
    "check_pairs (sort_key fst out) = Inr ()"
    using assms(1) by (auto simp: validate_final_conflicts_def split: sum.splits)
  have "distinct (map fst (order installed))"
    using assms(2,3) mset_eq_imp_distinct_iff [of "map fst (order installed)" "map fst installed"] by simp
  moreover have mem: "(i, v) \<in> set (order installed)" using assms(3,4) by (metis mset_eq_setD)
  ultimately have L: "(\<forall>i x. map_of ?fs i = Some x \<longrightarrow> map_of out i = Some x) \<and>
    (\<forall>(i, v) \<in> set (order installed). map_of sel i = None \<longrightarrow> (\<exists>m. get i v = Inr m \<and> map_of out i = Some (m, v)))"
    by (intro load_installed_loop [OF out(1)]) (auto simp: map_of_manifests)
  have "\<exists>m. get i v = Inr m \<and> map_of out i = Some (m, v)" using bspec [OF conjunct2 [OF L] mem] assms(5) by simp
  then obtain m where m: "get i v = Inr m" "map_of out i = Some (m, v)" by blast
  have "map_of out j = Some (ei_manifest (sl_item y), ei_version (sl_item y))"
    using conjunct1 [OF L] assms(6) by (simp add: map_of_manifests del: not_Some_eq)
  then have "(i, m, v) \<in> set (sort_key fst out)" "(j, ei_manifest (sl_item y), ei_version (sl_item y)) \<in> set (sort_key fst out)"
    using m(2) by (auto dest: map_of_SomeD)
  moreover have "i \<noteq> j" using assms(5,6) by auto
  ultimately show ?thesis using check_pairs_members [OF out(2)] m(1) by blast
qed

section \<open>Properties\<close>

text \<open>C4: What the search returns is a consistent installation: every required root task is met, every selected version
  comes from the candidates of its identifier, obeys the pin and has all its required dependencies selected at
  matching versions, and no two selected versions conflict in either direction.\<close>
theorem solve_sound:
  assumes "keyed by_id" "solve by_id pins tasks [] = Inr sel"
  shows "(\<forall>t \<in> set tasks. tk_optional t \<or> supplies sel (tk_id t) (tk_constraint t)) \<and>
    (\<forall>i x. map_of sel i = Some x \<longrightarrow> sl_item x \<in> set (candidates_of by_id i) \<and>
       (pin_of pins i = [] \<or> ei_version (sl_item x) = pin_of pins i) \<and>
       (\<forall>d \<in> set (em_dependencies (ei_manifest (sl_item x))). dp_optional d \<or> supplies sel (dp_id d) (dp_version d))) \<and>
    (\<forall>i j x y. map_of sel i = Some x \<longrightarrow> map_of sel j = Some y \<longrightarrow> i \<noteq> j \<longrightarrow> \<not> clash (sl_item x) (sl_item y))"
proof -
  have "solve_inv by_id pins []" "unmet [] tasks" by (simp_all add: solve_inv_def unmet_def)
  from solve_result [OF assms this] have r: "solve_inv by_id pins sel" "unmet sel []"
    "\<forall>t \<in> set tasks. tk_optional t \<or> supplies sel (tk_id t) (tk_constraint t)" by blast+
  have "\<forall>d \<in> set (em_dependencies (ei_manifest (sl_item x))). dp_optional d \<or> supplies sel (dp_id d) (dp_version d)"
    if "map_of sel i = Some x" for i x
    using r(2) that unfolding unmet_def by simp
  then show ?thesis using r(1,3) unfolding solve_inv_def by blast
qed

definition ext_sample :: "string \<Rightarrow> string \<Rightarrow> dependency list \<Rightarrow> ext_item" where
  "ext_sample i v deps =
     \<lparr>ei_id = i, ei_version = v, ei_manifest = \<lparr>em_api = ''1.0'', em_dependencies = deps, em_conflicts = []\<rparr>,
      ei_compat = \<lparr>cy_min_launcher = [], cy_max_launcher = [], cy_min_api = [], cy_max_api = [], cy_os = [], cy_arch = []\<rparr>,
      ei_identity = i @ v, ei_channels = [''stable''], ei_yanked = None\<rparr>"

definition app_sample :: ext_item where
  "app_sample = ext_sample ''app'' ''1.0.0'' [\<lparr>dp_id = ''lib'', dp_version = ''^1.0.0'', dp_optional = False\<rparr>]"

definition registry_sample :: candidates where
  "registry_sample = [(''app'', [app_sample]), (''lib'', [ext_sample ''lib'' ''2.0.0'' [], ext_sample ''lib'' ''1.4.0'' []])]"

definition task_sample :: ext_requirement where
  "task_sample = \<lparr>tk_id = ''app'', tk_constraint = ''*'', tk_channel = ''stable'', tk_from = ''root'', tk_optional = False,
     tk_root = True\<rparr>"

lemma sample_candidates:
  "candidates_of registry_sample i =
     (if i = ''app'' then [app_sample]
      else if i = ''lib'' then [ext_sample ''lib'' ''2.0.0'' [], ext_sample ''lib'' ''1.4.0'' []] else [])"
  by (simp add: candidates_of_def registry_sample_def)

lemma registry_sample_keyed: "keyed registry_sample" "distinct (map ei_version (candidates_of registry_sample i))"
  by (auto simp: keyed_def sample_candidates app_sample_def ext_sample_def split: if_split_asm)

lemma sample_parsed:
  "parse_version ''1.0.0'' = Inr \<lparr>ev_major = 1, ev_minor = 0, ev_patch = 0, ev_pre = [], ev_raw = ''1.0.0''\<rparr>"
  "parse_version ''1.4.0'' = Inr \<lparr>ev_major = 1, ev_minor = 4, ev_patch = 0, ev_pre = [], ev_raw = ''1.4.0''\<rparr>"
  by code_simp+

lemma sample_versions: "ext_matches ''1.4.0'' ''^1.0.0''" "ext_matches ''1.0.0'' ''*''"
proof -
  have "nameable ''1.0.0''" by code_simp
  then have "parse_constraint (''^'' @ ''1.0.0'') = Inr [op_predicates ''^''
      \<lparr>ev_major = 1, ev_minor = 0, ev_patch = 0, ev_pre = [], ev_raw = ''1.0.0''\<rparr>]"
    using parse_own_token [OF _ _ sample_parsed(1), of "''^''"] by (simp add: own_ops_def)
  then show "ext_matches ''1.4.0'' ''^1.0.0''"
    by (simp add: ext_matches_def sample_parsed constraint_match_def op_predicates_def caret_upper_def
      plain_version_def next_int_def compare_version_def)
  show "ext_matches ''1.0.0'' ''*''" by code_simp
qed

text \<open>C5: The search is complete.  Let the candidates be listed under their own identifier, each version once.  If some
  choice of versions supplies every required root task with a version its constraint accepts, is closed in the same
  way under the required dependencies of the chosen versions, takes the pinned version where there is a pin and
  elsewhere a version available on every channel the root tasks ask for, has no two versions that conflict, and the
  constraints of optional tasks and dependencies are well formed, then the search succeeds: it never reports an
  unsolvable graph because of an unlucky early candidate.\<close>
theorem solve_complete:
  assumes "keyed by_id" "\<forall>i. distinct (map ei_version (candidates_of by_id i))"
    and "consistent_choice by_id pins channels f" "\<forall>t \<in> set tasks. settled channels f t"
  shows "\<exists>sel. solve by_id pins tasks [] = Inr sel"
  using solve_returns [OF assms, of "[]"] by (simp add: within_def is_ok_iff)

lemma sample_choice:
  "consistent_choice registry_sample [] [''stable''] [''app'' \<mapsto> app_sample, ''lib'' \<mapsto> ext_sample ''lib'' ''1.4.0'' []]"
  unfolding consistent_choice_def
  by (auto simp: sample_candidates app_sample_def ext_sample_def pin_of_def channel_rank_def
    has_channel_def clash_def conflict_match_def sample_versions split: if_splits)

theorem solve_complete_witness: "\<exists>sel. solve registry_sample [] [task_sample] [] = Inr sel"
  by (rule solve_complete [OF registry_sample_keyed(1) _ sample_choice])
    (auto simp: registry_sample_keyed settled_def task_sample_def app_sample_def ext_sample_def sample_versions)

theorem solve_sound_witness:
  "\<exists>sel. solve registry_sample [] [task_sample] [] = Inr sel \<and> supplies sel ''app'' ''*'' \<and> supplies sel ''lib'' ''^1.0.0''"
proof -
  obtain sel where sel: "solve registry_sample [] [task_sample] [] = Inr sel"
    using solve_returns [OF registry_sample_keyed(1) _ sample_choice, of "[task_sample]" "[]"] registry_sample_keyed(2)
    by (auto simp: is_ok_iff within_def settled_def task_sample_def app_sample_def ext_sample_def sample_versions)
  note s = solve_sound [OF registry_sample_keyed(1) sel]
  have a: "supplies sel ''app'' ''*''" using conjunct1 [OF s] by (simp add: task_sample_def)
  then obtain x where x: "map_of sel ''app'' = Some x" by (auto simp: supplies_def)
  then have "sl_item x \<in> set (candidates_of registry_sample ''app'')" using s by blast
  then have "sl_item x = app_sample" by (simp add: sample_candidates)
  then have "supplies sel ''lib'' ''^1.0.0''" using s x by (fastforce simp: app_sample_def ext_sample_def)
  then show ?thesis using sel a by blast
qed

lemma build_plan_Inr:
  assumes "build_plan U order repo env now scope installed pins by_id tasks = Inr plan"
  obtains sel ids where "solve by_id pins tasks [] = Inr sel"
    "validate_final_conflicts (rr_manifest repo) order sel installed = Inr ()"
    "topological_order sel = Inr ids" "up_items plan = map (plan_entry installed pins sel) ids"
  using assms unfolding build_plan_def by (auto split: sum.split_asm)

definition chosen :: "selected \<Rightarrow> plan_item \<Rightarrow> ext_item" where
  "chosen sel p = sl_item (the (map_of sel (pi_id p)))"

text \<open>C10: A plan lists every selected extension once, at the selected version, and in installation order: whatever
  an item depends on (and is part of the plan, optional dependencies included) comes before it.\<close>
theorem plan_dependencies_first:
  assumes "build_plan U order repo env now scope installed pins by_id tasks = Inr plan"
  shows "\<exists>sel. solve by_id pins tasks [] = Inr sel \<and> distinct (map pi_id (up_items plan)) \<and>
    set (map pi_id (up_items plan)) = fst ` set sel \<and>
    (\<forall>p \<in> set (up_items plan). pi_to p = ei_version (chosen sel p)) \<and>
    (\<forall>before p after. up_items plan = before @ p # after \<longrightarrow>
       (\<forall>d \<in> set (em_dependencies (ei_manifest (chosen sel p))).
          dp_id d \<in> fst ` set sel \<longrightarrow> dp_id d \<in> set (map pi_id before)))"
proof -
  obtain sel ids where s: "solve by_id pins tasks [] = Inr sel" "topological_order sel = Inr ids"
    and items: "up_items plan = map (plan_entry installed pins sel) ids"
    using build_plan_Inr [OF assms] by metis
  have o: "distinct ids" "set ids = fst ` set sel" "topological (selected_dependencies sel) ids"
    using topological_order_Inr [OF s(2)] by simp_all
  have ids: "map pi_id (up_items plan) = ids" by (simp add: items plan_entry_fields comp_def)
  have "dp_id d \<in> set (map pi_id before)"
    if eq: "up_items plan = before @ p # after" and d: "d \<in> set (em_dependencies (ei_manifest (chosen sel p)))"
      "dp_id d \<in> fst ` set sel" for before p after d
  proof -
    have split: "ids = map pi_id before @ pi_id p # map pi_id after" using ids eq by (metis list.simps(9) map_append)
    then have "pi_id p \<in> fst ` set sel" using o(2) by auto
    then obtain x where x: "map_of sel (pi_id p) = Some x" by (metis map_of_eq_None_iff not_Some_eq)
    have "map_of sel (dp_id d) \<noteq> None" using d(2) by (simp add: map_of_eq_None_iff)
    then have "dp_id d \<in> set (selected_dependencies sel (pi_id p))"
      using d(1) x unfolding selected_dependencies_set chosen_def by auto
    moreover have "set (selected_dependencies sel (pi_id p)) \<subseteq> set (map pi_id before)"
      using o(3) split unfolding topological_def by blast
    ultimately show ?thesis by blast
  qed
  moreover have "\<forall>p \<in> set (up_items plan). pi_to p = ei_version (chosen sel p)"
    by (auto simp: items plan_entry_fields chosen_def)
  ultimately show ?thesis using s(1) o(1,2) ids by blast
qed

text \<open>A plan never breaks what stays installed: for every installed extension the plan does not replace, its
  manifest was read and neither side declares a conflict with any planned version.\<close>
lemma plan_keeps_installed:
  assumes "build_plan U order repo env now scope installed pins by_id tasks = Inr plan"
    and "distinct (map fst installed)" "mset (order installed) = mset installed"
    and "(i, v) \<in> set installed" "i \<notin> set (map pi_id (up_items plan))" "p \<in> set (up_items plan)"
  shows "\<exists>sel m. solve by_id pins tasks [] = Inr sel \<and> rr_manifest repo i v = Inr m \<and>
    \<not> conflict_match m (pi_id p) (pi_to p) \<and> \<not> conflict_match (ei_manifest (chosen sel p)) i v"
proof -
  obtain sel ids where s: "solve by_id pins tasks [] = Inr sel" "topological_order sel = Inr ids"
    "validate_final_conflicts (rr_manifest repo) order sel installed = Inr ()"
    and items: "up_items plan = map (plan_entry installed pins sel) ids"
    using build_plan_Inr [OF assms(1)] by metis
  have keys: "set ids = fst ` set sel" using topological_order_Inr [OF s(2)] by simp
  have "map pi_id (up_items plan) = ids" by (simp add: items plan_entry_fields comp_def)
  then have "map_of sel i = None" "pi_id p \<in> fst ` set sel"
    using assms(5,6) keys by (auto simp: map_of_eq_None_iff)
  moreover from this(2) obtain y where y: "map_of sel (pi_id p) = Some y" by (metis map_of_eq_None_iff not_Some_eq)
  ultimately obtain m where "rr_manifest repo i v = Inr m" "\<not> conflict_match m (pi_id p) (ei_version (sl_item y))"
    "\<not> conflict_match (ei_manifest (sl_item y)) i v"
    using final_conflicts_Inr [OF s(3) assms(2-4)] by blast
  moreover have "pi_to p = ei_version (sl_item y)" using assms(6) y by (auto simp: items plan_entry_fields)
  ultimately show ?thesis using s(1) y by (auto simp: chosen_def)
qed

text \<open>Only versions of the registry that are not yanked and fit the environment are ever planned.\<close>
lemma plan_compatible:
  assumes "permutes_items arrange"
    and "build_plan U order repo env now scope installed pins (registry_candidates U arrange env all) tasks = Inr plan"
    and "p \<in> set (up_items plan)"
  shows "\<exists>v \<in> set all. ei_id v = pi_id p \<and> ei_version v = pi_to p \<and> compatible U v env \<and> ei_yanked v = None"
proof -
  obtain sel ids where s: "solve (registry_candidates U arrange env all) pins tasks [] = Inr sel"
    "topological_order sel = Inr ids"
    and items: "up_items plan = map (plan_entry installed pins sel) ids"
    using build_plan_Inr [OF assms(2)] by metis
  obtain i where i: "i \<in> set ids" "p = plan_entry installed pins sel i" using assms(3) items by auto
  then obtain x where x: "map_of sel i = Some x"
    using topological_order_Inr [OF s(2)] by (metis map_of_eq_None_iff not_Some_eq)
  have "solve_inv (registry_candidates U arrange env all) pins []" "unmet [] tasks"
    by (simp_all add: solve_inv_def unmet_def)
  then have "sl_item x \<in> set (candidates_of (registry_candidates U arrange env all) i)"
    using solve_result [OF registry_keyed [OF assms(1)] s(1)] x unfolding solve_inv_def by blast
  then have v: "sl_item x \<in> set all" "compatible U (sl_item x) env" "ei_id (sl_item x) = i"
    using registry_candidates_set [OF assms(1)] by blast+
  then have "ei_yanked (sl_item x) = None" by (simp add: compatible_def split: if_splits)
  then show ?thesis using v x i(2) by (auto simp: plan_entry_fields)
qed

subsection \<open>A plan computed\<close>

definition lib_sample :: ext_item where "lib_sample = ext_sample ''lib'' ''1.4.0'' []"

definition lib_task :: ext_requirement where
  "lib_task = \<lparr>tk_id = ''lib'', tk_constraint = ''^1.0.0'', tk_channel = ''stable'', tk_from = ''app'', tk_optional = False,
     tk_root = False\<rparr>"

definition low_sample :: ext_version where
  "low_sample = \<lparr>ev_major = 1, ev_minor = 0, ev_patch = 0, ev_pre = [], ev_raw = ''1.0.0''\<rparr>"

lemma sample_constraints:
  "parse_constraint ''*'' = Inr [[\<lambda>_. True]]" "parse_constraint ''^1.0.0'' = Inr [op_predicates ''^'' low_sample]"
proof -
  have "trim_space ''*'' = ''*''" by code_simp
  then show "parse_constraint ''*'' = Inr [[\<lambda>_. True]]" by (simp add: parse_constraint_def)
  have "nameable ''1.0.0''" by code_simp
  then show "parse_constraint ''^1.0.0'' = Inr [op_predicates ''^'' low_sample]"
    using parse_own_token [OF _ _ sample_parsed(1), of "''^''"] by (simp add: own_ops_def low_sample_def)
qed

lemma sample_exact: "\<not> exact_constraint ''*''" "\<not> exact_constraint ''^1.0.0''"
  "parse_version ''2.0.0'' = Inr \<lparr>ev_major = 2, ev_minor = 0, ev_patch = 0, ev_pre = [], ev_raw = ''2.0.0''\<rparr>"
  by code_simp+

lemma sample_filters:
  "filter_candidates registry_sample [] task_sample [[\<lambda>_. True]] = [app_sample]"
  "filter_candidates registry_sample [] lib_task [op_predicates ''^'' low_sample] = [lib_sample]"
proof -
  show "filter_candidates registry_sample [] task_sample [[\<lambda>_. True]] = [app_sample]"
    by (simp add: filter_candidates_def Let_def sample_candidates task_sample_def pin_of_def sample_exact channel_rank_def
      channel_candidates_def take_candidate_def item_matches_def has_channel_def app_sample_def ext_sample_def sample_parsed
      constraint_match_def)
  have "item_matches [op_predicates ''^'' low_sample] lib_sample"
    "\<not> item_matches [op_predicates ''^'' low_sample] (ext_sample ''lib'' ''2.0.0'' [])"
    by (simp_all add: item_matches_def lib_sample_def ext_sample_def sample_parsed sample_exact constraint_match_def
      op_predicates_def caret_upper_def plain_version_def next_int_def compare_version_def low_sample_def)
  then show "filter_candidates registry_sample [] lib_task [op_predicates ''^'' low_sample] = [lib_sample]"
    by (simp add: filter_candidates_def Let_def sample_candidates lib_task_def pin_of_def sample_exact channel_rank_def
      channel_candidates_def take_candidate_def lib_sample_def has_channel_def) (simp add: ext_sample_def)
qed

definition solved_sample :: selected where
  "solved_sample = [(''app'', new_selection task_sample app_sample), (''lib'', new_selection lib_task lib_sample)]"

lemma sample_solved: "solve registry_sample [] [task_sample] [] = Inr solved_sample"
proof -
  have t: "tk_id task_sample = ''app''" "tk_constraint task_sample = ''*''" "tk_id lib_task = ''lib''"
    "tk_constraint lib_task = ''^1.0.0''" by (simp_all add: task_sample_def lib_task_def)
  have d: "dependency_tasks task_sample app_sample = [lib_task]" "dependency_tasks lib_task lib_sample = []"
    by (simp_all add: dependency_tasks_def app_sample_def lib_sample_def ext_sample_def lib_task_def task_sample_def)
  have n: "\<not> conflicts_selected app_sample []" "\<not> conflicts_selected lib_sample [(''app'', new_selection task_sample app_sample)]"
    by (simp_all add: conflicts_selected_def conflict_match_def new_selection_def lib_sample_def app_sample_def ext_sample_def)
  have "solve registry_sample [] [lib_task] [(''app'', new_selection task_sample app_sample)] = Inr solved_sample"
    by (simp add: solve.simps(2) t sample_constraints sample_filters d n solved_sample_def)
  then show ?thesis by (simp add: solve.simps(2) t sample_constraints sample_filters d n)
qed

definition environment_sample :: ext_environment where
  "environment_sample = \<lparr>ee_launcher = ''1.0.0'', ee_api = ''1.0'', ee_os = ''linux'', ee_arch = ''amd64'', ee_channel = ''stable''\<rparr>"

definition reader_sample :: registry_reader where
  "reader_sample = \<lparr>rr_installs = (\<lambda>_ _. Inr []), rr_pins = (\<lambda>_ _. Inr []), rr_search = Inr [],
     rr_manifest = (\<lambda>_ _. Inr \<lparr>em_api = [], em_dependencies = [], em_conflicts = []\<rparr>)\<rparr>"

definition all_sample :: "ext_item list" where
  "all_sample = [app_sample, ext_sample ''lib'' ''2.0.0'' [], lib_sample]"

lemma sample_registry: "registry_candidates ascii_only id environment_sample all_sample = registry_sample"
  by code_simp

lemma sample_order: "topological_order solved_sample = Inr [''lib'', ''app'']"
  by code_simp

definition plan_sample :: update_plan where
  "plan_sample = \<lparr>up_scope = ''global'', up_scope_id = [], up_environment = environment_sample,
     up_items = map (plan_entry [(''old'', ''1.0.0'')] [] solved_sample) [''lib'', ''app''], up_resolved = 0\<rparr>"

lemma sample_planned:
  "build_plan ascii_only id reader_sample environment_sample 0 (''global'', []) [(''old'', ''1.0.0'')] []
     (registry_candidates ascii_only id environment_sample all_sample) [task_sample] = Inr plan_sample"
proof -
  have "is_ok (validate_final_conflicts (rr_manifest reader_sample) id solved_sample [(''old'', ''1.0.0'')])"
    by code_simp
  then have "validate_final_conflicts (rr_manifest reader_sample) id solved_sample [(''old'', ''1.0.0'')] = Inr ()"
    by (simp add: is_ok_iff)
  moreover have "normalize_channel ascii_only ''stable'' = ''stable''" by code_simp
  ultimately show ?thesis unfolding sample_registry
    by (simp add: build_plan_def sample_solved sample_order plan_sample_def environment_sample_def)
qed

lemma plan_sample_items: "map pi_id (up_items plan_sample) = [''lib'', ''app'']"
  "map pi_to (up_items plan_sample) = [''1.4.0'', ''1.0.0'']"
  by (simp_all add: plan_sample_def plan_entry_fields solved_sample_def new_selection_def lib_sample_def app_sample_def ext_sample_def)

theorem plan_dependencies_first_witness: "distinct (map pi_id (up_items plan_sample))"
  using plan_dependencies_first [OF sample_planned] by blast

end
