(* ===== verification/Stores.thy ===== *)
theory Stores
  imports GoBase
begin

text \<open>
  The contract of a repository whose entries only move along a preorder, whatever sequence of operations runs:
  the locale \<open>moving_store\<close> derives it from single steps.  The repositories of profiles, durable jobs, outbox
  events, leases, releases, channel heads, nonces, sessions and join tickets are its interpretations.
\<close>

locale moving_store =
  fixes step :: "'s \<Rightarrow> 's \<Rightarrow> bool" and inv :: "'s \<Rightarrow> bool"
    and look :: "'s \<Rightarrow> 'k \<Rightarrow> 'v option" and moves :: "'v \<Rightarrow> 'v \<Rightarrow> bool"
  assumes inv_step: "inv s \<Longrightarrow> step s t \<Longrightarrow> inv t"
    and step_moves: "inv s \<Longrightarrow> step s t \<Longrightarrow> look s k = Some x \<Longrightarrow> \<exists>y. look t k = Some y \<and> moves x y"
    and moves_refl: "moves x x"
    and moves_trans: "moves x y \<Longrightarrow> moves y z \<Longrightarrow> moves x z"
begin

lemma run_inv: "step\<^sup>*\<^sup>* s t \<Longrightarrow> inv s \<Longrightarrow> inv t"
  by (induction rule: rtranclp_induct) (auto intro: inv_step)

lemma run_moves:
  assumes "step\<^sup>*\<^sup>* s t" "inv s" "look s k = Some x"
  shows "\<exists>y. look t k = Some y \<and> moves x y"
  using assms(1)
proof (induction rule: rtranclp_induct)
  case base
  then show ?case using assms(3) moves_refl by blast
next
  case (step t u)
  then obtain y where y: "look t k = Some y" "moves x y" by blast
  have "inv t" using run_inv step.hyps(1) assms(2) by blast
  then show ?case using step_moves [OF _ step.hyps(2) y(1)] moves_trans [OF y(2)] by blast
qed

text \<open>An entry that cannot move stays as it is.\<close>

lemma run_final:
  assumes "step\<^sup>*\<^sup>* s t" "inv s" "look s k = Some x" "\<And>y. moves x y \<Longrightarrow> y = x"
  shows "look t k = Some x"
  using run_moves [OF assms(1-3)] assms(4) by blast

end

end
