(* ===== verification/ProfileStore.thy ===== *)
theory ProfileStore
  imports ProfileRules Stores
begin

text \<open>
  Projects and profiles as \<^verbatim>\<open>MemoryRepository\<close> keeps them (\<^verbatim>\<open>repository/memory.go\<close>,
  \<^verbatim>\<open>repository/profile_snapshot.go\<close>): saving with optimistic concurrency on the revision, the append-only
  history of snapshots, and the snapshot that a new release freezes.  A project's or profile's identifier made
  from its name is the name in lower case with hyphens for blanks.  The invariant \<open>profiles_ok\<close> ties each profile
  to its history; \<open>ReadProfileSnapshot\<close> therefore reads the last entry of the history.
\<close>

section \<open>Data\<close>

record project =
  pj_id :: string
  pj_name :: string
  pj_description :: string
  pj_homepage :: string
  pj_repository :: string
  pj_channel :: string
  pj_created :: time
  pj_updated :: time

record profile_store =
  ps_projects :: "project list"
  ps_profiles :: "profile list"
  ps_history :: "string \<Rightarrow> profile_snapshot list" \<comment> \<open>a missing key reads as the empty slice\<close>

datatype store_error =
    StoreNotFound
  | StoreConflict
  | ProjectFieldsMissing
  | InvalidProfile profile_error

type_synonym 'a stored = "profile_store \<times> (store_error + 'a)"

section \<open>Projects\<close>

definition slug :: "unicode \<Rightarrow> string \<Rightarrow> string" where
  "slug U name = to_lower U (map (\<lambda>c. if c = CHR '' '' then CHR ''-'' else c) name)"

definition get_project :: "string \<Rightarrow> profile_store \<Rightarrow> store_error + project" where
  "get_project i s =
     (case first_some (\<lambda>p. pj_id p = i) (ps_projects s) of None \<Rightarrow> Inl StoreNotFound | Some p \<Rightarrow> Inr p)"

fun index_of :: "('a \<Rightarrow> bool) \<Rightarrow> 'a list \<Rightarrow> nat option" where
  "index_of P [] = None"
| "index_of P (x # xs) = (if P x then Some 0 else map_option Suc (index_of P xs))"

lemma index_of_Some:
  "index_of P xs = Some n \<longleftrightarrow> n < length xs \<and> P (xs ! n) \<and> (\<forall>m < n. \<not> P (xs ! m))"
proof (induction xs arbitrary: n)
  case (Cons x xs)
  then show ?case by (cases n) (auto simp: less_Suc_eq_0_disj)
qed simp

lemma index_of_None: "index_of P xs = None \<longleftrightarrow> (\<forall>x \<in> set xs. \<not> P x)"
  by (induction xs) auto

definition save_project :: "unicode \<Rightarrow> time \<Rightarrow> project \<Rightarrow> profile_store \<Rightarrow> project stored" where
  "save_project U now p0 s =
     (let p1 = p0\<lparr>pj_id := trim_space (pj_id p0), pj_name := trim_space (pj_name p0)\<rparr>;
          p2 = (if pj_id p1 = [] then p1\<lparr>pj_id := slug U (pj_name p1)\<rparr> else p1)
      in if pj_id p2 = [] \<or> pj_name p2 = [] then (s, Inl ProjectFieldsMissing)
         else
           (let p = (if pj_channel p2 = [] then p2\<lparr>pj_channel := ''stable''\<rparr> else p2)
            in case index_of (\<lambda>q. pj_id q = pj_id p) (ps_projects s) of
                 Some n \<Rightarrow>
                   (let q = p\<lparr>pj_created := (if pj_created p = 0 then pj_created (ps_projects s ! n) else pj_created p),
                              pj_updated := now\<rparr>
                    in (s\<lparr>ps_projects := (ps_projects s)[n := q]\<rparr>, Inr q))
               | None \<Rightarrow>
                   (let q = p\<lparr>pj_created := (if pj_created p = 0 then now else pj_created p),
                              pj_updated := (if pj_updated p = 0 then now else pj_updated p)\<rparr>
                    in (s\<lparr>ps_projects := ps_projects s @ [q]\<rparr>, Inr q))))"

section \<open>Profiles\<close>

definition profile_key :: "string \<Rightarrow> string \<Rightarrow> string" where
  "profile_key project i = project @ CHR 0x00 # i"

definition same_profile :: "profile \<Rightarrow> profile \<Rightarrow> bool" where
  "same_profile p q \<longleftrightarrow> pf_project q = pf_project p \<and> pf_id q = pf_id p"

definition present_profile :: "(string \<Rightarrow> string) \<Rightarrow> profile \<Rightarrow> profile" where
  \<comment> \<open>a stored profile as the methods read it\<close>
  "present_profile sha p =
     p\<lparr>pf_schema := profile_schema2, pf_revision := (if pf_revision p = 0 then 1 else pf_revision p),
       pf_digest := profile_digest sha (profile_spec_of p)\<rparr>"

definition list_profiles :: "(string \<Rightarrow> string) \<Rightarrow> string \<Rightarrow> profile_store \<Rightarrow> store_error + profile list" where
  \<comment> \<open>identifiers are unique within a project, so any sort by them gives this list\<close>
  "list_profiles sha project s =
     (case get_project project s of
        Inl e \<Rightarrow> Inl e
      | Inr _ \<Rightarrow>
          Inr (sort_key pf_id (map (present_profile sha) (filter (\<lambda>p. pf_project p = project) (ps_profiles s)))))"

definition save_profile :: "unicode \<Rightarrow> (string \<Rightarrow> string) \<Rightarrow> time \<Rightarrow> profile \<Rightarrow> profile_store \<Rightarrow> profile stored" where
  "save_profile U sha now p0 s =
     (case get_project (pf_project p0) s of
        Inl e \<Rightarrow> (s, Inl e)
      | Inr _ \<Rightarrow>
          (let p1 = p0\<lparr>pf_id := trim_space (pf_id p0), pf_name := trim_space (pf_name p0)\<rparr>;
               p2 = (if pf_id p1 = [] then p1\<lparr>pf_id := slug U (pf_name p1)\<rparr> else p1)
           in case normalize_profile sha p2 of
                Inl e \<Rightarrow> (s, Inl (InvalidProfile e))
              | Inr p \<Rightarrow>
                  (let key = profile_key (pf_project p) (pf_id p)
                   in case index_of (same_profile p) (ps_profiles s) of
                        Some n \<Rightarrow>
                          (let current = present_profile sha (ps_profiles s ! n)
                           in if pf_revision p \<noteq> 0 \<and> pf_revision p \<noteq> pf_revision current then (s, Inl StoreConflict)
                              else
                                (let past = (if ps_history s key = [] then [snapshot_profile sha current]
                                             else ps_history s key);
                                     s1 = s\<lparr>ps_history := (ps_history s)(key := past)\<rparr>
                                 in if pf_digest p = pf_digest current then (s1, Inr current)
                                    else
                                      (let q = p\<lparr>pf_revision := pf_revision current + 1,
                                                 pf_created := pf_created current, pf_updated := now\<rparr>
                                       in (s1\<lparr>ps_profiles := (ps_profiles s)[n := q],
                                              ps_history := (ps_history s)(key := past @ [snapshot_profile sha q])\<rparr>,
                                           Inr q))))
                      | None \<Rightarrow>
                          if pf_revision p > 1 then (s, Inl StoreConflict)
                          else
                            (let q = p\<lparr>pf_revision := 1, pf_created := now, pf_updated := now\<rparr>
                             in (s\<lparr>ps_profiles := ps_profiles s @ [q],
                                   ps_history := (ps_history s)(key := ps_history s key @ [snapshot_profile sha q])\<rparr>,
                                 Inr q)))))"

definition list_revisions :: "(string \<Rightarrow> string) \<Rightarrow> string \<Rightarrow> string \<Rightarrow> profile_store \<Rightarrow> store_error + profile_snapshot list" where
  "list_revisions sha project i s =
     (case first_some (\<lambda>p. pf_project p = project \<and> pf_id p = i) (ps_profiles s) of
        None \<Rightarrow> Inl StoreNotFound
      | Some p \<Rightarrow>
          (let past = ps_history s (profile_key project i)
           in Inr (if past = [] then [snapshot_profile sha (p\<lparr>pf_schema := profile_schema2, pf_revision := 1\<rparr>)] else past)))"

definition read_snapshot :: "(string \<Rightarrow> string) \<Rightarrow> string \<Rightarrow> string \<Rightarrow> profile_store \<Rightarrow> store_error + profile_snapshot" where
  "read_snapshot sha project i s =
     (case list_profiles sha project s of
        Inl e \<Rightarrow> Inl e
      | Inr ps \<Rightarrow>
          (case first_some (\<lambda>p. pf_id p = i) ps of
             None \<Rightarrow> Inl StoreNotFound
           | Some p \<Rightarrow> Inr (snapshot_profile sha p)))"

section \<open>The invariant\<close>

definition ident :: "profile \<Rightarrow> string \<times> string" where
  "ident p = (pf_project p, pf_id p)"

definition history_of :: "profile_store \<Rightarrow> profile \<Rightarrow> profile_snapshot list" where
  "history_of s p = ps_history s (profile_key (pf_project p) (pf_id p))"

definition history_ok :: "(string \<Rightarrow> string) \<Rightarrow> profile \<Rightarrow> profile_snapshot list \<Rightarrow> bool" where
  "history_ok sha p h \<longleftrightarrow>
     (h = [] \<longrightarrow> pf_revision p = 0 \<or> pf_revision p = 1) \<and>
     (\<forall>n < length h. sn_revision (h ! n) = int n + 1) \<and>
     (h \<noteq> [] \<longrightarrow> last h = snapshot_profile sha (present_profile sha p))"

definition profiles_ok :: "(string \<Rightarrow> string) \<Rightarrow> profile_store \<Rightarrow> bool" where
  "profiles_ok sha s \<longleftrightarrow>
     distinct (map ident (ps_profiles s)) \<and>
     (\<forall>p \<in> set (ps_profiles s). CHR 0x00 \<notin> set (pf_project p) \<and> history_ok sha p (history_of s p)) \<and>
     (\<forall>project i. (project, i) \<notin> ident ` set (ps_profiles s) \<and> CHR 0x00 \<notin> set project \<longrightarrow>
        ps_history s (profile_key project i) = [])"

lemma profile_key_inject:
  assumes "CHR 0x00 \<notin> set a" "CHR 0x00 \<notin> set b"
  shows "profile_key a i = profile_key b j \<longleftrightarrow> a = b \<and> i = j"
proof
  assume eq: "profile_key a i = profile_key b j"
  have "takeWhile (\<lambda>c. c \<noteq> CHR 0x00) (profile_key x k) = x" if "CHR 0x00 \<notin> set x" for x k
    using that by (induction x) (auto simp: profile_key_def)
  then have "a = b" using eq assms by metis
  then show "a = b \<and> i = j" using eq by (simp add: profile_key_def)
qed simp

lemma snapshot_revision [simp]: "sn_revision (snapshot_profile sha p) = pf_revision p"
  by (simp add: snapshot_profile_def Let_def)

lemma history_current:
  assumes "history_ok sha p h" "h \<noteq> []"
  shows "pf_revision (present_profile sha p) = int (length h)"
proof -
  have "\<forall>n < length h. sn_revision (h ! n) = int n + 1" "last h = snapshot_profile sha (present_profile sha p)"
    using assms by (simp_all add: history_ok_def)
  moreover have l: "last h = h ! (length h - 1)" "length h - 1 < length h" using assms(2) by (simp_all add: last_conv_nth)
  ultimately have "sn_revision (snapshot_profile sha (present_profile sha p)) = int (length h - 1) + 1" by metis
  then show ?thesis using l(2) by simp
qed

lemma present_positive:
  assumes "history_ok sha p h"
  shows "0 < pf_revision (present_profile sha p)"
proof (cases "h = []")
  case True
  then show ?thesis using assms by (auto simp: history_ok_def present_profile_def)
next
  case False
  then show ?thesis using history_current [OF assms] by simp
qed

lemma history_first:
  assumes "history_ok sha p []"
  shows "history_ok sha p [snapshot_profile sha (present_profile sha p)]"
  using assms by (auto simp: history_ok_def present_profile_def)

lemma history_grows:
  assumes "history_ok sha p h" "h \<noteq> []" "pf_revision q = int (length h) + 1" "q = present_profile sha q"
  shows "history_ok sha q (h @ [snapshot_profile sha q])"
proof -
  have "snapshot_profile sha (present_profile sha q) = snapshot_profile sha q" using assms(4) by simp
  then show ?thesis using assms(1,3) by (simp add: history_ok_def nth_append)
qed

lemma normalized_present:
  assumes "normalize_profile sha p0 = Inr p" "r \<noteq> 0"
  shows "present_profile sha (p\<lparr>pf_revision := r, pf_created := c, pf_updated := u\<rparr>) =
    p\<lparr>pf_revision := r, pf_created := c, pf_updated := u\<rparr>"
  using normalize_Inr(1,2) [OF assms(1)] assms(2)
  by (cases p) (simp add: present_profile_def profile_spec_of_def)

lemma profiles_ok_put:
  assumes "profiles_ok sha s" "CHR 0x00 \<notin> set (pf_project q)" "history_ok sha q h"
    and "set (ps_profiles t) = insert q {p \<in> set (ps_profiles s). ident p \<noteq> ident q}"
    and "distinct (map ident (ps_profiles t))" "ps_history t = (ps_history s)(profile_key (pf_project q) (pf_id q) := h)"
  shows "profiles_ok sha t"
  unfolding profiles_ok_def
proof (intro conjI ballI allI impI)
  show "distinct (map ident (ps_profiles t))" by (rule assms(5))
next
  fix p
  assume p: "p \<in> set (ps_profiles t)"
  then show "CHR 0x00 \<notin> set (pf_project p)" using assms(1,2,4) by (auto simp: profiles_ok_def)
  show "history_ok sha p (history_of t p)"
  proof (cases "p = q")
    case True
    then show ?thesis using assms(3,6) by (simp add: history_of_def)
  next
    case False
    then have s: "p \<in> set (ps_profiles s)" "ident p \<noteq> ident q" using p assms(4) by auto
    then have "CHR 0x00 \<notin> set (pf_project p)" "history_ok sha p (history_of s p)" using assms(1) by (simp_all add: profiles_ok_def)
    then show ?thesis using s(2) assms(2,6) by (auto simp: history_of_def ident_def profile_key_inject)
  qed
next
  fix project i
  assume k: "(project, i) \<notin> ident ` set (ps_profiles t) \<and> CHR 0x00 \<notin> set project"
  then have "(project, i) \<notin> ident ` set (ps_profiles s)" "(project, i) \<noteq> ident q" using assms(4) by auto
  then show "ps_history t (profile_key project i) = []"
    using assms(1,2,6) k by (auto simp: profiles_ok_def ident_def profile_key_inject)
qed

section \<open>Every operation keeps the invariant\<close>

lemma index_same:
  assumes "index_of (same_profile p) ps = Some n"
  shows "n < length ps" "ident (ps ! n) = ident p"
  using assms by (auto simp: index_of_Some same_profile_def ident_def)

lemma same_none: "index_of (same_profile p) ps = None \<Longrightarrow> ident p \<notin> ident ` set ps"
  by (auto simp: index_of_None same_profile_def ident_def)

lemma update_set:
  assumes "distinct (map ident ps)" "n < length ps" "ident q = ident (ps ! n)"
  shows "set (ps[n := q]) = insert q {p \<in> set ps. ident p \<noteq> ident q}" "map ident (ps[n := q]) = map ident ps"
proof -
  show m: "map ident (ps[n := q]) = map ident ps" using assms(2,3) by (simp add: map_update list_update_same_conv)
  have "ident (ps ! m) \<noteq> ident (ps ! n)" if "m < length ps" "m \<noteq> n" for m
    using assms(1,2) that by (metis distinct_conv_nth length_map nth_map)
  then have other: "ps ! m \<in> {p \<in> set ps. ident p \<noteq> ident q}" if "m < length ps" "m \<noteq> n" for m
    using that assms(3) by simp
  show "set (ps[n := q]) = insert q {p \<in> set ps. ident p \<noteq> ident q}"
  proof (intro set_eqI iffI)
    fix x
    assume "x \<in> set (ps[n := q])"
    then obtain m where m: "m < length ps" "x = ps[n := q] ! m" by (auto simp: in_set_conv_nth)
    then show "x \<in> insert q {p \<in> set ps. ident p \<noteq> ident q}" using other [OF m(1)] by (cases "m = n") auto
  next
    fix x
    assume x: "x \<in> insert q {p \<in> set ps. ident p \<noteq> ident q}"
    show "x \<in> set (ps[n := q])"
    proof (cases "x = q")
      case True
      then show ?thesis using assms(2) by (simp add: set_update_memI)
    next
      case False
      then obtain m where m: "m < length ps" "x = ps ! m" "ident x \<noteq> ident q" using x by (auto simp: in_set_conv_nth)
      then have "ps[n := q] ! m = x" using assms(3) by (cases "m = n") auto
      then show ?thesis using m(1) by (metis length_list_update nth_mem)
    qed
  qed
qed

text \<open>The outcomes of a save: nothing, a first history entry, a new revision, or a new profile.\<close>

lemma save_profile_cases:
  assumes "profiles_ok sha s" "save_profile U sha now p0 s = (t, out)"
  obtains (unchanged) "t = s"
  | (seen) n where "n < length (ps_profiles s)" "ident (ps_profiles s ! n) = ident (present_profile sha (ps_profiles s ! n))"
      "t = s\<lparr>ps_history := (ps_history s)(profile_key (pf_project (ps_profiles s ! n)) (pf_id (ps_profiles s ! n)) :=
         [snapshot_profile sha (present_profile sha (ps_profiles s ! n))])\<rparr>" "history_of s (ps_profiles s ! n) = []"
  | (revised) n q h where "n < length (ps_profiles s)" "ident q = ident (ps_profiles s ! n)" "q = present_profile sha q"
      "pf_revision q = pf_revision (present_profile sha (ps_profiles s ! n)) + 1"
      "h = (if history_of s q = [] then [snapshot_profile sha (present_profile sha (ps_profiles s ! n))] else history_of s q)"
      "t = s\<lparr>ps_profiles := (ps_profiles s)[n := q],
             ps_history := (ps_history s)(profile_key (pf_project q) (pf_id q) := h @ [snapshot_profile sha q])\<rparr>"
  | (created) q where "ident q \<notin> ident ` set (ps_profiles s)" "CHR 0x00 \<notin> set (pf_project q)" "q = present_profile sha q"
      "pf_revision q = 1" "t = s\<lparr>ps_profiles := ps_profiles s @ [q],
        ps_history := (ps_history s)(profile_key (pf_project q) (pf_id q) := history_of s q @ [snapshot_profile sha q])\<rparr>"
proof (cases "t = s")
  case True
  then show ?thesis by (rule unchanged)
next
  case False
  define p2 where "p2 = (let p1 = p0\<lparr>pf_id := trim_space (pf_id p0), pf_name := trim_space (pf_name p0)\<rparr>
    in if pf_id p1 = [] then p1\<lparr>pf_id := slug U (pf_name p1)\<rparr> else p1)"
  obtain p where p: "normalize_profile sha p2 = Inr p"
    using assms(2) False unfolding save_profile_def Let_def p2_def by (auto split: sum.split_asm)
  have known: "\<exists>x. get_project (pf_project p0) s = Inr x"
    using assms(2) False unfolding save_profile_def by (auto split: sum.split_asm)
  then obtain x where x: "get_project (pf_project p0) s = Inr x" by blast
  have nul: "CHR 0x00 \<notin> set (pf_project p)"
    using normalize_Inr(8) [OF p] by (auto simp: profile_texts_def)
  note run = assms(2) [unfolded save_profile_def Let_def x sum.case, folded p2_def [unfolded Let_def], unfolded p sum.case]
  let ?key = "profile_key (pf_project p) (pf_id p)"
  show ?thesis
  proof (cases "index_of (same_profile p) (ps_profiles s)")
    case None
    define q where "q = p\<lparr>pf_revision := 1, pf_created := now, pf_updated := now\<rparr>"
    have "t = s\<lparr>ps_profiles := ps_profiles s @ [q],
        ps_history := (ps_history s)(?key := ps_history s ?key @ [snapshot_profile sha q])\<rparr>"
      using run None False by (auto simp: q_def split: if_split_asm)
    moreover have "ident q = ident p" by (simp add: q_def ident_def)
    moreover have "q = present_profile sha q" unfolding q_def by (rule normalized_present [OF p, symmetric]) simp
    ultimately show ?thesis
      using created [of q] same_none [OF None] nul by (simp add: q_def history_of_def)
  next
    case (Some n)
    note n = index_same [OF Some]
    define c where "c = present_profile sha (ps_profiles s ! n)"
    have ci: "ident c = ident p" using n(2) by (simp add: c_def present_profile_def ident_def)
    define past where "past = (if ps_history s ?key = [] then [snapshot_profile sha c] else ps_history s ?key)"
    define q where "q = p\<lparr>pf_revision := pf_revision c + 1, pf_created := pf_created c, pf_updated := now\<rparr>"
    have hk: "ps_history s ?key = history_of s (ps_profiles s ! n)" using n(2) by (simp add: history_of_def ident_def)
    have ok: "history_ok sha (ps_profiles s ! n) (history_of s (ps_profiles s ! n))"
      using assms(1) n(1) by (simp add: profiles_ok_def)
    have pos: "0 < pf_revision c" unfolding c_def by (rule present_positive [OF ok])
    show ?thesis
    proof (cases "pf_digest p = pf_digest c")
      case True
      then have t: "t = s\<lparr>ps_history := (ps_history s)(?key := past)\<rparr>"
        using run Some False by (auto simp: c_def past_def split: if_split_asm)
      have h: "ps_history s ?key = []"
      proof (rule ccontr)
        assume "ps_history s ?key \<noteq> []"
        then have "(ps_history s)(?key := past) = ps_history s" by (simp add: past_def)
        then show False using t False by simp
      qed
      then show ?thesis
        using seen [OF n(1)] t n(2) hk by (simp add: past_def c_def ident_def present_profile_def)
    next
      case d: False
      have t: "t = s\<lparr>ps_profiles := (ps_profiles s)[n := q],
          ps_history := (ps_history s)(?key := past @ [snapshot_profile sha q])\<rparr>"
        using run Some False d by (auto simp: c_def past_def q_def split: if_split_asm)
      have "q = present_profile sha q"
        unfolding q_def by (rule normalized_present [OF p, symmetric]) (use pos in simp)
      then show ?thesis
        using revised [OF n(1), of q past] t n(2) hk
        by (simp add: q_def past_def c_def ident_def history_of_def)
    qed
  qed
qed

lemma save_profile_ok:
  assumes "profiles_ok sha s"
  shows "profiles_ok sha (fst (save_profile U sha now p0 s)) \<and>
    prefix (ps_history s k) (ps_history (fst (save_profile U sha now p0 s)) k)"
proof -
  obtain t out where run: "save_profile U sha now p0 s = (t, out)" by fastforce
  have d: "distinct (map ident (ps_profiles s))" using assms by (simp add: profiles_ok_def)
  have old: "CHR 0x00 \<notin> set (pf_project p)" "history_ok sha p (history_of s p)" if "p \<in> set (ps_profiles s)" for p
    using assms that by (simp_all add: profiles_ok_def)
  have "profiles_ok sha t \<and> prefix (ps_history s k) (ps_history t k)"
    using assms run
  proof (cases rule: save_profile_cases)
    case unchanged
    then show ?thesis using assms by simp
  next
    case (seen n)
    let ?p = "ps_profiles s ! n"
    have p: "?p \<in> set (ps_profiles s)" using seen(1) by simp
    have "set (ps_profiles s) = insert ?p {p \<in> set (ps_profiles s). ident p \<noteq> ident ?p}"
      using update_set(1) [OF d seen(1), of ?p] seen(1) by (simp add: list_update_same_conv)
    then have "profiles_ok sha t"
      by (intro profiles_ok_put [OF assms old(1) [OF p] history_first])
        (use old(2) [OF p] seen(3,4) d in simp_all)
    then show ?thesis using seen(3,4) by (auto simp: history_of_def)
  next
    case (revised n q h)
    let ?p = "ps_profiles s ! n"
    have p: "?p \<in> set (ps_profiles s)" using revised(1) by simp
    have hq: "history_of s q = history_of s ?p" and nul: "CHR 0x00 \<notin> set (pf_project q)"
      using revised(2) old(1) [OF p] by (simp_all add: history_of_def ident_def)
    have h: "history_ok sha ?p h" "h \<noteq> []"
      using revised(5) hq old(2) [OF p] history_first by (auto split: if_split_asm)
    have "history_ok sha q (h @ [snapshot_profile sha q])"
      by (rule history_grows [OF h _ revised(3)]) (use history_current [OF h] revised(4) in simp)
    moreover have "distinct (map ident (ps_profiles t))"
      using revised(6) update_set(2) [OF d revised(1,2)] d by simp
    ultimately have "profiles_ok sha t"
      by (intro profiles_ok_put [OF assms nul])
        (use revised(6) update_set(1) [OF d revised(1,2)] in simp_all)
    then show ?thesis using revised(5,6) by (auto simp: history_of_def)
  next
    case (created q)
    have none: "ps_history s (profile_key (pf_project q) (pf_id q)) = []"
      using assms created(1,2) by (simp add: profiles_ok_def ident_def)
    have "history_ok sha q [snapshot_profile sha q]"
      using created(3,4) by (auto simp: history_ok_def)
    moreover have "set (ps_profiles t) = insert q {p \<in> set (ps_profiles s). ident p \<noteq> ident q}"
      using created(1,5) by (auto simp: image_iff)
    ultimately have "profiles_ok sha t"
      by (intro profiles_ok_put [OF assms created(2)])
        (use created(1,5) none d in \<open>simp_all add: history_of_def\<close>)
    then show ?thesis using created(5) by (auto simp: history_of_def)
  qed
  then show ?thesis by (simp add: run)
qed

lemma save_project_frame:
  "ps_profiles (fst (save_project U now p s)) = ps_profiles s" "ps_history (fst (save_project U now p s)) = ps_history s"
  by (simp_all add: save_project_def Let_def split: option.split)

inductive profile_step :: "unicode \<Rightarrow> (string \<Rightarrow> string) \<Rightarrow> profile_store \<Rightarrow> profile_store \<Rightarrow> bool" for U sha where
  project_saved: "profile_step U sha s (fst (save_project U now p s))"
| profile_saved: "profile_step U sha s (fst (save_profile U sha now q s))"

lemma profile_step_keeps:
  assumes "profiles_ok sha s" "profile_step U sha s t"
  shows "profiles_ok sha t \<and> prefix (ps_history s k) (ps_history t k)"
  using assms(2)
proof cases
  case (project_saved now p)
  then show ?thesis using assms(1) by (simp add: profiles_ok_def history_of_def save_project_frame)
next
  case (profile_saved now q)
  then show ?thesis using save_profile_ok [OF assms(1)] by simp
qed

interpretation history_store:
  moving_store "profile_step U sha" "profiles_ok sha" "\<lambda>s k. Some (ps_history s k)" prefix for U sha
  by unfold_locales (use profile_step_keeps prefix_order.trans in auto)

definition initial_profiles :: "profile_store \<Rightarrow> bool" where
  "initial_profiles s \<longleftrightarrow>
     distinct (map ident (ps_profiles s)) \<and> ps_history s = (\<lambda>_. []) \<and>
     (\<forall>p \<in> set (ps_profiles s). CHR 0x00 \<notin> set (pf_project p) \<and> (pf_revision p = 0 \<or> pf_revision p = 1))"

definition profiles_reachable :: "unicode \<Rightarrow> (string \<Rightarrow> string) \<Rightarrow> profile_store \<Rightarrow> bool" where
  "profiles_reachable U sha s \<longleftrightarrow> (\<exists>s0. initial_profiles s0 \<and> (profile_step U sha)\<^sup>*\<^sup>* s0 s)"

lemma profiles_reachable_ok: "profiles_reachable U sha s \<Longrightarrow> profiles_ok sha s"
proof -
  assume "profiles_reachable U sha s"
  then obtain s0 where s0: "initial_profiles s0" "(profile_step U sha)\<^sup>*\<^sup>* s0 s" by (auto simp: profiles_reachable_def)
  have "profiles_ok sha s0"
    using s0(1) by (simp add: initial_profiles_def profiles_ok_def history_ok_def history_of_def)
  then show ?thesis using history_store.run_inv s0(2) by blast
qed

section \<open>Properties\<close>

lemma stored_unique:
  assumes "distinct (map ident ps)" "p \<in> set ps" "q \<in> set ps" "ident p = ident q"
  shows "p = q"
  using assms by (auto simp: distinct_map inj_on_def)

text \<open>C12: The history of a profile is its whole life: in every state that saves can reach, its snapshots are
  numbered from 1 without gaps, the last one is the profile as it is now, that snapshot is what a new release
  freezes, and whatever is saved later, the history only grows at its end.\<close>
theorem profile_history:
  assumes "profiles_reachable U sha s" "p \<in> set (ps_profiles s)" "history_of s p \<noteq> []"
  shows "(\<forall>n < length (history_of s p). sn_revision (history_of s p ! n) = int n + 1) \<and>
    (\<forall>x. get_project (pf_project p) s = Inr x \<longrightarrow>
       read_snapshot sha (pf_project p) (pf_id p) s = Inr (last (history_of s p))) \<and>
    (\<forall>t. (profile_step U sha)\<^sup>*\<^sup>* s t \<longrightarrow>
       prefix (history_of s p) (ps_history t (profile_key (pf_project p) (pf_id p))))"
proof (intro conjI allI impI)
  have ok: "profiles_ok sha s" by (rule profiles_reachable_ok [OF assms(1)])
  then have h: "history_ok sha p (history_of s p)" and d: "distinct (map ident (ps_profiles s))"
    using assms(2) by (simp_all add: profiles_ok_def)
  show "sn_revision (history_of s p ! n) = int n + 1" if "n < length (history_of s p)" for n
    using h that by (simp add: history_ok_def)
  fix x
  assume x: "get_project (pf_project p) s = Inr x"
  let ?ps = "map (present_profile sha) (filter (\<lambda>q. pf_project q = pf_project p) (ps_profiles s))"
  have one: "q = present_profile sha p" if "q \<in> set ?ps" "pf_id q = pf_id p" for q
  proof -
    from that(1) obtain r where r: "r \<in> set (ps_profiles s)" "q = present_profile sha r" "pf_project r = pf_project p"
      by (auto simp only: set_map set_filter)
    then have "ident r = ident p" using that(2) by (simp add: present_profile_def ident_def)
    then show ?thesis using stored_unique [OF d r(1) assms(2)] r(2) by simp
  qed
  have "present_profile sha p \<in> set ?ps" using assms(2) by auto
  moreover have "pf_id (present_profile sha p) = pf_id p" by (simp add: present_profile_def)
  ultimately have "first_some (\<lambda>q. pf_id q = pf_id p) (sort_key pf_id ?ps) \<noteq> None"
    by (auto simp: first_some_None)
  then obtain q where q: "first_some (\<lambda>q. pf_id q = pf_id p) (sort_key pf_id ?ps) = Some q" by blast
  then have "q = present_profile sha p" using first_some_Some [OF q] one by auto
  moreover have "last (history_of s p) = snapshot_profile sha (present_profile sha p)"
    using h assms(3) by (simp add: history_ok_def)
  ultimately show "read_snapshot sha (pf_project p) (pf_id p) s = Inr (last (history_of s p))"
    using q x by (simp add: read_snapshot_def list_profiles_def)
next
  fix t
  assume "(profile_step U sha)\<^sup>*\<^sup>* s t"
  from history_store.run_moves [OF this profiles_reachable_ok [OF assms(1)] refl]
  show "prefix (history_of s p) (ps_history t (profile_key (pf_project p) (pf_id p)))"
    by (simp add: history_of_def)
qed

lemma save_profile_done:
  assumes "profiles_ok sha s" "save_profile U sha now p0 s = (t, Inr q)"
  shows "CHR 0x00 \<notin> set (pf_project q) \<and> (\<exists>p \<in> set (ps_profiles t). ident p = ident q \<and> q = present_profile sha p) \<and>
    history_of t q \<noteq> [] \<and> (pf_revision p0 = 0 \<or> pf_revision p0 \<le> pf_revision q)"
proof -
  define p2 where "p2 = (let p1 = p0\<lparr>pf_id := trim_space (pf_id p0), pf_name := trim_space (pf_name p0)\<rparr>
    in if pf_id p1 = [] then p1\<lparr>pf_id := slug U (pf_name p1)\<rparr> else p1)"
  obtain x where x: "get_project (pf_project p0) s = Inr x"
    using assms(2) unfolding save_profile_def by (auto split: sum.split_asm)
  obtain p where p: "normalize_profile sha p2 = Inr p"
    using assms(2) unfolding save_profile_def Let_def p2_def x by (auto split: sum.split_asm)
  have nul: "CHR 0x00 \<notin> set (pf_project p)"
    using normalize_Inr(8) [OF p] by (auto simp: profile_texts_def)
  note run = assms(2) [unfolded save_profile_def Let_def x sum.case, folded p2_def [unfolded Let_def], unfolded p sum.case]
  have rev: "pf_revision p = pf_revision p0"
    using normalize_Inr(9) [OF p] by (auto simp: p2_def Let_def dest: arg_cong [of _ _ pf_revision])
  show ?thesis
  proof (cases "index_of (same_profile p) (ps_profiles s)")
    case None
    have "pf_revision p \<le> 1" "q = p\<lparr>pf_revision := 1, pf_created := now, pf_updated := now\<rparr>" "q \<in> set (ps_profiles t)" "history_of t q \<noteq> []"
      using run None by (auto simp: history_of_def split: if_split_asm)
    moreover from this have "q = present_profile sha q" using normalized_present [OF p, of 1 now now] by simp
    ultimately show ?thesis using nul rev by auto
  next
    case (Some n)
    note n = index_same [OF Some]
    let ?c = "present_profile sha (ps_profiles s ! n)"
    have ci: "ident ?c = ident p" using n(2) by (simp add: present_profile_def ident_def)
    show ?thesis
    proof (cases "pf_digest p = pf_digest ?c")
      case True
      then have "q = ?c" "pf_revision p = 0 \<or> pf_revision p = pf_revision ?c" "ps_profiles t = ps_profiles s" "ps_history t (profile_key (pf_project p) (pf_id p)) \<noteq> []"
        using run Some by (auto split: if_split_asm)
      then show ?thesis using n ci nul rev by (auto simp: ident_def history_of_def present_profile_def intro!: bexI [of _ "ps_profiles s ! n"])
    next
      case False
      then have q: "pf_revision p = 0 \<or> pf_revision p = pf_revision ?c" "q = p\<lparr>pf_revision := pf_revision ?c + 1, pf_created := pf_created ?c, pf_updated := now\<rparr>"
        "ps_profiles t = (ps_profiles s)[n := q]" "history_of t q \<noteq> []"
        using run Some by (auto simp: history_of_def split: if_split_asm)
      have "history_ok sha (ps_profiles s ! n) (history_of s (ps_profiles s ! n))"
        using assms(1) n(1) by (simp add: profiles_ok_def)
      then have "0 < pf_revision ?c" by (rule present_positive)
      then have "q = present_profile sha q"
        unfolding q(2) by (intro normalized_present [OF p, symmetric]) simp
      moreover have "q \<in> set (ps_profiles t)" using n(1) by (simp add: q(3) set_update_memI)
      ultimately show ?thesis using nul q(1,2,4) rev by auto
    qed
  qed
qed

text \<open>No lost updates: after a save based on a revision has stored a new one, every later save of the same profile
  based on the old revision is refused and changes nothing, whatever was saved in between.\<close>
lemma stale_save_refused:
  assumes "profiles_reachable U sha s" "save_profile U sha now p s = (t, Inr q)"
    and "pf_revision p \<noteq> 0" "pf_revision q \<noteq> pf_revision p" "(profile_step U sha)\<^sup>*\<^sup>* t u"
    and "pf_revision p' = pf_revision p" "pf_project p' = pf_project q" "trim_space (pf_id p') = pf_id q" "pf_id q \<noteq> []"
  shows "\<exists>e. save_profile U sha now' p' u = (u, Inl e)"
proof -
  have s: "profiles_ok sha s" by (rule profiles_reachable_ok [OF assms(1)])
  have t: "profiles_ok sha t" using save_profile_ok [OF s, of U now p] assms(2) by simp
  have u: "profiles_ok sha u" by (rule history_store.run_inv [OF assms(5) t])
  have q: "CHR 0x00 \<notin> set (pf_project q)" "history_of t q \<noteq> []"
    using save_profile_done [OF s assms(2)] by simp_all
  have less: "pf_revision p < pf_revision q" using save_profile_done [OF s assms(2)] assms(3,4) by auto
  obtain pt where pt: "pt \<in> set (ps_profiles t)" "ident pt = ident q" "q = present_profile sha pt"
    using save_profile_done [OF s assms(2)] by blast
  have lt: "pf_revision q = int (length (history_of t q))"
  proof -
    have "history_ok sha pt (history_of t pt)" using t pt(1) by (simp add: profiles_ok_def)
    moreover have "history_of t pt = history_of t q" using pt(2) by (simp add: history_of_def ident_def)
    ultimately show ?thesis using history_current q(2) pt(3) by metis
  qed
  have pre: "prefix (history_of t q) (history_of u q)"
    using history_store.run_moves [OF assms(5) t refl] by (simp add: history_of_def)
  then have hu: "history_of u q \<noteq> []" "length (history_of t q) \<le> length (history_of u q)"
    using q(2) prefix_length_le by (auto simp: prefix_def)
  have stored: "ident q \<in> ident ` set (ps_profiles u)"
    using u q(1) hu(1) by (auto simp: profiles_ok_def history_of_def ident_def)
  let ?p1 = "p'\<lparr>pf_id := trim_space (pf_id p'), pf_name := trim_space (pf_name p')\<rparr>"
  have id1: "pf_id ?p1 \<noteq> []" "pf_id ?p1 = pf_id q" using assms(8,9) by simp_all
  show ?thesis
  proof (cases "\<exists>x r. get_project (pf_project p') u = Inr x \<and> normalize_profile sha ?p1 = Inr r")
    case False
    then show ?thesis
      using id1(1) by (auto simp: save_profile_def Let_def split: sum.split)
  next
    case True
    then obtain x r where x: "get_project (pf_project p') u = Inr x" "normalize_profile sha ?p1 = Inr r" by blast
    have r: "pf_revision r = pf_revision p" "ident r = ident q"
      using normalize_Inr(9) [OF x(2)] assms(6-8)
      by (auto simp: ident_def dest: arg_cong [of _ _ pf_revision] arg_cong [of _ _ pf_project] arg_cong [of _ _ pf_id])
    have "index_of (same_profile r) (ps_profiles u) \<noteq> None"
      using stored r(2) by (auto simp: index_of_None same_profile_def ident_def)
    then obtain n where n: "index_of (same_profile r) (ps_profiles u) = Some n" by blast
    let ?c = "present_profile sha (ps_profiles u ! n)"
    have "history_ok sha (ps_profiles u ! n) (history_of u (ps_profiles u ! n))"
      using u index_same(1) [OF n] by (simp add: profiles_ok_def)
    moreover have "history_of u (ps_profiles u ! n) = history_of u q"
      using index_same(2) [OF n] r(2) by (simp add: history_of_def ident_def)
    ultimately have "history_ok sha (ps_profiles u ! n) (history_of u q)" by simp
    then have "pf_revision ?c = int (length (history_of u q))" using history_current hu(1) by blast
    then have "pf_revision r \<noteq> 0 \<and> pf_revision r \<noteq> pf_revision ?c"
      using hu(2) less lt r(1) assms(3) by simp
    then have "save_profile U sha now' p' u = (u, Inl StoreConflict)"
      using x n id1(1) by (simp add: save_profile_def Let_def)
    then show ?thesis by blast
  qed
qed

definition profiles_sample :: profile_store where
  "profiles_sample = \<lparr>ps_projects = [\<lparr>pj_id = ''p'', pj_name = ''P'', pj_description = [], pj_homepage = [],
     pj_repository = [], pj_channel = ''dev'', pj_created = 1, pj_updated = 1\<rparr>], ps_profiles = [], ps_history = (\<lambda>_. [])\<rparr>"

definition profile_sample :: "int \<Rightarrow> string \<Rightarrow> profile" where
  "profile_sample revision name = no_profile\<lparr>pf_project := ''p'', pf_id := ''f'', pf_name := name, pf_revision := revision\<rparr>"

definition saved_sample :: profile_store where
  "saved_sample = fst (save_profile ascii_only id 5 (profile_sample 0 ''F'') profiles_sample)"

definition resaved_sample :: profile_store where
  "resaved_sample = fst (save_profile ascii_only id 6 (profile_sample 1 ''G'') saved_sample)"

lemma profiles_sample_reachable:
  "profiles_reachable ascii_only id saved_sample" "profiles_reachable ascii_only id resaved_sample"
proof -
  have i: "initial_profiles profiles_sample" by (simp add: initial_profiles_def profiles_sample_def)
  have a: "profile_step ascii_only id profiles_sample saved_sample" unfolding saved_sample_def by (rule profile_saved)
  have b: "profile_step ascii_only id saved_sample resaved_sample" unfolding resaved_sample_def by (rule profile_saved)
  show "profiles_reachable ascii_only id saved_sample" using i a by (auto simp: profiles_reachable_def)
  show "profiles_reachable ascii_only id resaved_sample"
    unfolding profiles_reachable_def using i a b by (blast intro: rtranclp.rtrancl_into_rtrancl)
qed

theorem profile_history_witness:
  "\<exists>p \<in> set (ps_profiles resaved_sample). length (history_of resaved_sample p) = 2 \<and>
     sn_revision (history_of resaved_sample p ! 1) = 2"
proof -
  have "map (\<lambda>p. length (history_of resaved_sample p)) (ps_profiles resaved_sample) = [2]" by code_simp
  then obtain p where p: "ps_profiles resaved_sample = [p]" "length (history_of resaved_sample p) = 2" by auto
  then have "history_of resaved_sample p \<noteq> []" by auto
  from conjunct1 [OF profile_history [OF profiles_sample_reachable(2) _ this]] p show ?thesis by simp
qed

end
