(* ===== verification/DurableState.thy ===== *)
theory DurableState
  imports ProfileStore "HOL-Library.AList"
begin

text \<open>
  The state of the durable control plane as \<^verbatim>\<open>MemoryRepository\<close> keeps it (\<^verbatim>\<open>model/durable.go\<close>,
  \<^verbatim>\<open>repository/durable_memory.go\<close>, \<^verbatim>\<open>repository/operations_memory.go\<close>): jobs with leases and attempt logs,
  scope leases with fencing tokens, the outbox, single-use nonces, and the releases, integrity checks and
  channel heads that a publication reads and writes.  A Go map that the code iterates over is an association
  list without duplicate keys.  An operation is a function from a state to a state and a result (\<open>DurableRuns\<close> says
  what makes it one step); on an error the returned state is the one the code leaves behind.
\<close>

section \<open>Data\<close>

datatype document = \<comment> \<open>\<^verbatim>\<open>json.RawMessage\<close>: given text, or an object the code builds\<close>
    NoDocument
  | Raw string
  | PublishResult string time \<comment> \<open>release id, time of publication\<close>
  | PublishEvent string string string string string string int
      \<comment> \<open>package, project, profile, channel, version, actor, head revision\<close>

record job =
  jb_id :: string
  jb_kind :: string
  jb_actor_type :: string
  jb_actor :: string
  jb_action :: string
  jb_project :: string
  jb_resource_type :: string
  jb_resource :: string
  jb_key :: string
  jb_payload :: string
  jb_digest :: string
  jb_status :: string
  jb_owner :: string
  jb_token :: string
  jb_fence :: int
  jb_expires :: time
  jb_attempts :: int
  jb_max :: int
  jb_available :: time
  jb_error :: string
  jb_result :: document
  jb_created :: time
  jb_updated :: time
  jb_completed :: time

record job_attempt =
  at_job :: string
  at_number :: int
  at_worker :: string
  at_fence :: int
  at_started :: time
  at_finished :: time
  at_status :: string
  at_error :: string

record scope_lease =
  sc_scope :: string
  sc_owner :: string
  sc_token :: string
  sc_fence :: int
  sc_expires :: time
  sc_updated :: time

record outbox_event =
  ob_id :: string
  ob_type :: string
  ob_project :: string
  ob_aggregate_type :: string
  ob_aggregate :: string
  ob_actor :: string
  ob_key :: string
  ob_payload :: document
  ob_status :: string
  ob_owner :: string
  ob_token :: string
  ob_fence :: int
  ob_expires :: time
  ob_attempts :: int
  ob_max :: int
  ob_available :: time
  ob_error :: string
  ob_created :: time
  ob_updated :: time
  ob_delivered :: time

record publish_commit =
  pc_job :: string
  pc_job_token :: string
  pc_scope :: string
  pc_scope_token :: string
  pc_scope_fence :: int
  pc_manifest_digest :: string
  pc_artifact_digest :: string
  pc_status :: string
  pc_head_revision :: "int option"
  pc_actor :: string

record release_version =
  rv_id :: string
  rv_project :: string
  rv_profile :: string
  rv_channel :: string
  rv_version :: string
  rv_status :: string
  rv_manifest :: manifest
  rv_published :: time

record integrity_check = \<comment> \<open>without the four verdicts and the details, which nothing reads back\<close>
  ic_id :: string
  ic_package :: string
  ic_project :: string
  ic_manifest_digest :: string
  ic_artifact_digest :: string
  ic_result :: string
  ic_checked :: time

record channel_head =
  ch_project :: string
  ch_profile :: string
  ch_channel :: string
  ch_revision :: int
  ch_release :: string
  ch_version :: string
  ch_digest :: string
  ch_updated :: time

record durable =
  dr_jobs :: "(string \<times> job) list"
  dr_keys :: "string gomap"
  dr_digests :: "string gomap"
  dr_attempts :: "string \<Rightarrow> job_attempt list" \<comment> \<open>a missing key reads as the empty slice\<close>
  dr_scopes :: "scope_lease gomap"
  dr_outbox :: "(string \<times> outbox_event) list"
  dr_nonces :: "time gomap"
  dr_releases :: "release_version list"
  dr_checks :: "integrity_check list"
  dr_heads :: "channel_head gomap"

definition empty_durable :: durable where
  "empty_durable =
     \<lparr>dr_jobs = [], dr_keys = (\<lambda>_. None), dr_digests = (\<lambda>_. None), dr_attempts = (\<lambda>_. []), dr_scopes = (\<lambda>_. None),
      dr_outbox = [], dr_nonces = (\<lambda>_. None), dr_releases = [], dr_checks = [], dr_heads = (\<lambda>_. None)\<rparr>"

datatype durable_error =
    NotFound
  | Immutable
  | Conflict
  | LeaseBusy
  | LeaseLost
  | StableGate
  | RandomFailed
  | MissingJobFields
  | BadPayload
  | BadTerminalStatus
  | StatusRequired
  | Rejected schema_error
  | CatalogChanged
  | CheckFieldsMissing
  | BadCheckResult

type_synonym 'a outcome = "durable \<times> (durable_error + 'a)"

text \<open>The inputs an operation takes from outside: the readings of the clock, in order, and the random tokens.\<close>

type_synonym clock = "nat \<Rightarrow> time"
type_synonym random = "nat \<Rightarrow> string option"

section \<open>Constants\<close>

definition pending :: string where "pending = ''pending''"
definition running :: string where "running = ''running''"
definition succeeded :: string where "succeeded = ''succeeded''"
definition failed :: string where "failed = ''failed''"
definition revoked :: string where "revoked = ''revoked''"
definition dead :: string where "dead = ''dead''"
definition delivered :: string where "delivered = ''delivered''"
definition published :: string where "published = ''published''"

lemmas status_defs = pending_def running_def succeeded_def failed_def revoked_def dead_def delivered_def published_def

definition attempts_exhausted :: string where
  "attempts_exhausted =
     utf8 [1089, 1088, 1086, 1082, 32, 1072, 1088, 1077, 1085, 1076, 1099, 32, 1079, 1072, 1076, 1072, 1085,
     1080, 1103, 32, 1080, 1089, 1090, 1105, 1082, 59, 32, 1087, 1088, 1077, 1074, 1099, 1096, 1077, 1085,
     1086, 32, 1084, 1072, 1082, 1089, 1080, 1084, 1072, 1083, 1100, 1085, 1086, 1077, 32, 1095, 1080, 1089,
     1083, 1086, 32, 1087, 1086, 1087, 1099, 1090, 1086, 1082]"

definition taken_over :: string where
  "taken_over =
     utf8 [1089, 1088, 1086, 1082, 32, 1072, 1088, 1077, 1085, 1076, 1099, 32, 1079, 1072, 1076, 1072, 1085,
     1080, 1103, 32, 1080, 1089, 1090, 1105, 1082, 59, 32, 1079, 1072, 1076, 1072, 1085, 1080, 1077, 32, 1087,
     1088, 1080, 1085, 1103, 1090, 1086, 32, 1076, 1088, 1091, 1075, 1080, 1084, 32, 1080, 1089, 1087, 1086,
     1083, 1085, 1080, 1090, 1077, 1083, 1077, 1084]"

definition delivery_exhausted :: string where
  "delivery_exhausted =
     utf8 [1089, 1088, 1086, 1082, 32, 1072, 1088, 1077, 1085, 1076, 1099, 32, 1076, 1086, 1089, 1090, 1072,
     1074, 1082, 1080, 32, 1080, 1089, 1090, 1105, 1082, 59, 32, 1087, 1088, 1077, 1074, 1099, 1096, 1077,
     1085, 1086, 32, 1084, 1072, 1082, 1089, 1080, 1084, 1072, 1083, 1100, 1085, 1086, 1077, 32, 1095, 1080,
     1089, 1083, 1086, 32, 1087, 1086, 1087, 1099, 1090, 1086, 1082]"

definition second :: time where "second = 1000000000"

definition job_of :: "durable \<Rightarrow> string \<Rightarrow> job option" where
  "job_of s i = map_of (dr_jobs s) i"

definition put_job :: "string \<Rightarrow> job \<Rightarrow> durable \<Rightarrow> durable" where
  "put_job i j s = s\<lparr>dr_jobs := AList.update i j (dr_jobs s)\<rparr>"

definition event_of :: "durable \<Rightarrow> string \<Rightarrow> outbox_event option" where
  "event_of s k = map_of (dr_outbox s) k"

definition put_event :: "string \<Rightarrow> outbox_event \<Rightarrow> durable \<Rightarrow> durable" where
  "put_event k e s = s\<lparr>dr_outbox := AList.update k e (dr_outbox s)\<rparr>"

lemma job_of_put [simp]: "job_of (put_job i j s) k = (if k = i then Some j else job_of s k)"
  by (simp add: job_of_def put_job_def update_conv')

lemma event_of_put [simp]: "event_of (put_event i e s) k = (if k = i then Some e else event_of s k)"
  by (simp add: event_of_def put_event_def update_conv')

lemma put_job_frame [simp]:
  "dr_keys (put_job i j s) = dr_keys s" "dr_digests (put_job i j s) = dr_digests s"
  "dr_attempts (put_job i j s) = dr_attempts s" "dr_scopes (put_job i j s) = dr_scopes s"
  "dr_outbox (put_job i j s) = dr_outbox s" "dr_nonces (put_job i j s) = dr_nonces s"
  "dr_releases (put_job i j s) = dr_releases s" "dr_checks (put_job i j s) = dr_checks s"
  "dr_heads (put_job i j s) = dr_heads s" "event_of (put_job i j s) k = event_of s k"
  by (simp_all add: put_job_def event_of_def)

lemma put_event_frame [simp]:
  "dr_jobs (put_event i e s) = dr_jobs s" "dr_keys (put_event i e s) = dr_keys s"
  "dr_attempts (put_event i e s) = dr_attempts s" "dr_scopes (put_event i e s) = dr_scopes s"
  "dr_nonces (put_event i e s) = dr_nonces s" "dr_releases (put_event i e s) = dr_releases s"
  "dr_checks (put_event i e s) = dr_checks s" "dr_heads (put_event i e s) = dr_heads s"
  "job_of (put_event i e s) k = job_of s k"
  by (simp_all add: put_event_def job_of_def)

end
