(* ===== verification/DurableJobs.thy ===== *)
theory DurableJobs
  imports DurableState
begin

text \<open>
  The jobs of the durable control plane (\<^verbatim>\<open>EnqueueDurableJob\<close>, \<^verbatim>\<open>LeaseDurableJob(s)\<close>, \<^verbatim>\<open>FailDurableJob\<close>,
  \<^verbatim>\<open>TerminateDurableJob\<close> of \<^verbatim>\<open>durable_memory.go\<close>; completion, cancellation and retry of
  \<^verbatim>\<open>operations_memory.go\<close>) with the log of their attempts, and the invariant every operation keeps.
\<close>

section \<open>Enqueueing\<close>

record codec = \<comment> \<open>\<^verbatim>\<open>encoding/json\<close> and SHA-256 in hexadecimal\<close>
  cd_canonical :: "string \<Rightarrow> string option"
  cd_valid :: "string \<Rightarrow> bool"
  cd_manifest :: "manifest \<Rightarrow> string"
  cd_sha :: "string \<Rightarrow> string"

definition trim_job :: "job \<Rightarrow> job" where
  "trim_job j =
     j\<lparr>jb_kind := trim_space (jb_kind j), jb_actor_type := trim_space (jb_actor_type j),
       jb_actor := trim_space (jb_actor j), jb_action := trim_space (jb_action j),
       jb_project := trim_space (jb_project j), jb_resource_type := trim_space (jb_resource_type j),
       jb_resource := trim_space (jb_resource j), jb_key := trim_space (jb_key j)\<rparr>"

definition complete_job :: "time \<Rightarrow> job \<Rightarrow> job" where
  "complete_job now j =
     j\<lparr>jb_status := (if jb_status j = [] then pending else jb_status j),
       jb_max := (if jb_max j \<le> 0 then 8 else jb_max j),
       jb_available := (if jb_available j = 0 then now else jb_available j),
       jb_created := (if jb_created j = 0 then now else jb_created j),
       jb_updated := now\<rparr>"

definition normalize_job :: "codec \<Rightarrow> clock \<Rightarrow> random \<Rightarrow> job \<Rightarrow> durable_error + job" where
  "normalize_job cd clk rnd job0 =
     (let job = trim_job job0
      in if jb_kind job = [] \<or> jb_actor_type job = [] \<or> jb_actor job = [] \<or> jb_action job = [] \<or>
            jb_resource_type job = [] \<or> jb_resource job = [] \<or> jb_key job = []
         then Inl MissingJobFields
         else
           (case cd_canonical cd (if jb_payload job = [] then ''{}'' else jb_payload job) of
              None \<Rightarrow> Inl BadPayload
            | Some payload \<Rightarrow>
                (let j = job\<lparr>jb_payload := payload, jb_digest := cd_sha cd payload\<rparr>
                 in if jb_id j = [] then
                      (case rnd 0 of
                         None \<Rightarrow> Inl RandomFailed
                       | Some token \<Rightarrow> Inr (complete_job (clk 0) (j\<lparr>jb_id := ''job_'' @ token\<rparr>)))
                    else Inr (complete_job (clk 0) j))))"

definition job_key :: "job \<Rightarrow> string" where
  "job_key j = join_char (CHR 0x00) [jb_kind j, jb_actor_type j, jb_actor j, jb_key j]"

definition idempotency_scope :: "job \<Rightarrow> string" where
  "idempotency_scope j = ''job:'' @ jb_kind j @ '':'' @ jb_actor_type j @ '':'' @ jb_actor j"

definition no_job :: job where
  "no_job =
     \<lparr>jb_id = [], jb_kind = [], jb_actor_type = [], jb_actor = [], jb_action = [], jb_project = [],
      jb_resource_type = [], jb_resource = [], jb_key = [], jb_payload = [], jb_digest = [], jb_status = [],
      jb_owner = [], jb_token = [], jb_fence = 0, jb_expires = 0, jb_attempts = 0, jb_max = 0, jb_available = 0,
      jb_error = [], jb_result = NoDocument, jb_created = 0, jb_updated = 0, jb_completed = 0\<rparr>"

definition enqueue_job :: "codec \<Rightarrow> clock \<Rightarrow> random \<Rightarrow> job \<Rightarrow> durable \<Rightarrow> (job \<times> bool) outcome" where
  "enqueue_job cd clk rnd job0 s =
     (case normalize_job cd clk rnd job0 of
        Inl e \<Rightarrow> (s, Inl e)
      | Inr job \<Rightarrow>
          (let known = (case dr_keys s (job_key job) of None \<Rightarrow> [] | Some i \<Rightarrow> i)
           in if known \<noteq> [] then
                (let existing = (case job_of s known of None \<Rightarrow> no_job | Some j \<Rightarrow> j)
                 in if jb_digest existing \<noteq> jb_digest job then (s, Inl Conflict) else (s, Inr (existing, False)))
              else
                ((put_job (jb_id job) job s)
                   \<lparr>dr_keys := (dr_keys s)(job_key job \<mapsto> jb_id job),
                    dr_digests := (dr_digests s)(idempotency_scope job @ CHR 0x00 # jb_key job \<mapsto> jb_digest job)\<rparr>,
                 Inr (job, True))))"

definition get_job :: "string \<Rightarrow> durable \<Rightarrow> durable_error + job" where
  "get_job i s = (case job_of s (trim_space i) of None \<Rightarrow> Inl NotFound | Some j \<Rightarrow> Inr j)"

section \<open>Attempts\<close>

definition close_attempt :: "string \<Rightarrow> string \<Rightarrow> time \<Rightarrow> job_attempt \<Rightarrow> job_attempt" where
  "close_attempt status reason now a = a\<lparr>at_status := status, at_error := reason, at_finished := now\<rparr>"

fun close_last :: "(job_attempt \<Rightarrow> job_attempt) \<Rightarrow> job_attempt list \<Rightarrow> job_attempt list" where
  \<comment> \<open>over the reversed log: the newest attempt that is still running\<close>
  "close_last f [] = []"
| "close_last f (a # as) = (if at_status a = running then f a # as else a # close_last f as)"

definition finish_attempt :: "string \<Rightarrow> string \<Rightarrow> string \<Rightarrow> time \<Rightarrow> durable \<Rightarrow> durable" where
  "finish_attempt i status reason now s =
     s\<lparr>dr_attempts := (dr_attempts s)(i := rev (close_last (close_attempt status reason now) (rev (dr_attempts s i))))\<rparr>"

definition list_attempts :: "string \<Rightarrow> durable \<Rightarrow> durable_error + job_attempt list" where
  "list_attempts i s = (case job_of s i of None \<Rightarrow> Inl NotFound | Some _ \<Rightarrow> Inr (dr_attempts s i))"

definition find_by_key :: "string \<Rightarrow> string \<Rightarrow> string \<Rightarrow> durable \<Rightarrow> durable_error + job" where
  "find_by_key kind actor key s =
     (case dr_keys s (join_char (CHR 0x00) [kind, ''user'', actor, key]) of
        None \<Rightarrow> Inl NotFound
      | Some i \<Rightarrow> if i = [] then Inl NotFound else (case job_of s i of None \<Rightarrow> Inl NotFound | Some j \<Rightarrow> Inr j))"

section \<open>Leases\<close>

definition terminal_status :: "string \<Rightarrow> bool" where
  "terminal_status st \<longleftrightarrow> st = succeeded \<or> st = revoked \<or> st = failed \<or> st = dead"

definition bury_job :: "time \<Rightarrow> job \<Rightarrow> job" where
  "bury_job now j =
     j\<lparr>jb_status := dead, jb_error := attempts_exhausted, jb_completed := now, jb_updated := now, jb_owner := [],
       jb_token := [], jb_expires := 0\<rparr>"

definition start_job :: "string \<Rightarrow> string \<Rightarrow> time \<Rightarrow> time \<Rightarrow> job \<Rightarrow> job" where
  "start_job worker token now ttl j =
     j\<lparr>jb_status := running, jb_owner := worker, jb_token := token, jb_fence := jb_fence j + 1,
       jb_expires := now + ttl, jb_attempts := jb_attempts j + 1, jb_updated := now, jb_error := []\<rparr>"

definition new_attempt :: "string \<Rightarrow> string \<Rightarrow> job \<Rightarrow> time \<Rightarrow> job_attempt" where
  "new_attempt i worker j now =
     \<lparr>at_job = i, at_number = jb_attempts j, at_worker = worker, at_fence = jb_fence j, at_started = now,
      at_finished = 0, at_status = running, at_error = []\<rparr>"

definition lease_locked ::
    "time \<Rightarrow> time \<Rightarrow> string option \<Rightarrow> string \<Rightarrow> string \<Rightarrow> time \<Rightarrow> durable \<Rightarrow> job outcome" where
  \<comment> \<open>\<open>now\<close> is the method's own reading, \<open>later\<close> the one that closes an attempt\<close>
  "lease_locked now later token i worker ttl0 s =
     (case job_of s i of
        None \<Rightarrow> (s, Inl NotFound)
      | Some j \<Rightarrow>
          if terminal_status (jb_status j) then (s, Inl Immutable)
          else if jb_status j = running \<and> jb_expires j > now then (s, Inl LeaseBusy)
          else if jb_attempts j \<ge> jb_max j then
            (put_job i (bury_job now j) (finish_attempt i dead attempts_exhausted later s), Inl Immutable)
          else if jb_available j > now then (s, Inl LeaseBusy)
          else
            (case token of
               None \<Rightarrow> (s, Inl RandomFailed)
             | Some tok \<Rightarrow>
                 (let ttl = (if ttl0 \<le> 0 then 30 * second else ttl0);
                      s1 = (if jb_status j = running \<and> jb_attempts j > 0
                            then finish_attempt i failed taken_over later s else s);
                      k = start_job worker tok now ttl j;
                      s2 = put_job i k s1
                  in (s2\<lparr>dr_attempts := (dr_attempts s2)(i := dr_attempts s2 i @ [new_attempt i worker k now])\<rparr>,
                      Inr k))))"

definition lease_job :: "clock \<Rightarrow> random \<Rightarrow> string \<Rightarrow> string \<Rightarrow> time \<Rightarrow> durable \<Rightarrow> job outcome" where
  "lease_job clk rnd i worker ttl s = lease_locked (clk 0) (clk 1) (rnd 0) (trim_space i) (trim_space worker) ttl s"

definition scan_job :: "time \<Rightarrow> time \<Rightarrow> string \<Rightarrow> string \<Rightarrow> durable \<times> string list \<Rightarrow> durable \<times> string list" where
  "scan_job now later kind i acc =
     (case acc of (s, ids) \<Rightarrow>
        (case job_of s i of
           None \<Rightarrow> (s, ids)
         | Some j \<Rightarrow>
             if jb_kind j \<noteq> kind then (s, ids)
             else if jb_status j = running \<and> jb_attempts j \<ge> jb_max j \<and> \<not> jb_expires j > now then
               (put_job i (bury_job now j) (finish_attempt i dead attempts_exhausted later s), ids)
             else if jb_attempts j \<ge> jb_max j \<or> jb_available j > now then (s, ids)
             else if jb_status j = pending \<or> (jb_status j = running \<and> \<not> jb_expires j > now) then (s, ids @ [i])
             else (s, ids)))"

fun lease_each ::
    "clock \<Rightarrow> random \<Rightarrow> nat \<Rightarrow> string \<Rightarrow> time \<Rightarrow> string list \<Rightarrow> durable \<Rightarrow> job list \<Rightarrow> durable \<times> job list" where
  "lease_each clk rnd n worker ttl [] s out = (s, out)"
| "lease_each clk rnd n worker ttl (i # is) s out =
     (case lease_locked (clk (2 * n)) (clk (2 * n + 1)) (rnd n) i worker ttl s of
        (t, Inl _) \<Rightarrow> lease_each clk rnd (n + 1) worker ttl is t out
      | (t, Inr j) \<Rightarrow> lease_each clk rnd (n + 1) worker ttl is t (out @ [j]))"

definition lease_jobs ::
    "clock \<Rightarrow> random \<Rightarrow> (string list \<Rightarrow> string list) \<Rightarrow> (durable \<Rightarrow> string list \<Rightarrow> string list) \<Rightarrow>
     string \<Rightarrow> string \<Rightarrow> int \<Rightarrow> time \<Rightarrow> durable \<Rightarrow> job list outcome" where
  \<comment> \<open>\<open>order\<close>: the iteration order of the map; \<open>by_created\<close>: \<^verbatim>\<open>sort.Slice\<close> on the creation times\<close>
  "lease_jobs clk rnd order by_created kind worker limit0 ttl s =
     (let limit = (if limit0 \<le> 0 then 16 else limit0);
          keys = order (map fst (dr_jobs s));
          (s1, ids) = fold (\<lambda>(n, i). scan_job (clk 0) (clk (n + 1)) kind i) (enumerate 0 keys) (s, []);
          (s2, out) = lease_each clk rnd (length keys + 1) worker ttl (take (nat limit) (by_created s1 ids)) s1 []
      in (s2, Inr out))"

section \<open>The end of a lease\<close>

definition holds_job :: "string \<Rightarrow> time \<Rightarrow> job \<Rightarrow> bool" where
  "holds_job token now j \<longleftrightarrow> \<not> (jb_status j \<noteq> running \<or> jb_token j \<noteq> token \<or> \<not> jb_expires j > now)"

definition clear_lease :: "job \<Rightarrow> job" where
  "clear_lease j = j\<lparr>jb_owner := [], jb_token := [], jb_expires := 0\<rparr>"

definition fail_job :: "clock \<Rightarrow> string \<Rightarrow> string \<Rightarrow> string \<Rightarrow> time \<Rightarrow> durable \<Rightarrow> job outcome" where
  "fail_job clk i token why retry_after s =
     (case job_of s i of
        None \<Rightarrow> (s, Inl NotFound)
      | Some j \<Rightarrow>
          if \<not> holds_job token (clk 0) j then (s, Inl LeaseLost)
          else
            (let s1 = finish_attempt i failed why (clk 1) s;
                 j1 = (if jb_attempts j \<ge> jb_max j then j\<lparr>jb_status := dead, jb_completed := clk 2\<rparr>
                       else j\<lparr>jb_status := pending\<rparr>);
                 k = (clear_lease j1)\<lparr>jb_available := clk 3 + retry_after, jb_error := why, jb_updated := clk 4\<rparr>
             in (put_job i k s1, Inr k)))"

definition terminate_job :: "clock \<Rightarrow> string \<Rightarrow> string \<Rightarrow> string \<Rightarrow> string \<Rightarrow> durable \<Rightarrow> job outcome" where
  "terminate_job clk i token status reason s =
     (if status \<noteq> revoked \<and> status \<noteq> failed \<and> status \<noteq> dead then (s, Inl BadTerminalStatus)
      else
        (case job_of s i of
           None \<Rightarrow> (s, Inl NotFound)
         | Some j \<Rightarrow>
             if \<not> holds_job token (clk 0) j then (s, Inl LeaseLost)
             else
               (let s1 = finish_attempt i status reason (clk 1) s;
                    k = (clear_lease (j\<lparr>jb_status := status\<rparr>))
                          \<lparr>jb_error := reason, jb_updated := clk 2, jb_completed := clk 2\<rparr>
                in (put_job i k s1, Inr k))))"

definition complete_operation :: "codec \<Rightarrow> clock \<Rightarrow> string \<Rightarrow> string \<Rightarrow> string \<Rightarrow> durable \<Rightarrow> job outcome" where
  "complete_operation cd clk i token result s =
     (case job_of s i of
        None \<Rightarrow> (s, Inl NotFound)
      | Some j \<Rightarrow>
          if \<not> holds_job token (clk 0) j then (s, Inl LeaseLost)
          else if \<not> cd_valid cd result then (s, Inl Conflict)
          else
            (let s1 = finish_attempt i succeeded [] (clk 1) s;
                 k = (clear_lease (j\<lparr>jb_status := succeeded, jb_result := Raw result\<rparr>))
                       \<lparr>jb_updated := clk 2, jb_completed := clk 2\<rparr>
             in (put_job i k s1, Inr k)))"

definition cancel_operation :: "clock \<Rightarrow> string \<Rightarrow> string \<Rightarrow> durable \<Rightarrow> job outcome" where
  "cancel_operation clk i actor s =
     (case job_of s i of
        None \<Rightarrow> (s, Inl NotFound)
      | Some j \<Rightarrow>
          if jb_status j \<noteq> pending then (s, Inl Immutable)
          else
            (let k = j\<lparr>jb_status := failed, jb_error := ''cancelled-by:'' @ actor, jb_updated := clk 0,
                       jb_completed := clk 0\<rparr>
             in (put_job i k s, Inr k)))"

definition retry_operation :: "clock \<Rightarrow> string \<Rightarrow> durable \<Rightarrow> job outcome" where
  "retry_operation clk i s =
     (case job_of s i of
        None \<Rightarrow> (s, Inl NotFound)
      | Some j \<Rightarrow>
          if jb_status j \<noteq> failed \<and> jb_status j \<noteq> dead \<and> jb_status j \<noteq> revoked then (s, Inl Immutable)
          else
            (let k = j\<lparr>jb_status := pending,
                       jb_max := (if jb_max j < jb_attempts j + 8 then jb_attempts j + 8 else jb_max j),
                       jb_error := [], jb_available := clk 0, jb_completed := 0, jb_result := NoDocument,
                       jb_updated := clk 0\<rparr>
             in (put_job i k s, Inr k)))"

section \<open>The invariant\<close>

definition closed_log :: "job_attempt list \<Rightarrow> bool" where
  "closed_log as \<longleftrightarrow> (\<forall>a \<in> set as. at_status a \<noteq> running)"

definition open_log :: "job_attempt list \<Rightarrow> bool" where
  "open_log as \<longleftrightarrow> as \<noteq> [] \<and> closed_log (butlast as) \<and> at_status (last as) = running"

definition numbered :: "job_attempt list \<Rightarrow> bool" where
  "numbered as \<longleftrightarrow> (\<forall>n < length as. at_number (as ! n) = int n + 1 \<and> at_fence (as ! n) = int n + 1)"

definition job_ok :: "job \<Rightarrow> bool" where
  "job_ok j \<longleftrightarrow>
     0 \<le> jb_attempts j \<and> jb_attempts j \<le> jb_max j \<and> jb_fence j = jb_attempts j \<and>
     (jb_status j = pending \<or> jb_status j = running \<or> terminal_status (jb_status j)) \<and>
     (jb_status j \<noteq> running \<longrightarrow> jb_token j = [] \<and> jb_owner j = [] \<and> jb_expires j = 0) \<and>
     (jb_status j = running \<longrightarrow> 0 < jb_attempts j)"

definition log_ok :: "job \<Rightarrow> job_attempt list \<Rightarrow> bool" where
  "log_ok j as \<longleftrightarrow>
     int (length as) = jb_attempts j \<and> numbered as \<and> (if jb_status j = running then open_log as else closed_log as)"

definition jobs_ok :: "durable \<Rightarrow> bool" where
  "jobs_ok s \<longleftrightarrow>
     distinct (map fst (dr_jobs s)) \<and>
     (\<forall>i j. job_of s i = Some j \<longrightarrow> job_ok j \<and> log_ok j (dr_attempts s i) \<and> jb_id j = i) \<and>
     (\<forall>i. job_of s i = None \<longrightarrow> dr_attempts s i = [])"

lemma statuses_differ [simp]:
  "pending \<noteq> running" "succeeded \<noteq> running" "failed \<noteq> running" "revoked \<noteq> running" "dead \<noteq> running"
  "running \<noteq> pending" "running \<noteq> succeeded" "running \<noteq> failed" "running \<noteq> revoked" "running \<noteq> dead"
  "pending \<noteq> succeeded" "pending \<noteq> failed" "pending \<noteq> revoked" "pending \<noteq> dead"
  "succeeded \<noteq> pending" "succeeded \<noteq> failed" "succeeded \<noteq> revoked" "succeeded \<noteq> dead"
  "delivered \<noteq> pending" "delivered \<noteq> running" "delivered \<noteq> dead" "dead \<noteq> delivered" "pending \<noteq> delivered"
  "running \<noteq> delivered" "dead \<noteq> pending" "failed \<noteq> pending" "revoked \<noteq> pending"
  "failed \<noteq> succeeded" "revoked \<noteq> succeeded" "dead \<noteq> succeeded"
  by (simp_all add: status_defs)

lemma terminal_not [simp]: "\<not> terminal_status running" "\<not> terminal_status pending"
  "terminal_status succeeded" "terminal_status failed" "terminal_status revoked" "terminal_status dead"
  by (simp_all add: terminal_status_def)

lemma close_last_closed: "closed_log as \<Longrightarrow> close_last f as = as"
  by (induction as) (simp_all add: closed_log_def)

lemma close_last_open:
  assumes "open_log as"
  shows "rev (close_last f (rev as)) = butlast as @ [f (last as)]"
proof -
  have r: "rev as = last as # rev (butlast as)"
    using assms by (cases as rule: rev_cases) (simp_all add: open_log_def)
  have "close_last f (rev as) = f (last as) # rev (butlast as)"
    unfolding r using assms by (simp add: open_log_def)
  then show ?thesis by simp
qed

text \<open>Closing the newest attempt leaves a log without a running attempt.\<close>

lemma finish_log:
  assumes "open_log as \<or> closed_log as" "numbered as" "status \<noteq> running"
    and "bs = rev (close_last (close_attempt status why now) (rev as))"
  shows "closed_log bs" "numbered bs" "length bs = length as"
proof -
  have bs: "bs = (if open_log as then butlast as @ [close_attempt status why now (last as)] else as)"
    using assms(1,4) close_last_open close_last_closed [of "rev as"] by (auto simp: closed_log_def)
  have "open_log as \<Longrightarrow> as = butlast as @ [last as]" by (simp add: open_log_def)
  then show "length bs = length as" unfolding bs by (metis length_append_singleton)
  show "closed_log bs"
    using bs assms(1,3) by (auto simp: closed_log_def open_log_def close_attempt_def)
  show "numbered bs"
  proof (cases "open_log as")
    case True
    then obtain xs x where as: "as = xs @ [x]" by (cases as rule: rev_cases) (simp_all add: open_log_def)
    show ?thesis using bs True assms(2)
      by (auto simp: as numbered_def nth_append close_attempt_def less_Suc_eq split: if_splits)
  next
    case False
    then show ?thesis using bs assms(2) by simp
  qed
qed

lemma log_start:
  assumes "closed_log as" "numbered as" "int (length as) = n"
    and "at_number a = n + 1" "at_fence a = n + 1" "at_status a = running"
  shows "open_log (as @ [a])" "numbered (as @ [a])"
  using assms by (auto simp: open_log_def numbered_def nth_append less_Suc_eq)

lemma jobs_ok_update:
  assumes "jobs_ok s" "dr_jobs t = AList.update i k (dr_jobs s)" "\<forall>m. m \<noteq> i \<longrightarrow> dr_attempts t m = dr_attempts s m"
    and "job_ok k" "log_ok k (dr_attempts t i)" "jb_id k = i"
  shows "jobs_ok t"
proof -
  have "job_of t m = (if m = i then Some k else job_of s m)" for m
    by (simp add: job_of_def assms(2) update_conv')
  then show ?thesis
    using assms(1,3-6) unfolding jobs_ok_def by (auto simp: assms(2) distinct_update)
qed

lemma jobs_okD:
  assumes "jobs_ok s" "job_of s i = Some j"
  shows "job_ok j" "log_ok j (dr_attempts s i)" "jb_id j = i"
  using assms by (simp_all add: jobs_ok_def)

lemma log_ok_cases: "log_ok j as \<Longrightarrow> open_log as \<or> closed_log as" "log_ok j as \<Longrightarrow> numbered as"
  by (auto simp: log_ok_def split: if_splits)

section \<open>Every operation keeps the invariant\<close>

definition fresh_request :: "job \<Rightarrow> bool" where \<comment> \<open>what the callers of \<^verbatim>\<open>EnqueueDurableJob\<close> pass\<close>
  "fresh_request j \<longleftrightarrow>
     (jb_status j = [] \<or> jb_status j = pending) \<and> jb_token j = [] \<and> jb_owner j = [] \<and> jb_expires j = 0 \<and>
     jb_attempts j = 0 \<and> jb_fence j = 0"

definition unused_id :: "codec \<Rightarrow> clock \<Rightarrow> random \<Rightarrow> job \<Rightarrow> durable \<Rightarrow> bool" where
  "unused_id cd clk rnd job0 s \<longleftrightarrow>
     (case normalize_job cd clk rnd job0 of Inl _ \<Rightarrow> True | Inr j \<Rightarrow> job_of s (jb_id j) = None)"

lemma normalize_job_shape:
  assumes "normalize_job cd clk rnd j0 = Inr j"
  shows "\<exists>p d i. j = complete_job (clk 0) ((trim_job j0)\<lparr>jb_payload := p, jb_digest := d, jb_id := i\<rparr>)"
proof -
  let ?t = "trim_job j0"
  obtain p where p: "cd_canonical cd (if jb_payload ?t = [] then ''{}'' else jb_payload ?t) = Some p"
    using assms unfolding normalize_job_def Let_def by (auto split: if_split_asm option.split_asm)
  let ?k = "?t\<lparr>jb_payload := p, jb_digest := cd_sha cd p\<rparr>"
  have k: "?k = ?t\<lparr>jb_payload := p, jb_digest := cd_sha cd p, jb_id := jb_id ?t\<rparr>" by simp
  show ?thesis
  proof (cases "jb_id ?t = []")
    case True
    then obtain token where "j = complete_job (clk 0) (?k\<lparr>jb_id := ''job_'' @ token\<rparr>)"
      using assms p unfolding normalize_job_def Let_def by (auto split: if_split_asm option.split_asm)
    then show ?thesis by blast
  next
    case False
    then have "j = complete_job (clk 0) ?k"
      using assms p unfolding normalize_job_def Let_def by (auto split: if_split_asm)
    then show ?thesis using k by metis
  qed
qed

lemma normalize_job_fields:
  assumes "normalize_job cd clk rnd j0 = Inr j"
  shows "jb_status j = (if jb_status j0 = [] then pending else jb_status j0)" "jb_token j = jb_token j0"
    "jb_owner j = jb_owner j0" "jb_expires j = jb_expires j0" "jb_attempts j = jb_attempts j0"
    "jb_fence j = jb_fence j0" "0 < jb_max j"
proof -
  obtain p d i where j: "j = complete_job (clk 0) ((trim_job j0)\<lparr>jb_payload := p, jb_digest := d, jb_id := i\<rparr>)"
    using normalize_job_shape [OF assms] by blast
  show "jb_status j = (if jb_status j0 = [] then pending else jb_status j0)" "jb_token j = jb_token j0"
    "jb_owner j = jb_owner j0" "jb_expires j = jb_expires j0" "jb_attempts j = jb_attempts j0"
    "jb_fence j = jb_fence j0" "0 < jb_max j"
    unfolding j by (simp_all add: complete_job_def trim_job_def)
qed

lemma enqueue_jobs_ok:
  assumes "jobs_ok s" "fresh_request job0" "unused_id cd clk rnd job0 s"
  shows "jobs_ok (fst (enqueue_job cd clk rnd job0 s))"
proof (cases "normalize_job cd clk rnd job0")
  case (Inl e)
  then show ?thesis using assms(1) by (simp add: enqueue_job_def)
next
  case (Inr j)
  note f = normalize_job_fields [OF Inr]
  have k: "job_ok j" "log_ok j []"
    using f assms(2) by (auto simp: job_ok_def fresh_request_def log_ok_def numbered_def closed_log_def)
  have n: "job_of s (jb_id j) = None" using assms(3) by (simp add: unused_id_def Inr)
  then have "dr_attempts s (jb_id j) = []" using assms(1) by (simp add: jobs_ok_def)
  then have "jobs_ok ((put_job (jb_id j) j s)\<lparr>dr_keys := ks, dr_digests := ds\<rparr>)" for ks ds
    using jobs_ok_update [OF assms(1) _ _ k(1), of "(put_job (jb_id j) j s)\<lparr>dr_keys := ks, dr_digests := ds\<rparr>" "jb_id j"] k(2)
    by (simp add: put_job_def)
  then show ?thesis using assms(1) by (simp add: enqueue_job_def Inr Let_def)
qed

lemma finish_frame [simp]:
  "dr_jobs (finish_attempt i st why now s) = dr_jobs s" "job_of (finish_attempt i st why now s) k = job_of s k"
  "dr_keys (finish_attempt i st why now s) = dr_keys s" "dr_scopes (finish_attempt i st why now s) = dr_scopes s"
  "dr_outbox (finish_attempt i st why now s) = dr_outbox s" "dr_nonces (finish_attempt i st why now s) = dr_nonces s"
  "dr_releases (finish_attempt i st why now s) = dr_releases s" "dr_heads (finish_attempt i st why now s) = dr_heads s"
  "event_of (finish_attempt i st why now s) k = event_of s k"
  by (simp_all add: finish_attempt_def job_of_def event_of_def)

lemma jobs_ok_end:
  assumes "jobs_ok s" "job_of s i = Some j" "job_ok k" "jb_id k = i" "jb_attempts k = jb_attempts j"
    and "jb_status k \<noteq> running" "status \<noteq> running"
  shows "jobs_ok (put_job i k (finish_attempt i status why now s))"
proof -
  note l = jobs_okD(2) [OF assms(1,2)]
  let ?bs = "rev (close_last (close_attempt status why now) (rev (dr_attempts s i)))"
  have b: "closed_log ?bs" "numbered ?bs" "length ?bs = length (dr_attempts s i)"
    using finish_log [OF log_ok_cases(1) [OF l] log_ok_cases(2) [OF l] assms(7) refl, of why now] by blast+
  have "log_ok k ?bs" using b l assms(5,6) by (simp add: log_ok_def)
  then show ?thesis
    using jobs_ok_update [OF assms(1), of "put_job i k (finish_attempt i status why now s)" i k] assms(3,4)
    by (simp add: put_job_def finish_attempt_def)
qed

lemma jobs_ok_idle:
  assumes "jobs_ok s" "job_of s i = Some j" "job_ok k" "jb_id k = i" "jb_attempts k = jb_attempts j"
    and "jb_status k \<noteq> running" "jb_status j \<noteq> running"
  shows "jobs_ok (put_job i k s)"
proof -
  have "log_ok k (dr_attempts s i)" using jobs_okD(2) [OF assms(1,2)] assms(5-7) by (simp add: log_ok_def)
  then show ?thesis
    using jobs_ok_update [OF assms(1), of "put_job i k s" i k] assms(3,4) by (simp add: put_job_def)
qed

lemma bury_ok: "job_ok j \<Longrightarrow> job_ok (bury_job now j)"
  by (simp add: job_ok_def bury_job_def)

lemma bury_fields [simp]: "jb_id (bury_job now j) = jb_id j" "jb_attempts (bury_job now j) = jb_attempts j"
  "jb_status (bury_job now j) = dead" "jb_fence (bury_job now j) = jb_fence j"
  by (simp_all add: bury_job_def)

lemma bury_jobs_ok:
  "jobs_ok s \<Longrightarrow> job_of s i = Some j \<Longrightarrow>
     jobs_ok (put_job i (bury_job now j) (finish_attempt i dead attempts_exhausted later s))"
  by (rule jobs_ok_end) (simp_all add: jobs_okD bury_ok)

lemma start_jobs_ok:
  assumes "jobs_ok s" "job_of s i = Some j" "jb_attempts j < jb_max j"
    and "s1 = (if jb_status j = running \<and> jb_attempts j > 0 then finish_attempt i failed taken_over later s else s)"
    and "k = start_job worker tok now ttl j" "t = put_job i k s1"
  shows "jobs_ok (t\<lparr>dr_attempts := (dr_attempts t)(i := dr_attempts t i @ [new_attempt i worker k now])\<rparr>)"
proof -
  note j = jobs_okD [OF assms(1,2)]
  have l1: "closed_log (dr_attempts s1 i) \<and> numbered (dr_attempts s1 i) \<and> int (length (dr_attempts s1 i)) = jb_attempts j"
  proof (cases "jb_status j = running")
    case True
    then have "0 < jb_attempts j" using j(1) by (simp add: job_ok_def)
    then show ?thesis
      using finish_log [OF log_ok_cases(1) [OF j(2)] log_ok_cases(2) [OF j(2)] _ refl, of failed taken_over later] j(2) True
      by (simp add: assms(4) finish_attempt_def log_ok_def)
  next
    case False
    then show ?thesis using j(2) by (simp add: assms(4) log_ok_def)
  qed
  have k: "job_ok k" "jb_status k = running" "jb_attempts k = jb_attempts j + 1" "jb_fence k = jb_attempts j + 1" "jb_id k = i"
    using j(1,3) assms(3) by (auto simp: assms(5) start_job_def job_ok_def)
  have a: "at_number (new_attempt i worker k now) = jb_attempts j + 1" "at_fence (new_attempt i worker k now) = jb_attempts j + 1"
    "at_status (new_attempt i worker k now) = running"
    using k by (simp_all add: new_attempt_def)
  have "log_ok k (dr_attempts s1 i @ [new_attempt i worker k now])"
    using log_start [of "dr_attempts s1 i" "jb_attempts j" "new_attempt i worker k now"] l1 a k by (simp add: log_ok_def)
  moreover have "dr_jobs s1 = dr_jobs s" "\<forall>m. m \<noteq> i \<longrightarrow> dr_attempts s1 m = dr_attempts s m"
    by (simp_all add: assms(4) finish_attempt_def)
  ultimately show ?thesis
    by (intro jobs_ok_update [OF assms(1) _ _ k(1)]) (simp_all add: assms(6) put_job_def k(5))
qed

lemma lease_locked_ok:
  assumes "jobs_ok s"
  shows "jobs_ok (fst (lease_locked now later token i worker ttl s))"
proof (cases "job_of s i")
  case None
  then show ?thesis using assms by (simp add: lease_locked_def)
next
  case (Some j)
  show ?thesis
    using assms bury_jobs_ok [OF assms Some] start_jobs_ok [OF assms Some _ refl refl refl]
    unfolding lease_locked_def Some Let_def by (auto split: option.split)
qed

lemma scan_jobs_ok: "jobs_ok (fst acc) \<Longrightarrow> jobs_ok (fst (scan_job now later kind i acc))"
  using bury_jobs_ok [of "fst acc" i] by (auto simp: scan_job_def split: prod.split option.split)

lemma scan_fold_ok:
  "jobs_ok (fst acc) \<Longrightarrow> jobs_ok (fst (fold (\<lambda>(n, i). scan_job now (clk n) kind i) is acc))"
proof (induction "is" arbitrary: acc)
  case (Cons p "is")
  then show ?case using Cons.IH [OF scan_jobs_ok [OF Cons.prems]] by (cases p) simp
qed simp

lemma lease_each_ok: "jobs_ok s \<Longrightarrow> jobs_ok (fst (lease_each clk rnd n worker ttl is s out))"
proof (induction "is" arbitrary: n s out)
  case (Cons i "is")
  have "jobs_ok (fst (lease_locked (clk (2 * n)) (clk (2 * n + 1)) (rnd n) i worker ttl s))"
    by (rule lease_locked_ok [OF Cons.prems])
  then show ?case using Cons.IH by (auto split: prod.split sum.split)
qed simp

lemma lease_jobs_ok:
  assumes "jobs_ok s"
  shows "jobs_ok (fst (lease_jobs clk rnd order by_created kind worker limit ttl s))"
proof -
  let ?keys = "order (map fst (dr_jobs s))"
  obtain s1 ids where s1: "fold (\<lambda>(n, i). scan_job (clk 0) (clk (n + 1)) kind i) (enumerate 0 ?keys) (s, []) = (s1, ids)"
    by fastforce
  have "jobs_ok (fst (fold (\<lambda>(n, i). scan_job (clk 0) (clk (n + 1)) kind i) (enumerate 0 ?keys) (s, [])))"
    using scan_fold_ok [of "(s, [])" "clk 0" "\<lambda>n. clk (n + 1)" kind] assms by simp
  then have ok: "jobs_ok s1" unfolding s1 by simp
  show ?thesis
    using lease_each_ok [OF ok] unfolding lease_jobs_def Let_def s1 by (simp add: split_beta)
qed

lemma ended_jobs_ok:
  assumes "jobs_ok s"
  shows "jobs_ok (fst (fail_job clk i token why retry s))" "jobs_ok (fst (terminate_job clk i token status reason s))"
    "jobs_ok (fst (complete_operation cd clk i token result s))"
proof -
  have "job_ok j \<Longrightarrow> jb_status j = running \<Longrightarrow> job_ok (k (clear_lease (j\<lparr>jb_status := st\<rparr>)))"
    if "st \<noteq> running" "st = pending \<or> terminal_status st" "\<And>j. job_ok (k j) = job_ok j" for j st k
    using that by (auto simp: job_ok_def clear_lease_def)
  then show "jobs_ok (fst (fail_job clk i token why retry s))" "jobs_ok (fst (terminate_job clk i token status reason s))"
    "jobs_ok (fst (complete_operation cd clk i token result s))"
    by (auto simp: fail_job_def terminate_job_def complete_operation_def Let_def assms clear_lease_def job_ok_def
      holds_job_def split: option.split intro!: jobs_ok_end [OF assms] dest: jobs_okD [OF assms])
qed

lemma idle_jobs_ok:
  assumes "jobs_ok s"
  shows "jobs_ok (fst (cancel_operation clk i actor s))" "jobs_ok (fst (retry_operation clk i s))"
  by (auto simp: cancel_operation_def retry_operation_def Let_def assms job_ok_def split: option.split
      intro!: jobs_ok_idle [OF assms] dest: jobs_okD [OF assms])

end
