(* ===== verification/DurablePublish.thy ===== *)
theory DurablePublish
  imports DurableJobs
begin

text \<open>
  The rest of the durable control plane (\<^verbatim>\<open>repository/durable_memory.go\<close>): scope leases with fencing tokens,
  the transactional publication of a release, the delivery of outbox events, and single-use nonces.
\<close>

section \<open>Scope leases\<close>

definition acquire_scope :: "clock \<Rightarrow> random \<Rightarrow> string \<Rightarrow> string \<Rightarrow> time \<Rightarrow> durable \<Rightarrow> scope_lease outcome" where
  "acquire_scope clk rnd scope owner ttl0 s =
     (let now = clk 0; busy = (case dr_scopes s scope of None \<Rightarrow> False | Some l \<Rightarrow> sc_expires l > now)
      in if busy then (s, Inl LeaseBusy)
         else
           (let ttl = (if ttl0 \<le> 0 then 300 * second else ttl0)
            in case rnd 0 of
                 None \<Rightarrow> (s, Inl RandomFailed)
               | Some token \<Rightarrow>
                   (let fence = (case dr_scopes s scope of None \<Rightarrow> 1 | Some p \<Rightarrow> sc_fence p + 1);
                        lease = \<lparr>sc_scope = scope, sc_owner = owner, sc_token = token, sc_fence = fence,
                                 sc_expires = now + ttl, sc_updated = now\<rparr>
                    in (s\<lparr>dr_scopes := (dr_scopes s)(scope \<mapsto> lease)\<rparr>, Inr lease))))"

definition renew_scope :: "clock \<Rightarrow> string \<Rightarrow> string \<Rightarrow> time \<Rightarrow> durable \<Rightarrow> scope_lease outcome" where
  "renew_scope clk scope token ttl0 s =
     (case dr_scopes s (trim_space scope) of
        None \<Rightarrow> (s, Inl LeaseLost)
      | Some l \<Rightarrow>
          if sc_token l \<noteq> trim_space token \<or> \<not> sc_expires l > clk 0 then (s, Inl LeaseLost)
          else
            (let ttl = (if ttl0 \<le> 0 then 300 * second else ttl0);
                 k = l\<lparr>sc_expires := clk 1 + ttl, sc_updated := clk 2\<rparr>
             in (s\<lparr>dr_scopes := (dr_scopes s)(sc_scope k \<mapsto> k)\<rparr>, Inr k)))"

definition release_scope :: "clock \<Rightarrow> string \<Rightarrow> string \<Rightarrow> durable \<Rightarrow> unit outcome" where
  "release_scope clk scope token s =
     (case dr_scopes s scope of
        None \<Rightarrow> (s, Inl LeaseLost)
      | Some l \<Rightarrow>
          if sc_token l \<noteq> token \<or> \<not> sc_expires l > clk 0 then (s, Inl LeaseLost)
          else
            (s\<lparr>dr_scopes := (dr_scopes s)(scope \<mapsto> l\<lparr>sc_expires := clk 1, sc_updated := clk 1\<rparr>)\<rparr>, Inr ()))"

section \<open>Publication\<close>

definition stable_channel :: "unicode \<Rightarrow> string \<Rightarrow> bool" where
  "stable_channel U ch = equal_fold U (trim_space ch) ''stable''"

fun find_release :: "string \<Rightarrow> string \<Rightarrow> nat \<Rightarrow> release_version list \<Rightarrow> nat option" where
  "find_release i project n [] = None"
| "find_release i project n (r # rs) =
     (if rv_id r = i \<and> rv_project r = project then Some n else find_release i project (n + 1) rs)"

definition latest_check :: "string \<Rightarrow> integrity_check list \<Rightarrow> integrity_check option" where
  "latest_check package checks =
     fold (\<lambda>x latest. if ic_package x = package \<and>
             (case latest of None \<Rightarrow> True | Some l \<Rightarrow> ic_checked l = 0 \<or> ic_checked x > ic_checked l)
           then Some x else latest) checks None"

definition check_passes :: "publish_commit \<Rightarrow> integrity_check option \<Rightarrow> bool" where
  "check_passes c latest \<longleftrightarrow>
     (case latest of
        None \<Rightarrow> False
      | Some l \<Rightarrow> ic_result l = ''passed'' \<and> ic_manifest_digest l = pc_manifest_digest c \<and>
                  ic_artifact_digest l = pc_artifact_digest c)"

definition head_key :: "string \<Rightarrow> string \<Rightarrow> string \<Rightarrow> string" where
  "head_key project profile channel = join_char (CHR 0x00) [project, profile, channel]"

definition empty_head :: "string \<Rightarrow> string \<Rightarrow> string \<Rightarrow> channel_head" where
  "empty_head project profile channel =
     \<lparr>ch_project = project, ch_profile = profile, ch_channel = channel, ch_revision = 0, ch_release = [],
      ch_version = [], ch_digest = [], ch_updated = 0\<rparr>"

definition channel_head_of :: "string \<Rightarrow> string \<Rightarrow> string \<Rightarrow> durable \<Rightarrow> channel_head" where
  "channel_head_of project profile channel s =
     (case dr_heads s (head_key project profile channel) of
        None \<Rightarrow> empty_head project profile channel
      | Some h \<Rightarrow> h)"

definition event_types :: "string list" where
  "event_types = [''package.published'', ''release.published'']"

definition publish_key :: "release_version \<Rightarrow> publish_commit \<Rightarrow> string \<Rightarrow> string" where
  "publish_key r c typ = ''publish:'' @ rv_id r @ '':'' @ pc_manifest_digest c @ '':'' @ typ"

definition publish_event ::
    "codec \<Rightarrow> release_version \<Rightarrow> publish_commit \<Rightarrow> string \<Rightarrow> int \<Rightarrow> time \<Rightarrow> string \<Rightarrow> outbox_event" where
  "publish_event cd r c job_id revision now typ =
     \<lparr>ob_id = ''out_'' @ take 20 (cd_sha cd (job_id @ CHR 0x00 # typ)), ob_type = typ, ob_project = rv_project r,
      ob_aggregate_type = ''release'', ob_aggregate = rv_id r, ob_actor = pc_actor c, ob_key = publish_key r c typ,
      ob_payload = PublishEvent (rv_id r) (rv_project r) (rv_profile r) (rv_channel r) (rv_version r) (pc_actor c) revision,
      ob_status = pending, ob_owner = [], ob_token = [], ob_fence = 0, ob_expires = 0, ob_attempts = 0, ob_max = 12,
      ob_available = now, ob_error = [], ob_created = now, ob_updated = now, ob_delivered = 0\<rparr>"

definition add_event ::
    "codec \<Rightarrow> release_version \<Rightarrow> publish_commit \<Rightarrow> string \<Rightarrow> int \<Rightarrow> time \<Rightarrow> string \<Rightarrow> durable \<Rightarrow> durable" where
  "add_event cd r c job_id revision now typ s =
     (if event_of s (publish_key r c typ) \<noteq> None then s
      else put_event (publish_key r c typ) (publish_event cd r c job_id revision now typ) s)"

definition publish_guard ::
    "unicode \<Rightarrow> codec \<Rightarrow> time \<Rightarrow> publish_commit \<Rightarrow> bool \<Rightarrow> durable \<Rightarrow>
     durable_error + (job \<times> nat \<times> release_version \<times> channel_head)" where
  \<comment> \<open>the checks before the first write of \<^verbatim>\<open>commitDurablePublish0213\<close>\<close>
  "publish_guard U cd now c verified s =
     (case job_of s (pc_job c) of
        None \<Rightarrow> Inl NotFound
      | Some job \<Rightarrow>
          if jb_status job \<noteq> running \<or> jb_token job \<noteq> pc_job_token c \<or> jb_expires job < now then Inl LeaseLost
          else
            (case dr_scopes s (pc_scope c) of
               None \<Rightarrow> Inl LeaseLost
             | Some l \<Rightarrow>
                 if sc_token l \<noteq> pc_scope_token c \<or> sc_fence l \<noteq> pc_scope_fence c \<or> sc_expires l < now
                 then Inl LeaseLost
                 else
                   (case find_release (jb_resource job) (jb_project job) 0 (dr_releases s) of
                      None \<Rightarrow> Inl NotFound
                    | Some n \<Rightarrow>
                        (let rel = dr_releases s ! n; key = head_key (rv_project rel) (rv_profile rel) (rv_channel rel);
                             head = (case dr_heads s key of None \<Rightarrow> empty_head [] [] [] | Some h \<Rightarrow> h)
                         in if stable_channel U (rv_channel rel) \<and> \<not> verified then Inl StableGate
                            else if rv_status rel = published then Inl Immutable
                            else if trim_space (pc_status c) = [] \<or> rv_status rel \<noteq> pc_status c then Inl Conflict
                            else if cd_sha cd (cd_manifest cd (rv_manifest rel)) \<noteq> pc_manifest_digest c then Inl Conflict
                            else if \<not> check_passes c (latest_check (rv_id rel) (dr_checks s)) then Inl Conflict
                            else if pc_head_revision c \<noteq> Some (ch_revision head) then Inl Conflict
                            else Inr (job, n, rel, head)))))"

definition published_job :: "time \<Rightarrow> string \<Rightarrow> job \<Rightarrow> job" where
  "published_job now rel_id j =
     (clear_lease (j\<lparr>jb_status := succeeded, jb_result := PublishResult rel_id now\<rparr>))
       \<lparr>jb_completed := now, jb_updated := now\<rparr>"

definition next_head :: "publish_commit \<Rightarrow> release_version \<Rightarrow> time \<Rightarrow> channel_head \<Rightarrow> channel_head" where
  "next_head c r now h =
     h\<lparr>ch_project := rv_project r, ch_profile := rv_profile r, ch_channel := rv_channel r,
       ch_revision := ch_revision h + 1, ch_release := rv_id r, ch_version := rv_version r,
       ch_digest := pc_manifest_digest c, ch_updated := now\<rparr>"

definition commit_publish ::
    "unicode \<Rightarrow> codec \<Rightarrow> clock \<Rightarrow> publish_commit \<Rightarrow> bool \<Rightarrow> durable \<Rightarrow> release_version outcome" where
  "commit_publish U cd clk c verified s =
     (let now = clk 0
      in case publish_guard U cd now c verified s of
           Inl e \<Rightarrow> (s, Inl e)
         | Inr (job, n, rel, head) \<Rightarrow>
             (let h = next_head c rel now head;
                  r = rel\<lparr>rv_status := published, rv_published := now\<rparr>;
                  s1 = s\<lparr>dr_releases := (dr_releases s)[n := r],
                         dr_heads := (dr_heads s)(head_key (rv_project rel) (rv_profile rel) (rv_channel rel) \<mapsto> h)\<rparr>;
                  s2 = finish_attempt (jb_id job) succeeded [] (clk 1) s1;
                  s3 = put_job (jb_id job) (published_job now (rv_id rel) job) s2;
                  s4 = fold (add_event cd r c (jb_id job) (ch_revision h) now) event_types s3
              in (s4, Inr r)))"

definition commit_durable_publish ::
    "unicode \<Rightarrow> codec \<Rightarrow> clock \<Rightarrow> publish_commit \<Rightarrow> durable \<Rightarrow> release_version outcome" where
  "commit_durable_publish U cd clk c s = commit_publish U cd clk c False s"

section \<open>The outbox\<close>

definition bury_event :: "time \<Rightarrow> outbox_event \<Rightarrow> outbox_event" where
  "bury_event now e =
     e\<lparr>ob_status := dead, ob_error := delivery_exhausted, ob_owner := [], ob_token := [], ob_expires := 0,
       ob_updated := now\<rparr>"

definition scan_event :: "time \<Rightarrow> string \<Rightarrow> durable \<times> string list \<Rightarrow> durable \<times> string list" where
  "scan_event now k acc =
     (case acc of (s, keys) \<Rightarrow>
        (case event_of s k of
           None \<Rightarrow> (s, keys)
         | Some e \<Rightarrow>
             if ob_status e = running \<and> ob_attempts e \<ge> ob_max e \<and> \<not> ob_expires e > now
             then (put_event k (bury_event now e) s, keys)
             else if ob_attempts e \<ge> ob_max e \<or> ob_available e > now then (s, keys)
             else if ob_status e = pending \<or> (ob_status e = running \<and> \<not> ob_expires e > now) then (s, keys @ [k])
             else (s, keys)))"

definition start_event :: "string \<Rightarrow> string \<Rightarrow> time \<Rightarrow> time \<Rightarrow> outbox_event \<Rightarrow> outbox_event" where
  "start_event worker token now ttl e =
     e\<lparr>ob_status := running, ob_owner := worker, ob_token := token, ob_fence := ob_fence e + 1,
       ob_expires := now + ttl, ob_attempts := ob_attempts e + 1, ob_updated := now\<rparr>"

fun claim_each ::
    "time \<Rightarrow> random \<Rightarrow> nat \<Rightarrow> string \<Rightarrow> time \<Rightarrow> string list \<Rightarrow> durable \<Rightarrow> outbox_event list \<Rightarrow> durable \<times> outbox_event list" where
  "claim_each now rnd n worker ttl [] s out = (s, out)"
| "claim_each now rnd n worker ttl (k # ks) s out =
     (case event_of s k of
        None \<Rightarrow> claim_each now rnd (n + 1) worker ttl ks s out
      | Some e0 \<Rightarrow>
          (let token = (case rnd n of None \<Rightarrow> [] | Some t \<Rightarrow> t);
               e = start_event worker token now ttl e0
           in claim_each now rnd (n + 1) worker ttl ks (put_event k e s) (out @ [e])))"

definition claim_events ::
    "clock \<Rightarrow> random \<Rightarrow> (string list \<Rightarrow> string list) \<Rightarrow> string \<Rightarrow> int \<Rightarrow> time \<Rightarrow> durable \<Rightarrow> outbox_event list outcome" where
  "claim_events clk rnd order worker limit0 ttl0 s =
     (let limit = (if limit0 \<le> 0 then 32 else limit0); ttl = (if ttl0 \<le> 0 then 30 * second else ttl0); now = clk 0;
          (s1, keys) = fold (scan_event now) (order (map fst (dr_outbox s))) (s, []);
          (s2, out) = claim_each now rnd 0 worker ttl (take (nat limit) (sort keys)) s1 []
      in (s2, Inr out))"

definition holds_event :: "string \<Rightarrow> string \<Rightarrow> time \<Rightarrow> outbox_event \<Rightarrow> bool" where
  "holds_event i token now e \<longleftrightarrow> ob_id e = i \<and> ob_token e = token \<and> ob_status e = running \<and> ob_expires e > now"

definition held_event :: "string \<Rightarrow> string \<Rightarrow> time \<Rightarrow> string list \<Rightarrow> durable \<Rightarrow> string option" where
  "held_event i token now keys s =
     first_some (\<lambda>k. case event_of s k of None \<Rightarrow> False | Some e \<Rightarrow> holds_event i token now e) keys"

definition complete_event :: "clock \<Rightarrow> (string list \<Rightarrow> string list) \<Rightarrow> string \<Rightarrow> string \<Rightarrow> durable \<Rightarrow> unit outcome" where
  "complete_event clk order i token s =
     (case held_event i token (clk 0) (order (map fst (dr_outbox s))) s of
        None \<Rightarrow> (s, Inl LeaseLost)
      | Some k \<Rightarrow>
          (let e = the (event_of s k);
               f = e\<lparr>ob_status := delivered, ob_owner := [], ob_token := [], ob_expires := 0, ob_delivered := clk 1,
                     ob_updated := clk 2\<rparr>
           in (put_event k f s, Inr ())))"

definition fail_event ::
    "clock \<Rightarrow> (string list \<Rightarrow> string list) \<Rightarrow> string \<Rightarrow> string \<Rightarrow> string \<Rightarrow> time \<Rightarrow> durable \<Rightarrow> unit outcome" where
  "fail_event clk order i token why retry_after s =
     (case held_event i token (clk 0) (order (map fst (dr_outbox s))) s of
        None \<Rightarrow> (s, Inl LeaseLost)
      | Some k \<Rightarrow>
          (let e = the (event_of s k);
               f = e\<lparr>ob_status := (if ob_attempts e \<ge> ob_max e then dead else pending), ob_owner := [], ob_token := [],
                     ob_expires := 0, ob_available := clk 1 + retry_after, ob_error := why, ob_updated := clk 2\<rparr>
           in (put_event k f s, Inr ())))"

section \<open>Nonces\<close>

definition nonce_key :: "unicode \<Rightarrow> string \<Rightarrow> string \<Rightarrow> string" where
  "nonce_key U namespace nonce = trim_space namespace @ CHR 0x00 # to_lower U (trim_space nonce)"

definition consume_nonce :: "unicode \<Rightarrow> clock \<Rightarrow> string \<Rightarrow> string \<Rightarrow> time \<Rightarrow> durable \<Rightarrow> unit outcome" where
  "consume_nonce U clk namespace nonce expires0 s =
     (let key = nonce_key U namespace nonce;
          used = (case dr_nonces s key of None \<Rightarrow> False | Some old \<Rightarrow> old > clk 0)
      in if used then (s, Inl Conflict)
         else
           (let expires = (if expires0 = 0 \<or> \<not> expires0 > clk 1 then clk 2 + 86400 * second else expires0)
            in (s\<lparr>dr_nonces := (dr_nonces s)(key \<mapsto> expires)\<rparr>, Inr ())))"

end
