(* ===== verification/DurableMachine.thy ===== *)
theory DurableMachine
  imports DurablePublish
begin

text \<open>
  The state machines that the durable control plane implements: the steps a job and an outbox event may take
  (\<open>job_step\<close>, \<open>event_step\<close>), the frame of every operation, and the lemmas that each operation moves each
  stored job and event only along these steps.
\<close>

section \<open>The machine of a job\<close>

definition same_work :: "job \<Rightarrow> job \<Rightarrow> bool" where
  "same_work j k \<longleftrightarrow>
     jb_id k = jb_id j \<and> jb_kind k = jb_kind j \<and> jb_actor_type k = jb_actor_type j \<and> jb_actor k = jb_actor j \<and>
     jb_action k = jb_action j \<and> jb_project k = jb_project j \<and> jb_resource_type k = jb_resource_type j \<and>
     jb_resource k = jb_resource j \<and> jb_key k = jb_key j \<and> jb_payload k = jb_payload j \<and>
     jb_digest k = jb_digest j \<and> jb_created k = jb_created j"

definition same_count :: "job \<Rightarrow> job \<Rightarrow> bool" where
  "same_count j k \<longleftrightarrow> jb_fence k = jb_fence j \<and> jb_attempts k = jb_attempts j"

inductive job_step :: "job \<Rightarrow> job \<Rightarrow> bool" where
  leased: "jb_status j = pending \<or> jb_status j = running \<Longrightarrow> jb_attempts j < jb_max j \<Longrightarrow> jb_status k = running \<Longrightarrow>
    same_work j k \<Longrightarrow> jb_max k = jb_max j \<Longrightarrow> jb_fence k = jb_fence j + 1 \<Longrightarrow> jb_attempts k = jb_attempts j + 1 \<Longrightarrow>
    job_step j k"
| ended: "jb_status j = running \<Longrightarrow> terminal_status (jb_status k) \<or> jb_status k = pending \<and> jb_attempts j < jb_max j \<Longrightarrow>
    same_work j k \<Longrightarrow> same_count j k \<Longrightarrow> jb_max k = jb_max j \<Longrightarrow> job_step j k"
| buried: "jb_status j = pending \<or> jb_status j = running \<Longrightarrow> jb_max j \<le> jb_attempts j \<Longrightarrow> jb_status k = dead \<Longrightarrow>
    same_work j k \<Longrightarrow> same_count j k \<Longrightarrow> jb_max k = jb_max j \<Longrightarrow> job_step j k"
| cancelled: "jb_status j = pending \<Longrightarrow> jb_status k = failed \<Longrightarrow> same_work j k \<Longrightarrow> same_count j k \<Longrightarrow>
    jb_max k = jb_max j \<Longrightarrow> job_step j k"
| retried: "jb_status j = failed \<or> jb_status j = dead \<or> jb_status j = revoked \<Longrightarrow> jb_status k = pending \<Longrightarrow>
    same_work j k \<Longrightarrow> same_count j k \<Longrightarrow> jb_max j \<le> jb_max k \<Longrightarrow> jb_attempts j + 8 \<le> jb_max k \<Longrightarrow> job_step j k"

inductive_simps job_step_succeeded: "job_step j k"

definition jobs_follow :: "durable \<Rightarrow> durable \<Rightarrow> bool" where
  "jobs_follow s t \<longleftrightarrow> (\<forall>i j. job_of s i = Some j \<longrightarrow> (\<exists>k. job_of t i = Some k \<and> job_step\<^sup>*\<^sup>* j k))"

definition job_frame :: "durable \<Rightarrow> durable \<Rightarrow> bool" where
  "job_frame s t \<longleftrightarrow>
     dr_scopes t = dr_scopes s \<and> dr_outbox t = dr_outbox s \<and> dr_nonces t = dr_nonces s \<and>
     dr_releases t = dr_releases s \<and> dr_checks t = dr_checks s \<and> dr_heads t = dr_heads s"

lemma jobs_follow_refl [simp]: "jobs_follow s s"
  by (simp add: jobs_follow_def)

lemma jobs_follow_trans: "jobs_follow s t \<Longrightarrow> jobs_follow t u \<Longrightarrow> jobs_follow s u"
  unfolding jobs_follow_def by (meson rtranclp_trans)

lemma jobs_follow_same: "dr_jobs t = dr_jobs s \<Longrightarrow> jobs_follow s t"
  by (simp add: jobs_follow_def job_of_def)

lemma jobs_follow_put:
  assumes "job_of s i = Some j" "job_step j k" "dr_jobs t = AList.update i k (dr_jobs s)"
  shows "jobs_follow s t"
  using assms unfolding jobs_follow_def by (auto simp: job_of_def update_conv')

lemma jobs_follow_putI:
  "job_of s i = Some j \<Longrightarrow> job_step j k \<Longrightarrow> dr_jobs t = dr_jobs s \<Longrightarrow> jobs_follow s (put_job i k t)"
  by (rule jobs_follow_put [of s i j k]) (simp_all add: put_job_def)

lemma job_frame_refl [simp]: "job_frame s s"
  by (simp add: job_frame_def)

lemma job_frame_trans: "job_frame s t \<Longrightarrow> job_frame t u \<Longrightarrow> job_frame s u"
  by (simp add: job_frame_def)

lemma finish_job_frame [simp]: "job_frame s (finish_attempt i st why now s)"
  by (simp add: job_frame_def finish_attempt_def)

lemma put_job_job_frame [simp]: "job_frame s (put_job i k t) = job_frame s t"
  by (simp add: job_frame_def)

lemma put_dr_jobs [simp]: "dr_jobs (put_job i k s) = AList.update i k (dr_jobs s)"
  by (simp add: put_job_def)

lemma bury_step:
  "\<not> terminal_status (jb_status j) \<Longrightarrow> job_ok j \<Longrightarrow> jb_max j \<le> jb_attempts j \<Longrightarrow> job_step j (bury_job now j)"
  by (rule buried) (auto simp: job_ok_def bury_job_def same_work_def same_count_def)

lemma start_step:
  "\<not> terminal_status (jb_status j) \<Longrightarrow> job_ok j \<Longrightarrow> jb_attempts j < jb_max j \<Longrightarrow> job_step j (start_job w tok now ttl j)"
  by (rule leased) (auto simp: job_ok_def start_job_def same_work_def)

section \<open>Operations on jobs\<close>

lemma enqueue_follows:
  assumes "unused_id cd clk rnd job0 s"
  shows "jobs_follow s (fst (enqueue_job cd clk rnd job0 s))" "job_frame s (fst (enqueue_job cd clk rnd job0 s))"
proof -
  have "job_of s (jb_id j) = None" if "normalize_job cd clk rnd job0 = Inr j" for j
    using assms that by (simp add: unused_id_def)
  then show "jobs_follow s (fst (enqueue_job cd clk rnd job0 s))" "job_frame s (fst (enqueue_job cd clk rnd job0 s))"
    by (auto simp: enqueue_job_def Let_def jobs_follow_def job_frame_def job_of_def update_conv' split: sum.split)
qed

lemma lease_locked_follows:
  assumes "jobs_ok s"
  shows "jobs_follow s (fst (lease_locked now later token i worker ttl s))"
    "job_frame s (fst (lease_locked now later token i worker ttl s))"
proof -
  have b: "jobs_follow s (put_job i (bury_job now j) (finish_attempt i dead attempts_exhausted later s))"
    if "job_of s i = Some j" "\<not> terminal_status (jb_status j)" "jb_max j \<le> jb_attempts j" for j
    using jobs_follow_put [OF that(1) bury_step [OF that(2) jobs_okD(1) [OF assms that(1)] that(3)]] by simp
  have st: "jobs_follow s t"
    if "job_of s i = Some j" "\<not> terminal_status (jb_status j)" "\<not> jb_max j \<le> jb_attempts j"
      "dr_jobs t = AList.update i (start_job worker tok now l j) (dr_jobs s)" for j tok l t
    using jobs_follow_put [OF that(1) start_step [OF that(2) jobs_okD(1) [OF assms that(1)]] that(4)] that(3) by simp
  show "jobs_follow s (fst (lease_locked now later token i worker ttl s))"
    by (auto simp: lease_locked_def Let_def b intro: st split: option.split)
  show "job_frame s (fst (lease_locked now later token i worker ttl s))"
    by (auto simp: lease_locked_def Let_def job_frame_def finish_attempt_def split: option.split)
qed

lemma scan_follows:
  assumes "jobs_ok (fst acc)"
  shows "jobs_follow (fst acc) (fst (scan_job now later kind i acc))" "job_frame (fst acc) (fst (scan_job now later kind i acc))"
proof -
  have b: "jobs_follow s (put_job i (bury_job now j) (finish_attempt i dead attempts_exhausted later s))"
    if "jobs_ok s" "job_of s i = Some j" "jb_status j = running" "jb_max j \<le> jb_attempts j" for s j
    using jobs_follow_put [OF that(2) bury_step [OF _ jobs_okD(1) [OF that(1,2)] that(4)]] that(3) by simp
  show "jobs_follow (fst acc) (fst (scan_job now later kind i acc))"
    using assms by (auto simp: scan_job_def b split: prod.split option.split)
  show "job_frame (fst acc) (fst (scan_job now later kind i acc))"
    by (auto simp: scan_job_def split: prod.split option.split)
qed

lemma scan_fold_follows:
  assumes "jobs_ok (fst acc)"
  shows "jobs_follow (fst acc) (fst (fold (\<lambda>(n, i). scan_job now (clk n) kind i) is acc)) \<and>
    job_frame (fst acc) (fst (fold (\<lambda>(n, i). scan_job now (clk n) kind i) is acc))"
  using assms
proof (induction "is" arbitrary: acc)
  case (Cons p "is")
  obtain n i where p: "p = (n, i)" by (cases p)
  show ?case
    using Cons.IH [OF scan_jobs_ok [OF Cons.prems]] scan_follows [OF Cons.prems] jobs_follow_trans job_frame_trans
    by (simp add: p) blast
qed simp

lemma lease_each_follows:
  "jobs_ok s \<Longrightarrow> jobs_follow s (fst (lease_each clk rnd n worker ttl is s out)) \<and>
     job_frame s (fst (lease_each clk rnd n worker ttl is s out))"
proof (induction "is" arbitrary: n s out)
  case (Cons i "is")
  define t where "t = fst (lease_locked (clk (2 * n)) (clk (2 * n + 1)) (rnd n) i worker ttl s)"
  have t: "jobs_ok t" "jobs_follow s t" "job_frame s t"
    using lease_locked_ok [OF Cons.prems] lease_locked_follows [OF Cons.prems] by (simp_all add: t_def)
  have "\<exists>out'. fst (lease_each clk rnd n worker ttl (i # is) s out) = fst (lease_each clk rnd (n + 1) worker ttl is t out')"
    by (auto simp: t_def split: prod.split sum.split)
  then obtain out' where o: "fst (lease_each clk rnd n worker ttl (i # is) s out) = fst (lease_each clk rnd (n + 1) worker ttl is t out')"
    by blast
  show ?case
    unfolding o using Cons.IH [OF t(1)] jobs_follow_trans [OF t(2)] job_frame_trans [OF t(3)] by blast
qed simp

lemma lease_jobs_follows:
  assumes "jobs_ok s"
  shows "jobs_follow s (fst (lease_jobs clk rnd order by_created kind worker limit ttl s)) \<and>
    job_frame s (fst (lease_jobs clk rnd order by_created kind worker limit ttl s))"
proof -
  let ?f = "fold (\<lambda>(n, i). scan_job (clk 0) (clk (n + 1)) kind i) (enumerate 0 (order (map fst (dr_jobs s)))) (s, [])"
  obtain s1 ids where s1: "?f = (s1, ids)" by fastforce
  have "jobs_ok (fst ?f)" "jobs_follow s (fst ?f) \<and> job_frame s (fst ?f)"
    using scan_fold_ok [of "(s, [])" "clk 0" "\<lambda>n. clk (n + 1)" kind]
      scan_fold_follows [of "(s, [])" "clk 0" "\<lambda>n. clk (n + 1)" kind] assms by simp_all
  then have ok: "jobs_ok s1" "jobs_follow s s1" "job_frame s s1" unfolding s1 by simp_all
  show ?thesis
    using lease_each_follows [OF ok(1)] ok(2,3) jobs_follow_trans job_frame_trans
    unfolding lease_jobs_def Let_def s1 by (simp add: split_beta)
qed

lemma ended_follows:
  "jobs_follow s (fst (fail_job clk i token why retry s))" "jobs_follow s (fst (terminate_job clk i token status reason s))"
  "jobs_follow s (fst (complete_operation cd clk i token result s))"
  by (auto simp: fail_job_def terminate_job_def complete_operation_def Let_def holds_job_def clear_lease_def
      same_work_def same_count_def split: option.split intro!: jobs_follow_putI ended)

lemma ended_frame:
  "job_frame s (fst (fail_job clk i token why retry s))" "job_frame s (fst (terminate_job clk i token status reason s))"
  "job_frame s (fst (complete_operation cd clk i token result s))"
  by (simp_all add: fail_job_def terminate_job_def complete_operation_def Let_def split: option.split)

lemma idle_follows:
  "jobs_follow s (fst (cancel_operation clk i actor s))" "jobs_follow s (fst (retry_operation clk i s))"
proof -
  show "jobs_follow s (fst (cancel_operation clk i actor s))"
    by (auto simp: cancel_operation_def Let_def same_work_def same_count_def
        split: option.split intro!: jobs_follow_putI [OF _ cancelled])
  show "jobs_follow s (fst (retry_operation clk i s))"
    by (auto simp: retry_operation_def Let_def same_work_def same_count_def
        split: option.split intro!: jobs_follow_putI [OF _ retried])
qed

lemma idle_frame:
  "job_frame s (fst (cancel_operation clk i actor s))" "job_frame s (fst (retry_operation clk i s))"
  by (simp_all add: cancel_operation_def retry_operation_def Let_def split: option.split)

section \<open>The machine of an outbox event\<close>

definition same_event :: "outbox_event \<Rightarrow> outbox_event \<Rightarrow> bool" where
  "same_event e f \<longleftrightarrow>
     ob_id f = ob_id e \<and> ob_type f = ob_type e \<and> ob_project f = ob_project e \<and> ob_aggregate f = ob_aggregate e \<and>
     ob_actor f = ob_actor e \<and> ob_key f = ob_key e \<and> ob_payload f = ob_payload e \<and> ob_created f = ob_created e \<and>
     ob_max f = ob_max e"

inductive event_step :: "outbox_event \<Rightarrow> outbox_event \<Rightarrow> bool" where
  claimed: "ob_status e = pending \<or> ob_status e = running \<Longrightarrow> ob_attempts e < ob_max e \<Longrightarrow> same_event e f \<Longrightarrow>
    ob_status f = running \<Longrightarrow> ob_fence f = ob_fence e + 1 \<Longrightarrow> ob_attempts f = ob_attempts e + 1 \<Longrightarrow> event_step e f"
| finished: "ob_status e = running \<Longrightarrow> same_event e f \<Longrightarrow> ob_fence f = ob_fence e \<Longrightarrow> ob_attempts f = ob_attempts e \<Longrightarrow>
    ob_status f = delivered \<or> ob_status f = dead \<or> ob_status f = pending \<and> ob_attempts e < ob_max e \<Longrightarrow> event_step e f"

definition event_ok :: "outbox_event \<Rightarrow> bool" where
  "event_ok e \<longleftrightarrow>
     0 \<le> ob_attempts e \<and> ob_attempts e \<le> ob_max e \<and> ob_fence e = ob_attempts e \<and>
     (ob_status e = pending \<or> ob_status e = running \<or> ob_status e = delivered \<or> ob_status e = dead)"

definition events_follow :: "durable \<Rightarrow> durable \<Rightarrow> bool" where
  "events_follow s t \<longleftrightarrow>
     (\<forall>k e. event_of s k = Some e \<longrightarrow> (\<exists>f. event_of t k = Some f \<and> event_step\<^sup>*\<^sup>* e f)) \<and>
     (\<forall>k f. event_of s k = None \<longrightarrow> event_of t k = Some f \<longrightarrow> event_ok f \<and> ob_key f = k)"

definition events_ok :: "durable \<Rightarrow> bool" where
  "events_ok s \<longleftrightarrow> distinct (map fst (dr_outbox s)) \<and> (\<forall>k e. event_of s k = Some e \<longrightarrow> event_ok e \<and> ob_key e = k)"

lemma event_step_ok: "event_step e f \<Longrightarrow> event_ok e \<Longrightarrow> event_ok f \<and> ob_key f = ob_key e"
  by (induction rule: event_step.induct) (auto simp: event_ok_def same_event_def)

lemma event_steps_ok: "event_step\<^sup>*\<^sup>* e f \<Longrightarrow> event_ok e \<Longrightarrow> event_ok f \<and> ob_key f = ob_key e"
  by (induction rule: rtranclp_induct) (auto dest: event_step_ok)

lemma events_follow_refl [simp]: "events_follow s s"
  by (simp add: events_follow_def)

lemma events_follow_same: "dr_outbox t = dr_outbox s \<Longrightarrow> events_follow s t"
  by (simp add: events_follow_def event_of_def)

lemma events_follow_trans:
  assumes "events_follow s t" "events_follow t u"
  shows "events_follow s u"
  unfolding events_follow_def
proof (rule conjI; intro allI impI)
  fix k e
  assume "event_of s k = Some e"
  then obtain f where f: "event_of t k = Some f" "event_step\<^sup>*\<^sup>* e f" using assms(1) unfolding events_follow_def by blast
  then obtain g where "event_of u k = Some g" "event_step\<^sup>*\<^sup>* f g" using assms(2) unfolding events_follow_def by blast
  then show "\<exists>g. event_of u k = Some g \<and> event_step\<^sup>*\<^sup>* e g" using f(2) by (meson rtranclp_trans)
next
  fix k g
  assume n: "event_of s k = None" and g: "event_of u k = Some g"
  show "event_ok g \<and> ob_key g = k"
  proof (cases "event_of t k")
    case None
    then show ?thesis using assms(2) g unfolding events_follow_def by blast
  next
    case (Some f)
    then have "event_ok f \<and> ob_key f = k" using assms(1) n unfolding events_follow_def by blast
    moreover have "event_step\<^sup>*\<^sup>* f g" using assms(2) Some g unfolding events_follow_def by force
    ultimately show ?thesis using event_steps_ok by metis
  qed
qed

lemma events_follow_ok:
  assumes "events_follow s t" "events_ok s" "distinct (map fst (dr_outbox t))"
  shows "events_ok t"
  unfolding events_ok_def
proof (rule conjI [OF assms(3)], intro allI impI)
  fix k f
  assume f: "event_of t k = Some f"
  show "event_ok f \<and> ob_key f = k"
  proof (cases "event_of s k")
    case None
    then show ?thesis using assms(1) f unfolding events_follow_def by blast
  next
    case (Some e)
    then have "event_step\<^sup>*\<^sup>* e f" using assms(1) f unfolding events_follow_def by force
    moreover have "event_ok e \<and> ob_key e = k" using assms(2) Some unfolding events_ok_def by blast
    ultimately show ?thesis using event_steps_ok by metis
  qed
qed

lemma events_follow_putI:
  "event_of s k = Some e \<Longrightarrow> event_step e f \<Longrightarrow> events_follow s (put_event k f s)"
  by (auto simp: events_follow_def)

lemma put_dr_outbox [simp]: "dr_outbox (put_event k e s) = AList.update k e (dr_outbox s)"
  by (simp add: put_event_def)

definition event_frame :: "durable \<Rightarrow> durable \<Rightarrow> bool" where
  "event_frame s t \<longleftrightarrow>
     dr_jobs t = dr_jobs s \<and> dr_attempts t = dr_attempts s \<and> dr_scopes t = dr_scopes s \<and> dr_nonces t = dr_nonces s \<and>
     dr_releases t = dr_releases s \<and> dr_checks t = dr_checks s \<and> dr_heads t = dr_heads s"

lemma event_frame_refl [simp]: "event_frame s s"
  by (simp add: event_frame_def)

lemma event_frame_put [simp]: "event_frame s (put_event k e t) = event_frame s t"
  by (simp add: event_frame_def)

text \<open>The scan of \<^verbatim>\<open>ClaimOutboxEvents\<close> collects, once each, keys of events that may still be attempted.\<close>

definition claimable :: "durable \<Rightarrow> string list \<Rightarrow> bool" where
  "claimable s keys \<longleftrightarrow> distinct keys \<and>
     (\<forall>k \<in> set keys. \<exists>e. event_of s k = Some e \<and> (ob_status e = pending \<or> ob_status e = running) \<and> ob_attempts e < ob_max e)"

lemma scan_event_keeps:
  assumes "claimable s keys" "k \<notin> set keys" "scan_event now k (s, keys) = (t, keys')" "events_ok s"
  shows "claimable t keys' \<and> events_follow s t \<and> event_frame s t \<and> set keys' \<subseteq> insert k (set keys) \<and>
    distinct (map fst (dr_outbox t))"
proof -
  have d: "distinct (map fst (dr_outbox s))" using assms(4) by (simp add: events_ok_def)
  show ?thesis
  proof (cases "event_of s k")
    case None
    then show ?thesis using assms d by (auto simp: scan_event_def)
  next
    case (Some e)
    show ?thesis
    proof (cases "ob_status e = running \<and> ob_attempts e \<ge> ob_max e \<and> \<not> ob_expires e > now")
      case True
      then have t: "t = put_event k (bury_event now e) s" "keys' = keys" using assms(3) Some by (auto simp: scan_event_def)
      have "event_step e (bury_event now e)"
        using True by (intro finished) (simp_all add: bury_event_def same_event_def)
      then have "events_follow s t" unfolding t by (rule events_follow_putI [OF Some])
      moreover have "claimable t keys'" using assms(1,2) unfolding claimable_def t by auto
      ultimately show ?thesis using d by (auto simp: t distinct_update)
    next
      case False
      then have "t = s" "keys' = keys \<or> keys' = keys @ [k] \<and> (ob_status e = pending \<or> ob_status e = running) \<and> ob_attempts e < ob_max e"
        using assms(3) Some by (auto simp: scan_event_def split: if_split_asm)
      then show ?thesis using assms(1,2) Some d by (auto simp: claimable_def)
    qed
  qed
qed

lemma scan_events_keep:
  assumes "claimable s keys" "set keys \<inter> set ks = {}" "distinct ks" "fold (scan_event now) ks (s, keys) = (t, keys')"
    and "events_ok s"
  shows "claimable t keys' \<and> events_follow s t \<and> event_frame s t \<and> events_ok t"
  using assms
proof (induction ks arbitrary: s keys)
  case Nil
  then show ?case by simp
next
  case (Cons k ks)
  obtain u keys2 where u: "scan_event now k (s, keys) = (u, keys2)" by fastforce
  have k: "claimable u keys2 \<and> events_follow s u \<and> event_frame s u \<and> set keys2 \<subseteq> insert k (set keys) \<and>
      distinct (map fst (dr_outbox u))"
    by (rule scan_event_keeps [OF Cons.prems(1) _ u Cons.prems(5)]) (use Cons.prems(2) in auto)
  then have ok: "events_ok u" using events_follow_ok Cons.prems(5) by blast
  have "claimable t keys' \<and> events_follow u t \<and> event_frame u t \<and> events_ok t"
  proof (rule Cons.IH [OF _ _ _ _ ok])
    show "claimable u keys2" "distinct ks" using k Cons.prems(3) by simp_all
    show "set keys2 \<inter> set ks = {}" using k Cons.prems(2,3) by auto
    show "fold (scan_event now) ks (u, keys2) = (t, keys')" using Cons.prems(4) u by simp
  qed
  then show ?case using k events_follow_trans [of s u t] by (auto simp: event_frame_def)
qed

lemma claim_each_keeps:
  assumes "claimable s keys" "events_ok s"
  shows "events_follow s (fst (claim_each now rnd n worker ttl keys s out)) \<and>
    event_frame s (fst (claim_each now rnd n worker ttl keys s out)) \<and>
    events_ok (fst (claim_each now rnd n worker ttl keys s out))"
  using assms
proof (induction keys arbitrary: s n out)
  case Nil
  then show ?case by simp
next
  case (Cons k keys)
  obtain e where e: "event_of s k = Some e" "ob_status e = pending \<or> ob_status e = running" "ob_attempts e < ob_max e"
    using Cons.prems(1) by (auto simp: claimable_def)
  define f where "f = start_event worker (case rnd n of None \<Rightarrow> [] | Some t \<Rightarrow> t) now ttl e"
  define t where "t = put_event k f s"
  have "event_step e f" by (rule claimed) (use e in \<open>simp_all add: f_def start_event_def same_event_def\<close>)
  then have fol: "events_follow s t" unfolding t_def by (rule events_follow_putI [OF e(1)])
  have "distinct (map fst (dr_outbox t))" using Cons.prems(2) by (simp add: t_def events_ok_def distinct_update)
  then have ok: "events_ok t" using events_follow_ok [OF fol Cons.prems(2)] by blast
  have "claimable t keys" using Cons.prems(1) by (auto simp: claimable_def t_def)
  then have "events_follow t (fst (claim_each now rnd (n + 1) worker ttl keys t (out @ [f]))) \<and>
      event_frame t (fst (claim_each now rnd (n + 1) worker ttl keys t (out @ [f]))) \<and>
      events_ok (fst (claim_each now rnd (n + 1) worker ttl keys t (out @ [f])))"
    using Cons.IH ok by blast
  moreover have "claim_each now rnd n worker ttl (k # keys) s out = claim_each now rnd (n + 1) worker ttl keys t (out @ [f])"
    by (simp add: e(1) Let_def f_def t_def)
  moreover have "event_frame s t" by (simp add: t_def)
  ultimately show ?case using events_follow_trans [OF fol] by (auto simp: event_frame_def)
qed

lemma claim_events_keeps:
  assumes "events_ok s" "mset (order (map fst (dr_outbox s))) = mset (map fst (dr_outbox s))"
  shows "events_follow s (fst (claim_events clk rnd order worker limit ttl s)) \<and>
    event_frame s (fst (claim_events clk rnd order worker limit ttl s)) \<and>
    events_ok (fst (claim_events clk rnd order worker limit ttl s))"
proof -
  let ?ks = "order (map fst (dr_outbox s))"
  obtain s1 keys where s1: "fold (scan_event (clk 0)) ?ks (s, []) = (s1, keys)" by fastforce
  have "distinct ?ks" using assms mset_eq_imp_distinct_iff [OF assms(2)] by (simp add: events_ok_def)
  then have k: "claimable s1 keys \<and> events_follow s s1 \<and> event_frame s s1 \<and> events_ok s1"
    using scan_events_keep [OF _ _ _ s1 assms(1)] by (simp add: claimable_def)
  define sel where "sel = take (nat (if limit \<le> 0 then 32 else limit)) (sort keys)"
  have "set sel \<subseteq> set keys" "distinct sel"
    using k by (auto simp: sel_def claimable_def dest: in_set_takeD)
  then have c: "claimable s1 sel" using k by (auto simp: claimable_def)
  define ttl' where "ttl' = (if ttl \<le> 0 then 30 * second else ttl)"
  have "fst (claim_events clk rnd order worker limit ttl s) = fst (claim_each (clk 0) rnd 0 worker ttl' sel s1 [])"
    unfolding claim_events_def Let_def s1 by (simp add: sel_def ttl'_def split_beta)
  moreover have "events_follow s1 (fst (claim_each (clk 0) rnd 0 worker ttl' sel s1 [])) \<and>
    event_frame s1 (fst (claim_each (clk 0) rnd 0 worker ttl' sel s1 [])) \<and>
    events_ok (fst (claim_each (clk 0) rnd 0 worker ttl' sel s1 []))"
    using claim_each_keeps [OF c] k by blast
  ultimately show ?thesis using k events_follow_trans [of s s1] by (simp add: event_frame_def)
qed

lemma held_event_Some:
  assumes "held_event i token now keys s = Some k"
  obtains e where "event_of s k = Some e" "holds_event i token now e"
  using first_some_Some [OF assms [unfolded held_event_def]] by (cases "event_of s k") auto

lemma settle_event_keeps:
  assumes "events_ok s" "t = fst (complete_event clk order i token s) \<or> t = fst (fail_event clk order i token why retry s)"
  shows "events_follow s t \<and> event_frame s t \<and> events_ok t"
proof -
  have ev: "events_follow s (put_event k f s) \<and> event_frame s (put_event k f s) \<and> events_ok (put_event k f s)"
    if "event_of s k = Some e" "event_step e f" for k e f
  proof -
    have "events_follow s (put_event k f s)" by (rule events_follow_putI [OF that])
    moreover have "distinct (map fst (dr_outbox (put_event k f s)))"
      using assms(1) by (simp add: events_ok_def distinct_update)
    ultimately show ?thesis using events_follow_ok assms(1) by simp
  qed
  show ?thesis
  proof (cases "held_event i token (clk 0) (order (map fst (dr_outbox s))) s")
    case None
    then show ?thesis using assms by (auto simp: complete_event_def fail_event_def)
  next
    case (Some k)
    then obtain e where e: "event_of s k = Some e" "holds_event i token (clk 0) e" by (rule held_event_Some)
    have run: "ob_status e = running" using e(2) by (simp add: holds_event_def)
    have "event_step e (e\<lparr>ob_status := delivered, ob_owner := [], ob_token := [], ob_expires := 0,
        ob_delivered := clk 1, ob_updated := clk 2\<rparr>)"
      by (rule finished [OF run]) (simp_all add: same_event_def)
    moreover have "event_step e (e\<lparr>ob_status := (if ob_attempts e \<ge> ob_max e then dead else pending), ob_owner := [],
        ob_token := [], ob_expires := 0, ob_available := clk 1 + retry, ob_error := why, ob_updated := clk 2\<rparr>)"
      by (rule finished [OF run]) (simp_all add: same_event_def)
    ultimately show ?thesis
      using assms(2) ev [OF e(1)] by (auto simp: complete_event_def fail_event_def Some e(1) Let_def)
  qed
qed

section \<open>Publication\<close>

lemma find_release_Some:
  "find_release i p n rs = Some m \<Longrightarrow> n \<le> m \<and> m < n + length rs \<and> rv_id (rs ! (m - n)) = i \<and> rv_project (rs ! (m - n)) = p"
  by (induction rs arbitrary: n) (fastforce simp: nth_Cons' split: if_splits)+

lemma publish_guard_Inr:
  assumes "publish_guard U cd now c verified s = Inr (j, n, r, h)"
  shows "job_of s (pc_job c) = Some j" "jb_status j = running" "jb_token j = pc_job_token c" "now \<le> jb_expires j"
    and "\<exists>l. dr_scopes s (pc_scope c) = Some l \<and> sc_token l = pc_scope_token c \<and> sc_fence l = pc_scope_fence c \<and> now \<le> sc_expires l"
    and "n < length (dr_releases s)" "r = dr_releases s ! n" "rv_id r = jb_resource j" "rv_project r = jb_project j"
    and "stable_channel U (rv_channel r) \<longrightarrow> verified" "rv_status r \<noteq> published" "rv_status r = pc_status c"
    and "cd_sha cd (cd_manifest cd (rv_manifest r)) = pc_manifest_digest c"
    and "check_passes c (latest_check (rv_id r) (dr_checks s))" "pc_head_revision c = Some (ch_revision h)"
    and "h = (case dr_heads s (head_key (rv_project r) (rv_profile r) (rv_channel r)) of None \<Rightarrow> empty_head [] [] [] | Some h \<Rightarrow> h)"
proof -
  obtain l where j: "job_of s (pc_job c) = Some j" "\<not> (jb_status j \<noteq> running \<or> jb_token j \<noteq> pc_job_token c \<or> jb_expires j < now)"
    and l: "dr_scopes s (pc_scope c) = Some l"
      "\<not> (sc_token l \<noteq> pc_scope_token c \<or> sc_fence l \<noteq> pc_scope_fence c \<or> sc_expires l < now)"
    and f: "find_release (jb_resource j) (jb_project j) 0 (dr_releases s) = Some n"
    using assms unfolding publish_guard_def Let_def by (auto split: option.split_asm if_split_asm)
  have rest: "r = dr_releases s ! n \<and> \<not> (stable_channel U (rv_channel r) \<and> \<not> verified) \<and> rv_status r \<noteq> published \<and>
      rv_status r = pc_status c \<and> cd_sha cd (cd_manifest cd (rv_manifest r)) = pc_manifest_digest c \<and>
      check_passes c (latest_check (rv_id r) (dr_checks s)) \<and> pc_head_revision c = Some (ch_revision h) \<and>
      h = (case dr_heads s (head_key (rv_project r) (rv_profile r) (rv_channel r)) of None \<Rightarrow> empty_head [] [] [] | Some h \<Rightarrow> h)"
    using assms j l f unfolding publish_guard_def Let_def by (auto split: if_split_asm)
  show "job_of s (pc_job c) = Some j" "jb_status j = running" "jb_token j = pc_job_token c" "now \<le> jb_expires j"
    "\<exists>l. dr_scopes s (pc_scope c) = Some l \<and> sc_token l = pc_scope_token c \<and> sc_fence l = pc_scope_fence c \<and> now \<le> sc_expires l"
    using j l by auto
  show "n < length (dr_releases s)" "rv_id r = jb_resource j" "rv_project r = jb_project j"
    using find_release_Some [OF f] rest by simp_all
  show "r = dr_releases s ! n" "stable_channel U (rv_channel r) \<longrightarrow> verified" "rv_status r \<noteq> published" "rv_status r = pc_status c"
    "cd_sha cd (cd_manifest cd (rv_manifest r)) = pc_manifest_digest c"
    "check_passes c (latest_check (rv_id r) (dr_checks s))" "pc_head_revision c = Some (ch_revision h)"
    "h = (case dr_heads s (head_key (rv_project r) (rv_profile r) (rv_channel r)) of None \<Rightarrow> empty_head [] [] [] | Some h \<Rightarrow> h)"
    using rest by blast+
qed

lemma add_event_frame [simp]:
  "dr_jobs (add_event cd r c i rv now typ s) = dr_jobs s" "dr_attempts (add_event cd r c i rv now typ s) = dr_attempts s"
  "dr_scopes (add_event cd r c i rv now typ s) = dr_scopes s" "dr_nonces (add_event cd r c i rv now typ s) = dr_nonces s"
  "dr_releases (add_event cd r c i rv now typ s) = dr_releases s" "dr_checks (add_event cd r c i rv now typ s) = dr_checks s"
  "dr_heads (add_event cd r c i rv now typ s) = dr_heads s" "job_of (add_event cd r c i rv now typ s) k = job_of s k"
  by (simp_all add: add_event_def)

lemma add_event_keeps:
  assumes "events_ok s"
  shows "events_follow s (add_event cd r c i rv now typ s) \<and> events_ok (add_event cd r c i rv now typ s) \<and>
    event_of (add_event cd r c i rv now typ s) (publish_key r c typ) \<noteq> None"
proof (cases "event_of s (publish_key r c typ)")
  case None
  let ?t = "put_event (publish_key r c typ) (publish_event cd r c i rv now typ) s"
  have "event_ok (publish_event cd r c i rv now typ)" "ob_key (publish_event cd r c i rv now typ) = publish_key r c typ"
    by (simp_all add: event_ok_def publish_event_def)
  then have "events_follow s ?t" using None by (auto simp: events_follow_def)
  moreover have "distinct (map fst (dr_outbox ?t))" using assms by (simp add: events_ok_def distinct_update)
  ultimately have "events_follow s ?t \<and> events_ok ?t" using events_follow_ok assms by blast
  then show ?thesis using None by (simp add: add_event_def)
qed (simp add: add_event_def assms)

lemma published_job_step:
  "jb_status j = running \<Longrightarrow> job_step j (published_job now i j)"
  by (rule ended) (simp_all add: published_job_def clear_lease_def same_work_def same_count_def)

lemma published_job_ok: "job_ok j \<Longrightarrow> job_ok (published_job now i j)"
  by (auto simp: job_ok_def published_job_def clear_lease_def)

lemma published_job_fields [simp]:
  "jb_id (published_job now i j) = jb_id j" "jb_attempts (published_job now i j) = jb_attempts j"
  "jb_status (published_job now i j) = succeeded" "jb_fence (published_job now i j) = jb_fence j"
  by (simp_all add: published_job_def clear_lease_def)

lemma commit_publish_Inr:
  assumes "publish_guard U cd (clk 0) c verified s = Inr (j, n, r, h)" "jobs_ok s" "events_ok s"
    and "t = fst (commit_publish U cd clk c verified s)"
  shows "jobs_follow s t" "jobs_ok t" "events_follow s t" "events_ok t"
    and "dr_scopes t = dr_scopes s" "dr_nonces t = dr_nonces s" "dr_checks t = dr_checks s"
    and "dr_releases t = (dr_releases s)[n := r\<lparr>rv_status := published, rv_published := clk 0\<rparr>]"
    and "dr_heads t = (dr_heads s)(head_key (rv_project r) (rv_profile r) (rv_channel r) \<mapsto> next_head c r (clk 0) h)"
    and "job_of t (pc_job c) = Some (published_job (clk 0) (rv_id r) j)"
    and "\<forall>typ \<in> set event_types. event_of t (publish_key r c typ) \<noteq> None"
proof -
  note g = publish_guard_Inr [OF assms(1)]
  have i: "jb_id j = pc_job c" using jobs_okD(3) [OF assms(2) g(1)] .
  let ?r = "r\<lparr>rv_status := published, rv_published := clk 0\<rparr>"
  let ?h = "next_head c r (clk 0) h"
  define s1 where "s1 = s\<lparr>dr_releases := (dr_releases s)[n := ?r],
      dr_heads := (dr_heads s)(head_key (rv_project r) (rv_profile r) (rv_channel r) \<mapsto> ?h)\<rparr>"
  define s3 where "s3 = put_job (pc_job c) (published_job (clk 0) (rv_id r) j) (finish_attempt (pc_job c) succeeded [] (clk 1) s1)"
  let ?add = "add_event cd ?r c (pc_job c) (ch_revision ?h) (clk 0)"
  have t: "t = ?add ''release.published'' (?add ''package.published'' s3)"
    using assms(4) unfolding commit_publish_def assms(1) Let_def by (simp add: i s1_def s3_def event_types_def)
  have same: "dr_jobs s1 = dr_jobs s" "dr_attempts s1 = dr_attempts s" "dr_outbox s1 = dr_outbox s"
    "dr_scopes s1 = dr_scopes s" "dr_nonces s1 = dr_nonces s" "dr_checks s1 = dr_checks s"
    by (simp_all add: s1_def)
  have ok1: "jobs_ok s1" and j1: "job_of s1 (pc_job c) = Some j"
    using assms(2) g(1) by (simp_all add: jobs_ok_def job_of_def same)
  have "jobs_follow s1 s3"
    unfolding s3_def by (rule jobs_follow_putI [OF j1 published_job_step [OF g(2)]]) simp
  then show "jobs_follow s t" by (simp add: t jobs_follow_def job_of_def same)
  have "jobs_ok s3" unfolding s3_def
    by (rule jobs_ok_end [OF ok1 j1])
      (use i published_job_ok [OF jobs_okD(1) [OF assms(2) g(1)]] published_job_fields in \<open>simp_all\<close>)
  then show "jobs_ok t" by (simp add: t jobs_ok_def job_of_def)
  have "dr_outbox s3 = dr_outbox s" by (simp add: s3_def same)
  then have e3: "events_ok s3" "events_follow s s3" using assms(3) events_follow_same by (auto simp: events_ok_def event_of_def)
  have e4: "events_follow s3 (?add ''package.published'' s3) \<and> events_ok (?add ''package.published'' s3) \<and>
      event_of (?add ''package.published'' s3) (publish_key ?r c ''package.published'') \<noteq> None"
    by (rule add_event_keeps [OF e3(1)])
  have e5: "events_follow (?add ''package.published'' s3) t \<and> events_ok t \<and>
      event_of t (publish_key ?r c ''release.published'') \<noteq> None"
    unfolding t by (rule add_event_keeps) (use e4 in blast)
  show "events_ok t" using e5 by blast
  show "events_follow s t" using e3(2) e4 e5 events_follow_trans by blast
  have k: "publish_key ?r c ty = publish_key r c ty" for ty by (simp add: publish_key_def)
  have "event_of t (publish_key r c ''package.published'') \<noteq> None"
    using e4 e5 unfolding k events_follow_def by blast
  then show "\<forall>typ \<in> set event_types. event_of t (publish_key r c typ) \<noteq> None"
    using e5 unfolding k event_types_def by simp
  show "dr_scopes t = dr_scopes s" "dr_nonces t = dr_nonces s" "dr_checks t = dr_checks s"
    by (simp_all add: t s3_def same) (simp add: finish_attempt_def same)
  show "dr_releases t = (dr_releases s)[n := ?r]"
    "dr_heads t = (dr_heads s)(head_key (rv_project r) (rv_profile r) (rv_channel r) \<mapsto> ?h)"
    by (simp_all add: t s3_def) (simp_all add: s1_def)
  show "job_of t (pc_job c) = Some (published_job (clk 0) (rv_id r) j)"
    by (simp add: t s3_def)
qed

lemma commit_publish_Inl:
  "publish_guard U cd (clk 0) c verified s = Inl e \<Longrightarrow> commit_publish U cd clk c verified s = (s, Inl e)"
  by (simp add: commit_publish_def)

lemma commit_publish_cases:
  obtains e where "publish_guard U cd (clk 0) c verified s = Inl e" "commit_publish U cd clk c verified s = (s, Inl e)"
  | j n r h where "publish_guard U cd (clk 0) c verified s = Inr (j, n, r, h)"
      "snd (commit_publish U cd clk c verified s) = Inr (r\<lparr>rv_status := published, rv_published := clk 0\<rparr>)"
proof (cases "publish_guard U cd (clk 0) c verified s")
  case (Inl e)
  then show ?thesis using that(1) commit_publish_Inl by blast
next
  case (Inr q)
  obtain j n r h where q: "q = (j, n, r, h)" by (cases q)
  then show ?thesis using that(2) [of j n r h] Inr by (simp add: commit_publish_def Let_def)
qed

end
