(* ===== verification/ReleaseStore.thy ===== *)
theory ReleaseStore
  imports DurablePublish
begin

text \<open>
  Release drafts and channels of \<^verbatim>\<open>MemoryRepository\<close> (\<^verbatim>\<open>repository/memory.go\<close>): creating a draft from the frozen
  snapshot of a profile, changing its status and manifest, publishing a signed draft by compare-and-swap on the
  channel head, and reading the manifest a channel serves.  Projects and profiles come from \<open>ProfileStore\<close>.
  The invariant \<open>catalog_ok\<close> says what a channel head points to.
\<close>

section \<open>Times as text\<close>

text \<open>A time counts nanoseconds since the zero time, January 1 of year 1 (UTC).\<close>

definition civil :: "int \<Rightarrow> int \<times> int \<times> int" where \<comment> \<open>year, month and day of a day count\<close>
  "civil days =
     (let z = days + 306; era = z div 146097; doe = z mod 146097;
          yoe = (doe - doe div 1460 + doe div 36524 - doe div 146096) div 365;
          doy = doe - (365 * yoe + yoe div 4 - yoe div 100);
          mp = (5 * doy + 2) div 153;
          m = (if mp < 10 then mp + 3 else mp - 9)
      in (yoe + era * 400 + (if m \<le> 2 then 1 else 0), m, doy - (153 * mp + 2) div 5 + 1))"

definition pad :: "nat \<Rightarrow> int \<Rightarrow> string" where
  "pad w n = replicate (w - length (show_int n)) (CHR ''0'') @ show_int n"

definition clock_of :: "time \<Rightarrow> int \<times> int \<times> int" where
  "clock_of t = (let s = t div second mod 86400 in (s div 3600, s mod 3600 div 60, s mod 60))"

definition format_rfc3339 :: "time \<Rightarrow> string" where
  "format_rfc3339 t =
     (case (civil (t div second div 86400), clock_of t) of
        ((y, m, d), (hh, mm, ss)) \<Rightarrow>
          pad 4 y @ ''-'' @ pad 2 m @ ''-'' @ pad 2 d @ ''T'' @ pad 2 hh @ '':'' @ pad 2 mm @ '':'' @ pad 2 ss @ ''Z'')"

definition format_compact :: "time \<Rightarrow> string" where
  "format_compact t =
     (case (civil (t div second div 86400), clock_of t) of
        ((y, m, d), (hh, mm, ss)) \<Rightarrow> pad 4 y @ pad 2 m @ pad 2 d @ pad 2 hh @ pad 2 mm @ pad 2 ss)"

section \<open>Drafts\<close>

definition at_coordinates :: "string \<Rightarrow> string \<Rightarrow> string \<Rightarrow> string \<Rightarrow> release_version \<Rightarrow> bool" where
  "at_coordinates project profile channel version r \<longleftrightarrow>
     rv_project r = project \<and> rv_profile r = profile \<and> rv_channel r = channel \<and> rv_version r = version"

definition release_id :: "string \<Rightarrow> string \<Rightarrow> string \<Rightarrow> string" where
  "release_id project profile version = join_char (CHR ''-'') [project, profile, version]"

definition draft_profile :: "string \<Rightarrow> string" where
  "draft_profile profile = (if profile = [] then ''vanilla'' else profile)"

definition draft_channel :: "string \<Rightarrow> string" where
  "draft_channel channel = (if channel = [] then ''dev'' else channel)"

definition draft_version :: "clock \<Rightarrow> string \<Rightarrow> string" where
  "draft_version clk version = (if version = [] then format_compact (clk 0) else version)"

definition new_draft :: "clock \<Rightarrow> profile_snapshot \<Rightarrow> string \<Rightarrow> string \<Rightarrow> string \<Rightarrow> string \<Rightarrow> release_version" where
  "new_draft clk sn project profile channel version =
     \<lparr>rv_id = release_id project profile version, rv_project = project, rv_profile = profile, rv_channel = channel,
      rv_version = version, rv_status = ''draft'',
      rv_manifest = no_manifest\<lparr>mn_schema := manifest_schema2, mn_snapshot := Some sn, mn_project := project,
        mn_profile := profile, mn_channel := channel, mn_version := version, mn_created := format_rfc3339 (clk 1)\<rparr>,
      rv_published = clk 1\<rparr>"

definition create_version ::
    "codec \<Rightarrow> profile_store \<Rightarrow> clock \<Rightarrow> string \<Rightarrow> string \<Rightarrow> string \<Rightarrow> string \<Rightarrow> durable \<Rightarrow> release_version outcome" where
  "create_version cd ps clk project profile0 channel0 version0 s =
     (case get_project project ps of
        Inl _ \<Rightarrow> (s, Inl NotFound)
      | Inr _ \<Rightarrow>
          (let profile = draft_profile profile0; channel = draft_channel channel0; version = draft_version clk version0
           in if list_ex (at_coordinates project profile channel version) (dr_releases s) then (s, Inl Conflict)
              else
                (case read_snapshot (cd_sha cd) project profile ps of
                   Inl _ \<Rightarrow> (s, Inl NotFound) \<comment> \<open>the only error of \<^verbatim>\<open>ReadProfileSnapshot\<close>\<close>
                 | Inr sn \<Rightarrow>
                     (let r = new_draft clk sn project profile channel version
                      in (s\<lparr>dr_releases := dr_releases s @ [r]\<rparr>, Inr r)))))"

definition put_release :: "nat \<Rightarrow> release_version \<Rightarrow> durable \<Rightarrow> durable" where
  "put_release n r s = s\<lparr>dr_releases := (dr_releases s)[n := r]\<rparr>"

definition create_version3 ::
    "codec \<Rightarrow> profile_store \<Rightarrow> clock \<Rightarrow> string \<Rightarrow> string \<Rightarrow> string \<Rightarrow> string \<Rightarrow> durable \<Rightarrow> release_version outcome" where
  "create_version3 cd ps clk project profile channel version s =
     (case create_version cd ps clk project profile channel version s of
        (t, Inl e) \<Rightarrow> (t, Inl e)
      | (t, Inr r) \<Rightarrow>
          (case index_of (\<lambda>x. rv_id x = rv_id r \<and> rv_project x = project) (dr_releases t) of
             None \<Rightarrow> (t, Inl NotFound)
           | Some n \<Rightarrow>
               (let x = dr_releases t ! n;
                    y = x\<lparr>rv_manifest := (rv_manifest x)\<lparr>mn_schema := manifest_schema3,
                            mn_catalog := Some (new_catalog1 (cd_sha cd) [] 1)\<rparr>\<rparr>
                in (put_release n y t, Inr y))))"

section \<open>Changes of a draft\<close>

definition update_status ::
    "unicode \<Rightarrow> string \<Rightarrow> string \<Rightarrow> string \<Rightarrow> durable \<Rightarrow> release_version outcome" where
  "update_status U project i status0 s =
     (let status = trim_space status0
      in if status = [] then (s, Inl StatusRequired)
         else
           (case index_of (\<lambda>x. rv_project x = project \<and> rv_id x = i) (dr_releases s) of
              None \<Rightarrow> (s, Inl NotFound)
            | Some n \<Rightarrow>
                (let x = dr_releases s ! n; y = x\<lparr>rv_status := status\<rparr>
                 in if equal_fold U status ''published'' then
                      (s, Inl (if stable_channel U (rv_channel x) then StableGate else Conflict))
                    else if rv_status x = published then (s, Inl Immutable)
                    else (put_release n y s, Inr y))))"

definition candidate_manifest :: "release_version \<Rightarrow> string \<Rightarrow> manifest \<Rightarrow> manifest" where
  "candidate_manifest r project m =
     m\<lparr>mn_project := project, mn_profile := rv_profile r, mn_channel := rv_channel r, mn_version := rv_version r,
       mn_schema := (if mn_schema m = [] then ''1.0'' else mn_schema m)\<rparr>"

definition update_manifest ::
    "unicode \<Rightarrow> codec \<Rightarrow> (string list \<Rightarrow> string list) \<Rightarrow> string \<Rightarrow> string \<Rightarrow> manifest \<Rightarrow> durable \<Rightarrow> release_version outcome" where
  "update_manifest U cd order project i m0 s =
     (case index_of (\<lambda>x. rv_project x = project \<and> rv_id x = i) (dr_releases s) of
        None \<Rightarrow> (s, Inl NotFound)
      | Some n \<Rightarrow>
          (let x = dr_releases s ! n; m = candidate_manifest x project m0; y = x\<lparr>rv_manifest := m\<rparr>
           in if rv_status x = published then (s, Inl Immutable)
              else
                (case validate_transition U (cd_sha cd) order (rv_manifest x) m of
                   Inl e \<Rightarrow> (s, Inl (Rejected e))
                 | Inr _ \<Rightarrow> (put_release n y s, Inr y))))"

text \<open>Uploading a file appends it to the list of files and to the manifest of its release; the list of files, which no
  other operation of the model reads, is an argument.\<close>

record file_object =
  fo_id :: string
  fo_project :: string
  fo_version :: string
  fo_path :: string
  fo_size :: int
  fo_sha256 :: string
  fo_url :: string
  fo_mirrors :: "string list"
  fo_required :: bool
  fo_executable :: bool
  fo_target_os :: "string list"
  fo_ownership :: string

definition stored_file :: "clock \<Rightarrow> file_object \<Rightarrow> file_object" where
  "stored_file clk f =
     (let own = (if fo_ownership f = [] then ''required'' else fo_ownership f)
      in f\<lparr>fo_id := (if fo_id f = [] then ''file-'' @ show_int (clk 0 - 62135596800 * second) else fo_id f),
           fo_required := (own = ''required'' \<or> own = ''managed''), fo_ownership := own\<rparr>)"

definition file_entry :: "file_object \<Rightarrow> manifest_file" where
  "file_entry f =
     \<lparr>mf_path = fo_path f, mf_size = fo_size f, mf_sha256 = fo_sha256 f, mf_url = fo_url f, mf_mirrors = fo_mirrors f,
      mf_required = fo_required f, mf_executable = fo_executable f, mf_target_os = fo_target_os f,
      mf_ownership = fo_ownership f\<rparr>"

definition add_file ::
    "profile_store \<Rightarrow> clock \<Rightarrow> file_object \<Rightarrow> file_object list \<Rightarrow> durable \<Rightarrow>
     (file_object list \<times> durable) \<times> (durable_error + file_object)" where
  "add_file ps clk f0 files s =
     (let mine = (\<lambda>x. rv_project x = fo_project f0 \<and> rv_id x = fo_version f0); f = stored_file clk f0
      in if \<not> is_ok (get_project (fo_project f0) ps) then ((files, s), Inl NotFound)
         else if list_ex (\<lambda>x. mine x \<and> rv_status x = published) (dr_releases s) then ((files, s), Inl Immutable)
         else
           (case index_of mine (dr_releases s) of
              None \<Rightarrow> ((files @ [f], s), Inr f)
            | Some n \<Rightarrow>
                (let x = dr_releases s ! n; m = rv_manifest x;
                     y = x\<lparr>rv_manifest := m\<lparr>mn_files := mn_files m @ [file_entry f], mn_created := format_rfc3339 (clk 1)\<rparr>\<rparr>
                 in ((files @ [f], put_release n y s), Inr f))))"

definition format_rfc3339_nano :: "time \<Rightarrow> string" where
  "format_rfc3339_nano t =
     (let digits = rev (dropWhile (\<lambda>c. c = CHR ''0'') (rev (pad 9 (t mod second))))
      in butlast (format_rfc3339 t) @ (if digits = [] then [] else CHR ''.'' # digits) @ ''Z'')"

definition edit_catalog ::
    "unicode \<Rightarrow> codec \<Rightarrow> (string list \<Rightarrow> string list) \<Rightarrow> clock \<Rightarrow> string \<Rightarrow> string \<Rightarrow> u64 \<Rightarrow> catalog \<Rightarrow> durable \<Rightarrow>
     release_version outcome" where
  "edit_catalog U cd order clk project i expected cat s =
     (case index_of (\<lambda>x. rv_id x = i \<and> rv_project x = project) (dr_releases s) of
        None \<Rightarrow> (s, Inl NotFound)
      | Some n \<Rightarrow>
          (let x = dr_releases s ! n; m = rv_manifest x;
               k = m\<lparr>mn_catalog := Some cat, mn_created := format_rfc3339_nano (clk 0)\<rparr>; y = x\<lparr>rv_manifest := k\<rparr>
           in if rv_status x \<noteq> ''draft'' \<or> mn_schema m \<noteq> manifest_schema3 \<or> mn_signature m \<noteq> None
              then (s, Inl Immutable)
              else if (case mn_catalog m of None \<Rightarrow> True | Some c \<Rightarrow> cat_revision c \<noteq> expected) \<or> cat_revision cat \<noteq> expected + 1
              then (s, Inl CatalogChanged)
              else
                (case validate_manifest_schema U (cd_sha cd) order k of
                   Inl e \<Rightarrow> (s, Inl (Rejected e))
                 | Inr _ \<Rightarrow> (put_release n y s, Inr y))))"

section \<open>Integrity checks\<close>

definition normalize_check :: "unicode \<Rightarrow> time \<Rightarrow> integrity_check \<Rightarrow> durable_error + integrity_check" where
  "normalize_check U now x =
     (let c = x\<lparr>ic_id := trim_space (ic_id x), ic_package := trim_space (ic_package x),
                ic_project := trim_space (ic_project x),
                ic_manifest_digest := to_lower U (trim_space (ic_manifest_digest x)),
                ic_artifact_digest := to_lower U (trim_space (ic_artifact_digest x)),
                ic_result := to_lower U (trim_space (ic_result x))\<rparr>
      in if ic_id c = [] \<or> ic_package c = [] \<or> ic_project c = [] \<or> length (ic_manifest_digest c) \<noteq> 64 \<or>
            length (ic_artifact_digest c) \<noteq> 64 then Inl CheckFieldsMissing
         else if ic_result c \<noteq> ''passed'' \<and> ic_result c \<noteq> ''failed'' then Inl BadCheckResult
         else Inr (if ic_checked c = 0 then c\<lparr>ic_checked := now\<rparr> else c))"

definition save_check :: "unicode \<Rightarrow> clock \<Rightarrow> integrity_check \<Rightarrow> durable \<Rightarrow> integrity_check outcome" where
  "save_check U clk x s =
     (case normalize_check U (clk 0) x of
        Inl e \<Rightarrow> (s, Inl e)
      | Inr c \<Rightarrow> (s\<lparr>dr_checks := dr_checks s @ [c]\<rparr>, Inr c))"

section \<open>Publication of a signed draft\<close>

definition cas_head :: "codec \<Rightarrow> release_version \<Rightarrow> manifest \<Rightarrow> int \<Rightarrow> time \<Rightarrow> channel_head" where
  "cas_head cd r m expected now =
     \<lparr>ch_project = rv_project r, ch_profile = rv_profile r, ch_channel = rv_channel r, ch_revision = expected + 1,
      ch_release = rv_id r, ch_version = rv_version r, ch_digest = cd_sha cd (cd_manifest cd m), ch_updated = now\<rparr>"

definition publish_cas ::
    "unicode \<Rightarrow> codec \<Rightarrow> (string list \<Rightarrow> string list) \<Rightarrow> profile_store \<Rightarrow> clock \<Rightarrow>
     string \<Rightarrow> string \<Rightarrow> string \<Rightarrow> string \<Rightarrow> manifest \<Rightarrow> int \<Rightarrow> durable \<Rightarrow> release_version outcome" where
  "publish_cas U cd order ps clk project profile channel version m0 expected s =
     (let key = head_key project profile channel; now = clk 0
      in if stable_channel U channel then (s, Inl StableGate)
         else if ch_revision (channel_head_of project profile channel s) \<noteq> expected then (s, Inl Conflict)
         else if \<not> is_ok (get_project project ps) then (s, Inl NotFound)
         else
           (case index_of (at_coordinates project profile channel version) (dr_releases s) of
              None \<Rightarrow> (s, Inl NotFound)
            | Some n \<Rightarrow>
                (let x = dr_releases s ! n; m = candidate_manifest x project m0;
                     y = x\<lparr>rv_manifest := m, rv_status := published, rv_published := now\<rparr>
                 in if rv_status x = published then (s, Inl Immutable)
                    else
                      (case validate_transition U (cd_sha cd) order (rv_manifest x) m of
                         Inl e \<Rightarrow> (s, Inl (Rejected e))
                       | Inr _ \<Rightarrow>
                           ((put_release n y s)\<lparr>dr_heads := (dr_heads s)(key \<mapsto> cas_head cd x m expected now)\<rparr>,
                            Inr y)))))"

definition publish_manifest ::
    "unicode \<Rightarrow> codec \<Rightarrow> (string list \<Rightarrow> string list) \<Rightarrow> profile_store \<Rightarrow> clock \<Rightarrow>
     string \<Rightarrow> string \<Rightarrow> string \<Rightarrow> string \<Rightarrow> manifest \<Rightarrow> durable \<Rightarrow> release_version outcome" where
  "publish_manifest U cd order ps clk project profile channel version m s =
     publish_cas U cd order ps clk project profile channel version m
       (ch_revision (channel_head_of project profile channel s)) s"

definition publish_version ::
    "unicode \<Rightarrow> codec \<Rightarrow> (string list \<Rightarrow> string list) \<Rightarrow> profile_store \<Rightarrow> clock \<Rightarrow>
     string \<Rightarrow> string \<Rightarrow> string \<Rightarrow> string \<Rightarrow> durable \<Rightarrow> release_version outcome" where
  "publish_version U cd order ps clk project profile channel version s =
     (case first_some (at_coordinates project profile channel version) (dr_releases s) of
        None \<Rightarrow> (s, Inl NotFound)
      | Some r \<Rightarrow>
          if rv_status r = published then (s, Inl Immutable)
          else if mn_signature (rv_manifest r) = None then (s, Inl Conflict)
          else publish_manifest U cd order ps clk project profile channel version (rv_manifest r) s)"

section \<open>What a channel serves\<close>

definition served :: "string \<Rightarrow> string \<Rightarrow> string \<Rightarrow> channel_head \<Rightarrow> release_version \<Rightarrow> bool" where
  "served project profile channel h r \<longleftrightarrow>
     rv_id r = ch_release h \<and> rv_project r = project \<and> rv_profile r = profile \<and> rv_channel r = channel \<and>
     rv_status r = published"

definition get_manifest :: "string \<Rightarrow> string \<Rightarrow> string \<Rightarrow> durable \<Rightarrow> durable_error + manifest" where
  "get_manifest project profile channel s =
     (case dr_heads s (head_key project profile channel) of
        None \<Rightarrow> Inl NotFound
      | Some h \<Rightarrow>
          if ch_revision h = 0 then Inl NotFound
          else
            (case first_some (served project profile channel h) (dr_releases s) of
               None \<Rightarrow> Inl NotFound
             | Some r \<Rightarrow> Inr (rv_manifest r)))"

definition list_versions ::
    "(release_version list \<Rightarrow> release_version list) \<Rightarrow> profile_store \<Rightarrow> string \<Rightarrow> durable \<Rightarrow>
     durable_error + release_version list" where
  \<comment> \<open>\<open>newest_first\<close>: \<^verbatim>\<open>sort.Slice\<close> on the publication times, which need not differ\<close>
  "list_versions newest_first ps project s =
     (if is_ok (get_project project ps) then Inr (newest_first (filter (\<lambda>r. rv_project r = project) (dr_releases s)))
      else Inl NotFound)"

lemma format_samples:
  "format_rfc3339 (63834739199 * second) = ''2023-11-04T23:59:59Z''"
  "format_compact (63862876800 * second) = ''20240925160000''"
  "format_rfc3339 0 = ''0001-01-01T00:00:00Z''"
  by code_simp+

section \<open>The invariant of drafts and channels\<close>

definition coordinates :: "release_version \<Rightarrow> string \<times> string \<times> string \<times> string" where
  "coordinates r = (rv_project r, rv_profile r, rv_channel r, rv_version r)"

definition releases_ok :: "release_version list \<Rightarrow> bool" where
  "releases_ok rs \<longleftrightarrow>
     distinct (map coordinates rs) \<and> (\<forall>r \<in> set rs. rv_id r = release_id (rv_project r) (rv_profile r) (rv_version r))"

definition points_to :: "codec \<Rightarrow> channel_head \<Rightarrow> release_version \<Rightarrow> bool" where
  "points_to cd h r \<longleftrightarrow>
     served (ch_project h) (ch_profile h) (ch_channel h) h r \<and> rv_version r = ch_version h \<and>
     (ch_digest h = [] \<or> ch_digest h = cd_sha cd (cd_manifest cd (rv_manifest r)))"

definition catalog_ok :: "codec \<Rightarrow> durable \<Rightarrow> bool" where
  "catalog_ok cd s \<longleftrightarrow>
     releases_ok (dr_releases s) \<and>
     (\<forall>k h. dr_heads s k = Some h \<longrightarrow> 0 \<le> ch_revision h \<and>
        (ch_revision h \<noteq> 0 \<longrightarrow> k = head_key (ch_project h) (ch_profile h) (ch_channel h) \<and>
           (\<exists>r \<in> set (dr_releases s). points_to cd h r)))"

lemma catalog_ok_same:
  "catalog_ok cd s \<Longrightarrow> dr_releases t = dr_releases s \<Longrightarrow> dr_heads t = dr_heads s \<Longrightarrow> catalog_ok cd t"
  by (simp add: catalog_ok_def)

lemma at_coordinates_iff: "at_coordinates project profile channel version r \<longleftrightarrow> coordinates r = (project, profile, channel, version)"
  by (auto simp: at_coordinates_def coordinates_def)

text \<open>A draft may change; its coordinates and identifier may not, and the published releases stay.\<close>

lemma releases_ok_update:
  assumes "releases_ok rs" "n < length rs" "coordinates r = coordinates (rs ! n)" "rv_id r = rv_id (rs ! n)"
  shows "releases_ok (rs[n := r])"
proof -
  have "map coordinates (rs[n := r]) = map coordinates rs"
    using assms(2,3) by (simp add: map_update list_update_same_conv)
  moreover have "rv_id x = release_id (rv_project x) (rv_profile x) (rv_version x)" if "x \<in> set (rs[n := r])" for x
  proof (cases "x = r")
    case True
    then show ?thesis
      using assms by (auto simp: releases_ok_def coordinates_def)
  next
    case False
    then have "x \<in> set rs" using that set_update_subset_insert by fastforce
    then show ?thesis using assms(1) by (simp add: releases_ok_def)
  qed
  ultimately show ?thesis using assms(1) by (simp add: releases_ok_def)
qed

lemma published_kept:
  assumes "n < length rs" "rv_status (rs ! n) \<noteq> published" "r \<in> set rs" "rv_status r = published"
  shows "r \<in> set (rs[n := x])"
proof -
  obtain m where m: "m < length rs" "r = rs ! m" using assms(3) by (auto simp: in_set_conv_nth)
  then have "rs[n := x] ! m = r" using assms(2,4) by (cases "m = n") auto
  then show ?thesis using m(1) by (metis length_list_update nth_mem)
qed

lemma catalog_ok_draft:
  assumes "catalog_ok cd s" "n < length (dr_releases s)" "rv_status (dr_releases s ! n) \<noteq> published"
    and "coordinates r = coordinates (dr_releases s ! n)" "rv_id r = rv_id (dr_releases s ! n)"
    and "dr_releases t = (dr_releases s)[n := r]" "dr_heads t = dr_heads s"
  shows "catalog_ok cd t"
  using assms(1) releases_ok_update [OF _ assms(2,4,5)] published_kept [OF assms(2,3)]
  unfolding catalog_ok_def assms(6,7) points_to_def served_def by blast

lemma catalog_ok_publish:
  assumes "catalog_ok cd s" "n < length (dr_releases s)" "rv_status (dr_releases s ! n) \<noteq> published"
    and "coordinates r = coordinates (dr_releases s ! n)" "rv_id r = rv_id (dr_releases s ! n)" "rv_status r = published"
    and "dr_releases t = (dr_releases s)[n := r]"
    and "dr_heads t = (dr_heads s)(head_key (rv_project r) (rv_profile r) (rv_channel r) \<mapsto> h)"
    and "ch_project h = rv_project r" "ch_profile h = rv_profile r" "ch_channel h = rv_channel r"
    and "ch_release h = rv_id r" "ch_version h = rv_version r" "0 < ch_revision h"
    and "ch_digest h = cd_sha cd (cd_manifest cd (rv_manifest r))"
  shows "catalog_ok cd t"
proof -
  have "r \<in> set (dr_releases t)" using assms(2,7) by (simp add: set_update_memI)
  moreover have "points_to cd h r" using assms(6,9-13,15) by (simp add: points_to_def served_def)
  moreover have "releases_ok (dr_releases t)"
    using assms(1) releases_ok_update [OF _ assms(2,4,5)] by (simp add: assms(7) catalog_ok_def)
  moreover have kept: "\<exists>x \<in> set (dr_releases t). points_to cd g x"
    if "\<exists>x \<in> set (dr_releases s). points_to cd g x" for g
  proof -
    from that obtain x where x: "x \<in> set (dr_releases s)" "points_to cd g x" by blast
    then have "x \<in> set (dr_releases t)"
      unfolding assms(7) by (intro published_kept [OF assms(2,3)]) (simp_all add: points_to_def served_def)
    then show ?thesis using x(2) by blast
  qed
  ultimately show ?thesis
    using assms(1,8-11,14) unfolding catalog_ok_def by (auto split: if_split_asm intro: kept)
qed

lemma catalog_ok_created:
  assumes "catalog_ok cd s" "coordinates r \<notin> coordinates ` set (dr_releases s)"
    and "rv_id r = release_id (rv_project r) (rv_profile r) (rv_version r)"
    and "dr_releases t = dr_releases s @ [r]" "dr_heads t = dr_heads s"
  shows "catalog_ok cd t"
  using assms(1-3) unfolding catalog_ok_def assms(4,5) by (auto simp: releases_ok_def)

text \<open>What a channel serves is the one published release its head points to.\<close>

lemma head_serves:
  assumes "catalog_ok cd s" "dr_heads s (head_key p f c) = Some h" "ch_revision h \<noteq> 0"
    and "ch_project h = p" "ch_profile h = f" "ch_channel h = c"
  shows "\<exists>r \<in> set (dr_releases s). points_to cd h r \<and> get_manifest p f c s = Inr (rv_manifest r) \<and>
    (\<forall>x \<in> set (dr_releases s). served p f c h x \<longrightarrow> x = r)"
proof -
  obtain r where r: "r \<in> set (dr_releases s)" "points_to cd h r"
    using assms(1-3) by (auto simp: catalog_ok_def)
  have ok: "releases_ok (dr_releases s)" using assms(1) by (simp add: catalog_ok_def)
  have one: "x = r" if x: "x \<in> set (dr_releases s)" "served p f c h x" for x
  proof -
    have ids: "rv_id x = release_id p f (rv_version x)" "rv_id r = release_id p f (rv_version r)" "rv_id x = rv_id r"
      using ok x r assms(4-6) by (auto simp: releases_ok_def points_to_def served_def)
    then have "rv_version x = rv_version r" by (simp add: release_id_def)
    then have "coordinates x = coordinates r"
      using x(2) r(2) assms(4-6) by (simp add: coordinates_def points_to_def served_def)
    then show ?thesis using ok x(1) r(1) by (auto simp: releases_ok_def distinct_map inj_on_def)
  qed
  have "first_some (served p f c h) (dr_releases s) \<noteq> None"
    using r assms(4-6) by (auto simp: first_some_None points_to_def)
  then obtain x where x: "first_some (served p f c h) (dr_releases s) = Some x" by blast
  then have "x = r" using first_some_Some [OF x] one by blast
  then show ?thesis using r one x assms(2,3) by (auto simp: get_manifest_def)
qed

section \<open>Every operation keeps the invariant\<close>

definition frozen_moves :: "release_version \<Rightarrow> release_version \<Rightarrow> bool" where
  \<comment> \<open>a published release stays, a draft keeps its identifier and coordinates\<close>
  "frozen_moves a b \<longleftrightarrow> b = a \<or> rv_status a \<noteq> published \<and> rv_id b = rv_id a \<and> coordinates b = coordinates a"

definition catalog_frame :: "durable \<Rightarrow> durable \<Rightarrow> bool" where
  "catalog_frame s t \<longleftrightarrow>
     dr_jobs t = dr_jobs s \<and> dr_attempts t = dr_attempts s \<and> dr_scopes t = dr_scopes s \<and>
     dr_outbox t = dr_outbox s \<and> dr_nonces t = dr_nonces s"

definition release_at :: "durable \<Rightarrow> nat \<Rightarrow> release_version option" where
  "release_at s n = (if n < length (dr_releases s) then Some (dr_releases s ! n) else None)"

definition catalog_moves :: "durable \<Rightarrow> durable \<Rightarrow> bool" where
  "catalog_moves s t \<longleftrightarrow>
     (\<forall>n a. release_at s n = Some a \<longrightarrow> (\<exists>b. release_at t n = Some b \<and> frozen_moves a b)) \<and>
     (\<forall>k a. dr_heads s k = Some a \<longrightarrow> (\<exists>b. dr_heads t k = Some b \<and> (b = a \<or> ch_revision a < ch_revision b)))"

definition catalog_result :: "codec \<Rightarrow> durable \<Rightarrow> durable \<Rightarrow> bool" where
  "catalog_result cd s t \<longleftrightarrow> catalog_ok cd t \<and> catalog_frame s t \<and> catalog_moves s t"

lemma catalog_moves_same:
  "dr_releases t = dr_releases s \<Longrightarrow> dr_heads t = dr_heads s \<Longrightarrow> catalog_moves s t"
  by (simp add: catalog_moves_def release_at_def frozen_moves_def)

lemma catalog_result_refl: "catalog_ok cd s \<Longrightarrow> catalog_result cd s s"
  by (simp add: catalog_result_def catalog_frame_def catalog_moves_same)

lemma release_moves_update:
  assumes "dr_releases t = (dr_releases s)[n := r]" "n < length (dr_releases s)" "rv_status (dr_releases s ! n) \<noteq> published"
    and "coordinates r = coordinates (dr_releases s ! n)" "rv_id r = rv_id (dr_releases s ! n)" "release_at s k = Some a"
  shows "\<exists>b. release_at t k = Some b \<and> frozen_moves a b"
  using assms by (cases "k = n") (auto simp: release_at_def frozen_moves_def split: if_split_asm)

lemma draft_result:
  assumes "catalog_ok cd s" "n < length (dr_releases s)" "rv_status (dr_releases s ! n) \<noteq> published"
    and "coordinates r = coordinates (dr_releases s ! n)" "rv_id r = rv_id (dr_releases s ! n)"
  shows "catalog_result cd s (put_release n r s)"
proof -
  have "catalog_ok cd (put_release n r s)"
    by (rule catalog_ok_draft [OF assms]) (simp_all add: put_release_def)
  moreover have "catalog_frame s (put_release n r s)" by (simp add: catalog_frame_def put_release_def)
  moreover have "catalog_moves s (put_release n r s)"
    using release_moves_update [OF _ assms(2-5), of "put_release n r s"] by (simp add: catalog_moves_def put_release_def)
  ultimately show ?thesis by (simp add: catalog_result_def)
qed

lemma create_version_cases:
  obtains e where "create_version cd ps clk project profile channel version s = (s, Inl e)"
  | sn r where "r = new_draft clk sn project (draft_profile profile) (draft_channel channel) (draft_version clk version)"
      "coordinates r \<notin> coordinates ` set (dr_releases s)"
      "create_version cd ps clk project profile channel version s = (s\<lparr>dr_releases := dr_releases s @ [r]\<rparr>, Inr r)"
proof (cases "get_project project ps")
  case (Inl e)
  then show ?thesis using that(1) by (simp add: create_version_def)
next
  case (Inr x)
  let ?p = "draft_profile profile" and ?c = "draft_channel channel" and ?v = "draft_version clk version"
  show ?thesis
  proof (cases "list_ex (at_coordinates project ?p ?c ?v) (dr_releases s)")
    case True
    then show ?thesis using that(1) Inr by (simp add: create_version_def Let_def)
  next
    case new: False
    show ?thesis
    proof (cases "read_snapshot (cd_sha cd) project ?p ps")
      case (Inl e)
      then show ?thesis using that(1) new \<open>get_project project ps = Inr x\<close> by (simp add: create_version_def Let_def)
    next
      case (Inr sn)
      let ?r = "new_draft clk sn project ?p ?c ?v"
      have "coordinates ?r = (project, ?p, ?c, ?v)" by (simp add: new_draft_def coordinates_def)
      then have "coordinates ?r \<notin> coordinates ` set (dr_releases s)"
        using new by (auto simp: list_ex_iff at_coordinates_iff image_iff)
      then show ?thesis
        using that(2) [of ?r sn] new Inr \<open>get_project project ps = Inr x\<close> by (simp add: create_version_def Let_def)
    qed
  qed
qed

lemma created_result:
  assumes "catalog_ok cd s" "coordinates r \<notin> coordinates ` set (dr_releases s)"
    and "rv_id r = release_id (rv_project r) (rv_profile r) (rv_version r)"
  shows "catalog_result cd s (s\<lparr>dr_releases := dr_releases s @ [r]\<rparr>)"
proof -
  have "catalog_ok cd (s\<lparr>dr_releases := dr_releases s @ [r]\<rparr>)"
    by (rule catalog_ok_created [OF assms]) simp_all
  then show ?thesis
    by (auto simp: catalog_result_def catalog_frame_def catalog_moves_def release_at_def frozen_moves_def nth_append)
qed

lemma new_draft_id:
  "rv_id (new_draft clk sn p f c v) = release_id (rv_project (new_draft clk sn p f c v))
     (rv_profile (new_draft clk sn p f c v)) (rv_version (new_draft clk sn p f c v))"
  by (simp add: new_draft_def)

lemma create_version_result:
  assumes "catalog_ok cd s"
  shows "catalog_result cd s (fst (create_version cd ps clk project profile channel version s))"
proof (rule create_version_cases [of cd ps clk project profile channel version s])
  fix e
  assume "create_version cd ps clk project profile channel version s = (s, Inl e)"
  then show ?thesis by (simp add: catalog_result_refl assms)
next
  fix sn r
  assume r: "r = new_draft clk sn project (draft_profile profile) (draft_channel channel) (draft_version clk version)"
    "coordinates r \<notin> coordinates ` set (dr_releases s)"
    "create_version cd ps clk project profile channel version s = (s\<lparr>dr_releases := dr_releases s @ [r]\<rparr>, Inr r)"
  show ?thesis unfolding r(3) fst_conv by (rule created_result [OF assms r(2)]) (simp add: r(1) new_draft_id)
qed

definition unused_release :: "clock \<Rightarrow> string \<Rightarrow> string \<Rightarrow> string \<Rightarrow> durable \<Rightarrow> bool" where
  \<comment> \<open>no release of the project has the identifier of the new draft\<close>
  "unused_release clk project profile version s \<longleftrightarrow>
     \<not> list_ex (\<lambda>x. rv_project x = project \<and> rv_id x = release_id project (draft_profile profile) (draft_version clk version))
         (dr_releases s)"

lemma create_version3_result:
  assumes "catalog_ok cd s" "unused_release clk project profile version s"
  shows "catalog_result cd s (fst (create_version3 cd ps clk project profile channel version s))"
proof (rule create_version_cases [of cd ps clk project profile channel version s])
  fix e
  assume "create_version cd ps clk project profile channel version s = (s, Inl e)"
  then show ?thesis by (simp add: create_version3_def catalog_result_refl assms(1))
next
  fix sn r
  assume r: "r = new_draft clk sn project (draft_profile profile) (draft_channel channel) (draft_version clk version)"
    "coordinates r \<notin> coordinates ` set (dr_releases s)"
    "create_version cd ps clk project profile channel version s = (s\<lparr>dr_releases := dr_releases s @ [r]\<rparr>, Inr r)"
  let ?P = "\<lambda>x. rv_id x = rv_id r \<and> rv_project x = project"
  have "\<not> ?P x" if "x \<in> set (dr_releases s)" for x
    using assms(2) that by (auto simp: unused_release_def list_ex_iff r(1) new_draft_def)
  then have "index_of ?P (dr_releases s @ [r]) = Some (length (dr_releases s))"
    by (auto simp: index_of_Some nth_append r(1) new_draft_def)
  then have t: "fst (create_version3 cd ps clk project profile channel version s) = s\<lparr>dr_releases := dr_releases s @
      [r\<lparr>rv_manifest := (rv_manifest r)\<lparr>mn_schema := manifest_schema3,
           mn_catalog := Some (new_catalog1 (cd_sha cd) [] 1)\<rparr>\<rparr>]\<rparr>" (is "_ = s\<lparr>dr_releases := dr_releases s @ [?y]\<rparr>")
    by (simp add: create_version3_def r(3) put_release_def Let_def)
  have "coordinates ?y = coordinates r" "rv_id ?y = release_id (rv_project ?y) (rv_profile ?y) (rv_version ?y)"
    by (simp_all add: coordinates_def r(1) new_draft_def)
  then show ?thesis unfolding t by (intro created_result [OF assms(1)]) (use r(2) in simp_all)
qed

lemma update_status_result:
  assumes "catalog_ok cd s"
  shows "catalog_result cd s (fst (update_status U project i status s))"
proof (cases "index_of (\<lambda>x. rv_project x = project \<and> rv_id x = i) (dr_releases s)")
  case None
  then show ?thesis by (simp add: update_status_def Let_def catalog_result_refl assms)
next
  case (Some n)
  then have n: "n < length (dr_releases s)" by (simp add: index_of_Some)
  let ?y = "(dr_releases s ! n)\<lparr>rv_status := trim_space status\<rparr>"
  have "catalog_result cd s (put_release n ?y s)" if "rv_status (dr_releases s ! n) \<noteq> published"
    by (rule draft_result [OF assms n that]) (simp_all add: coordinates_def)
  then show ?thesis using Some by (simp add: update_status_def Let_def catalog_result_refl assms)
qed

lemma update_manifest_result:
  assumes "catalog_ok cd s"
  shows "catalog_result cd s (fst (update_manifest U cd order project i m s))"
proof (cases "index_of (\<lambda>x. rv_project x = project \<and> rv_id x = i) (dr_releases s)")
  case None
  then show ?thesis by (simp add: update_manifest_def catalog_result_refl assms)
next
  case (Some n)
  then have n: "n < length (dr_releases s)" by (simp add: index_of_Some)
  have "catalog_result cd s (put_release n ((dr_releases s ! n)\<lparr>rv_manifest := k\<rparr>) s)"
    if "rv_status (dr_releases s ! n) \<noteq> published" for k
    by (rule draft_result [OF assms n that]) (simp_all add: coordinates_def)
  then show ?thesis using Some by (simp add: update_manifest_def Let_def catalog_result_refl assms split: sum.split)
qed

lemma add_file_result:
  assumes "catalog_ok cd s"
  shows "catalog_result cd s (snd (fst (add_file ps clk f files s)))"
proof (cases "index_of (\<lambda>x. rv_project x = fo_project f \<and> rv_id x = fo_version f) (dr_releases s)")
  case None
  then show ?thesis by (simp add: add_file_def Let_def catalog_result_refl assms)
next
  case (Some n)
  let ?mine = "\<lambda>x. rv_project x = fo_project f \<and> rv_id x = fo_version f"
  have n: "n < length (dr_releases s)" "?mine (dr_releases s ! n)" using Some by (simp_all add: index_of_Some)
  show ?thesis
  proof (cases "is_ok (get_project (fo_project f) ps) \<and> \<not> list_ex (\<lambda>x. ?mine x \<and> rv_status x = published) (dr_releases s)")
    case True
    then have "rv_status (dr_releases s ! n) \<noteq> published" using n by (auto simp: list_ex_iff)
    then have "catalog_result cd s (put_release n ((dr_releases s ! n)\<lparr>rv_manifest := k\<rparr>) s)" for k
      by (rule draft_result [OF assms n(1)]) (simp_all add: coordinates_def)
    then show ?thesis using Some True by (simp add: add_file_def Let_def)
  next
    case False
    then show ?thesis by (auto simp: add_file_def Let_def catalog_result_refl assms)
  qed
qed

lemma edit_catalog_result:
  assumes "catalog_ok cd s"
  shows "catalog_result cd s (fst (edit_catalog U cd order clk project i expected cat s))"
proof (cases "index_of (\<lambda>x. rv_id x = i \<and> rv_project x = project) (dr_releases s)")
  case None
  then show ?thesis by (simp add: edit_catalog_def catalog_result_refl assms)
next
  case (Some n)
  then have n: "n < length (dr_releases s)" by (simp add: index_of_Some)
  have "catalog_result cd s (put_release n ((dr_releases s ! n)\<lparr>rv_manifest := k\<rparr>) s)"
    if "rv_status (dr_releases s ! n) = ''draft''" for k
    by (rule draft_result [OF assms n]) (use that in \<open>simp_all add: coordinates_def published_def\<close>)
  then show ?thesis using Some by (simp add: edit_catalog_def Let_def catalog_result_refl assms split: sum.split)
qed

lemma save_check_result:
  assumes "catalog_ok cd s"
  shows "catalog_result cd s (fst (save_check U clk x s))"
proof (cases "normalize_check U (clk 0) x")
  case (Inr c)
  have "catalog_ok cd (s\<lparr>dr_checks := dr_checks s @ [c]\<rparr>)" by (rule catalog_ok_same [OF assms]) simp_all
  then show ?thesis by (simp add: save_check_def Inr catalog_result_def catalog_frame_def catalog_moves_same)
qed (simp add: save_check_def catalog_result_refl assms)

lemma head_revision:
  assumes "catalog_ok cd s"
  shows "0 \<le> ch_revision (channel_head_of p f c s)"
proof (cases "dr_heads s (head_key p f c)")
  case None
  then show ?thesis by (simp add: channel_head_of_def empty_head_def)
next
  case (Some h)
  then show ?thesis using assms by (auto simp: channel_head_of_def catalog_ok_def)
qed

lemma publish_cas_cases:
  obtains e where "publish_cas U cd order ps clk project profile channel version m0 expected s = (s, Inl e)"
  | n m where "index_of (at_coordinates project profile channel version) (dr_releases s) = Some n"
      "rv_status (dr_releases s ! n) \<noteq> published" "m = candidate_manifest (dr_releases s ! n) project m0"
      "ch_revision (channel_head_of project profile channel s) = expected" "\<not> stable_channel U channel"
      "validate_transition U (cd_sha cd) order (rv_manifest (dr_releases s ! n)) m = Inr ()"
      "publish_cas U cd order ps clk project profile channel version m0 expected s =
        ((put_release n ((dr_releases s ! n)\<lparr>rv_manifest := m, rv_status := published, rv_published := clk 0\<rparr>) s)
           \<lparr>dr_heads := (dr_heads s)(head_key project profile channel \<mapsto> cas_head cd (dr_releases s ! n) m expected (clk 0))\<rparr>,
         Inr ((dr_releases s ! n)\<lparr>rv_manifest := m, rv_status := published, rv_published := clk 0\<rparr>))"
proof -
  let ?run = "publish_cas U cd order ps clk project profile channel version m0 expected s"
  show ?thesis
  proof (cases "\<exists>e. ?run = (s, Inl e)")
    case True
    then show ?thesis using that(1) by blast
  next
    case False
    then obtain n where n: "index_of (at_coordinates project profile channel version) (dr_releases s) = Some n"
      unfolding publish_cas_def Let_def by (auto split: option.split_asm if_split_asm)
    have g: "\<not> stable_channel U channel" "ch_revision (channel_head_of project profile channel s) = expected"
      "is_ok (get_project project ps)" "rv_status (dr_releases s ! n) \<noteq> published"
      using False n unfolding publish_cas_def Let_def by (auto split: if_split_asm)
    obtain u where u: "validate_transition U (cd_sha cd) order (rv_manifest (dr_releases s ! n))
        (candidate_manifest (dr_releases s ! n) project m0) = Inr u"
      using False n g unfolding publish_cas_def Let_def by (auto split: sum.split_asm)
    show ?thesis
      by (rule that(2) [OF n g(4) refl g(2,1)]) (use u n g in \<open>simp_all add: publish_cas_def Let_def\<close>)
  qed
qed

lemma publish_cas_result:
  assumes "catalog_ok cd s"
  shows "catalog_result cd s (fst (publish_cas U cd order ps clk project profile channel version m0 expected s))"
proof (rule publish_cas_cases [of U cd order ps clk project profile channel version m0 expected s])
  fix e
  assume "publish_cas U cd order ps clk project profile channel version m0 expected s = (s, Inl e)"
  then show ?thesis by (simp add: catalog_result_refl assms)
next
  fix n m
  assume n: "index_of (at_coordinates project profile channel version) (dr_releases s) = Some n"
    and draft: "rv_status (dr_releases s ! n) \<noteq> published"
    and head: "ch_revision (channel_head_of project profile channel s) = expected"
    and run: "publish_cas U cd order ps clk project profile channel version m0 expected s =
        ((put_release n ((dr_releases s ! n)\<lparr>rv_manifest := m, rv_status := published, rv_published := clk 0\<rparr>) s)
           \<lparr>dr_heads := (dr_heads s)(head_key project profile channel \<mapsto> cas_head cd (dr_releases s ! n) m expected (clk 0))\<rparr>,
         Inr ((dr_releases s ! n)\<lparr>rv_manifest := m, rv_status := published, rv_published := clk 0\<rparr>))"
  let ?x = "dr_releases s ! n"
  let ?y = "?x\<lparr>rv_manifest := m, rv_status := published, rv_published := clk 0\<rparr>"
  let ?t = "fst (publish_cas U cd order ps clk project profile channel version m0 expected s)"
  have l: "n < length (dr_releases s)" and x: "rv_project ?x = project" "rv_profile ?x = profile" "rv_channel ?x = channel"
    using n by (simp_all add: index_of_Some at_coordinates_def)
  have t: "dr_releases ?t = (dr_releases s)[n := ?y]"
    "dr_heads ?t = (dr_heads s)(head_key project profile channel \<mapsto> cas_head cd ?x m expected (clk 0))"
    by (simp_all add: run put_release_def)
  have y: "coordinates ?y = coordinates ?x" by (simp add: coordinates_def)
  have "catalog_ok cd ?t"
    by (rule catalog_ok_publish [OF assms l draft y _ _ t(1), where h = "cas_head cd ?x m expected (clk 0)"])
      (use t(2) x head head_revision [OF assms, of project profile channel] in \<open>simp_all add: cas_head_def\<close>)
  moreover have "catalog_frame s ?t" by (simp add: run catalog_frame_def put_release_def)
  moreover have "catalog_moves s ?t"
    unfolding catalog_moves_def t
  proof (intro conjI allI impI)
    show "\<exists>b. release_at ?t k = Some b \<and> frozen_moves a b" if "release_at s k = Some a" for k a
      using release_moves_update [OF t(1) l draft y _ that] by simp
    show "\<exists>b. ((dr_heads s)(head_key project profile channel \<mapsto> cas_head cd ?x m expected (clk 0))) k = Some b \<and>
        (b = a \<or> ch_revision a < ch_revision b)" if "dr_heads s k = Some a" for k a
      using that head by (auto simp: cas_head_def channel_head_of_def)
  qed
  ultimately show ?thesis by (simp add: catalog_result_def)
qed

lemma publish_version_result:
  assumes "catalog_ok cd s"
  shows "catalog_result cd s (fst (publish_version U cd order ps clk project profile channel version s))"
    "catalog_result cd s (fst (publish_manifest U cd order ps clk project profile channel version m s))"
  using publish_cas_result [OF assms]
  by (auto simp: publish_version_def publish_manifest_def catalog_result_refl assms split: option.split)

end
