(* ===== verification/DurableRuns.thy ===== *)
theory DurableRuns
  imports DurableMachine ReleaseStore
begin

text \<open>
  Runs of the durable control plane: the operations as data, the step relation of a repository under any
  interleaving of callers, the contract of a store whose entries only move along a preorder (\<open>moving_store\<close>) interpreted for jobs, outbox events, scope
  leases, releases, channel heads and nonces.

  A run is a sequence of whole operations.  The methods of the job control plane hold one mutex from their first look
  to their last write.  \<^verbatim>\<open>CreateVersion\<close>, \<^verbatim>\<open>UpdateVersionStatus\<close> and \<^verbatim>\<open>UpdateVersionManifest\<close> of the bare memory
  repository hold none; the SQLite repository that embeds it holds a lock of its own around each call.  \<^verbatim>\<open>AddFile\<close>
  and \<^verbatim>\<open>UpdateDraftComponentCatalog0248\<close> hold none either, and an integrity check is appended under a mutex of its own.
  Of the operations on this state the steps leave out \<^verbatim>\<open>SaveRuntimeValidation\<close> only, which appends to a list that no step
  reads and notes the run under a nonce of its own name space.
\<close>

section \<open>Operations and steps\<close>

datatype operation =
    EnqueueJob clock random job
  | LeaseJob clock random string string time
  | LeaseJobs clock random "string list \<Rightarrow> string list" "durable \<Rightarrow> string list \<Rightarrow> string list" string string int time
  | FailJob clock string string string time
  | TerminateJob clock string string string string
  | CompleteJob clock string string string
  | CancelJob clock string string
  | RetryJob clock string
  | AcquireScope clock random string string time
  | RenewScope clock string string time
  | ReleaseScope clock string string
  | CommitPublish clock publish_commit bool
  | ClaimEvents clock random "string list \<Rightarrow> string list" string int time
  | CompleteEvent clock "string list \<Rightarrow> string list" string string
  | FailEvent clock "string list \<Rightarrow> string list" string string string time
  | ConsumeNonce clock string string time
  | CreateVersion profile_store clock string string string string
  | CreateVersion3 profile_store clock string string string string
  | UpdateStatus string string string
  | AddFile profile_store clock file_object "file_object list"
  | EditCatalog "string list \<Rightarrow> string list" clock string string u64 catalog
  | SaveCheck clock integrity_check
  | UpdateManifest "string list \<Rightarrow> string list" string string manifest
  | PublishVersion "string list \<Rightarrow> string list" profile_store clock string string string string
  | PublishManifest "string list \<Rightarrow> string list" profile_store clock string string string string manifest
  | PublishCas "string list \<Rightarrow> string list" profile_store clock string string string string manifest int

fun exec :: "unicode \<Rightarrow> codec \<Rightarrow> operation \<Rightarrow> durable \<Rightarrow> durable" where
  "exec U cd (EnqueueJob clk rnd j) s = fst (enqueue_job cd clk rnd j s)"
| "exec U cd (LeaseJob clk rnd i w ttl) s = fst (lease_job clk rnd i w ttl s)"
| "exec U cd (LeaseJobs clk rnd order by_created kind w limit ttl) s =
     fst (lease_jobs clk rnd order by_created kind w limit ttl s)"
| "exec U cd (FailJob clk i token why retry) s = fst (fail_job clk i token why retry s)"
| "exec U cd (TerminateJob clk i token status reason) s = fst (terminate_job clk i token status reason s)"
| "exec U cd (CompleteJob clk i token result) s = fst (complete_operation cd clk i token result s)"
| "exec U cd (CancelJob clk i actor) s = fst (cancel_operation clk i actor s)"
| "exec U cd (RetryJob clk i) s = fst (retry_operation clk i s)"
| "exec U cd (AcquireScope clk rnd scope w ttl) s = fst (acquire_scope clk rnd scope w ttl s)"
| "exec U cd (RenewScope clk scope token ttl) s = fst (renew_scope clk scope token ttl s)"
| "exec U cd (ReleaseScope clk scope token) s = fst (release_scope clk scope token s)"
| "exec U cd (CommitPublish clk c verified) s = fst (commit_publish U cd clk c verified s)"
| "exec U cd (ClaimEvents clk rnd order w limit ttl) s = fst (claim_events clk rnd order w limit ttl s)"
| "exec U cd (CompleteEvent clk order i token) s = fst (complete_event clk order i token s)"
| "exec U cd (FailEvent clk order i token why retry) s = fst (fail_event clk order i token why retry s)"
| "exec U cd (ConsumeNonce clk namespace nonce expires) s = fst (consume_nonce U clk namespace nonce expires s)"
| "exec U cd (CreateVersion ps clk project profile channel version) s =
     fst (create_version cd ps clk project profile channel version s)"
| "exec U cd (CreateVersion3 ps clk project profile channel version) s =
     fst (create_version3 cd ps clk project profile channel version s)"
| "exec U cd (UpdateStatus project i status) s = fst (update_status U project i status s)"
| "exec U cd (AddFile ps clk f files) s = snd (fst (add_file ps clk f files s))"
| "exec U cd (EditCatalog order clk project i expected cat) s = fst (edit_catalog U cd order clk project i expected cat s)"
| "exec U cd (SaveCheck clk x) s = fst (save_check U clk x s)"
| "exec U cd (UpdateManifest order project i m) s = fst (update_manifest U cd order project i m s)"
| "exec U cd (PublishVersion order ps clk project profile channel version) s =
     fst (publish_version U cd order ps clk project profile channel version s)"
| "exec U cd (PublishManifest order ps clk project profile channel version m) s =
     fst (publish_manifest U cd order ps clk project profile channel version m s)"
| "exec U cd (PublishCas order ps clk project profile channel version m expected) s =
     fst (publish_cas U cd order ps clk project profile channel version m expected s)"

text \<open>What a step assumes of its inputs: new jobs carry no lease and an identifier that is not taken (the callers
  leave both to the repository, which draws a random identifier), a map is iterated over once per key, the
  clock does not run backwards within one call, and a draft of schema 3.0 gets an identifier that no release of
  the project has (theorem \<open>v3_draft_rewrites_release\<close> shows what happens otherwise).\<close>

fun legal :: "codec \<Rightarrow> operation \<Rightarrow> durable \<Rightarrow> bool" where
  "legal cd (EnqueueJob clk rnd j) s = (fresh_request j \<and> unused_id cd clk rnd j s)"
| "legal cd (ClaimEvents clk rnd order w limit ttl) s =
     (mset (order (map fst (dr_outbox s))) = mset (map fst (dr_outbox s)))"
| "legal cd (ConsumeNonce clk namespace nonce expires) s = (clk 0 \<le> clk 1 \<and> clk 1 \<le> clk 2)"
| "legal cd (CreateVersion3 ps clk project profile channel version) s = unused_release clk project profile version s"
| "legal cd _ s = True"

inductive durable_step :: "unicode \<Rightarrow> codec \<Rightarrow> durable \<Rightarrow> durable \<Rightarrow> bool" for U cd where
  step: "legal cd op s \<Longrightarrow> durable_step U cd s (exec U cd op s)"

inductive_cases durable_stepE: "durable_step U cd s t"

definition initial_durable :: "codec \<Rightarrow> durable \<Rightarrow> bool" where
  "initial_durable cd s \<longleftrightarrow>
     catalog_ok cd s \<and> dr_jobs s = [] \<and> dr_attempts s = (\<lambda>_. []) \<and> dr_scopes s = (\<lambda>_. None) \<and> dr_outbox s = []"

definition reachable :: "unicode \<Rightarrow> codec \<Rightarrow> durable \<Rightarrow> bool" where
  "reachable U cd s \<longleftrightarrow> (\<exists>s0. initial_durable cd s0 \<and> (durable_step U cd)\<^sup>*\<^sup>* s0 s)"

section \<open>How entries move\<close>

definition lease_moves :: "scope_lease \<Rightarrow> scope_lease \<Rightarrow> bool" where
  "lease_moves l m \<longleftrightarrow> sc_scope m = sc_scope l \<and> (m = l \<or> sc_fence l < sc_fence m \<or>
     (sc_fence m = sc_fence l \<and> sc_token m = sc_token l \<and> sc_owner m = sc_owner l))"

definition head_moves :: "channel_head \<Rightarrow> channel_head \<Rightarrow> bool" where
  "head_moves a b \<longleftrightarrow> b = a \<or> ch_revision a < ch_revision b"

definition stores_move :: "durable \<Rightarrow> durable \<Rightarrow> bool" where
  "stores_move s t \<longleftrightarrow>
     (\<forall>k l. dr_scopes s k = Some l \<longrightarrow> (\<exists>m. dr_scopes t k = Some m \<and> lease_moves l m)) \<and>
     catalog_moves s t \<and>
     (\<forall>k e. dr_nonces s k = Some e \<longrightarrow> (\<exists>f. dr_nonces t k = Some f \<and> e \<le> f))"

definition scopes_ok :: "durable \<Rightarrow> bool" where
  "scopes_ok s \<longleftrightarrow> (\<forall>k l. dr_scopes s k = Some l \<longrightarrow> sc_scope l = k)"

definition durable_ok :: "codec \<Rightarrow> durable \<Rightarrow> bool" where
  "durable_ok cd s \<longleftrightarrow> jobs_ok s \<and> events_ok s \<and> scopes_ok s \<and> catalog_ok cd s"

lemma stores_move_same:
  assumes "dr_scopes t = dr_scopes s" "dr_releases t = dr_releases s" "dr_heads t = dr_heads s" "dr_nonces t = dr_nonces s"
  shows "stores_move s t"
  by (simp add: stores_move_def assms lease_moves_def catalog_moves_same)

definition step_result :: "codec \<Rightarrow> durable \<Rightarrow> durable \<Rightarrow> bool" where
  "step_result cd s t \<longleftrightarrow> durable_ok cd t \<and> jobs_follow s t \<and> events_follow s t \<and> stores_move s t"

lemma job_step_result:
  assumes "durable_ok cd s" "jobs_ok t" "jobs_follow s t" "job_frame s t"
  shows "step_result cd s t"
proof -
  have "events_ok t" "scopes_ok t"
    using assms(1,4) by (simp_all add: durable_ok_def events_ok_def scopes_ok_def job_frame_def event_of_def)
  moreover have "catalog_ok cd t"
    by (rule catalog_ok_same [of cd s]) (use assms(1,4) in \<open>simp_all add: durable_ok_def job_frame_def\<close>)
  moreover have "events_follow s t" "stores_move s t"
    using assms(4) by (auto simp: job_frame_def intro: events_follow_same stores_move_same)
  ultimately show ?thesis using assms(2,3) by (simp add: step_result_def durable_ok_def)
qed

lemma event_step_result:
  assumes "durable_ok cd s" "events_follow s t \<and> event_frame s t \<and> events_ok t"
  shows "step_result cd s t"
proof -
  have "jobs_ok t" "scopes_ok t"
    using assms by (simp_all add: durable_ok_def jobs_ok_def scopes_ok_def event_frame_def job_of_def)
  moreover have "catalog_ok cd t"
    by (rule catalog_ok_same [of cd s]) (use assms in \<open>simp_all add: durable_ok_def event_frame_def\<close>)
  moreover have "jobs_follow s t" "stores_move s t"
    using assms(2) by (auto simp: event_frame_def intro: jobs_follow_same stores_move_same)
  ultimately show ?thesis using assms(2) by (simp add: step_result_def durable_ok_def)
qed

lemma scope_step_result:
  assumes "durable_ok cd s" "t = s\<lparr>dr_scopes := (dr_scopes s)(k \<mapsto> m)\<rparr>" "sc_scope m = k"
    and "\<And>l. dr_scopes s k = Some l \<Longrightarrow> lease_moves l m"
  shows "step_result cd s t"
proof -
  have "stores_move s t"
    using assms(4) by (auto simp: stores_move_def assms(2) lease_moves_def catalog_moves_same)
  moreover have "jobs_follow s t" "events_follow s t" by (auto simp: assms(2) intro: jobs_follow_same events_follow_same)
  moreover have "catalog_ok cd t"
    by (rule catalog_ok_same [of cd s]) (use assms(1) in \<open>simp_all add: durable_ok_def assms(2)\<close>)
  moreover have "jobs_ok t" "events_ok t" "scopes_ok t"
    using assms(1,3) by (simp_all add: durable_ok_def jobs_ok_def events_ok_def scopes_ok_def job_of_def event_of_def assms(2))
  ultimately show ?thesis by (simp add: step_result_def durable_ok_def)
qed

lemma step_result_refl: "durable_ok cd s \<Longrightarrow> step_result cd s s"
  by (simp add: step_result_def stores_move_same)

lemma acquire_result:
  assumes "durable_ok cd s"
  shows "step_result cd s (fst (acquire_scope clk rnd scope owner ttl s))"
proof -
  have "fst (acquire_scope clk rnd scope owner ttl s) = s \<or>
    (\<exists>m. fst (acquire_scope clk rnd scope owner ttl s) = s\<lparr>dr_scopes := (dr_scopes s)(scope \<mapsto> m)\<rparr> \<and> sc_scope m = scope \<and>
       (\<forall>l. dr_scopes s scope = Some l \<longrightarrow> sc_fence l < sc_fence m))"
    by (auto simp: acquire_scope_def Let_def split: option.split)
  then show ?thesis
  proof (elim disjE exE conjE)
    fix m
    assume m: "fst (acquire_scope clk rnd scope owner ttl s) = s\<lparr>dr_scopes := (dr_scopes s)(scope \<mapsto> m)\<rparr>" "sc_scope m = scope"
      "\<forall>l. dr_scopes s scope = Some l \<longrightarrow> sc_fence l < sc_fence m"
    have "sc_scope l = scope" if "dr_scopes s scope = Some l" for l
      using assms that by (simp add: durable_ok_def scopes_ok_def)
    then show ?thesis
      by (intro scope_step_result [OF assms m(1,2)]) (simp add: lease_moves_def m(2,3))
  qed (simp add: step_result_refl [OF assms])
qed

lemma renew_result:
  assumes "durable_ok cd s"
  shows "step_result cd s (fst (renew_scope clk scope token ttl s))"
proof (cases "dr_scopes s (trim_space scope)")
  case None
  then show ?thesis by (simp add: renew_scope_def step_result_refl assms)
next
  case (Some l)
  have k: "sc_scope l = trim_space scope" using assms Some by (simp add: durable_ok_def scopes_ok_def)
  show ?thesis
    unfolding renew_scope_def Let_def Some
    by (auto simp: step_result_refl assms k Some lease_moves_def
        intro!: scope_step_result [where k = "trim_space scope"])
qed

lemma release_result:
  assumes "durable_ok cd s"
  shows "step_result cd s (fst (release_scope clk scope token s))"
proof (cases "dr_scopes s scope")
  case None
  then show ?thesis by (simp add: release_scope_def step_result_refl assms)
next
  case (Some l)
  have k: "sc_scope l = scope" using assms Some by (simp add: durable_ok_def scopes_ok_def)
  show ?thesis
    unfolding release_scope_def Some
    by (auto simp: step_result_refl assms k Some lease_moves_def intro!: scope_step_result [where k = scope])
qed

lemma commit_result:
  assumes "durable_ok cd s"
  shows "step_result cd s (fst (commit_publish U cd clk c verified s))"
proof (rule commit_publish_cases [of U cd clk c verified s])
  fix e
  assume "commit_publish U cd clk c verified s = (s, Inl e)"
  then show ?thesis by (simp add: step_result_refl assms)
next
  fix j n r h
  assume g: "publish_guard U cd (clk 0) c verified s = Inr (j, n, r, h)"
  have ok: "jobs_ok s" "events_ok s" "scopes_ok s" "catalog_ok cd s" using assms by (simp_all add: durable_ok_def)
  let ?t = "fst (commit_publish U cd clk c verified s)"
  let ?r = "r\<lparr>rv_status := published, rv_published := clk 0\<rparr>"
  note t = commit_publish_Inr [of U cd clk c verified s j n r h ?t, OF g ok(1,2) refl] and p = publish_guard_Inr [OF g]
  have r: "coordinates ?r = coordinates (dr_releases s ! n)" "rv_id ?r = rv_id (dr_releases s ! n)"
    "rv_status (dr_releases s ! n) \<noteq> published"
    using p(7,11) by (simp_all add: coordinates_def)
  have h: "0 \<le> ch_revision h"
    using ok(4) p(16) by (auto simp: catalog_ok_def empty_head_def split: option.split_asm)
  have "catalog_ok cd ?t"
    by (rule catalog_ok_publish [OF ok(4) p(6) r(3,1,2) _ t(8), where h = "next_head c r (clk 0) h"])
      (use t(9) p(13) h in \<open>simp_all add: next_head_def\<close>)
  then have "durable_ok cd ?t" using t(2,4,5) ok(3) by (simp add: durable_ok_def scopes_ok_def)
  moreover have "stores_move s ?t"
    unfolding stores_move_def catalog_moves_def
  proof (intro conjI allI impI)
    show "\<exists>m. dr_scopes ?t k = Some m \<and> lease_moves l m" if "dr_scopes s k = Some l" for k l
      using that by (simp add: t(5) lease_moves_def)
    show "\<exists>b. release_at ?t m = Some b \<and> frozen_moves a b" if "release_at s m = Some a" for m a
      by (rule release_moves_update [OF t(8) p(6) r(3,1,2) that])
    show "\<exists>b. dr_heads ?t k = Some b \<and> (b = a \<or> ch_revision a < ch_revision b)" if "dr_heads s k = Some a" for k a
      using that p(16) by (auto simp: t(9) next_head_def)
    show "\<exists>f. dr_nonces ?t k = Some f \<and> e \<le> f" if "dr_nonces s k = Some e" for k e
      using that by (simp add: t(6))
  qed
  ultimately show ?thesis using t(1,3) by (simp add: step_result_def)
qed

lemma nonce_result:
  assumes "durable_ok cd s" "clk 0 \<le> clk 1" "clk 1 \<le> clk 2"
  shows "step_result cd s (fst (consume_nonce U clk namespace nonce expires s))"
proof -
  let ?k = "nonce_key U namespace nonce"
  let ?t = "fst (consume_nonce U clk namespace nonce expires s)"
  have "?t = s \<or> (\<exists>f. ?t = s\<lparr>dr_nonces := (dr_nonces s)(?k \<mapsto> f)\<rparr> \<and> (\<forall>e. dr_nonces s ?k = Some e \<longrightarrow> e \<le> f))"
    using assms(2,3) by (auto simp: consume_nonce_def Let_def second_def split: option.split)
  then show ?thesis
  proof (elim disjE exE conjE)
    fix f
    assume t: "?t = s\<lparr>dr_nonces := (dr_nonces s)(?k \<mapsto> f)\<rparr>" and f: "\<forall>e. dr_nonces s ?k = Some e \<longrightarrow> e \<le> f"
    have "stores_move s ?t"
      using f unfolding t stores_move_def by (auto simp: lease_moves_def catalog_moves_same)
    moreover have "jobs_follow s ?t" "events_follow s ?t" unfolding t by (auto intro: jobs_follow_same events_follow_same)
    moreover have "catalog_ok cd ?t"
      by (rule catalog_ok_same [of cd s]) (use assms(1) in \<open>simp_all add: durable_ok_def t\<close>)
    then have "durable_ok cd ?t"
      using assms(1) unfolding t by (simp add: durable_ok_def jobs_ok_def events_ok_def scopes_ok_def job_of_def event_of_def)
    ultimately show ?thesis by (simp add: step_result_def)
  qed (simp add: step_result_refl [OF assms(1)])
qed

lemma catalog_step_result:
  assumes "durable_ok cd s" "catalog_result cd s t"
  shows "step_result cd s t"
proof -
  have f: "catalog_frame s t" "catalog_moves s t" "catalog_ok cd t" using assms(2) by (simp_all add: catalog_result_def)
  then have "jobs_ok t" "events_ok t" "scopes_ok t"
    using assms(1) by (simp_all add: durable_ok_def jobs_ok_def events_ok_def scopes_ok_def catalog_frame_def job_of_def event_of_def)
  moreover have "jobs_follow s t" "events_follow s t" "stores_move s t"
    using f(1,2) by (auto simp: catalog_frame_def stores_move_def lease_moves_def intro: jobs_follow_same events_follow_same)
  ultimately show ?thesis using f(3) by (simp add: step_result_def durable_ok_def)
qed

lemma exec_result:
  assumes "durable_ok cd s" "legal cd op s"
  shows "step_result cd s (exec U cd op s)"
proof -
  have ok: "jobs_ok s" "events_ok s" using assms(1) by (simp_all add: durable_ok_def)
  have cat: "catalog_ok cd s" using assms(1) by (simp add: durable_ok_def)
  note r = job_step_result [OF assms(1)] and c = catalog_step_result [OF assms(1)]
  show ?thesis
  proof (cases op)
    case (EnqueueJob clk rnd j)
    then have "fresh_request j" "unused_id cd clk rnd j s" using assms(2) by simp_all
    then show ?thesis using r enqueue_jobs_ok [OF ok(1)] enqueue_follows EnqueueJob by simp
  next
    case (LeaseJob clk rnd i w ttl)
    then show ?thesis using r lease_locked_ok [OF ok(1)] lease_locked_follows [OF ok(1)] by (simp add: lease_job_def)
  next
    case (LeaseJobs clk rnd order by_created kind w limit ttl)
    then show ?thesis using r lease_jobs_ok [OF ok(1)] lease_jobs_follows [OF ok(1)] by simp
  next
    case (FailJob clk i token why retry)
    then show ?thesis using r ended_jobs_ok(1) [OF ok(1)] ended_follows(1) ended_frame(1) by simp
  next
    case (TerminateJob clk i token status reason)
    then show ?thesis using r ended_jobs_ok(2) [OF ok(1)] ended_follows(2) ended_frame(2) by simp
  next
    case (CompleteJob clk i token result)
    then show ?thesis using r ended_jobs_ok(3) [OF ok(1)] ended_follows(3) ended_frame(3) by simp
  next
    case (CancelJob clk i actor)
    then show ?thesis using r idle_jobs_ok(1) [OF ok(1)] idle_follows(1) idle_frame(1) by simp
  next
    case (RetryJob clk i)
    then show ?thesis using r idle_jobs_ok(2) [OF ok(1)] idle_follows(2) idle_frame(2) by simp
  next
    case (ClaimEvents clk rnd order w limit ttl)
    then show ?thesis using event_step_result [OF assms(1) claim_events_keeps [OF ok(2)]] assms(2) by simp
  next
    case (CompleteEvent clk order i token)
    then show ?thesis using event_step_result [OF assms(1) settle_event_keeps [OF ok(2) disjI1 [OF refl]]] by simp
  next
    case (FailEvent clk order i token why retry)
    then show ?thesis using event_step_result [OF assms(1) settle_event_keeps [OF ok(2) disjI2 [OF refl]]] by simp
  next
    case (ConsumeNonce clk namespace nonce expires)
    then show ?thesis using nonce_result [OF assms(1)] assms(2) by simp
  next
    case (CreateVersion3 ps clk project profile channel version)
    then show ?thesis using c create_version3_result [OF cat] assms(2) by simp
  qed (simp_all add: acquire_result renew_result release_result commit_result assms(1) c [OF create_version_result [OF cat]]
    c [OF update_status_result [OF cat]] c [OF add_file_result [OF cat]] c [OF edit_catalog_result [OF cat]]
    c [OF save_check_result [OF cat]] c [OF update_manifest_result [OF cat]] c [OF publish_version_result(1) [OF cat]]
    c [OF publish_version_result(2) [OF cat]] c [OF publish_cas_result [OF cat]])
qed

section \<open>The stores of the control plane only move forward\<close>

lemma durable_step_result: "durable_ok cd s \<Longrightarrow> durable_step U cd s t \<Longrightarrow> step_result cd s t"
  by (erule durable_stepE) (simp add: exec_result)

lemma durable_step_ok: "durable_ok cd s \<Longrightarrow> durable_step U cd s t \<Longrightarrow> durable_ok cd t"
  using durable_step_result by (simp add: step_result_def)

interpretation job_store: moving_store "durable_step U cd" "durable_ok cd" job_of "job_step\<^sup>*\<^sup>*" for U cd
proof
  fix s t k x
  show "durable_ok cd s \<Longrightarrow> durable_step U cd s t \<Longrightarrow> durable_ok cd t" by (rule durable_step_ok)
  assume "durable_ok cd s" "durable_step U cd s t" "job_of s k = Some x"
  then show "\<exists>y. job_of t k = Some y \<and> job_step\<^sup>*\<^sup>* x y"
    using durable_step_result by (meson jobs_follow_def step_result_def)
qed auto

interpretation event_store: moving_store "durable_step U cd" "durable_ok cd" event_of "event_step\<^sup>*\<^sup>*" for U cd
proof
  fix s t k x
  show "durable_ok cd s \<Longrightarrow> durable_step U cd s t \<Longrightarrow> durable_ok cd t" by (rule durable_step_ok)
  assume "durable_ok cd s" "durable_step U cd s t" "event_of s k = Some x"
  then show "\<exists>y. event_of t k = Some y \<and> event_step\<^sup>*\<^sup>* x y"
    using durable_step_result by (meson events_follow_def step_result_def)
qed auto

lemma store_moves_refl: "lease_moves l l" "frozen_moves r r" "head_moves h h"
  by (simp_all add: lease_moves_def frozen_moves_def head_moves_def)

lemma store_moves_trans:
  "lease_moves a b \<Longrightarrow> lease_moves b c \<Longrightarrow> lease_moves a c"
  "frozen_moves x y \<Longrightarrow> frozen_moves y z \<Longrightarrow> frozen_moves x z"
  "head_moves f g \<Longrightarrow> head_moves g h \<Longrightarrow> head_moves f h"
  by (auto simp: lease_moves_def frozen_moves_def head_moves_def)

interpretation scope_store: moving_store "durable_step U cd" "durable_ok cd" dr_scopes lease_moves for U cd
proof
  fix s t k x
  show "durable_ok cd s \<Longrightarrow> durable_step U cd s t \<Longrightarrow> durable_ok cd t" by (rule durable_step_ok)
  assume "durable_ok cd s" "durable_step U cd s t" "dr_scopes s k = Some x"
  then show "\<exists>y. dr_scopes t k = Some y \<and> lease_moves x y"
    using durable_step_result [of cd s U t]
    by (simp add: step_result_def stores_move_def catalog_moves_def head_moves_def)
qed (auto intro: store_moves_refl store_moves_trans)

interpretation release_store: moving_store "durable_step U cd" "durable_ok cd" release_at frozen_moves for U cd
proof
  fix s t k x
  show "durable_ok cd s \<Longrightarrow> durable_step U cd s t \<Longrightarrow> durable_ok cd t" by (rule durable_step_ok)
  assume "durable_ok cd s" "durable_step U cd s t" "release_at s k = Some x"
  then show "\<exists>y. release_at t k = Some y \<and> frozen_moves x y"
    using durable_step_result [of cd s U t]
    by (simp add: step_result_def stores_move_def catalog_moves_def head_moves_def)
qed (auto intro: store_moves_refl store_moves_trans)

interpretation head_store: moving_store "durable_step U cd" "durable_ok cd" dr_heads head_moves for U cd
proof
  fix s t k x
  show "durable_ok cd s \<Longrightarrow> durable_step U cd s t \<Longrightarrow> durable_ok cd t" by (rule durable_step_ok)
  assume "durable_ok cd s" "durable_step U cd s t" "dr_heads s k = Some x"
  then show "\<exists>y. dr_heads t k = Some y \<and> head_moves x y"
    using durable_step_result [of cd s U t]
    by (simp add: step_result_def stores_move_def catalog_moves_def head_moves_def)
qed (auto intro: store_moves_refl store_moves_trans)

interpretation nonce_store: moving_store "durable_step U cd" "durable_ok cd" dr_nonces "(\<le>)" for U cd
proof
  fix s t k and x :: time
  show "durable_ok cd s \<Longrightarrow> durable_step U cd s t \<Longrightarrow> durable_ok cd t" by (rule durable_step_ok)
  assume "durable_ok cd s" "durable_step U cd s t" "dr_nonces s k = Some x"
  then show "\<exists>y. dr_nonces t k = Some y \<and> x \<le> y"
    using durable_step_result by (meson stores_move_def step_result_def)
qed auto

lemma reachable_ok: "reachable U cd s \<Longrightarrow> durable_ok cd s"
proof -
  assume "reachable U cd s"
  then obtain s0 where s0: "initial_durable cd s0" "(durable_step U cd)\<^sup>*\<^sup>* s0 s" by (auto simp: reachable_def)
  have "durable_ok cd s0"
    using s0(1) by (simp add: initial_durable_def durable_ok_def jobs_ok_def events_ok_def scopes_ok_def job_of_def event_of_def)
  then show ?thesis using job_store.run_inv s0(2) by blast
qed

lemma job_step_final: "job_step\<^sup>*\<^sup>* j k \<Longrightarrow> jb_status j = succeeded \<Longrightarrow> k = j"
proof (induction rule: rtranclp_induct)
  case (step y z)
  then have "job_step j z" "jb_status j = succeeded" by simp_all
  then show ?case by cases (simp_all add: status_defs)
qed simp

lemma event_step_final: "event_step\<^sup>*\<^sup>* e f \<Longrightarrow> ob_status e = delivered \<or> ob_status e = dead \<Longrightarrow> f = e"
proof (induction rule: rtranclp_induct)
  case (step y z)
  then have "event_step e z" "ob_status e = delivered \<or> ob_status e = dead" by simp_all
  then show ?case by cases (auto simp: status_defs)
qed simp

lemma job_step_same: "job_step\<^sup>*\<^sup>* j k \<Longrightarrow> same_work j k \<and> jb_fence j \<le> jb_fence k \<and> jb_attempts j \<le> jb_attempts k"
proof (induction rule: rtranclp_induct)
  case base
  show ?case by (simp add: same_work_def)
next
  case (step y z)
  have "same_work y z \<and> jb_fence y \<le> jb_fence z \<and> jb_attempts y \<le> jb_attempts z"
    using step.hyps(2) by cases (simp_all add: same_count_def)
  then show ?case using step.IH by (simp add: same_work_def)
qed

end
