(* ===== verification/DurableProperties.thy ===== *)
theory DurableProperties
  imports DurableRuns FilePolicy
begin

text \<open>
  The properties of all runs of the durable control plane, each an instance of \<open>moving_store\<close> or of the invariant,
  and a run that enqueues, leases and publishes, on which their witnesses evaluate.
\<close>

section \<open>A run\<close>

definition codec_sample :: codec where
  "codec_sample = \<lparr>cd_canonical = Some, cd_valid = (\<lambda>_. True), cd_manifest = (\<lambda>_. ''m''), cd_sha = id\<rparr>"

definition release_sample :: release_version where
  "release_sample = \<lparr>rv_id = ''p-f-1'', rv_project = ''p'', rv_profile = ''f'', rv_channel = ''beta'', rv_version = ''1'',
     rv_status = ''ready'', rv_manifest = policy_sample, rv_published = 0\<rparr>"

definition check_sample :: integrity_check where
  "check_sample = \<lparr>ic_id = ''c'', ic_package = ''p-f-1'', ic_project = ''p'', ic_manifest_digest = ''m'', ic_artifact_digest = ''a'', ic_result = ''passed'',
     ic_checked = 5\<rparr>"

definition job_sample :: job where
  "job_sample = no_job\<lparr>jb_kind := ''publish'', jb_actor_type := ''user'', jb_actor := ''u'', jb_action := ''publish'',
     jb_project := ''p'', jb_resource_type := ''release'', jb_resource := ''p-f-1'', jb_key := ''k''\<rparr>"

definition commit_sample :: publish_commit where
  "commit_sample = \<lparr>pc_job = ''job_1'', pc_job_token = ''jt'', pc_scope = ''c'', pc_scope_token = ''st'',
     pc_scope_fence = 1, pc_manifest_digest = ''m'', pc_artifact_digest = ''a'', pc_status = ''ready'',
     pc_head_revision = Some 0, pc_actor = ''u''\<rparr>"

definition start_sample :: durable where
  "start_sample = empty_durable\<lparr>dr_releases := [release_sample], dr_checks := [check_sample]\<rparr>"

definition queued_sample :: durable where
  "queued_sample = exec ascii_only codec_sample (EnqueueJob (\<lambda>_. 10) (\<lambda>_. Some ''1'') job_sample) start_sample"

definition leased_sample :: durable where
  "leased_sample = exec ascii_only codec_sample (LeaseJob (\<lambda>_. 20) (\<lambda>_. Some ''jt'') ''job_1'' ''w'' 100) queued_sample"

definition held_sample :: durable where
  "held_sample = exec ascii_only codec_sample (AcquireScope (\<lambda>_. 30) (\<lambda>_. Some ''st'') ''c'' ''w'' 100) leased_sample"

definition published_sample :: durable where
  "published_sample = exec ascii_only codec_sample (CommitPublish (\<lambda>_. 40) commit_sample False) held_sample"

definition used_sample :: durable where
  "used_sample = exec ascii_only codec_sample (ConsumeNonce (\<lambda>_. 50) ''n'' ''1'' 90) published_sample"

definition reacquired_sample :: durable where
  "reacquired_sample = exec ascii_only codec_sample (AcquireScope (\<lambda>_. 200) (\<lambda>_. Some ''t2'') ''c'' ''w2'' 100) used_sample"

abbreviation sample_step :: "durable \<Rightarrow> durable \<Rightarrow> bool" where
  "sample_step \<equiv> durable_step ascii_only codec_sample"

lemma sample_steps:
  "sample_step start_sample queued_sample" "sample_step queued_sample leased_sample"
  "sample_step leased_sample held_sample" "sample_step held_sample published_sample"
  "sample_step published_sample used_sample" "sample_step used_sample reacquired_sample"
proof -
  have "fresh_request job_sample" "unused_id codec_sample (\<lambda>_. 10) (\<lambda>_. Some ''1'') job_sample start_sample"
    by code_simp+
  then show "sample_step start_sample queued_sample" unfolding queued_sample_def by (intro durable_step.step) simp
qed (unfold leased_sample_def held_sample_def published_sample_def used_sample_def reacquired_sample_def,
  (rule durable_step.step; simp)+)

lemmas sample_runs =
  r_into_rtranclp [where r = "durable_step ascii_only codec_sample", OF sample_steps(2)]
  r_into_rtranclp [where r = "durable_step ascii_only codec_sample", OF sample_steps(5)]

lemma sample_reachable:
  "reachable ascii_only codec_sample queued_sample" "reachable ascii_only codec_sample leased_sample"
  "reachable ascii_only codec_sample held_sample" "reachable ascii_only codec_sample published_sample"
  "reachable ascii_only codec_sample used_sample"
proof -
  have "catalog_ok codec_sample start_sample"
    by (simp add: catalog_ok_def releases_ok_def start_sample_def empty_durable_def release_sample_def release_id_def)
  then have "initial_durable codec_sample start_sample"
    by (simp add: initial_durable_def start_sample_def empty_durable_def)
  then show r: "reachable ascii_only codec_sample queued_sample"
    using sample_steps(1) by (auto simp: reachable_def)
  have further: "reachable ascii_only codec_sample t" if "reachable ascii_only codec_sample s" "sample_step s t" for s t
    using that by (auto simp: reachable_def intro: rtranclp.rtrancl_into_rtrancl)
  show l: "reachable ascii_only codec_sample leased_sample" by (rule further [OF r sample_steps(2)])
  show h: "reachable ascii_only codec_sample held_sample" by (rule further [OF l sample_steps(3)])
  show p: "reachable ascii_only codec_sample published_sample" by (rule further [OF h sample_steps(4)])
  show "reachable ascii_only codec_sample used_sample" by (rule further [OF p sample_steps(5)])
qed

section \<open>Properties\<close>

text \<open>The key under which the head of a release's channel is kept, and the head found there: the zero value of the Go
  struct when there is none.\<close>

definition release_head :: "release_version \<Rightarrow> string" where
  "release_head r = head_key (rv_project r) (rv_profile r) (rv_channel r)"

definition stored_head :: "durable \<Rightarrow> string \<Rightarrow> channel_head" where
  "stored_head s k = (case dr_heads s k of None \<Rightarrow> empty_head [] [] [] | Some h \<Rightarrow> h)"

text \<open>C6: In every reachable state, a job was attempted at most \<open>MaxAttempts\<close> times, its fencing token equals the
  number of attempts, its log has exactly one entry per attempt, numbered from 1, and an entry of the log is
  running exactly when it is the last one and the job holds a lease; a job that is not running holds no lease.\<close>
theorem job_attempts_bounded:
  assumes "reachable U cd s" "job_of s i = Some j"
  shows "0 \<le> jb_attempts j \<and> jb_attempts j \<le> jb_max j \<and> jb_fence j = jb_attempts j \<and>
    int (length (dr_attempts s i)) = jb_attempts j \<and> numbered (dr_attempts s i) \<and>
    (\<forall>n < length (dr_attempts s i). at_status (dr_attempts s i ! n) = running \<longleftrightarrow>
       jb_status j = running \<and> n + 1 = length (dr_attempts s i)) \<and>
    (jb_status j \<noteq> running \<longrightarrow> jb_token j = [] \<and> jb_expires j = 0)"
proof -
  have "jobs_ok s" using reachable_ok [OF assms(1)] by (simp add: durable_ok_def)
  note j = jobs_okD [OF this assms(2)]
  have "at_status (dr_attempts s i ! n) = running \<longleftrightarrow> jb_status j = running \<and> n + 1 = length (dr_attempts s i)"
    if n: "n < length (dr_attempts s i)" for n
  proof (cases "jb_status j = running")
    case True
    then obtain xs x where x: "dr_attempts s i = xs @ [x]" "closed_log xs" "at_status x = running"
      using j(2) by (cases "dr_attempts s i" rule: rev_cases) (auto simp: log_ok_def open_log_def)
    then show ?thesis using n True by (auto simp: nth_append closed_log_def less_Suc_eq)
  next
    case False
    then show ?thesis using j(2) n by (simp add: log_ok_def closed_log_def)
  qed
  then show ?thesis using j by (simp add: job_ok_def log_ok_def)
qed

theorem job_attempts_bounded_witness:
  "\<exists>j. job_of held_sample ''job_1'' = Some j \<and> jb_fence j = 1 \<and> at_status (dr_attempts held_sample ''job_1'' ! 0) = running"
proof -
  have "map_option (\<lambda>j. (jb_status j, jb_attempts j)) (job_of held_sample ''job_1'') = Some (running, 1)" by code_simp
  then obtain j where j: "job_of held_sample ''job_1'' = Some j" "jb_status j = running" "jb_attempts j = 1" by auto
  from job_attempts_bounded [OF sample_reachable(3) j(1)] j show ?thesis by auto
qed

text \<open>C8: In every run of the operations, in any order (a new job takes an identifier that is not in use), a stored
  job only moves along the job state machine (pending, running with a new fencing token, back to pending while
  attempts remain, or terminal; retried from failed, dead or revoked), and its identity, action, resource and payload
  never change.\<close>
theorem job_follows_machine:
  assumes "reachable U cd s" "(durable_step U cd)\<^sup>*\<^sup>* s t" "job_of s i = Some j"
  shows "\<exists>k. job_of t i = Some k \<and> job_step\<^sup>*\<^sup>* j k \<and> same_work j k \<and> jb_fence j \<le> jb_fence k"
  using job_store.run_moves [OF assms(2) reachable_ok [OF assms(1)] assms(3)] job_step_same by blast

theorem job_follows_machine_witness:
  "\<exists>j k. job_of queued_sample ''job_1'' = Some j \<and> jb_status j = pending \<and> job_of leased_sample ''job_1'' = Some k \<and>
     job_step\<^sup>*\<^sup>* j k"
proof -
  have "map_option jb_status (job_of queued_sample ''job_1'') = Some pending" by code_simp
  then obtain j where j: "job_of queued_sample ''job_1'' = Some j" "jb_status j = pending" by auto
  from job_follows_machine [OF sample_reachable(1) sample_runs(1) j(1)] j(2)
  show ?thesis using j(1) by blast
qed

text \<open>A job that has succeeded stays as it is in every later state: no worker, no retry and no cancellation
  touches it again.\<close>
lemma succeeded_job_final:
  assumes "reachable U cd s" "(durable_step U cd)\<^sup>*\<^sup>* s t" "job_of s i = Some j" "jb_status j = succeeded"
  shows "job_of t i = Some j"
  using job_store.run_final [OF assms(2) reachable_ok [OF assms(1)] assms(3)] job_step_final assms(4) by blast

text \<open>C3: A publication is all or nothing.  If it fails, the state is unchanged.  If it succeeds, the caller held the
  running job and the scope lease, both unexpired, with the current token and fencing token, the release had the
  expected status and manifest digest, its latest integrity check had passed for these digests, and the expected head
  revision was the one stored for the channel (0 when no head was stored); and afterwards that release alone is
  changed, to published, the head of that channel alone is changed, to the stored one moved to this release and the
  next revision, the job has succeeded and both outbox events exist.\<close>
theorem publish_all_or_nothing:
  assumes "reachable U cd s" "commit_publish U cd clk c verified s = (t, out)"
  shows "(\<exists>e. out = Inl e \<and> t = s) \<or>
    (\<exists>j l n r. out = Inr (r\<lparr>rv_status := published, rv_published := clk 0\<rparr>) \<and>
       job_of s (pc_job c) = Some j \<and> jb_status j = running \<and> jb_token j = pc_job_token c \<and> clk 0 \<le> jb_expires j \<and>
       dr_scopes s (pc_scope c) = Some l \<and> sc_token l = pc_scope_token c \<and> sc_fence l = pc_scope_fence c \<and>
       clk 0 \<le> sc_expires l \<and>
       release_at s n = Some r \<and> rv_id r = jb_resource j \<and> rv_project r = jb_project j \<and> rv_status r = pc_status c \<and>
       rv_status r \<noteq> published \<and> (stable_channel U (rv_channel r) \<longrightarrow> verified) \<and>
       cd_sha cd (cd_manifest cd (rv_manifest r)) = pc_manifest_digest c \<and>
       check_passes c (latest_check (rv_id r) (dr_checks s)) \<and>
       pc_head_revision c = Some (case dr_heads s (release_head r) of None \<Rightarrow> 0 | Some h \<Rightarrow> ch_revision h) \<and>
       dr_releases t = (dr_releases s)[n := r\<lparr>rv_status := published, rv_published := clk 0\<rparr>] \<and>
       dr_heads t = (dr_heads s)(release_head r \<mapsto> next_head c r (clk 0) (stored_head s (release_head r))) \<and>
       job_of t (pc_job c) = Some (published_job (clk 0) (rv_id r) j) \<and>
       (\<forall>typ \<in> set event_types. event_of t (publish_key r c typ) \<noteq> None))"
proof (rule commit_publish_cases [of U cd clk c verified s])
  fix e
  assume "commit_publish U cd clk c verified s = (s, Inl e)"
  then show ?thesis using assms(2) by simp
next
  fix j n r h
  assume g: "publish_guard U cd (clk 0) c verified s = Inr (j, n, r, h)"
    and out: "snd (commit_publish U cd clk c verified s) = Inr (r\<lparr>rv_status := published, rv_published := clk 0\<rparr>)"
  have ok: "jobs_ok s" "events_ok s" using reachable_ok [OF assms(1)] by (simp_all add: durable_ok_def)
  have t: "t = fst (commit_publish U cd clk c verified s)" by (simp add: assms(2))
  note e = commit_publish_Inr [of U cd clk c verified s j n r h t, OF g ok t] and p = publish_guard_Inr [OF g]
  obtain l where l: "dr_scopes s (pc_scope c) = Some l" "sc_token l = pc_scope_token c" "sc_fence l = pc_scope_fence c"
    "clk 0 \<le> sc_expires l" using p(5) by blast
  have r: "release_at s n = Some r" using p(6,7) by (simp add: release_at_def)
  have k: "head_key (rv_project r) (rv_profile r) (rv_channel r) = release_head r" by (simp add: release_head_def)
  have h: "h = stored_head s (release_head r)" using p(16) by (simp add: stored_head_def release_head_def)
  have rev: "pc_head_revision c = Some (case dr_heads s (release_head r) of None \<Rightarrow> 0 | Some h \<Rightarrow> ch_revision h)"
    using p(15) unfolding h by (simp add: stored_head_def empty_head_def split: option.splits)
  have o: "out = Inr (r\<lparr>rv_status := published, rv_published := clk 0\<rparr>)" using out assms(2) by simp
  show ?thesis
    by (intro disjI2 exI conjI) (fact o, fact p(1), fact p(2), fact p(3), fact p(4), fact l(1), fact l(2), fact l(3), fact l(4),
      fact r, fact p(8), fact p(9), fact p(12), fact p(11), fact p(10), fact p(13), fact p(14), fact rev, fact e(8),
      fact e(9) [unfolded k h], fact e(10), fact e(11))
qed

theorem publish_all_or_nothing_witness:
  "\<exists>r. dr_heads held_sample (release_head r) = None \<and> release_at held_sample 0 = Some r \<and> rv_status r \<noteq> published \<and>
     dr_releases published_sample = [r\<lparr>rv_status := published, rv_published := 40\<rparr>] \<and>
     map_option ch_revision (dr_heads published_sample (release_head r)) = Some 1"
proof -
  let ?run = "commit_publish ascii_only codec_sample (\<lambda>_. 40) commit_sample False held_sample"
  have ok: "is_ok (snd ?run)" by code_simp
  have one: "length (dr_releases held_sample) = 1" by code_simp
  have none: "list_all (\<lambda>r. dr_heads held_sample (release_head r) = None) (dr_releases held_sample)" by code_simp
  have "?run = (published_sample, snd ?run)" by (simp add: published_sample_def)
  note done_or_not = publish_all_or_nothing [OF sample_reachable(3) this]
  have "\<nexists>e. snd ?run = Inl e" using ok by (auto simp: is_ok_def)
  then obtain n r where r: "release_at held_sample n = Some r" "rv_status r \<noteq> published"
      "dr_releases published_sample = (dr_releases held_sample)[n := r\<lparr>rv_status := published, rv_published := 40\<rparr>]"
      "dr_heads published_sample = (dr_heads held_sample)
         (release_head r \<mapsto> next_head commit_sample r 40 (stored_head held_sample (release_head r)))"
    using done_or_not by blast
  obtain r0 where r0: "dr_releases held_sample = [r0]" using one by (cases "dr_releases held_sample") auto
  then have "n = 0" "r0 = r" using r(1) by (auto simp: release_at_def split: if_splits)
  then have "dr_releases published_sample = [r\<lparr>rv_status := published, rv_published := 40\<rparr>]" "release_at held_sample 0 = Some r"
    using r(1,3) r0 by simp_all
  moreover have "dr_heads held_sample (release_head r) = None" using none r0 \<open>r0 = r\<close> by simp
  moreover from this have "map_option ch_revision (dr_heads published_sample (release_head r)) = Some 1"
    by (simp add: r(4) next_head_def stored_head_def empty_head_def)
  ultimately show ?thesis using r(2) by blast
qed

text \<open>A published release is immutable: in every later state it is exactly the release that was published, so it
  is never published a second time.\<close>
lemma published_release_final:
  assumes "reachable U cd s" "(durable_step U cd)\<^sup>*\<^sup>* s t" "release_at s n = Some r" "rv_status r = published"
  shows "release_at t n = Some r"
  using release_store.run_final [OF assms(2) reachable_ok [OF assms(1)] assms(3)] assms(4)
  by (auto simp: frozen_moves_def)

text \<open>C7: Fencing: once another owner has acquired a scope, the previous lease is useless for ever: every later
  publication that presents its fencing token is refused as a lost lease (or because its job is unknown) and
  changes nothing, even if a token value were drawn twice.\<close>
theorem stale_lease_fenced:
  assumes "reachable U cd s" "dr_scopes s scope = Some old"
    and "acquire_scope clk rnd scope owner ttl s = (t, Inr l)" "(durable_step U cd)\<^sup>*\<^sup>* t u"
    and "pc_scope c = scope" "pc_scope_fence c = sc_fence old"
  shows "commit_publish U cd clk' c verified u = (u, Inl LeaseLost) \<or> commit_publish U cd clk' c verified u = (u, Inl NotFound)"
proof -
  have l: "dr_scopes t scope = Some l" "sc_fence l = sc_fence old + 1"
    using assms(2,3) by (auto simp: acquire_scope_def Let_def split: option.splits if_splits)
  have "t = exec U cd (AcquireScope clk rnd scope owner ttl) s" by (simp add: assms(3))
  then have "durable_ok cd t"
    using exec_result [OF reachable_ok [OF assms(1)], of "AcquireScope clk rnd scope owner ttl"] by (simp add: step_result_def)
  then obtain m where m: "dr_scopes u scope = Some m" "lease_moves l m"
    using scope_store.run_moves [OF assms(4) _ l(1)] by blast
  then have "sc_fence m \<noteq> pc_scope_fence c" using l(2) assms(6) by (auto simp: lease_moves_def)
  then have "publish_guard U cd (clk' 0) c verified u \<in> {Inl LeaseLost, Inl NotFound}"
    using m(1) assms(5) by (auto simp: publish_guard_def split: option.split)
  then show ?thesis using commit_publish_Inl by blast
qed

theorem stale_lease_fenced_witness:
  "commit_publish ascii_only codec_sample (\<lambda>_. 210) commit_sample False reacquired_sample = (reacquired_sample, Inl LeaseLost) \<or>
   commit_publish ascii_only codec_sample (\<lambda>_. 210) commit_sample False reacquired_sample = (reacquired_sample, Inl NotFound)"
proof -
  have "map_option sc_fence (dr_scopes used_sample ''c'') = Some 1" by code_simp
  then obtain old where old: "dr_scopes used_sample ''c'' = Some old" "sc_fence old = 1" by auto
  let ?run = "acquire_scope (\<lambda>_. 200) (\<lambda>_. Some ''t2'') ''c'' ''w2'' 100 used_sample"
  have "is_ok (snd ?run)" by code_simp
  then obtain l where "?run = (reacquired_sample, Inr l)"
    by (cases ?run) (auto simp: reacquired_sample_def is_ok_def split: sum.splits)
  from stale_lease_fenced [OF sample_reachable(5) old(1) this rtranclp.rtrancl_refl] old(2)
  show ?thesis by (simp add: commit_sample_def)
qed

text \<open>An outbox event is never lost and never delivered twice: it is attempted at most its limit of times, its
  content never changes, and once delivered (or dead) it stays so in every later state.\<close>
lemma outbox_delivery:
  assumes "reachable U cd s" "(durable_step U cd)\<^sup>*\<^sup>* s t" "event_of s k = Some e"
  shows "\<exists>f. event_of t k = Some f \<and> ob_payload f = ob_payload e \<and> ob_id f = ob_id e \<and>
    0 \<le> ob_attempts f \<and> ob_attempts f \<le> ob_max f \<and> (ob_status e = delivered \<or> ob_status e = dead \<longrightarrow> f = e)"
proof -
  obtain f where f: "event_of t k = Some f" "event_step\<^sup>*\<^sup>* e f"
    using event_store.run_moves [OF assms(2) reachable_ok [OF assms(1)] assms(3)] by blast
  have "events_ok t" using job_store.run_inv [OF assms(2) reachable_ok [OF assms(1)]] by (simp add: durable_ok_def)
  then have "event_ok f" using f(1) by (simp add: events_ok_def)
  moreover have "same_event e f" using f(2)
    by (induction rule: rtranclp_induct) (auto simp: same_event_def elim!: event_step.cases)
  ultimately show ?thesis using f event_step_final [OF f(2)] by (auto simp: event_ok_def same_event_def)
qed

text \<open>A nonce is used at most once before it expires: after it has been consumed, every attempt to consume it
  again in any later state at a time before its recorded expiry is refused and changes nothing.\<close>
lemma nonce_single_use:
  assumes "reachable U cd s" "clk 0 \<le> clk 1" "clk 1 \<le> clk 2"
    and "consume_nonce U clk namespace nonce expires s = (t, Inr ())" "(durable_step U cd)\<^sup>*\<^sup>* t u"
  shows "\<exists>e > clk 1. dr_nonces t (nonce_key U namespace nonce) = Some e \<and>
    (\<forall>clk' expires'. clk' 0 < e \<longrightarrow> consume_nonce U clk' namespace nonce expires' u = (u, Inl Conflict))"
proof -
  let ?k = "nonce_key U namespace nonce"
  obtain e where e: "dr_nonces t ?k = Some e" "clk 1 < e"
    using assms(3,4) by (auto simp: consume_nonce_def Let_def second_def split: option.splits if_splits)
  have "t = exec U cd (ConsumeNonce clk namespace nonce expires) s" by (simp add: assms(4))
  then have "durable_ok cd t"
    using exec_result [OF reachable_ok [OF assms(1)], of "ConsumeNonce clk namespace nonce expires"] assms(2,3)
    by (simp add: step_result_def)
  then obtain f where "dr_nonces u ?k = Some f" "e \<le> f" using nonce_store.run_moves [OF assms(5) _ e(1)] by blast
  then have "consume_nonce U clk' namespace nonce expires' u = (u, Inl Conflict)" if "clk' 0 < e" for clk' expires'
    using that by (simp add: consume_nonce_def)
  then show ?thesis using e by blast
qed

text \<open>A channel head only moves forward: in every later state its revision has grown or the head is unchanged, so
  the compare-and-swap of a publication on an old revision can never succeed again.\<close>
lemma head_revision_monotone:
  assumes "reachable U cd s" "(durable_step U cd)\<^sup>*\<^sup>* s t" "dr_heads s k = Some h"
  shows "\<exists>g. dr_heads t k = Some g \<and> (g = h \<or> ch_revision h < ch_revision g)"
  using head_store.run_moves [OF assms(2) reachable_ok [OF assms(1)] assms(3)] by (auto simp: head_moves_def)

text \<open>Leases of a job exclude each other: a lease is granted only for a job that is pending, or running with an
  expired lease, still has attempts left and is due; the lease carries the next fencing token and expires after
  the requested time, and until then no other worker can lease the job.\<close>
lemma job_lease_exclusive:
  assumes "lease_job clk rnd i worker ttl s = (t, Inr k)" "reachable U cd s"
  shows "(\<exists>j. job_of s (trim_space i) = Some j \<and> (jb_status j = pending \<or> jb_status j = running \<and> jb_expires j \<le> clk 0) \<and>
      jb_attempts j < jb_max j \<and> jb_available j \<le> clk 0 \<and> jb_fence k = jb_fence j + 1) \<and>
    job_of t (trim_space i) = Some k \<and> jb_status k = running \<and> rnd 0 = Some (jb_token k) \<and>
    jb_expires k = clk 0 + (if ttl \<le> 0 then 30 * second else ttl) \<and>
    (\<forall>clk' rnd' other ttl'. clk' 0 < jb_expires k \<longrightarrow> lease_job clk' rnd' i other ttl' t = (t, Inl LeaseBusy))"
proof -
  obtain j where j: "job_of s (trim_space i) = Some j" using assms(1) by (auto simp: lease_job_def lease_locked_def split: option.splits)
  obtain tok where r: "\<not> terminal_status (jb_status j)" "\<not> (jb_status j = running \<and> jb_expires j > clk 0)"
    "\<not> jb_attempts j \<ge> jb_max j" "\<not> jb_available j > clk 0" "rnd 0 = Some tok"
    and k: "k = start_job (trim_space worker) tok (clk 0) (if ttl \<le> 0 then 30 * second else ttl) j"
    and t: "job_of t (trim_space i) = Some k"
    using assms(1) j unfolding lease_job_def lease_locked_def Let_def
    by (auto simp: job_of_def put_job_def update_conv' split: if_split_asm option.split_asm)
  have "job_ok j" using jobs_okD(1) [OF _ j] reachable_ok [OF assms(2)] by (simp add: durable_ok_def)
  then have st: "jb_status j = pending \<or> jb_status j = running" using r(1) by (auto simp: job_ok_def)
  have run: "jb_status k = running" by (simp add: k start_job_def)
  then have "lease_job clk' rnd' i other ttl' t = (t, Inl LeaseBusy)" if "clk' 0 < jb_expires k" for clk' rnd' other ttl'
    using that t by (simp add: lease_job_def lease_locked_def)
  then show ?thesis using j r st t run by (auto simp: k start_job_def)
qed

text \<open>C13: A channel never serves a draft or a mixture: in every reachable state, a channel head with a revision points
  to exactly one release of this project, profile and channel; it is published, it has the version of the head
  and, where the head records a digest, the manifest that \<^verbatim>\<open>GetManifest\<close> returns hashes to it.\<close>
theorem channel_serves_published:
  assumes "reachable U cd s" "dr_heads s (head_key p f c) = Some h" "ch_revision h \<noteq> 0"
    and "ch_project h = p" "ch_profile h = f" "ch_channel h = c"
  shows "\<exists>r \<in> set (dr_releases s). get_manifest p f c s = Inr (rv_manifest r) \<and> rv_status r = published \<and>
    rv_project r = p \<and> rv_profile r = f \<and> rv_channel r = c \<and> rv_version r = ch_version h \<and>
    (ch_digest h = [] \<or> ch_digest h = cd_sha cd (cd_manifest cd (rv_manifest r))) \<and>
    (\<forall>x \<in> set (dr_releases s). served p f c h x \<longrightarrow> x = r)"
proof -
  have "catalog_ok cd s" using reachable_ok [OF assms(1)] by (simp add: durable_ok_def)
  from head_serves [OF this assms(2-6)] obtain r where r: "r \<in> set (dr_releases s)" "points_to cd h r"
    "get_manifest p f c s = Inr (rv_manifest r)" "\<forall>x \<in> set (dr_releases s). served p f c h x \<longrightarrow> x = r" by blast
  have "rv_status r = published" "rv_project r = p" "rv_profile r = f" "rv_channel r = c" "rv_version r = ch_version h"
    "ch_digest h = [] \<or> ch_digest h = cd_sha cd (cd_manifest cd (rv_manifest r))"
    using r(2) assms(4-6) by (simp_all add: points_to_def served_def)
  with r(1,3,4) show ?thesis by (intro bexI [of _ r] conjI)
qed

theorem channel_serves_published_witness:
  "\<exists>m. get_manifest ''p'' ''f'' ''beta'' published_sample = Inr m"
proof -
  have "map_option (\<lambda>h. (ch_revision h, ch_project h, ch_profile h, ch_channel h))
      (dr_heads published_sample (head_key ''p'' ''f'' ''beta'')) = Some (1, ''p'', ''f'', ''beta'')" by code_simp
  then obtain h where h: "dr_heads published_sample (head_key ''p'' ''f'' ''beta'') = Some h" "ch_revision h = 1"
    "ch_project h = ''p''" "ch_profile h = ''f''" "ch_channel h = ''beta''" by auto
  from channel_serves_published [OF sample_reachable(4) h(1) _ h(3-5)] h(2) show ?thesis by auto
qed

text \<open>C36: A draft of schema 3.0 can rewrite another release: the identifier leaves out the channel, and the draft is
  looked up by it, so when a release of another channel has the same version, that release gets the new schema and
  an empty catalog in place, even if it is published, and the new draft stays without a catalog.\<close>
theorem v3_draft_rewrites_release:
  assumes "create_version cd ps clk project profile channel version s = (t, Inr r)"
    and "index_of (\<lambda>x. rv_id x = rv_id r \<and> rv_project x = project) (dr_releases s) = Some n"
  shows "release_at (fst (create_version3 cd ps clk project profile channel version s)) n =
      Some ((dr_releases s ! n)\<lparr>rv_manifest := (rv_manifest (dr_releases s ! n))
        \<lparr>mn_schema := manifest_schema3, mn_catalog := Some (new_catalog1 (cd_sha cd) [] 1)\<rparr>\<rparr>) \<and>
    release_at (fst (create_version3 cd ps clk project profile channel version s)) (length (dr_releases s)) = Some r \<and>
    mn_catalog (rv_manifest r) = None"
proof -
  have t: "t = s\<lparr>dr_releases := dr_releases s @ [r]\<rparr>" "mn_catalog (rv_manifest r) = None"
    by (rule create_version_cases [of cd ps clk project profile channel version s],
        use assms(1) in \<open>auto simp: new_draft_def no_manifest_def\<close>)+
  have n: "n < length (dr_releases s)" using assms(2) by (simp add: index_of_Some)
  have "index_of (\<lambda>x. rv_id x = rv_id r \<and> rv_project x = project) (dr_releases t) = Some n"
    using assms(2) by (auto simp: index_of_Some t(1) nth_append)
  then show ?thesis
    using n t(2) by (simp add: create_version3_def assms(1) Let_def put_release_def release_at_def t(1) nth_append)
qed

theorem v3_draft_rewrites_release_witness:
  "\<exists>a. release_at (fst (create_version3 codec_sample saved_sample (\<lambda>_. 60) ''p'' ''f'' ''dev'' ''1'' published_sample)) 0 =
      Some a \<and> rv_status a = published \<and> rv_channel a = ''beta'' \<and> mn_catalog (rv_manifest a) \<noteq> None"
proof -
  let ?run = "create_version codec_sample saved_sample (\<lambda>_. 60) ''p'' ''f'' ''dev'' ''1'' published_sample"
  have "(case snd ?run of Inr r \<Rightarrow> Some (rv_id r) | _ \<Rightarrow> None) = Some ''p-f-1''" by code_simp
  then obtain r where r: "?run = (fst ?run, Inr r)" "rv_id r = ''p-f-1''" by (cases "snd ?run") (auto simp: prod_eq_iff)
  have i: "index_of (\<lambda>x. rv_id x = ''p-f-1'' \<and> rv_project x = ''p'') (dr_releases published_sample) = Some 0"
    "(rv_status (dr_releases published_sample ! 0), rv_channel (dr_releases published_sample ! 0)) = (published, ''beta'')"
    by code_simp+
  from v3_draft_rewrites_release [OF r(1), of 0] i r(2) show ?thesis by simp
qed

end
