(* ===== verification/Accounts.thy ===== *)
theory Accounts
  imports ProfileStore "HOL-Library.AList"
begin

text \<open>
  Users, roles and linked identities of \<^verbatim>\<open>MemoryRepository\<close> (\<^verbatim>\<open>repository/memory.go\<close>,
  \<^verbatim>\<open>repository/auth_identity.go\<close>, \<^verbatim>\<open>model/auth_issuer.go\<close>): the checks of a user, the canonical issuer of a login
  provider, and the linking of an external identity, with the invariant \<open>accounts_ok\<close>.  The map \<^verbatim>\<open>ProjectRoles\<close>
  is an association list in the order of one iteration; the opaque \<^verbatim>\<open>Claims\<close> are left out.
\<close>

section \<open>Data\<close>

record user =
  us_id :: string
  us_email :: string
  us_name :: string
  us_role :: string
  us_status :: string
  us_project_roles :: "(string \<times> string) list"
  us_password :: string
  us_password_at :: time
  us_login_at :: time
  us_disabled_at :: time
  us_created :: time
  us_updated :: time

record role =
  ro_id :: string
  ro_name :: string
  ro_description :: string
  ro_permissions :: "string list"

record identity =
  ai_id :: string
  ai_user :: string
  ai_provider :: string
  ai_issuer :: string
  ai_subject :: string
  ai_email :: string
  ai_username :: string
  ai_name :: string
  ai_created :: time
  ai_updated :: time
  ai_authenticated :: time

record account_store =
  ac_users :: "user list"
  ac_roles :: "role list"
  ac_identities :: "identity list"

datatype account_error =
    AccountNotFound
  | AccountConflict
  | BadProvider
  | BadIssuer
  | LocalIssuer
  | UnknownRole string
  | WildcardProjectRole
  | UnknownRoleProject string
  | UnknownProjectRole string
  | EmailTaken
  | IdentityFieldsMissing
  | IdentityOfOther string string
  | OtherSubject string
  | FederatedFieldsMissing
  | EmailOfOther
  | UserOfOtherEmail

type_synonym 'a account_outcome = "account_store \<times> (account_error + 'a)"

section \<open>Issuers\<close>

definition control_or_space :: "string \<Rightarrow> bool" where
  \<comment> \<open>some rune is \<^verbatim>\<open>unicode.IsSpace\<close> or \<^verbatim>\<open>unicode.IsControl\<close>; U+0080 to U+009F are two bytes\<close>
  "control_or_space s \<longleftrightarrow>
     list_ex (\<lambda>c. of_char c < (32 :: int) \<or> c = CHR 0x7F) s \<or> list_ex (contains_str s) space_runes \<or>
     list_ex (\<lambda>n. contains_str s [CHR 0xC2, char_of n]) [128 ..< 160 :: nat]"

definition canonical_issuer :: "unicode \<Rightarrow> string \<Rightarrow> string \<Rightarrow> account_error + string" where
  "canonical_issuer U provider0 issuer0 =
     (let provider = to_lower U (trim_space provider0)
      in if provider = [] \<or> length provider > 128 \<or> control_or_space provider then Inl BadProvider
         else
           (let issuer1 = trim_space issuer0;
                issuer = (if issuer1 = [] then (if provider = ''local'' then ''launcher'' else ''provider:'' @ provider)
                          else issuer1)
            in if length issuer > 2048 \<or> control_or_space issuer then Inl BadIssuer
               else if provider = ''local'' \<and> issuer \<noteq> ''launcher'' then Inl LocalIssuer
               else Inr issuer))"

definition scoped_identity_id :: "(string \<Rightarrow> string) \<Rightarrow> string \<Rightarrow> string \<Rightarrow> string \<Rightarrow> string" where
  "scoped_identity_id sha provider issuer user =
     ''identity-'' @ take 32 (sha (join_char (CHR 0x00) [provider, issuer, user]))"

section \<open>Identities\<close>

definition get_user :: "string \<Rightarrow> account_store \<Rightarrow> account_error + user" where
  "get_user i s = (case first_some (\<lambda>u. us_id u = i) (ac_users s) of None \<Rightarrow> Inl AccountNotFound | Some u \<Rightarrow> Inr u)"

definition user_by_email :: "unicode \<Rightarrow> string \<Rightarrow> account_store \<Rightarrow> account_error + user" where
  "user_by_email U email s =
     (case first_some (\<lambda>u. equal_fold U (us_email u) email) (ac_users s) of
        None \<Rightarrow> Inl AccountNotFound
      | Some u \<Rightarrow> Inr u)"

definition external_key :: "identity \<Rightarrow> string \<times> string \<times> string" where
  "external_key i = (ai_provider i, ai_issuer i, ai_subject i)"

definition link_key :: "identity \<Rightarrow> string \<times> string \<times> string" where
  "link_key i = (ai_user i, ai_provider i, ai_issuer i)"

fun find_link :: "identity \<Rightarrow> nat \<Rightarrow> identity list \<Rightarrow> account_error + nat option" where
  \<comment> \<open>the loop of \<^verbatim>\<open>SaveAuthIdentity\<close>: the place of the user's identity for this provider and issuer\<close>
  "find_link i n [] = Inr None"
| "find_link i n (x # xs) =
     (if external_key x = external_key i \<and> ai_user x \<noteq> ai_user i then Inl (IdentityOfOther (ai_provider i) (ai_subject i))
      else if link_key x = link_key i then
        (if ai_subject x \<noteq> ai_subject i then Inl (OtherSubject (ai_provider i)) else Inr (Some n))
      else find_link i (n + 1) xs)"

definition save_identity ::
    "unicode \<Rightarrow> (string \<Rightarrow> string) \<Rightarrow> time \<Rightarrow> identity \<Rightarrow> account_store \<Rightarrow> identity account_outcome" where
  "save_identity U sha now i0 s =
     (let i1 = i0\<lparr>ai_provider := to_lower U (trim_space (ai_provider i0))\<rparr>
      in case canonical_issuer U (ai_provider i1) (ai_issuer i1) of
           Inl e \<Rightarrow> (s, Inl e)
         | Inr issuer \<Rightarrow>
             (let i = i1\<lparr>ai_issuer := issuer, ai_subject := trim_space (ai_subject i1), ai_user := trim_space (ai_user i1)\<rparr>
              in if ai_provider i = [] \<or> ai_subject i = [] \<or> ai_user i = [] then (s, Inl IdentityFieldsMissing)
                 else
                   (case get_user (ai_user i) s of
                      Inl e \<Rightarrow> (s, Inl e)
                    | Inr _ \<Rightarrow>
                        (case find_link i 0 (ac_identities s) of
                           Inl e \<Rightarrow> (s, Inl e)
                         | Inr (Some n) \<Rightarrow>
                             (let x = ac_identities s ! n;
                                  j = i\<lparr>ai_id := (if ai_id i = [] then ai_id x else ai_id i),
                                         ai_created := (if ai_created i = 0 then ai_created x else ai_created i),
                                         ai_updated := now\<rparr>
                              in (s\<lparr>ac_identities := (ac_identities s)[n := j]\<rparr>, Inr j))
                         | Inr None \<Rightarrow>
                             (let j = i\<lparr>ai_id := (if ai_id i = [] then scoped_identity_id sha (ai_provider i) (ai_issuer i) (ai_user i)
                                                   else ai_id i),
                                         ai_created := now, ai_updated := now\<rparr>
                              in (s\<lparr>ac_identities := ac_identities s @ [j]\<rparr>, Inr j))))))"

fun only_identity ::
    "string \<Rightarrow> string \<Rightarrow> identity option \<Rightarrow> identity list \<Rightarrow> account_error + identity" where
  \<comment> \<open>\<open>found\<close>: the match so far; one without an identifier does not count\<close>
  "only_identity provider subject found [] =
     (case found of None \<Rightarrow> Inl AccountNotFound | Some x \<Rightarrow> if ai_id x = [] then Inl AccountNotFound else Inr x)"
| "only_identity provider subject found (x # xs) =
     (if ai_provider x = provider \<and> ai_subject x = subject then
        (if (case found of None \<Rightarrow> False | Some y \<Rightarrow> ai_id y \<noteq> []) then Inl AccountConflict
         else only_identity provider subject (Some x) xs)
      else only_identity provider subject found xs)"

definition get_identity :: "unicode \<Rightarrow> string \<Rightarrow> string \<Rightarrow> account_store \<Rightarrow> account_error + identity" where
  "get_identity U provider subject s =
     only_identity (to_lower U (trim_space provider)) (trim_space subject) None (ac_identities s)"

definition identity_by_issuer ::
    "unicode \<Rightarrow> string \<Rightarrow> string \<Rightarrow> string \<Rightarrow> account_store \<Rightarrow> account_error + identity" where
  "identity_by_issuer U provider0 issuer0 subject s =
     (let provider = to_lower U (trim_space provider0)
      in case canonical_issuer U provider issuer0 of
           Inl e \<Rightarrow> Inl e
         | Inr issuer \<Rightarrow>
             (case first_some (\<lambda>x. external_key x = (provider, issuer, trim_space subject)) (ac_identities s) of
                None \<Rightarrow> Inl AccountNotFound
              | Some x \<Rightarrow> Inr x))"

definition touch_identity :: "time \<Rightarrow> string \<Rightarrow> account_store \<Rightarrow> identity account_outcome" where
  "touch_identity now i s =
     (case index_of (\<lambda>x. ai_id x = i) (ac_identities s) of
        None \<Rightarrow> (s, Inl AccountNotFound)
      | Some n \<Rightarrow>
          (let x = (ac_identities s ! n)\<lparr>ai_authenticated := now, ai_updated := now\<rparr>
           in (s\<lparr>ac_identities := (ac_identities s)[n := x]\<rparr>, Inr x)))"

section \<open>Users\<close>

definition role_exists :: "string \<Rightarrow> account_store \<Rightarrow> bool" where
  "role_exists r s = list_ex (\<lambda>x. ro_id x = r) (ac_roles s)"

definition check_project_role ::
    "profile_store \<Rightarrow> account_store \<Rightarrow> string \<times> string \<Rightarrow> (string \<times> string) list \<Rightarrow> account_error + (string \<times> string) list" where
  "check_project_role ps s pr canonical =
     (let project = trim_space (fst pr); r = trim_space (snd pr)
      in if project = ''*'' then Inl WildcardProjectRole
         else if project = [] \<or> r = [] then Inr canonical
         else if \<not> is_ok (get_project project ps) then Inl (UnknownRoleProject project)
         else if \<not> role_exists r s then Inl (UnknownProjectRole r)
         else Inr (AList.update project r canonical))"

definition unix_nano :: "time \<Rightarrow> int" where \<comment> \<open>\<^verbatim>\<open>UnixNano\<close>, for the years it represents\<close>
  "unix_nano t = t - 62135596800000000000"

definition default_user :: "time \<Rightarrow> user \<Rightarrow> user" where
  "default_user now u =
     u\<lparr>us_id := (if us_id u = [] then ''user-'' @ show_int (unix_nano now) else us_id u),
       us_status := (if us_status u = [] then ''active'' else us_status u),
       us_role := (if us_role u = [] then ''viewer'' else us_role u)\<rparr>"

definition email_taken :: "unicode \<Rightarrow> user \<Rightarrow> account_store \<Rightarrow> bool" where
  "email_taken U u s = list_ex (\<lambda>x. us_id x \<noteq> us_id u \<and> equal_fold U (us_email x) (us_email u)) (ac_users s)"

definition put_user :: "time \<Rightarrow> user \<Rightarrow> account_store \<Rightarrow> user \<times> account_store" where
  "put_user now u s =
     (case index_of (\<lambda>x. us_id x = us_id u) (ac_users s) of
        Some n \<Rightarrow>
          (let v = u\<lparr>us_created := (if us_created u = 0 then us_created (ac_users s ! n) else us_created u), us_updated := now\<rparr>
           in (v, s\<lparr>ac_users := (ac_users s)[n := v]\<rparr>))
      | None \<Rightarrow>
          (let v = u\<lparr>us_created := (if us_created u = 0 then now else us_created u),
                     us_updated := (if us_updated u = 0 then now else us_updated u)\<rparr>
           in (v, s\<lparr>ac_users := ac_users s @ [v]\<rparr>)))"

definition no_identity :: identity where
  "no_identity =
     \<lparr>ai_id = [], ai_user = [], ai_provider = [], ai_issuer = [], ai_subject = [], ai_email = [], ai_username = [],
      ai_name = [], ai_created = 0, ai_updated = 0, ai_authenticated = 0\<rparr>"

definition local_identity :: "user \<Rightarrow> identity" where
  "local_identity u =
     no_identity\<lparr>ai_user := us_id u, ai_provider := ''local'', ai_subject := us_id u, ai_email := us_email u,
       ai_username := us_email u, ai_name := us_name u\<rparr>"

definition save_user ::
    "unicode \<Rightarrow> (string \<Rightarrow> string) \<Rightarrow> profile_store \<Rightarrow> (nat \<Rightarrow> time) \<Rightarrow> user \<Rightarrow> account_store \<Rightarrow> user account_outcome" where
  "save_user U sha ps clk u0 s =
     (let now = clk 0; u1 = default_user now u0
      in if \<not> role_exists (trim_space (us_role u1)) s then (s, Inl (UnknownRole (us_role u1)))
         else
           (case for_each (check_project_role ps s) (us_project_roles u1) [] of
              Inl e \<Rightarrow> (s, Inl e)
            | Inr canonical \<Rightarrow>
                (let u = u1\<lparr>us_project_roles := canonical\<rparr>
                 in if email_taken U u s then (s, Inl EmailTaken)
                    else
                      (case put_user now u s of
                         (v, t) \<Rightarrow>
                           if trim_space (us_password v) = [] then (t, Inr v)
                           else
                             (case save_identity U sha (clk 1) (local_identity v) t of
                                (r, Inl e) \<Rightarrow> (r, Inl e)
                              | (r, Inr _) \<Rightarrow> (r, Inr v))))))"

definition set_user_disabled ::
    "unicode \<Rightarrow> (string \<Rightarrow> string) \<Rightarrow> profile_store \<Rightarrow> (nat \<Rightarrow> time) \<Rightarrow> string \<Rightarrow> bool \<Rightarrow> account_store \<Rightarrow> user account_outcome" where
  "set_user_disabled U sha ps clk i disabled s =
     (case get_user i s of
        Inl e \<Rightarrow> (s, Inl e)
      | Inr u \<Rightarrow>
          save_user U sha ps (\<lambda>n. clk (n + 1))
            (if disabled then u\<lparr>us_status := ''disabled'', us_disabled_at := clk 0\<rparr>
             else u\<lparr>us_status := ''active'', us_disabled_at := 0\<rparr>) s)"

definition set_user_password ::
    "unicode \<Rightarrow> (string \<Rightarrow> string) \<Rightarrow> profile_store \<Rightarrow> (nat \<Rightarrow> time) \<Rightarrow> string \<Rightarrow> string \<Rightarrow> account_store \<Rightarrow> user account_outcome" where
  "set_user_password U sha ps clk i hash s =
     (case get_user i s of
        Inl e \<Rightarrow> (s, Inl e)
      | Inr u \<Rightarrow> save_user U sha ps (\<lambda>n. clk (n + 1)) (u\<lparr>us_password := hash, us_password_at := clk 0\<rparr>) s)"

definition touch_user_login ::
    "unicode \<Rightarrow> (string \<Rightarrow> string) \<Rightarrow> profile_store \<Rightarrow> (nat \<Rightarrow> time) \<Rightarrow> string \<Rightarrow> account_store \<Rightarrow> user account_outcome" where
  "touch_user_login U sha ps clk i s =
     (case get_user i s of
        Inl e \<Rightarrow> (s, Inl e)
      | Inr u \<Rightarrow> save_user U sha ps (\<lambda>n. clk (n + 1)) (u\<lparr>us_login_at := clk 0\<rparr>) s)"

section \<open>Federated users\<close>

fun check_federated :: "unicode \<Rightarrow> user \<Rightarrow> user list \<Rightarrow> account_error + unit" where
  "check_federated U u [] = Inr ()"
| "check_federated U u (x # xs) =
     (if equal_fold U (us_email x) (us_email u) \<and> us_id x \<noteq> us_id u then Inl EmailOfOther
      else if us_id x = us_id u \<and> \<not> equal_fold U (us_email x) (us_email u) then Inl UserOfOtherEmail
      else check_federated U u xs)"

fun find_federated :: "user \<Rightarrow> identity \<Rightarrow> identity list \<Rightarrow> account_error + identity option" where
  "find_federated u i [] = Inr None"
| "find_federated u i (x # xs) =
     (if ai_user x = us_id u \<and> ai_provider x = ai_provider i \<and> ai_issuer x = ai_issuer i \<and> ai_subject x \<noteq> ai_subject i
      then Inl AccountConflict
      else if external_key x = external_key i then
        (if ai_user x \<noteq> us_id u then Inl AccountConflict else Inr (Some x))
      else find_federated u i xs)"

definition default_federated :: "time \<Rightarrow> user \<Rightarrow> user" where
  "default_federated now u =
     u\<lparr>us_status := (if us_status u = [] then ''active'' else us_status u),
       us_role := (if us_role u = [] then ''player'' else us_role u),
       us_created := (if us_created u = 0 then now else us_created u), us_updated := now\<rparr>"

definition federated_identity :: "(string \<Rightarrow> string) \<Rightarrow> time \<Rightarrow> string \<Rightarrow> identity \<Rightarrow> identity" where
  "federated_identity sha now user i =
     i\<lparr>ai_user := user,
       ai_id := (if ai_id i = [] then scoped_identity_id sha (ai_provider i) (ai_issuer i) user else ai_id i),
       ai_created := now, ai_updated := now,
       ai_authenticated := (if ai_authenticated i = 0 then now else ai_authenticated i)\<rparr>"

definition last_user :: "string \<Rightarrow> user list \<Rightarrow> user option" where
  \<comment> \<open>the loop leaves the index of the last user with this identifier\<close>
  "last_user i us = (case filter (\<lambda>u. us_id u = i) us of [] \<Rightarrow> None | v # vs \<Rightarrow> Some (last (v # vs)))"

definition save_federated_user ::
    "unicode \<Rightarrow> (string \<Rightarrow> string) \<Rightarrow> time \<Rightarrow> user \<Rightarrow> identity \<Rightarrow> account_store \<Rightarrow> (user \<times> identity) account_outcome" where
  "save_federated_user U sha now u0 i0 s =
     (let u1 = u0\<lparr>us_id := trim_space (us_id u0), us_email := trim_space (us_email u0)\<rparr>;
          i1 = i0\<lparr>ai_provider := to_lower U (trim_space (ai_provider i0))\<rparr>
      in case canonical_issuer U (ai_provider i1) (ai_issuer i1) of
           Inl e \<Rightarrow> (s, Inl e)
         | Inr issuer \<Rightarrow>
             (let i = i1\<lparr>ai_issuer := issuer, ai_subject := trim_space (ai_subject i1)\<rparr>
              in if us_id u1 = [] \<or> us_email u1 = [] \<or> ai_provider i = [] \<or> ai_subject i = []
                 then (s, Inl FederatedFieldsMissing)
                 else
                   (case check_federated U u1 (ac_users s) of
                      Inl e \<Rightarrow> (s, Inl e)
                    | Inr _ \<Rightarrow>
                        (case find_federated u1 i (ac_identities s) of
                           Inl e \<Rightarrow> (s, Inl e)
                         | Inr (Some x) \<Rightarrow>
                             (s, (case get_user (ai_user x) s of Inl e \<Rightarrow> Inl e | Inr u \<Rightarrow> Inr (u, x)))
                         | Inr None \<Rightarrow>
                             (let u2 = default_federated now u1; old = last_user (us_id u1) (ac_users s);
                                  u = (case old of None \<Rightarrow> u2 | Some v \<Rightarrow> v);
                                  j = federated_identity sha now (us_id u) i
                              in (s\<lparr>ac_users := (case old of None \<Rightarrow> ac_users s @ [u] | Some _ \<Rightarrow> ac_users s),
                                    ac_identities := ac_identities s @ [j]\<rparr>,
                                  Inr (u, j)))))))"

section \<open>The invariant\<close>

definition fold_symmetric :: "unicode \<Rightarrow> bool" where \<comment> \<open>\<^verbatim>\<open>strings.EqualFold\<close> does not care about the order\<close>
  "fold_symmetric U \<longleftrightarrow> (\<forall>s t. equal_fold U s t = equal_fold U t s)"

definition users_ok :: "unicode \<Rightarrow> user list \<Rightarrow> bool" where
  "users_ok U us \<longleftrightarrow>
     distinct (map us_id us) \<and>
     (\<forall>x \<in> set us. \<forall>y \<in> set us. us_id x \<noteq> us_id y \<longrightarrow> \<not> equal_fold U (us_email x) (us_email y))"

definition identities_ok :: "identity list \<Rightarrow> bool" where
  "identities_ok is \<longleftrightarrow> distinct (map external_key is) \<and> distinct (map link_key is)"

definition accounts_ok :: "unicode \<Rightarrow> account_store \<Rightarrow> bool" where
  "accounts_ok U s \<longleftrightarrow>
     users_ok U (ac_users s) \<and> identities_ok (ac_identities s) \<and> ai_user ` set (ac_identities s) \<subseteq> us_id ` set (ac_users s)"

definition owner_of_identity :: "account_store \<Rightarrow> string \<times> string \<times> string \<Rightarrow> string option" where
  "owner_of_identity s k = map_of (map (\<lambda>x. (external_key x, ai_user x)) (ac_identities s)) k"

definition account_result :: "unicode \<Rightarrow> account_store \<Rightarrow> account_store \<Rightarrow> bool" where
  "account_result U s t \<longleftrightarrow>
     accounts_ok U t \<and> (\<forall>k o'. owner_of_identity s k = Some o' \<longrightarrow> owner_of_identity t k = Some o') \<and>
     us_id ` set (ac_users s) \<subseteq> us_id ` set (ac_users t)"

lemma account_result_refl: "accounts_ok U s \<Longrightarrow> account_result U s s"
  by (simp add: account_result_def)

lemma account_result_trans: "account_result U s t \<Longrightarrow> account_result U t u \<Longrightarrow> account_result U s u"
  by (simp only: account_result_def) (meson subset_trans)

lemma find_link_Some:
  "find_link i n xs = Inr (Some m) \<Longrightarrow>
    \<exists>k < length xs. m = n + k \<and> link_key (xs ! k) = link_key i \<and> external_key (xs ! k) = external_key i"
proof (induction xs arbitrary: n)
  case (Cons x xs)
  show ?case
  proof (cases "link_key x = link_key i")
    case True
    then have "m = n" "external_key x = external_key i"
      using Cons.prems by (auto simp: external_key_def link_key_def split: if_split_asm)
    then show ?thesis using True by (intro exI [of _ 0]) simp
  next
    case False
    then have "find_link i (n + 1) xs = Inr (Some m)" using Cons.prems by (simp split: if_split_asm)
    from Cons.IH [OF this] obtain k where
      "k < length xs" "m = n + 1 + k" "link_key (xs ! k) = link_key i" "external_key (xs ! k) = external_key i" by blast
    then show ?thesis by (intro exI [of _ "Suc k"]) simp
  qed
qed simp

lemma find_link_None:
  "find_link i n xs = Inr None \<Longrightarrow> external_key i \<notin> external_key ` set xs \<and> link_key i \<notin> link_key ` set xs"
proof (induction xs arbitrary: n)
  case (Cons x xs)
  have l: "link_key x \<noteq> link_key i" and tail: "find_link i (n + 1) xs = Inr None"
    using Cons.prems by (simp_all split: if_split_asm)
  have "external_key x \<noteq> external_key i"
  proof
    assume e: "external_key x = external_key i"
    then have "ai_user x = ai_user i" using Cons.prems by (simp split: if_split_asm)
    then show False using e l by (simp add: external_key_def link_key_def)
  qed
  then show ?case using Cons.IH [OF tail] l by simp
qed simp

lemma identities_put:
  assumes "accounts_ok U s" "n < length (ac_identities s)" "external_key j = external_key (ac_identities s ! n)"
    and "ai_user j = ai_user (ac_identities s ! n)"
  shows "account_result U s (s\<lparr>ac_identities := (ac_identities s)[n := j]\<rparr>)"
proof -
  have "link_key j = link_key (ac_identities s ! n)" using assms(3,4) by (simp add: external_key_def link_key_def)
  then have m: "map f ((ac_identities s)[n := j]) = map f (ac_identities s)"
    if "f \<in> {external_key, link_key}" for f
    using that assms(2,3) by (auto simp: map_update list_update_same_conv)
  have o: "map (\<lambda>x. (external_key x, ai_user x)) ((ac_identities s)[n := j]) =
      map (\<lambda>x. (external_key x, ai_user x)) (ac_identities s)"
    "map ai_user ((ac_identities s)[n := j]) = map ai_user (ac_identities s)"
    using assms(2-4) by (simp_all add: map_update list_update_same_conv)
  then have u: "ai_user ` set ((ac_identities s)[n := j]) = ai_user ` set (ac_identities s)" by (metis list.set_map)
  show ?thesis
    using assms(1) m by (simp add: account_result_def accounts_ok_def identities_ok_def owner_of_identity_def o(1) u)
qed

lemma identities_add:
  assumes "accounts_ok U s" "external_key j \<notin> external_key ` set (ac_identities s)"
    and "link_key j \<notin> link_key ` set (ac_identities s)" "ai_user j \<in> us_id ` set (ac_users s)"
  shows "account_result U s (s\<lparr>ac_identities := ac_identities s @ [j]\<rparr>)"
proof -
  have "identities_ok (ac_identities s @ [j])" using assms(1-3) by (simp add: accounts_ok_def identities_ok_def)
  moreover have "owner_of_identity (s\<lparr>ac_identities := ac_identities s @ [j]\<rparr>) k = Some v"
    if "owner_of_identity s k = Some v" for k v
    using that by (simp add: owner_of_identity_def map_add_Some_iff)
  ultimately show ?thesis using assms(1,4) by (simp add: account_result_def accounts_ok_def)
qed

lemma get_user_Inr: "get_user i s = Inr u \<Longrightarrow> u \<in> set (ac_users s) \<and> us_id u = i"
  using first_some_Some by (fastforce simp: get_user_def split: option.split_asm)

lemma get_user_member: "get_user i s = Inr u \<Longrightarrow> i \<in> us_id ` set (ac_users s)"
  using get_user_Inr by blast

lemma save_identity_result:
  assumes "accounts_ok U s"
  shows "account_result U s (fst (save_identity U sha now i0 s))"
proof (cases "\<exists>e. save_identity U sha now i0 s = (s, Inl e)")
  case True
  then show ?thesis using account_result_refl [OF assms] by auto
next
  case False
  let ?p = "to_lower U (trim_space (ai_provider i0))"
  obtain issuer where issuer: "canonical_issuer U ?p (ai_issuer i0) = Inr issuer"
    using False by (cases "canonical_issuer U ?p (ai_issuer i0)") (auto simp: save_identity_def Let_def)
  define i where "i = i0\<lparr>ai_provider := ?p, ai_issuer := issuer, ai_subject := trim_space (ai_subject i0),
    ai_user := trim_space (ai_user i0)\<rparr>"
  have ne: "\<not> (ai_provider i = [] \<or> ai_subject i = [] \<or> ai_user i = [])"
    using False issuer by (auto simp: save_identity_def Let_def i_def)
  obtain u where u: "get_user (ai_user i) s = Inr u"
    using False issuer ne by (cases "get_user (ai_user i) s") (auto simp: save_identity_def Let_def i_def)
  obtain l where l: "find_link i 0 (ac_identities s) = Inr l"
    using False issuer ne u by (cases "find_link i 0 (ac_identities s)") (auto simp: save_identity_def Let_def i_def)
  show ?thesis
  proof (cases l)
    case None
    obtain j where j: "fst (save_identity U sha now i0 s) = s\<lparr>ac_identities := ac_identities s @ [j]\<rparr>"
      "external_key j = external_key i" "link_key j = link_key i" "ai_user j = ai_user i"
      using issuer ne u l None by (simp add: save_identity_def Let_def i_def external_key_def link_key_def)
    show ?thesis
      unfolding j(1)
      by (rule identities_add [OF assms]) (use find_link_None [OF l [unfolded None]] get_user_member [OF u] j(2-4) in auto)
  next
    case (Some n)
    obtain j where j: "fst (save_identity U sha now i0 s) = s\<lparr>ac_identities := (ac_identities s)[n := j]\<rparr>"
      "external_key j = external_key i" "ai_user j = ai_user i"
      using issuer ne u l Some by (simp add: save_identity_def Let_def i_def external_key_def)
    have n: "n < length (ac_identities s)" "link_key (ac_identities s ! n) = link_key i"
      "external_key (ac_identities s ! n) = external_key i"
      using find_link_Some [OF l [unfolded Some]] by auto
    show ?thesis
      unfolding j(1) by (rule identities_put [OF assms n(1)]) (use n j in \<open>simp_all add: link_key_def\<close>)
  qed
qed

lemma put_user_keeps:
  assumes "fold_symmetric U" "accounts_ok U s" "\<not> email_taken U u s" "put_user now u s = (v, t)"
  shows "account_result U s t \<and> us_id v \<in> us_id ` set (ac_users t)"
proof -
  have free: "\<not> equal_fold U (us_email x) (us_email u) \<and> \<not> equal_fold U (us_email u) (us_email x)"
    if "x \<in> set (ac_users s)" "us_id x \<noteq> us_id u" for x
  proof -
    have "\<not> equal_fold U (us_email x) (us_email u)" using assms(3) that by (auto simp: email_taken_def list_ex_iff)
    then show ?thesis using assms(1) by (simp add: fold_symmetric_def)
  qed
  have v: "us_id v = us_id u" "us_email v = us_email u" and t: "ac_identities t = ac_identities s"
    and us: "set (ac_users t) \<subseteq> insert v (set (ac_users s))" "distinct (map us_id (ac_users t))"
      "us_id ` set (ac_users t) = insert (us_id u) (us_id ` set (ac_users s))"
  proof -
    have d: "distinct (map us_id (ac_users s))" using assms(2) by (simp add: accounts_ok_def users_ok_def)
    have "us_id v = us_id u \<and> us_email v = us_email u \<and> ac_identities t = ac_identities s \<and>
      set (ac_users t) \<subseteq> insert v (set (ac_users s)) \<and> distinct (map us_id (ac_users t)) \<and>
      us_id ` set (ac_users t) = insert (us_id u) (us_id ` set (ac_users s))"
    proof (cases "index_of (\<lambda>x. us_id x = us_id u) (ac_users s)")
      case None
      then have "us_id u \<notin> us_id ` set (ac_users s)" by (auto simp: index_of_None)
      moreover have "ac_users t = ac_users s @ [v]" "us_id v = us_id u" "us_email v = us_email u" "ac_identities t = ac_identities s"
        using assms(4) None by (auto simp: put_user_def Let_def)
      ultimately show ?thesis using d by auto
    next
      case (Some n)
      then have n: "n < length (ac_users s)" "us_id (ac_users s ! n) = us_id u" by (simp_all add: index_of_Some)
      have t: "ac_users t = (ac_users s)[n := v]" "us_id v = us_id u" "us_email v = us_email u" "ac_identities t = ac_identities s"
        using assms(4) Some by (auto simp: put_user_def Let_def)
      have m: "map us_id (ac_users t) = map us_id (ac_users s)"
        using n t(2) by (simp add: t(1) map_update list_update_same_conv)
      then have "us_id ` set (ac_users t) = us_id ` set (ac_users s)" by (metis list.set_map)
      moreover have "us_id u \<in> us_id ` set (ac_users s)" using n by (metis image_eqI nth_mem)
      ultimately show ?thesis using t m d by (auto dest: set_update_subset_insert [THEN subsetD])
    qed
    then show "us_id v = us_id u" "us_email v = us_email u" "ac_identities t = ac_identities s"
      "set (ac_users t) \<subseteq> insert v (set (ac_users s))" "distinct (map us_id (ac_users t))"
      "us_id ` set (ac_users t) = insert (us_id u) (us_id ` set (ac_users s))" by simp_all
  qed
  have old: "\<not> equal_fold U (us_email x) (us_email y)"
    if "x \<in> set (ac_users s)" "y \<in> set (ac_users s)" "us_id x \<noteq> us_id y" for x y
    using assms(2) that by (simp add: accounts_ok_def users_ok_def)
  have "users_ok U (ac_users t)"
    unfolding users_ok_def
  proof (intro conjI ballI impI)
    show "distinct (map us_id (ac_users t))" by (rule us(2))
    fix x y
    assume xy: "x \<in> set (ac_users t)" "y \<in> set (ac_users t)" "us_id x \<noteq> us_id y"
    then have "x = v \<or> x \<in> set (ac_users s)" "y = v \<or> y \<in> set (ac_users s)" using us(1) by auto
    then show "\<not> equal_fold U (us_email x) (us_email y)"
      using old free v xy(3) by (elim disjE) simp_all
  qed
  then have "accounts_ok U t" using assms(2) us(3) t by (auto simp: accounts_ok_def)
  then show ?thesis using us(3) v(1) t by (auto simp: account_result_def owner_of_identity_def)
qed

lemma save_user_result:
  assumes "fold_symmetric U" "accounts_ok U s"
  shows "account_result U s (fst (save_user U sha ps clk u0 s))"
proof (cases "\<exists>e. save_user U sha ps clk u0 s = (s, Inl e)")
  case True
  then show ?thesis using account_result_refl [OF assms(2)] by auto
next
  case False
  let ?u = "default_user (clk 0) u0"
  obtain canonical where c: "for_each (check_project_role ps s) (us_project_roles ?u) [] = Inr canonical"
    using False by (cases "for_each (check_project_role ps s) (us_project_roles ?u) []")
      (auto simp: save_user_def Let_def split: if_split_asm)
  let ?v = "?u\<lparr>us_project_roles := canonical\<rparr>"
  have r: "role_exists (trim_space (us_role ?u)) s" using False by (auto simp: save_user_def Let_def split: if_split_asm)
  have e: "\<not> email_taken U ?v s" using False c r by (auto simp: save_user_def Let_def split: if_split_asm)
  obtain v t where v: "put_user (clk 0) ?v s = (v, t)" by fastforce
  have t: "account_result U s t" using put_user_keeps [OF assms e v] by simp
  then have ok: "accounts_ok U t" by (simp add: account_result_def)
  have "fst (save_user U sha ps clk u0 s) = t \<or>
    fst (save_user U sha ps clk u0 s) = fst (save_identity U sha (clk 1) (local_identity v) t)"
    using c r e v by (auto simp: save_user_def Let_def split: prod.split sum.split)
  then show ?thesis using t account_result_trans [OF t save_identity_result [OF ok]] by auto
qed

lemma touch_identity_result:
  assumes "accounts_ok U s"
  shows "account_result U s (fst (touch_identity now i s))"
proof (cases "index_of (\<lambda>x. ai_id x = i) (ac_identities s)")
  case None
  then show ?thesis by (simp add: touch_identity_def account_result_refl assms)
next
  case (Some n)
  then have n: "n < length (ac_identities s)" by (simp add: index_of_Some)
  show ?thesis
    using identities_put [OF assms n, of "(ac_identities s ! n)\<lparr>ai_authenticated := now, ai_updated := now\<rparr>"] Some
    by (simp add: touch_identity_def Let_def external_key_def)
qed

lemma check_federated_Inr:
  "check_federated U u us = Inr () \<Longrightarrow> x \<in> set us \<Longrightarrow> us_id x \<noteq> us_id u \<Longrightarrow> \<not> equal_fold U (us_email x) (us_email u)"
  by (induction us) (auto split: if_split_asm)

lemma find_federated_None:
  assumes "find_federated u i is = Inr None" "x \<in> set is"
  shows "external_key x \<noteq> external_key i \<and>
    (ai_user x = us_id u \<longrightarrow> (ai_provider x, ai_issuer x) \<noteq> (ai_provider i, ai_issuer i))"
  using assms
proof (induction "is")
  case (Cons y ys)
  have tail: "find_federated u i ys = Inr None" using Cons.prems(1) by (simp split: if_split_asm)
  have y: "external_key y \<noteq> external_key i" using Cons.prems(1) by (simp split: if_split_asm)
  have "ai_user y = us_id u \<longrightarrow> (ai_provider y, ai_issuer y) \<noteq> (ai_provider i, ai_issuer i)"
  proof (intro impI notI)
    assume a: "ai_user y = us_id u" "(ai_provider y, ai_issuer y) = (ai_provider i, ai_issuer i)"
    then have "ai_subject y = ai_subject i" using Cons.prems(1) by (simp split: if_split_asm)
    then show False using y a(2) by (simp add: external_key_def)
  qed
  then show ?case using y Cons.IH [OF tail] Cons.prems(2) by auto
qed simp

lemma last_user_None: "last_user i us = None \<longleftrightarrow> i \<notin> us_id ` set us"
proof -
  have "last_user i us = None \<longleftrightarrow> filter (\<lambda>u. us_id u = i) us = []"
    by (simp add: last_user_def split: list.split)
  then show ?thesis by (auto simp: filter_empty_conv)
qed

lemma last_user_Some: "last_user i us = Some v \<Longrightarrow> v \<in> set us \<and> us_id v = i"
proof -
  assume "last_user i us = Some v"
  then have "v = last (filter (\<lambda>u. us_id u = i) us)" "filter (\<lambda>u. us_id u = i) us \<noteq> []"
    by (auto simp: last_user_def split: list.split_asm if_split_asm)
  then have "v \<in> set (filter (\<lambda>u. us_id u = i) us)" using last_in_set by metis
  then show ?thesis by simp
qed

lemma users_add:
  assumes "fold_symmetric U" "accounts_ok U s" "us_id u \<notin> us_id ` set (ac_users s)"
    and "\<And>x. x \<in> set (ac_users s) \<Longrightarrow> \<not> equal_fold U (us_email x) (us_email u)"
  shows "account_result U s (s\<lparr>ac_users := ac_users s @ [u]\<rparr>)"
proof -
  have "\<not> equal_fold U (us_email u) (us_email x)" if "x \<in> set (ac_users s)" for x
    using assms(1) assms(4) [OF that] by (simp add: fold_symmetric_def)
  then show ?thesis
    using assms(2-4) by (auto simp: account_result_def accounts_ok_def users_ok_def owner_of_identity_def)
qed

lemma save_federated_result:
  assumes "fold_symmetric U" "accounts_ok U s"
  shows "account_result U s (fst (save_federated_user U sha now u0 i0 s))"
proof (cases "fst (save_federated_user U sha now u0 i0 s) = s")
  case True
  then show ?thesis using account_result_refl [OF assms(2)] by simp
next
  case False
  let ?p = "to_lower U (trim_space (ai_provider i0))"
  define u1 where "u1 = u0\<lparr>us_id := trim_space (us_id u0), us_email := trim_space (us_email u0)\<rparr>"
  obtain issuer where issuer: "canonical_issuer U ?p (ai_issuer i0) = Inr issuer"
    using False by (cases "canonical_issuer U ?p (ai_issuer i0)") (auto simp: save_federated_user_def Let_def)
  define i where "i = i0\<lparr>ai_provider := ?p, ai_issuer := issuer, ai_subject := trim_space (ai_subject i0)\<rparr>"
  have ne: "\<not> (us_id u1 = [] \<or> us_email u1 = [] \<or> ai_provider i = [] \<or> ai_subject i = [])"
    using False issuer by (auto simp: save_federated_user_def Let_def i_def u1_def)
  have c: "check_federated U u1 (ac_users s) = Inr ()"
    using False issuer ne
    by (cases "check_federated U u1 (ac_users s)") (auto simp: save_federated_user_def Let_def i_def u1_def)
  have f: "find_federated u1 i (ac_identities s) = Inr None"
    using False issuer ne c
    by (cases "find_federated u1 i (ac_identities s)")
      (auto simp: save_federated_user_def Let_def i_def u1_def split: option.split_asm)
  define old where "old = last_user (us_id u1) (ac_users s)"
  define u where "u = (case old of None \<Rightarrow> default_federated now u1 | Some v \<Rightarrow> v)"
  define j where "j = federated_identity sha now (us_id u) i"
  define t where "t = s\<lparr>ac_users := (case old of None \<Rightarrow> ac_users s @ [u] | Some _ \<Rightarrow> ac_users s)\<rparr>"
  have run: "fst (save_federated_user U sha now u0 i0 s) = t\<lparr>ac_identities := ac_identities t @ [j]\<rparr>"
    using issuer ne c f
    by (simp add: save_federated_user_def Let_def i_def [symmetric] u1_def [symmetric] old_def [symmetric]
        u_def [symmetric, unfolded option.case_eq_if] j_def [symmetric] t_def)
       (simp add: u_def j_def split: option.split)
  have uid: "us_id u = us_id u1" "us_id u \<in> us_id ` set (ac_users t)" and t: "account_result U s t"
  proof -
    have "us_id u = us_id u1 \<and> us_id u \<in> us_id ` set (ac_users t) \<and> account_result U s t"
    proof (cases old)
      case None
      have u: "us_id u = us_id u1" "us_email u = us_email u1" by (simp_all add: u_def None default_federated_def)
      have new: "us_id u \<notin> us_id ` set (ac_users s)" using None u(1) by (simp add: old_def last_user_None)
      have "account_result U s (s\<lparr>ac_users := ac_users s @ [u]\<rparr>)"
        using check_federated_Inr [OF c] new u
        by (intro users_add [OF assms new]) (metis image_eqI)
      then show ?thesis using u(1) by (simp add: t_def None)
    next
      case (Some v)
      then have v: "v \<in> set (ac_users s)" "us_id v = us_id u1" using last_user_Some by (simp_all add: old_def)
      have "us_id u1 \<in> us_id ` set (ac_users s)" using v by (metis image_eqI)
      then show ?thesis using account_result_refl [OF assms(2)] v(2) by (simp add: t_def u_def Some)
    qed
    then show "us_id u = us_id u1" "us_id u \<in> us_id ` set (ac_users t)" "account_result U s t" by blast+
  qed
  have keys: "external_key j = external_key i" "link_key j = (us_id u1, ai_provider i, ai_issuer i)" "ai_user j = us_id u"
    by (simp_all add: j_def federated_identity_def external_key_def link_key_def uid(1))
  have same: "ac_identities t = ac_identities s" by (simp add: t_def)
  have "account_result U t (t\<lparr>ac_identities := ac_identities t @ [j]\<rparr>)"
  proof (rule identities_add)
    show "accounts_ok U t" using t by (simp add: account_result_def)
    show "external_key j \<notin> external_key ` set (ac_identities t)"
      unfolding image_iff same keys(1) using find_federated_None [OF f] by metis
    show "link_key j \<notin> link_key ` set (ac_identities t)"
    proof
      assume "link_key j \<in> link_key ` set (ac_identities t)"
      then obtain x where "x \<in> set (ac_identities s)" "link_key x = (us_id u1, ai_provider i, ai_issuer i)"
        unfolding image_iff same keys(2) by metis
      then show False using find_federated_None [OF f] by (auto simp: link_key_def)
    qed
    show "ai_user j \<in> us_id ` set (ac_users t)" using uid(2) keys(3) by simp
  qed
  then show ?thesis unfolding run using account_result_trans [OF t] by blast
qed

section \<open>Runs\<close>

inductive account_step :: "unicode \<Rightarrow> (string \<Rightarrow> string) \<Rightarrow> account_store \<Rightarrow> account_store \<Rightarrow> bool" for U sha where
  user_saved: "account_step U sha s (fst (save_user U sha ps clk u s))"
| identity_saved: "account_step U sha s (fst (save_identity U sha now i s))"
| federated_saved: "account_step U sha s (fst (save_federated_user U sha now u i s))"
| identity_touched: "account_step U sha s (fst (touch_identity now k s))"
| user_disabled: "account_step U sha s (fst (set_user_disabled U sha ps clk k disabled s))"
| password_set: "account_step U sha s (fst (set_user_password U sha ps clk k hash s))"
| login_touched: "account_step U sha s (fst (touch_user_login U sha ps clk k s))"

lemma account_step_result:
  assumes "fold_symmetric U" "accounts_ok U s" "account_step U sha s t"
  shows "account_result U s t"
  using assms(3)
  by cases (auto simp: set_user_disabled_def set_user_password_def touch_user_login_def account_result_refl assms(2)
      save_identity_result [OF assms(2)] save_user_result [OF assms(1,2)] save_federated_result [OF assms(1,2)]
      touch_identity_result [OF assms(2)] split: sum.split)

interpretation identity_store:
  moving_store "account_step U sha" "\<lambda>s. fold_symmetric U \<and> accounts_ok U s" owner_of_identity "(=)" for U sha
  by unfold_locales (use account_step_result in \<open>auto simp: account_result_def\<close>)

definition accounts_reachable :: "unicode \<Rightarrow> (string \<Rightarrow> string) \<Rightarrow> account_store \<Rightarrow> bool" where
  "accounts_reachable U sha s \<longleftrightarrow> (\<exists>s0. accounts_ok U s0 \<and> (account_step U sha)\<^sup>*\<^sup>* s0 s)"

lemma accounts_reachable_ok: "fold_symmetric U \<Longrightarrow> accounts_reachable U sha s \<Longrightarrow> accounts_ok U s"
  unfolding accounts_reachable_def using identity_store.run_inv by blast


section \<open>Properties\<close>

text \<open>C14: Accounts stay unambiguous: whatever users and identities are saved, disabled, linked, touched or created by a
  federated login, two users never share an identifier, nor an e-mail up to letter case; one external identity
  (provider, issuer, subject) is linked once; a user has at most one identity per provider and issuer; and every
  identity belongs to a user that exists.\<close>

theorem accounts_unique:
  assumes "fold_symmetric U" "accounts_reachable U sha s"
  shows "distinct (map us_id (ac_users s)) \<and>
    (\<forall>x \<in> set (ac_users s). \<forall>y \<in> set (ac_users s). equal_fold U (us_email x) (us_email y) \<longrightarrow> us_id x = us_id y) \<and>
    distinct (map external_key (ac_identities s)) \<and> distinct (map link_key (ac_identities s)) \<and>
    (\<forall>x \<in> set (ac_identities s). \<exists>u. get_user (ai_user x) s = Inr u)"
proof (intro conjI)
  have ok: "accounts_ok U s" by (rule accounts_reachable_ok [OF assms])
  then show "distinct (map us_id (ac_users s))"
    "\<forall>x \<in> set (ac_users s). \<forall>y \<in> set (ac_users s). equal_fold U (us_email x) (us_email y) \<longrightarrow> us_id x = us_id y"
    "distinct (map external_key (ac_identities s))" "distinct (map link_key (ac_identities s))"
    by (auto simp: accounts_ok_def users_ok_def identities_ok_def)
  show "\<forall>x \<in> set (ac_identities s). \<exists>u. get_user (ai_user x) s = Inr u"
  proof
    fix x assume "x \<in> set (ac_identities s)"
    then have "ai_user x \<in> us_id ` set (ac_users s)" using ok by (auto simp: accounts_ok_def)
    then obtain v where v: "v \<in> set (ac_users s)" "us_id v = ai_user x" by (metis imageE)
    then have "first_some (\<lambda>u. us_id u = ai_user x) (ac_users s) \<noteq> None" by (auto simp: first_some_None)
    then show "\<exists>u. get_user (ai_user x) s = Inr u" by (auto simp: get_user_def)
  qed
qed

lemma owner_first:
  "owner_of_identity s k = (case first_some (\<lambda>x. external_key x = k) (ac_identities s) of None \<Rightarrow> None | Some x \<Rightarrow> Some (ai_user x))"
proof -
  have "map_of (map (\<lambda>x. (external_key x, ai_user x)) xs) k =
      (case first_some (\<lambda>x. external_key x = k) xs of None \<Rightarrow> None | Some x \<Rightarrow> Some (ai_user x))" for xs
    by (induction xs) auto
  then show ?thesis by (simp add: owner_of_identity_def)
qed

text \<open>C15: An external login belongs to one account for good: once a provider, issuer and subject resolve to an
  identity, they resolve to an identity of the same user after every later operation, so no saved identity and no
  federated login can move somebody's login to another account.\<close>

theorem identity_owner_permanent:
  assumes "fold_symmetric U" "accounts_reachable U sha s" "identity_by_issuer U provider issuer subject s = Inr x"
    and "(account_step U sha)\<^sup>*\<^sup>* s t"
  shows "\<exists>y. identity_by_issuer U provider issuer subject t = Inr y \<and> ai_user y = ai_user x"
proof -
  let ?p = "to_lower U (trim_space provider)"
  obtain c where c: "canonical_issuer U ?p issuer = Inr c"
    using assms(3) by (cases "canonical_issuer U ?p issuer") (auto simp: identity_by_issuer_def)
  let ?k = "(?p, c, trim_space subject)"
  have "owner_of_identity s ?k = Some (ai_user x)"
    using assms(3) c by (auto simp: identity_by_issuer_def owner_first split: option.split_asm)
  moreover have "fold_symmetric U \<and> accounts_ok U s" using assms(1) accounts_reachable_ok [OF assms(1,2)] by simp
  ultimately have "owner_of_identity t ?k = Some (ai_user x)"
    using identity_store.run_final [OF assms(4)] by metis
  then obtain y where "first_some (\<lambda>x. external_key x = ?k) (ac_identities t) = Some y" "ai_user y = ai_user x"
    by (auto simp: owner_first split: option.split_asm)
  then show ?thesis using c by (simp add: identity_by_issuer_def)
qed

definition user_sample :: user where
  "user_sample = \<lparr>us_id = ''admin'', us_email = ''admin@launcher.local'', us_name = ''A'', us_role = ''owner'', us_status = ''active'',
     us_project_roles = [], us_password = [], us_password_at = 1, us_login_at = 0, us_disabled_at = 0, us_created = 1,
     us_updated = 1\<rparr>"

definition accounts_sample :: account_store where
  "accounts_sample = \<lparr>ac_users = [user_sample], ac_roles = [\<lparr>ro_id = ''player'', ro_name = [], ro_description = [], ro_permissions = []\<rparr>],
     ac_identities = [no_identity\<lparr>ai_id := ''identity-local-admin'', ai_user := ''admin'', ai_provider := ''local'',
       ai_issuer := ''launcher'', ai_subject := ''admin''\<rparr>]\<rparr>"

definition login_sample :: identity where
  "login_sample = no_identity\<lparr>ai_provider := '' OIDC'', ai_issuer := ''https://id'', ai_subject := ''7''\<rparr>"

definition federated_sample :: account_store where
  "federated_sample =
     fst (save_federated_user ascii_only id 5 (user_sample\<lparr>us_id := ''u7'', us_email := ''Eve@x'', us_role := []\<rparr>) login_sample accounts_sample)"

lemma ascii_fold_symmetric: "fold_symmetric ascii_only"
  by (auto simp: fold_symmetric_def equal_fold_def ascii_only_def)

lemma federated_sample_reachable:
  "accounts_reachable ascii_only id accounts_sample" "account_step ascii_only id accounts_sample federated_sample"
  "accounts_reachable ascii_only id federated_sample"
proof -
  have ok: "accounts_ok ascii_only accounts_sample"
    by (simp add: accounts_ok_def users_ok_def identities_ok_def accounts_sample_def user_sample_def external_key_def link_key_def)
  then show "accounts_reachable ascii_only id accounts_sample" by (auto simp: accounts_reachable_def)
  show step: "account_step ascii_only id accounts_sample federated_sample"
    unfolding federated_sample_def by (rule federated_saved)
  show "accounts_reachable ascii_only id federated_sample"
    unfolding accounts_reachable_def using ok step by blast
qed

theorem accounts_unique_witness:
  "map us_id (ac_users federated_sample) = [''admin'', ''u7''] \<and> distinct (map us_id (ac_users federated_sample))"
proof -
  have "map us_id (ac_users federated_sample) = [''admin'', ''u7'']" by code_simp
  then show ?thesis using conjunct1 [OF accounts_unique [OF ascii_fold_symmetric federated_sample_reachable(3)]] by blast
qed

theorem identity_owner_permanent_witness:
  "\<exists>y. identity_by_issuer ascii_only ''local'' [] '' admin'' federated_sample = Inr y \<and> ai_user y = ''admin''"
proof -
  have "(case identity_by_issuer ascii_only ''local'' [] '' admin'' accounts_sample of Inr x \<Rightarrow> Some (ai_user x) | _ \<Rightarrow> None)
      = Some ''admin''" by code_simp
  then obtain x where x: "identity_by_issuer ascii_only ''local'' [] '' admin'' accounts_sample = Inr x" "ai_user x = ''admin''"
    by (cases "identity_by_issuer ascii_only ''local'' [] '' admin'' accounts_sample") auto
  from identity_owner_permanent [OF ascii_fold_symmetric federated_sample_reachable(1) x(1)
      r_into_rtranclp [where r = "account_step ascii_only id", OF federated_sample_reachable(2)]] x(2)
  show ?thesis by simp
qed

end
