(* ===== verification/Authorization.thy ===== *)
theory Authorization
  imports Accounts "HOL-Library.Multiset"
begin

text \<open>
  The authorisation service (\<^verbatim>\<open>authorization/service.go\<close>, \<^verbatim>\<open>authorization/control_domains.go\<close>) on the users and
  roles of the memory repository: the closed table of game commands, the actions of a project, the decision for an
  actor, action, scope and resource, and the policy revision reported with it.
\<close>

section \<open>Actions and their domains\<close>

datatype control_domain = DomainGame | DomainBackend | DomainHost

abbreviation game_broadcast :: string where "game_broadcast \<equiv> ''gameserver:broadcast''"
abbreviation game_moderate :: string where "game_moderate \<equiv> ''gameserver:moderate''"
abbreviation game_save :: string where "game_save \<equiv> ''gameserver:save''"
abbreviation game_traffic :: string where "game_traffic \<equiv> ''gameserver:traffic''"
abbreviation game_shutdown :: string where "game_shutdown \<equiv> ''gameserver:shutdown''"
abbreviation game_console :: string where "game_console \<equiv> ''gameserver:console''"
abbreviation backend_control :: string where "backend_control \<equiv> ''backend:control''"
abbreviation host_process :: string where "host_process \<equiv> ''host:process''"
abbreviation host_exec :: string where "host_exec \<equiv> ''host:exec''"

abbreviation game_actions :: "string list" where
  "game_actions \<equiv> [game_broadcast, game_moderate, game_save, game_traffic, game_shutdown, game_console]"

definition game_command_permission :: "string \<Rightarrow> string option" where
  "game_command_permission kind =
     (if kind = ''message.broadcast'' then Some game_broadcast
      else if kind \<in> set [''player.kick'', ''ban.add'', ''ban.remove'', ''whitelist.add'', ''whitelist.remove'',
                          ''whitelist.enable'', ''whitelist.disable''] then Some game_moderate
      else if kind = ''server.save'' then Some game_save
      else if kind \<in> set [''server.maintenance'', ''server.drain''] then Some game_traffic
      else if kind = ''server.shutdown'' then Some game_shutdown
      else if kind = ''server.console'' then Some game_console
      else None)"

definition is_control_action :: "string \<Rightarrow> bool" where
  "is_control_action action \<longleftrightarrow> action \<in> set (game_actions @ [backend_control, host_process, host_exec])"

definition control_action_domain :: "string \<Rightarrow> control_domain option" where
  "control_action_domain action =
     (if action \<in> set game_actions then Some DomainGame
      else if action = backend_control then Some DomainBackend
      else if action \<in> set [host_process, host_exec] then Some DomainHost
      else None)"

definition project_action_catalog :: "string list" where
  "project_action_catalog =
     [''project:read'', ''project:write'', ''release:prepare'', ''release:publish'', ''file:write'', ''audit:read'',
      ''diagnostics:read'', ''serverbridge:control'', ''serverbridge:console''] @ game_actions @
     [''profile:download'', ''profile:launch'']"

definition component_byte :: "char \<Rightarrow> bool" where
  "component_byte c \<longleftrightarrow> is_lower c \<or> is_digit c \<or> c \<in> {CHR ''.'', CHR ''_'', CHR ''-'', CHR '':''}"

definition is_component_action :: "string \<Rightarrow> bool" where
  "is_component_action action \<longleftrightarrow>
     length ''component.'' < length action \<and> length action \<le> 128 \<and> has_prefix ''component.'' action \<and>
     list_all component_byte (drop (length ''component.'') action) \<and>
     \<not> contains_str action ''..'' \<and> \<not> contains_str action ''::''"

definition is_project_action :: "string \<Rightarrow> bool" where
  "is_project_action action \<longleftrightarrow>
     is_component_action action \<or> list_ex (\<lambda>allowed. trim_space action = allowed) project_action_catalog"

section \<open>Decisions\<close>

record actor =
  at_kind :: string
  at_id :: string

record scope =
  so_kind :: string
  so_project :: string

record resource =
  re_kind :: string
  re_id :: string
  re_project :: string

record decision =
  dc_allowed :: bool
  dc_reason :: string
  dc_role :: string
  dc_scope :: string
  dc_project :: string
  dc_revision :: string

abbreviation actor_user :: string where "actor_user \<equiv> ''user''"
abbreviation scope_global :: string where "scope_global \<equiv> ''global''"
abbreviation scope_project :: string where "scope_project \<equiv> ''project''"

definition list_roles :: "account_store \<Rightarrow> role list" where
  \<comment> \<open>role identifiers are unique, so any sort by them gives this list\<close>
  "list_roles s = sort_key ro_id (ac_roles s)"

definition role_index :: "role list \<Rightarrow> string \<Rightarrow> role option" where
  "role_index rs =
     fold (\<lambda>r m. let i = trim_space (ro_id r) in if i \<noteq> [] then m(i \<mapsto> r\<lparr>ro_id := i\<rparr>) else m) rs (\<lambda>_. None)"

definition role_allows :: "role option \<Rightarrow> string \<Rightarrow> bool" where
  "role_allows r action =
     (case r of
        None \<Rightarrow> False
      | Some x \<Rightarrow> list_ex (\<lambda>p. trim_space p = ''*'' \<or> trim_space p = action) (ro_permissions x))"

fun sink :: "string \<Rightarrow> string list \<Rightarrow> string list" where
  \<comment> \<open>the inner loop of the insertion sort, on the sorted prefix from its end\<close>
  "sink k [] = [k]"
| "sink k (x # xs) = (if k < x then x # sink k xs else k # x # xs)"

definition insertion_sort :: "string list \<Rightarrow> string list" where
  "insertion_sort ks = rev (fold sink ks [])"

definition role_of_project :: "user \<Rightarrow> string \<Rightarrow> string" where
  "role_of_project u project = (case map_of (us_project_roles u) project of None \<Rightarrow> [] | Some r \<Rightarrow> r)"

definition policy_text :: "user \<Rightarrow> (string \<Rightarrow> role option) \<Rightarrow> string" where
  "policy_text u roles =
     (let nul = CHR 0x00;
          permissions = (case roles (us_role u) of None \<Rightarrow> [] | Some r \<Rightarrow> ro_permissions r);
          keys = insertion_sort (filter (\<lambda>k. k \<noteq> ''*'') (map fst (us_project_roles u)))
      in trim_space (us_id u) @ nul # trim_space (us_role u) @
         concat (map (\<lambda>p. nul # trim_space p) permissions) @
         concat (map (\<lambda>k. nul # k @ nul # role_of_project u k) keys))"

definition policy_revision :: "(string \<Rightarrow> string) \<Rightarrow> user \<Rightarrow> (string \<Rightarrow> role option) \<Rightarrow> string" where
  "policy_revision sha u roles = take 16 (sha (policy_text u roles))"

definition deny :: "string \<Rightarrow> decision \<Rightarrow> decision" where
  "deny reason d = d\<lparr>dc_reason := reason\<rparr>"

definition allow :: "string \<Rightarrow> string \<Rightarrow> decision \<Rightarrow> decision" where
  "allow reason r d = d\<lparr>dc_allowed := True, dc_reason := reason, dc_role := r\<rparr>"

definition check_scope :: "scope \<Rightarrow> resource \<Rightarrow> string option" where
  "check_scope sc res =
     (let project = trim_space (so_project sc); owner = trim_space (re_project res)
      in if so_kind sc = scope_project then
           (if project = [] then Some ''project-scope-required''
            else if owner \<noteq> [] \<and> owner \<noteq> project then Some ''resource-scope-mismatch''
            else None)
         else if so_kind sc \<noteq> scope_global then Some ''invalid-scope''
         else None)"

definition decide :: "(string \<Rightarrow> role option) \<Rightarrow> user \<Rightarrow> string \<Rightarrow> scope \<Rightarrow> decision \<Rightarrow> decision" where
  \<comment> \<open>the decision for an active user\<close>
  "decide roles u action sc d =
     (let project = trim_space (so_project sc)
      in if (case control_action_domain action of None \<Rightarrow> False | Some x \<Rightarrow> x \<noteq> DomainGame) \<and> so_kind sc \<noteq> scope_global
         then deny ''instance-scope-required'' d
         else if role_allows (roles (us_role u)) action then allow ''global-role'' (us_role u) d
         else if so_kind sc \<noteq> scope_project \<or> project = [] then deny ''global-role-required'' d
         else if \<not> is_project_action action then deny ''global-action-required'' d
         else
           (let r = trim_space (role_of_project u project)
            in if r = [] then deny ''project-membership-required'' d
               else if role_allows (roles r) action then allow ''project-role'' r d
               else (deny ''project-role-insufficient'' d)\<lparr>dc_role := r\<rparr>))"

definition authorize ::
    "unicode \<Rightarrow> (string \<Rightarrow> string) \<Rightarrow> account_store option \<Rightarrow> actor \<Rightarrow> string \<Rightarrow> scope \<Rightarrow> resource \<Rightarrow> decision" where
  \<comment> \<open>\<open>None\<close>: no service or no repository\<close>
  "authorize U sha repo a action0 sc res =
     (let action = trim_space action0;
          d = \<lparr>dc_allowed = False, dc_reason = ''deny'', dc_role = [], dc_scope = so_kind sc,
               dc_project = trim_space (so_project sc), dc_revision = []\<rparr>
      in case check_scope sc res of
           Some reason \<Rightarrow> deny reason d
         | None \<Rightarrow>
             (case repo of
                None \<Rightarrow> deny ''invalid-request'' d
              | Some s \<Rightarrow>
                  if at_kind a \<noteq> actor_user \<or> trim_space (at_id a) = [] \<or> action = [] then deny ''invalid-request'' d
                  else
                    (case get_user (trim_space (at_id a)) s of
                       Inl _ \<Rightarrow> deny ''actor-not-found'' d
                     | Inr u \<Rightarrow>
                         if \<not> equal_fold U (trim_space (us_status u)) ''active'' then deny ''actor-inactive'' d
                         else
                           (let roles = role_index (list_roles s)
                            in decide roles u action sc (d\<lparr>dc_revision := policy_revision sha u roles\<rparr>)))))"


section \<open>Lemmas\<close>

lemma sink_mset: "mset (sink k xs) = add_mset k (mset xs)"
  by (induction xs) auto

lemma sink_sorted: "sorted_wrt (\<ge>) xs \<Longrightarrow> sorted_wrt (\<ge>) (sink k xs)"
proof (induction xs)
  case (Cons x xs)
  have "set (sink k xs) = insert k (set xs)" using sink_mset [of k xs] by (metis set_mset_add_mset_insert set_mset_mset)
  then show ?case using Cons by (auto simp: not_less)
qed simp

lemma insertion_sort_sorts: "insertion_sort ks = sort ks"
proof -
  have f: "mset (fold sink ks xs) = mset ks + mset xs \<and> (sorted_wrt (\<ge>) xs \<longrightarrow> sorted_wrt (\<ge>) (fold sink ks xs))" for xs
    by (induction ks arbitrary: xs) (auto simp: sink_mset sink_sorted)
  have "sorted (rev (fold sink ks []))" using f [of "[]"] by (simp add: sorted_wrt_rev)
  moreover have "mset (rev (fold sink ks [])) = mset ks" using f [of "[]"] by simp
  ultimately show ?thesis unfolding insertion_sort_def using properties_for_sort by metis
qed

lemma role_index_empty: "role_index rs [] = None"
proof -
  have "fold (\<lambda>r m. let i = trim_space (ro_id r) in if i \<noteq> [] then m(i \<mapsto> r\<lparr>ro_id := i\<rparr>) else m) rs m [] = m []" for m
    by (induction rs arbitrary: m) (auto simp: Let_def)
  then show ?thesis by (simp add: role_index_def)
qed

lemma role_allows_iff:
  "role_allows r action \<longleftrightarrow> (\<exists>x p. r = Some x \<and> p \<in> set (ro_permissions x) \<and> trim_space p \<in> {''*'', action})"
  by (auto simp: role_allows_def list_ex_iff split: option.split)



section \<open>Properties\<close>


text \<open>Rights in one project do not depend on any other: two states in which the actor has the same status, global
  role and role in the project of the request, with the same roles, give the same decision, whatever memberships the
  actor holds elsewhere (only the reported policy revision may differ).\<close>

lemma other_projects_irrelevant:
  assumes "get_user (trim_space (at_id a)) s = Inr u" "get_user (trim_space (at_id a)) t = Inr v" "ac_roles t = ac_roles s"
    and "us_status v = us_status u" "us_role v = us_role u"
    and "role_of_project v (trim_space (so_project sc)) = role_of_project u (trim_space (so_project sc))"
  shows "(authorize U sha (Some t) a action sc res)\<lparr>dc_revision := []\<rparr> = (authorize U sha (Some s) a action sc res)\<lparr>dc_revision := []\<rparr>"
proof -
  have "list_roles t = list_roles s" using assms(3) by (simp add: list_roles_def)
  then show ?thesis
    using assms
    by (simp add: authorize_def Let_def decide_def deny_def allow_def split: option.split)
qed

text \<open>The policy revision is a function of the policy, not of how Go happened to iterate the map of project
  roles: any two orders of the same memberships are hashed to the same revision.\<close>

lemma policy_revision_canonical:
  assumes "distinct (map fst prs)" "distinct (map fst prs')" "set prs = set prs'"
  shows "policy_revision sha (u\<lparr>us_project_roles := prs\<rparr>) roles = policy_revision sha (u\<lparr>us_project_roles := prs'\<rparr>) roles"
proof -
  have "map_of prs = map_of prs'" using assms map_of_inject_set by blast
  moreover have "mset (map fst prs) = mset (map fst prs')"
    using assms by (metis set_eq_iff_mset_eq_distinct set_map)
  then have "mset (filter (\<lambda>k. k \<noteq> ''*'') (map fst prs)) = mset (filter (\<lambda>k. k \<noteq> ''*'') (map fst prs'))"
    by (simp only: mset_filter)
  then have "sort (filter (\<lambda>k. k \<noteq> ''*'') (map fst prs)) = sort (filter (\<lambda>k. k \<noteq> ''*'') (map fst prs'))"
    by (metis properties_for_sort mset_sort sorted_sort)
  ultimately show ?thesis
    by (simp add: policy_revision_def policy_text_def insertion_sort_sorts role_of_project_def Let_def)
qed

text \<open>The closed table gives every known game command an action of the game domain that a project role may hold.\<close>

lemma game_commands_in_domain:
  "game_command_permission kind = Some action \<Longrightarrow>
   control_action_domain action = Some DomainGame \<and> is_project_action action \<and> is_control_action action"
proof -
  assume "game_command_permission kind = Some action"
  then have a: "action \<in> set game_actions" unfolding game_command_permission_def by (simp split: if_split_asm)
  have "list_all (\<lambda>a. control_action_domain a = Some DomainGame \<and> is_project_action a \<and> is_control_action a) game_actions"
    by code_simp
  then show ?thesis unfolding list_all_iff by (rule bspec) (rule a)
qed

text \<open>The revision covers the permissions of the global role only: those of the roles held in projects can change under it.\<close>

lemma revision_misses_project_permissions:
  "r \<noteq> us_role u \<Longrightarrow> policy_revision sha u (roles(r := x)) = policy_revision sha u roles"
  by (simp add: policy_revision_def policy_text_def)

section \<open>Witnesses\<close>

definition policy_sample :: account_store where
  "policy_sample = accounts_sample
     \<lparr>ac_users := [user_sample\<lparr>us_id := ''u'', us_role := ''player'', us_project_roles := [(''alpha'', ''caster''), (''*'', ''caster'')]\<rparr>],
      ac_roles := [\<lparr>ro_id = ''player'', ro_name = [], ro_description = [], ro_permissions = [''launcher:login'']\<rparr>,
                   \<lparr>ro_id = ''caster'', ro_name = [], ro_description = [], ro_permissions = [game_broadcast]\<rparr>]\<rparr>"

abbreviation ask :: "string \<Rightarrow> string \<Rightarrow> string \<Rightarrow> account_store \<Rightarrow> decision" where
  "ask kind project action s \<equiv>
     authorize ascii_only id (Some s) \<lparr>at_kind = ''user'', at_id = ''u''\<rparr> action \<lparr>so_kind = kind, so_project = project\<rparr>
       \<lparr>re_kind = ''server'', re_id = ''g'', re_project = project\<rparr>"


text \<open>A wildcard membership is honoured when the request itself names the project \<open>''*''\<close>.\<close>

lemma wildcard_membership_honoured: "dc_allowed (ask ''project'' ''*'' game_broadcast policy_sample)"
  by code_simp

end
