(* ===== verification/GameStore.thy ===== *)
theory GameStore
  imports Accounts
begin

text \<open>
  Game profiles, game sessions and join tickets of \<^verbatim>\<open>MemoryRepository\<close> (\<^verbatim>\<open>repository/memory.go\<close>), and how a user
  gets a game profile (\<^verbatim>\<open>httpapi/minecraft_auth_119.go\<close>): a name of the user, or one derived from it, that nobody
  else has.
\<close>

section \<open>Data\<close>

record game_profile =
  gp_user :: string
  gp_uuid :: string
  gp_name :: string
  gp_issuer :: string
  gp_realm :: string
  gp_subject :: string
  gp_identity_version :: string
  gp_created :: time
  gp_updated :: time

record game_session =
  gn_id :: string
  gn_user :: string
  gn_parent :: string
  gn_profile :: string
  gn_device :: string
  gn_epoch :: int
  gn_client :: string
  gn_hash :: string
  gn_verified :: bool
  gn_attestation :: string
  gn_evidence :: string
  gn_guard :: string
  gn_launcher :: string
  gn_launcher_version :: string
  gn_verified_at :: time
  gn_status :: string
  gn_created :: time
  gn_seen :: time
  gn_expires :: time
  gn_revoked :: time
  gn_reason :: string

record join_ticket =
  jn_username :: string
  jn_normalized :: string
  jn_profile :: string
  jn_user :: string
  jn_session :: string
  jn_server :: string
  jn_ip :: string
  jn_version :: int
  jn_status :: string
  jn_created :: time
  jn_expires :: time
  jn_consumed :: time

record game_store =
  gm_profiles :: "game_profile list"
  gm_sessions :: "game_session list"
  gm_joins :: "join_ticket list"

datatype game_error = GameNotFound | GameConflict | GameFieldsMissing | GameAccount account_error | NoFreeName | TextureFailed

type_synonym 'a game_outcome = "game_store \<times> (game_error + 'a)"

abbreviation active :: string where "active \<equiv> ''active''"

definition found :: "'a option \<Rightarrow> game_error + 'a" where
  "found x = (case x of None \<Rightarrow> Inl GameNotFound | Some y \<Rightarrow> Inr y)"

section \<open>Game profiles\<close>

definition profile_by_user :: "string \<Rightarrow> game_store \<Rightarrow> game_error + game_profile" where
  "profile_by_user u s = found (first_some (\<lambda>p. gp_user p = trim_space u) (gm_profiles s))"

definition profile_by_uuid :: "unicode \<Rightarrow> string \<Rightarrow> game_store \<Rightarrow> game_error + game_profile" where
  "profile_by_uuid U uuid s =
     found (first_some (\<lambda>p. equal_fold U (gp_uuid p) (to_lower U (trim_space uuid))) (gm_profiles s))"

definition profile_by_name :: "unicode \<Rightarrow> string \<Rightarrow> game_store \<Rightarrow> game_error + game_profile" where
  "profile_by_name U name s =
     found (first_some (\<lambda>p. to_lower U (gp_name p) = to_lower U (trim_space name)) (gm_profiles s))"

definition if_empty :: "string \<Rightarrow> string \<Rightarrow> string" where
  "if_empty d x = (if x = [] then d else x)"

definition canonical_profile :: "unicode \<Rightarrow> game_profile \<Rightarrow> game_profile" where
  "canonical_profile U p =
     (let uuid = to_lower U (trim_space (gp_uuid p))
      in p\<lparr>gp_user := trim_space (gp_user p), gp_uuid := uuid, gp_name := trim_space (gp_name p),
           gp_issuer := if_empty ''launcher'' (to_lower U (trim_space (gp_issuer p))),
           gp_realm := if_empty ''local'' (to_lower U (trim_space (gp_realm p))),
           gp_subject := if_empty uuid (trim_space (gp_subject p)),
           gp_identity_version := if_empty ''independent-v1'' (trim_space (gp_identity_version p))\<rparr>)"

definition same_game_profile :: "unicode \<Rightarrow> game_profile \<Rightarrow> game_profile \<Rightarrow> bool" where
  "same_game_profile U p x \<longleftrightarrow>
     gp_user x = gp_user p \<or> equal_fold U (gp_uuid x) (gp_uuid p) \<or> equal_fold U (gp_name x) (gp_name p)"

definition stamped_profile :: "time \<Rightarrow> game_profile \<Rightarrow> game_profile" where
  "stamped_profile now p = p\<lparr>gp_created := (if gp_created p = 0 then now else gp_created p), gp_updated := now\<rparr>"

definition put_game_profile :: "unicode \<Rightarrow> game_profile \<Rightarrow> game_store \<Rightarrow> game_profile game_outcome" where
  \<comment> \<open>the loop of \<^verbatim>\<open>SaveMinecraftProfile\<close>: the first profile with the same user, UUID or name decides\<close>
  "put_game_profile U p s =
     (case index_of (same_game_profile U p) (gm_profiles s) of
        None \<Rightarrow> (s\<lparr>gm_profiles := gm_profiles s @ [p]\<rparr>, Inr p)
      | Some n \<Rightarrow>
          (let x = gm_profiles s ! n
           in if gp_user x \<noteq> gp_user p \<or> \<not> equal_fold U (gp_uuid x) (gp_uuid p) \<or>
                 gp_issuer x \<noteq> gp_issuer p \<or> gp_realm x \<noteq> gp_realm p \<or> gp_subject x \<noteq> gp_subject p
              then (s, Inl GameConflict)
              else
                (let q = p\<lparr>gp_created := gp_created x\<rparr>
                 in (s\<lparr>gm_profiles := (gm_profiles s)[n := q]\<rparr>, Inr q))))"

definition save_game_profile ::
    "unicode \<Rightarrow> account_store \<Rightarrow> time \<Rightarrow> game_profile \<Rightarrow> game_store \<Rightarrow> game_profile game_outcome" where
  "save_game_profile U acc now p0 s =
     (let p = canonical_profile U p0
      in if gp_user p = [] \<or> gp_uuid p = [] \<or> gp_name p = [] then (s, Inl GameFieldsMissing)
         else
           (case get_user (gp_user p) acc of
              Inl e \<Rightarrow> (s, Inl (GameAccount e))
            | Inr _ \<Rightarrow> put_game_profile U (stamped_profile now p) s))"

section \<open>Choosing a name\<close>

definition name_byte :: "char \<Rightarrow> bool" where
  "name_byte c \<longleftrightarrow> is_lower c \<or> is_upper c \<or> is_digit c \<or> c = CHR ''_''"

definition name_part :: "string \<Rightarrow> string" where
  "name_part raw = take 16 (filter name_byte raw)"

definition game_name :: "user \<Rightarrow> string" where
  "game_name u =
     (case first_some (\<lambda>v. 3 \<le> length v)
         (map name_part [us_name u, fst (cut_char (CHR ''@'') (us_email u)), us_id u]) of
        None \<Rightarrow> ''NL_Player''
      | Some v \<Rightarrow> v)"

definition name_try :: "(string \<Rightarrow> string) \<Rightarrow> user \<Rightarrow> nat \<Rightarrow> string" where
  \<comment> \<open>\<open>sha\<close> gives the 64 hexadecimal digits that \<^verbatim>\<open>%x\<close> prints\<close>
  "name_try sha u i =
     (let base = game_name u
      in if i = 0 then base
         else
           (let suffix = take 5 (CHR ''_'' # sha (us_id u @ show_int (int i)));
                cut = max 3 (16 - length suffix)
            in (if cut < length base then take cut base else base) @ suffix))"

definition name_of_other :: "unicode \<Rightarrow> string \<Rightarrow> string \<Rightarrow> game_store \<Rightarrow> bool" where
  "name_of_other U user name s =
     (case profile_by_name U name s of Inl _ \<Rightarrow> False | Inr x \<Rightarrow> gp_user x \<noteq> user)"

definition new_game_profile :: "string \<Rightarrow> string \<Rightarrow> string \<Rightarrow> game_profile" where
  "new_game_profile user uuid name =
     \<lparr>gp_user = user, gp_uuid = uuid, gp_name = name, gp_issuer = ''launcher'', gp_realm = ''local'', gp_subject = uuid,
      gp_identity_version = ''independent-v1'', gp_created = 0, gp_updated = 0\<rparr>"

definition synced :: "(game_profile \<Rightarrow> bool) \<Rightarrow> game_profile \<Rightarrow> game_error + game_profile" where
  "synced sync p = (if sync p then Inr p else Inl TextureFailed)"

fun ensure_named ::
    "unicode \<Rightarrow> (string \<Rightarrow> string) \<Rightarrow> (game_profile \<Rightarrow> bool) \<Rightarrow> account_store \<Rightarrow> (nat \<Rightarrow> time) \<Rightarrow> (nat \<Rightarrow> string) \<Rightarrow>
     user \<Rightarrow> nat list \<Rightarrow> game_store \<Rightarrow> game_profile game_outcome" where
  "ensure_named U sha sync acc clk uuid u [] s = (s, Inl NoFreeName)"
| "ensure_named U sha sync acc clk uuid u (i # is) s =
     (let name = name_try sha u i
      in if name_of_other U (us_id u) name s then ensure_named U sha sync acc clk uuid u is s
         else
           (case save_game_profile U acc (clk i) (new_game_profile (us_id u) (uuid i) name) s of
              (t, Inr p) \<Rightarrow> (t, synced sync p)
            | (t, Inl e) \<Rightarrow>
                (case profile_by_user (us_id u) t of
                   Inr p \<Rightarrow> (t, synced sync p)
                 | Inl _ \<Rightarrow>
                     if name_of_other U (us_id u) name t then ensure_named U sha sync acc clk uuid u is t
                     else (t, Inl e))))"

definition ensure_game_profile ::
    "unicode \<Rightarrow> (string \<Rightarrow> string) \<Rightarrow> (game_profile \<Rightarrow> bool) \<Rightarrow> account_store \<Rightarrow> (nat \<Rightarrow> time) \<Rightarrow> (nat \<Rightarrow> string) \<Rightarrow>
     user \<Rightarrow> game_store \<Rightarrow> game_profile game_outcome" where
  "ensure_game_profile U sha sync acc clk uuid u s =
     (case profile_by_user (us_id u) s of
        Inr p \<Rightarrow> (s, synced sync p)
      | Inl _ \<Rightarrow> ensure_named U sha sync acc clk uuid u [0..<100] s)"

section \<open>Game sessions\<close>

definition canonical_session :: "unicode \<Rightarrow> time \<Rightarrow> game_session \<Rightarrow> game_session" where
  "canonical_session U now x =
     x\<lparr>gn_id := trim_space (gn_id x), gn_user := trim_space (gn_user x), gn_parent := trim_space (gn_parent x),
       gn_profile := to_lower U (trim_space (gn_profile x)), gn_device := trim_space (gn_device x),
       gn_epoch := (if gn_epoch x < 1 then 1 else gn_epoch x), gn_hash := trim_space (gn_hash x),
       gn_created := (if gn_created x = 0 then now else gn_created x),
       gn_seen := (if gn_seen x = 0 then now else gn_seen x), gn_status := if_empty active (gn_status x)\<rparr>"

definition session_binding :: "game_session \<Rightarrow> string \<times> string \<times> string \<times> string \<times> string \<times> int" where
  "session_binding x = (gn_user x, gn_parent x, gn_profile x, gn_hash x, gn_device x, gn_epoch x)"

fun session_slot :: "game_session \<Rightarrow> nat \<Rightarrow> game_session list \<Rightarrow> game_error + nat option" where
  "session_slot x n [] = Inr None"
| "session_slot x n (y # ys) =
     (if gn_id y = gn_id x then
        (if gn_status y \<noteq> active \<or> gn_status x \<noteq> active \<or> session_binding y \<noteq> session_binding x
         then Inl GameConflict else Inr (Some n))
      else if gn_hash y = gn_hash x then Inl GameConflict
      else session_slot x (n + 1) ys)"

definition save_session :: "unicode \<Rightarrow> time \<Rightarrow> game_session \<Rightarrow> game_store \<Rightarrow> game_session game_outcome" where
  "save_session U now x0 s =
     (let x = canonical_session U now x0
      in if gn_id x = [] \<or> gn_user x = [] \<or> gn_parent x = [] \<or> gn_profile x = [] \<or> gn_hash x = []
         then (s, Inl GameFieldsMissing)
         else
           (case session_slot x 0 (gm_sessions s) of
              Inl e \<Rightarrow> (s, Inl e)
            | Inr (Some n) \<Rightarrow> (s\<lparr>gm_sessions := (gm_sessions s)[n := x]\<rparr>, Inr x)
            | Inr None \<Rightarrow> (s\<lparr>gm_sessions := gm_sessions s @ [x]\<rparr>, Inr x)))"

definition session_by_token :: "string \<Rightarrow> game_store \<Rightarrow> game_error + game_session" where
  "session_by_token h s = found (first_some (\<lambda>x. gn_hash x = trim_space h) (gm_sessions s))"

definition get_session :: "string \<Rightarrow> game_store \<Rightarrow> game_error + game_session" where
  "get_session i s = found (first_some (\<lambda>x. gn_id x = trim_space i) (gm_sessions s))"

definition touch_session :: "time \<Rightarrow> string \<Rightarrow> game_store \<Rightarrow> game_session game_outcome" where
  "touch_session now i s =
     (case index_of (\<lambda>x. gn_id x = i) (gm_sessions s) of
        None \<Rightarrow> (s, Inl GameNotFound)
      | Some n \<Rightarrow>
          (let x = (gm_sessions s ! n)\<lparr>gn_seen := now\<rparr> in (s\<lparr>gm_sessions := (gm_sessions s)[n := x]\<rparr>, Inr x)))"

definition revoked_session :: "time \<Rightarrow> string \<Rightarrow> game_session \<Rightarrow> game_session" where
  "revoked_session now reason x = x\<lparr>gn_status := ''revoked'', gn_revoked := now, gn_reason := reason\<rparr>"

definition revoke_session :: "time \<Rightarrow> string \<Rightarrow> string \<Rightarrow> game_store \<Rightarrow> unit game_outcome" where
  "revoke_session now i reason s =
     (case index_of (\<lambda>x. gn_id x = i) (gm_sessions s) of
        None \<Rightarrow> (s, Inl GameNotFound)
      | Some n \<Rightarrow>
          if gn_status (gm_sessions s ! n) \<noteq> active then (s, Inl GameConflict)
          else (s\<lparr>gm_sessions := (gm_sessions s)[n := revoked_session now (trim_space reason) (gm_sessions s ! n)]\<rparr>, Inr ()))"

definition revoked_if :: "(game_session \<Rightarrow> bool) \<Rightarrow> time \<Rightarrow> string \<Rightarrow> game_session \<Rightarrow> game_session" where
  "revoked_if p now reason x = (if p x \<and> gn_status x = active then revoked_session now reason x else x)"

definition revoke_where :: "(game_session \<Rightarrow> bool) \<Rightarrow> time \<Rightarrow> string \<Rightarrow> game_store \<Rightarrow> game_store \<times> nat" where
  "revoke_where p now reason s =
     (s\<lparr>gm_sessions := map (revoked_if p now reason) (gm_sessions s)\<rparr>,
      length (filter (\<lambda>x. p x \<and> gn_status x = active) (gm_sessions s)))"

definition revoke_by_parent :: "time \<Rightarrow> string \<Rightarrow> string \<Rightarrow> game_store \<Rightarrow> game_store \<times> nat" where
  "revoke_by_parent now parent reason s = revoke_where (\<lambda>x. gn_parent x = parent) now reason s"

definition revoke_by_user :: "time \<Rightarrow> string \<Rightarrow> string \<Rightarrow> game_store \<Rightarrow> game_store \<times> nat" where
  "revoke_by_user now user reason s = revoke_where (\<lambda>x. gn_user x = user) now reason s"

section \<open>Join tickets\<close>

definition two_minutes :: time where "two_minutes = 120000000000"

definition join_key :: "join_ticket \<Rightarrow> string \<times> string" where
  "join_key j = (jn_normalized j, jn_server j)"

definition save_join :: "unicode \<Rightarrow> time \<Rightarrow> join_ticket \<Rightarrow> game_store \<Rightarrow> unit game_outcome" where
  "save_join U now j0 s =
     (let name = trim_space (jn_username j0);
          j1 = j0\<lparr>jn_username := name, jn_normalized := to_lower U name,
                  jn_profile := to_lower U (trim_space (jn_profile j0)), jn_server := trim_space (jn_server j0)\<rparr>
      in if jn_username j1 = [] \<or> jn_profile j1 = [] \<or> jn_user j1 = [] \<or> jn_session j1 = [] \<or> jn_server j1 = []
         then (s, Inl GameFieldsMissing)
         else
           (let j = j1\<lparr>jn_created := (if jn_created j1 = 0 then now else jn_created j1),
                       jn_expires := (if jn_expires j1 = 0 then now + two_minutes else jn_expires j1),
                       jn_version := 2, jn_status := active, jn_consumed := 0\<rparr>
            in case index_of (\<lambda>x. join_key x = join_key j) (gm_joins s) of
                 Some n \<Rightarrow> (s\<lparr>gm_joins := (gm_joins s)[n := j]\<rparr>, Inr ())
               | None \<Rightarrow> (s\<lparr>gm_joins := gm_joins s @ [j]\<rparr>, Inr ())))"

definition joinable :: "string \<times> string \<Rightarrow> time \<Rightarrow> join_ticket \<Rightarrow> bool" where
  "joinable k now x \<longleftrightarrow> join_key x = k \<and> jn_version x = 2 \<and> jn_status x = active \<and> jn_expires x > now"

definition asked_key :: "unicode \<Rightarrow> string \<Rightarrow> string \<Rightarrow> string \<times> string" where
  "asked_key U username server = (to_lower U (trim_space username), trim_space server)"

definition get_join :: "unicode \<Rightarrow> time \<Rightarrow> string \<Rightarrow> string \<Rightarrow> game_store \<Rightarrow> game_error + join_ticket" where
  "get_join U now username server s = found (first_some (joinable (asked_key U username server) now) (gm_joins s))"

definition consume_join ::
    "unicode \<Rightarrow> time \<Rightarrow> string \<Rightarrow> string \<Rightarrow> string \<Rightarrow> game_store \<Rightarrow> join_ticket game_outcome" where
  "consume_join U now username server session s =
     (case index_of (\<lambda>x. joinable (asked_key U username server) now x \<and> jn_session x = trim_space session) (gm_joins s) of
        None \<Rightarrow> (s, Inl GameConflict)
      | Some n \<Rightarrow>
          (let x = (gm_joins s ! n)\<lparr>jn_status := ''consumed'', jn_consumed := now\<rparr>
           in (s\<lparr>gm_joins := (gm_joins s)[n := x]\<rparr>, Inr x)))"

end
