(* ===== verification/GameRuns.thy ===== *)
theory GameRuns
  imports GameStore
begin

text \<open>
  Runs of the game store: every operation as a step, the invariants of sessions, join tickets and game profiles, and
  what each operation may change, as interpretations of \<open>moving_store\<close>.
\<close>

section \<open>Operations as steps\<close>

text \<open>A step is labelled with the name and server of the ticket it issues, if it issues one.\<close>

inductive game_step ::
    "unicode \<Rightarrow> (string \<Rightarrow> string) \<Rightarrow> (game_profile \<Rightarrow> bool) \<Rightarrow> (string \<times> string) option \<Rightarrow> game_store \<Rightarrow> game_store \<Rightarrow> bool"
  for U sha sync where
  profile_written: "game_step U sha sync None s (fst (save_game_profile U acc now p s))"
| profile_ensured: "game_step U sha sync None s (fst (ensure_game_profile U sha sync acc clk uuid u s))"
| session_written: "game_step U sha sync None s (fst (save_session U now x s))"
| session_seen: "game_step U sha sync None s (fst (touch_session now i s))"
| session_ended: "game_step U sha sync None s (fst (revoke_session now i reason s))"
| parent_ended: "game_step U sha sync None s (fst (revoke_by_parent now parent reason s))"
| user_ended: "game_step U sha sync None s (fst (revoke_by_user now user reason s))"
| join_issued: "game_step U sha sync (Some (asked_key U (jn_username j) (jn_server j))) s (fst (save_join U now j s))"
| join_consumed: "game_step U sha sync None s (fst (consume_join U now username server session s))"

definition any_game_step ::
    "unicode \<Rightarrow> (string \<Rightarrow> string) \<Rightarrow> (game_profile \<Rightarrow> bool) \<Rightarrow> game_store \<Rightarrow> game_store \<Rightarrow> bool" where
  "any_game_step U sha sync s t \<longleftrightarrow> (\<exists>l. game_step U sha sync l s t)"

definition no_new_join ::
    "unicode \<Rightarrow> (string \<Rightarrow> string) \<Rightarrow> (game_profile \<Rightarrow> bool) \<Rightarrow> string \<times> string \<Rightarrow> game_store \<Rightarrow> game_store \<Rightarrow> bool" where
  "no_new_join U sha sync k s t \<longleftrightarrow> (\<exists>l. l \<noteq> Some k \<and> game_step U sha sync l s t)"

definition no_games :: game_store where
  "no_games = \<lparr>gm_profiles = [], gm_sessions = [], gm_joins = []\<rparr>"

definition games_reachable :: "unicode \<Rightarrow> (string \<Rightarrow> string) \<Rightarrow> (game_profile \<Rightarrow> bool) \<Rightarrow> game_store \<Rightarrow> bool" where
  "games_reachable U sha sync s \<longleftrightarrow> (any_game_step U sha sync)\<^sup>*\<^sup>* no_games s"

section \<open>Lists keyed by a field\<close>

definition keyed :: "('a \<Rightarrow> 'k) \<Rightarrow> 'a list \<Rightarrow> 'k \<Rightarrow> 'a option" where
  "keyed f xs = map_of (map (\<lambda>x. (f x, x)) xs)"

lemma keyed_Some: "keyed f xs k = Some x \<Longrightarrow> x \<in> set xs \<and> f x = k"
  by (auto simp: keyed_def dest: map_of_SomeD)

lemma keyed_member: "distinct (map f xs) \<Longrightarrow> x \<in> set xs \<Longrightarrow> keyed f xs (f x) = Some x"
  unfolding keyed_def by (rule map_of_is_SomeI) (auto simp: comp_def)

lemma keyed_update:
  "distinct (map f xs) \<Longrightarrow> n < length xs \<Longrightarrow> f y = f (xs ! n) \<Longrightarrow> keyed f (xs[n := y]) = (keyed f xs)(f y \<mapsto> y)"
proof (induction xs arbitrary: n)
  case (Cons x xs)
  show ?case
  proof (cases n)
    case (Suc m)
    have "f (xs ! m) \<in> f ` set xs" using Cons.prems(2) Suc by simp
    then have "f (xs ! m) \<noteq> f x" using Cons.prems(1) by auto
    then show ?thesis using Cons Suc by (auto simp: keyed_def)
  qed (use Cons.prems in \<open>simp add: keyed_def fun_eq_iff\<close>)
qed simp

lemma keyed_map: "(\<And>x. f (g x) = f x) \<Longrightarrow> keyed f (map g xs) k = map_option g (keyed f xs k)"
  by (induction xs) (auto simp: keyed_def)

lemma keyed_append: "keyed f xs k = Some x \<Longrightarrow> keyed f (xs @ ys) k = Some x"
  by (simp add: keyed_def map_add_Some_iff)

lemma map_put_same: "n < length xs \<Longrightarrow> f y = f (xs ! n) \<Longrightarrow> map f (xs[n := y]) = map f xs"
  by (simp add: map_update list_update_same_conv)

section \<open>Sessions\<close>

definition sessions_ok :: "game_store \<Rightarrow> bool" where
  "sessions_ok s \<longleftrightarrow>
     distinct (map gn_id (gm_sessions s)) \<and> distinct (map gn_hash (gm_sessions s)) \<and>
     (\<forall>x \<in> set (gm_sessions s). trim_space (gn_hash x) = gn_hash x)"

definition session_moves :: "game_session \<Rightarrow> game_session \<Rightarrow> bool" where
  "session_moves x y \<longleftrightarrow>
     gn_id y = gn_id x \<and> session_binding y = session_binding x \<and>
     (gn_status x \<noteq> active \<longrightarrow> gn_status y = gn_status x \<and> gn_revoked y = gn_revoked x \<and> gn_reason y = gn_reason x)"

definition session_of :: "game_store \<Rightarrow> string \<Rightarrow> game_session option" where
  "session_of s = keyed gn_id (gm_sessions s)"

definition sessions_result :: "game_store \<Rightarrow> game_store \<Rightarrow> bool" where
  "sessions_result s t \<longleftrightarrow>
     sessions_ok t \<and> (\<forall>i x. session_of s i = Some x \<longrightarrow> (\<exists>y. session_of t i = Some y \<and> session_moves x y))"

lemma session_moves_refl [simp]: "session_moves x x"
  by (simp add: session_moves_def)

lemma session_moves_trans: "session_moves x y \<Longrightarrow> session_moves y z \<Longrightarrow> session_moves x z"
  by (auto simp: session_moves_def)

lemma sessions_same: "sessions_ok s \<Longrightarrow> gm_sessions t = gm_sessions s \<Longrightarrow> sessions_result s t"
  by (auto simp: sessions_result_def sessions_ok_def session_of_def)

lemma sessions_put:
  assumes "sessions_ok s" "n < length (gm_sessions s)" "session_moves (gm_sessions s ! n) y"
  shows "sessions_result s (s\<lparr>gm_sessions := (gm_sessions s)[n := y]\<rparr>)"
proof -
  let ?x = "gm_sessions s ! n"
  have y: "gn_id y = gn_id ?x" "gn_hash y = gn_hash ?x" using assms(3) by (auto simp: session_moves_def session_binding_def)
  have x: "?x \<in> set (gm_sessions s)" using assms(2) by simp
  have "trim_space (gn_hash z) = gn_hash z" if "z \<in> set ((gm_sessions s)[n := y])" for z
    using that set_update_subset_insert [of "gm_sessions s" n y] assms(1) x y(2) by (auto simp: sessions_ok_def)
  then have "sessions_ok (s\<lparr>gm_sessions := (gm_sessions s)[n := y]\<rparr>)"
    using assms(1,2) y by (simp add: sessions_ok_def map_put_same)
  moreover have "session_of (s\<lparr>gm_sessions := (gm_sessions s)[n := y]\<rparr>) = (session_of s)(gn_id y \<mapsto> y)"
    using assms(1,2) y(1) by (simp add: session_of_def keyed_update sessions_ok_def)
  moreover have "session_of s (gn_id y) = Some ?x"
    using keyed_member [OF _ x, of gn_id] assms(1) y(1) by (simp add: session_of_def sessions_ok_def)
  ultimately show ?thesis using assms(3) by (auto simp: sessions_result_def)
qed

lemma session_slot_Some:
  "session_slot x n ys = Inr (Some m) \<Longrightarrow>
   n \<le> m \<and> m - n < length ys \<and> gn_id (ys ! (m - n)) = gn_id x \<and> gn_status (ys ! (m - n)) = active \<and>
   session_binding (ys ! (m - n)) = session_binding x"
proof (induction ys arbitrary: n)
  case (Cons y ys)
  then show ?case by (fastforce split: if_split_asm simp: nth_Cons' Suc_le_eq)
qed simp

lemma session_slot_None:
  "session_slot x n ys = Inr None \<Longrightarrow> gn_id x \<notin> gn_id ` set ys \<and> gn_hash x \<notin> gn_hash ` set ys"
  by (induction ys arbitrary: n) (auto split: if_split_asm)

lemma save_session_result:
  assumes "sessions_ok s"
  shows "sessions_result s (fst (save_session U now x0 s))"
proof (cases "fst (save_session U now x0 s) = s")
  case True
  then show ?thesis using sessions_same [OF assms] by simp
next
  case False
  define x where "x = canonical_session U now x0"
  have ne: "\<not> (gn_id x = [] \<or> gn_user x = [] \<or> gn_parent x = [] \<or> gn_profile x = [] \<or> gn_hash x = [])"
    using False by (auto simp: save_session_def Let_def x_def)
  obtain m where m: "session_slot x 0 (gm_sessions s) = Inr m"
    using False ne by (cases "session_slot x 0 (gm_sessions s)") (auto simp: save_session_def Let_def x_def)
  show ?thesis
  proof (cases m)
    case (Some n)
    have run: "fst (save_session U now x0 s) = s\<lparr>gm_sessions := (gm_sessions s)[n := x]\<rparr>"
      using ne m Some by (simp add: save_session_def Let_def x_def)
    show ?thesis unfolding run
      using session_slot_Some [of x 0 "gm_sessions s" n] m Some
      by (intro sessions_put [OF assms]) (auto simp: session_moves_def)
  next
    case None
    have run: "fst (save_session U now x0 s) = s\<lparr>gm_sessions := gm_sessions s @ [x]\<rparr>"
      using ne m None by (simp add: save_session_def Let_def x_def)
    have "trim_space (gn_hash x) = gn_hash x" by (simp add: x_def canonical_session_def trim_space_idem)
    then show ?thesis unfolding run
      using session_slot_None [of x 0 "gm_sessions s"] m None assms
      by (auto simp: sessions_result_def sessions_ok_def session_of_def intro!: keyed_append)
  qed
qed

lemma revoked_if_fields:
  "gn_id (revoked_if p now reason x) = gn_id x" "gn_hash (revoked_if p now reason x) = gn_hash x"
  "session_moves x (revoked_if p now reason x)"
  by (simp_all add: revoked_if_def revoked_session_def session_moves_def session_binding_def)

lemma session_of_revoked:
  "session_of (fst (revoke_where p now reason s)) i = map_option (revoked_if p now reason) (session_of s i)"
  by (simp add: session_of_def revoke_where_def keyed_map revoked_if_fields(1))

lemma revoke_where_result:
  assumes "sessions_ok s"
  shows "sessions_result s (fst (revoke_where p now reason s))"
proof -
  have "gn_id \<circ> revoked_if p now reason = gn_id" "gn_hash \<circ> revoked_if p now reason = gn_hash"
    by (simp_all add: fun_eq_iff revoked_if_fields)
  then have "sessions_ok (fst (revoke_where p now reason s))"
    using assms by (simp add: sessions_ok_def revoke_where_def revoked_if_fields(2))
  then show ?thesis by (simp add: sessions_result_def session_of_revoked revoked_if_fields(3))
qed

section \<open>Tickets\<close>

definition joins_ok :: "game_store \<Rightarrow> bool" where
  "joins_ok s \<longleftrightarrow> distinct (map join_key (gm_joins s))"

definition ticket_of :: "game_store \<Rightarrow> string \<times> string \<Rightarrow> join_ticket option" where
  "ticket_of s = keyed join_key (gm_joins s)"

definition consumed_ticket :: "time \<Rightarrow> join_ticket \<Rightarrow> join_ticket" where
  "consumed_ticket now x = x\<lparr>jn_status := ''consumed'', jn_consumed := now\<rparr>"

definition ticket_moves :: "join_ticket \<Rightarrow> join_ticket \<Rightarrow> bool" where
  "ticket_moves x y \<longleftrightarrow> y = x \<or> jn_status x = active \<and> (\<exists>now. y = consumed_ticket now x)"

definition joins_result :: "(string \<times> string) option \<Rightarrow> game_store \<Rightarrow> game_store \<Rightarrow> bool" where
  "joins_result l s t \<longleftrightarrow>
     joins_ok t \<and>
     (\<forall>k x. l \<noteq> Some k \<longrightarrow> ticket_of s k = Some x \<longrightarrow> (\<exists>y. ticket_of t k = Some y \<and> ticket_moves x y))"

lemma ticket_moves_refl [simp]: "ticket_moves x x"
  by (simp add: ticket_moves_def)

lemma ticket_moves_trans: "ticket_moves x y \<Longrightarrow> ticket_moves y z \<Longrightarrow> ticket_moves x z"
  by (auto simp: ticket_moves_def consumed_ticket_def)

lemma joins_same: "joins_ok s \<Longrightarrow> gm_joins t = gm_joins s \<Longrightarrow> joins_result l s t"
  by (auto simp: joins_result_def joins_ok_def ticket_of_def)

lemma joins_put:
  assumes "joins_ok s" "n < length (gm_joins s)" "join_key y = join_key (gm_joins s ! n)"
    and "l = Some (join_key y) \<or> ticket_moves (gm_joins s ! n) y"
  shows "joins_result l s (s\<lparr>gm_joins := (gm_joins s)[n := y]\<rparr>)"
proof -
  let ?x = "gm_joins s ! n"
  have x: "?x \<in> set (gm_joins s)" using assms(2) by simp
  have "joins_ok (s\<lparr>gm_joins := (gm_joins s)[n := y]\<rparr>)"
    using assms(1-3) by (simp add: joins_ok_def map_put_same)
  moreover have "ticket_of (s\<lparr>gm_joins := (gm_joins s)[n := y]\<rparr>) = (ticket_of s)(join_key y \<mapsto> y)"
    using assms(1-3) by (simp add: ticket_of_def keyed_update joins_ok_def)
  moreover have "ticket_of s (join_key y) = Some ?x"
    using keyed_member [OF _ x, of join_key] assms(1,3) by (simp add: ticket_of_def joins_ok_def)
  ultimately show ?thesis using assms(4) by (auto simp: joins_result_def)
qed

lemma save_join_result:
  assumes "joins_ok s"
  shows "joins_result (Some (asked_key U (jn_username j0) (jn_server j0))) s (fst (save_join U now j0 s))"
proof (cases "fst (save_join U now j0 s) = s")
  case True
  then show ?thesis using joins_same [OF assms] by simp
next
  case False
  let ?k = "asked_key U (jn_username j0) (jn_server j0)"
  obtain j where j: "join_key j = ?k"
    "fst (save_join U now j0 s) =
      (case index_of (\<lambda>x. join_key x = ?k) (gm_joins s) of
         Some n \<Rightarrow> s\<lparr>gm_joins := (gm_joins s)[n := j]\<rparr>
       | None \<Rightarrow> s\<lparr>gm_joins := gm_joins s @ [j]\<rparr>)"
  proof -
    let ?j = "j0\<lparr>jn_username := trim_space (jn_username j0), jn_normalized := to_lower U (trim_space (jn_username j0)),
      jn_profile := to_lower U (trim_space (jn_profile j0)), jn_server := trim_space (jn_server j0),
      jn_created := (if jn_created j0 = 0 then now else jn_created j0),
      jn_expires := (if jn_expires j0 = 0 then now + two_minutes else jn_expires j0),
      jn_version := 2, jn_status := active, jn_consumed := 0\<rparr>"
    have k: "join_key ?j = ?k" by (simp add: join_key_def asked_key_def)
    show ?thesis
      by (rule that [OF k])
        (use False k in \<open>auto simp: save_join_def Let_def join_key_def asked_key_def split: option.split if_split_asm\<close>)
  qed
  show ?thesis
  proof (cases "index_of (\<lambda>x. join_key x = ?k) (gm_joins s)")
    case (Some n)
    then have n: "n < length (gm_joins s)" "join_key (gm_joins s ! n) = ?k" by (simp_all add: index_of_Some)
    then have "joins_result (Some ?k) s (s\<lparr>gm_joins := (gm_joins s)[n := j]\<rparr>)"
      by (intro joins_put [OF assms n(1)]) (simp_all add: j(1))
    then show ?thesis by (simp add: j(2) Some)
  next
    case None
    then have "?k \<notin> join_key ` set (gm_joins s)" by (auto simp: index_of_None)
    then show ?thesis
      using assms by (auto simp: j None joins_result_def joins_ok_def ticket_of_def intro!: keyed_append exI)
  qed
qed

lemma consume_join_cases:
  obtains "consume_join U now name server session s = (s, Inl GameConflict)"
  | n where "n < length (gm_joins s)" "joinable (asked_key U name server) now (gm_joins s ! n)"
      "jn_session (gm_joins s ! n) = trim_space session"
      "consume_join U now name server session s =
        (s\<lparr>gm_joins := (gm_joins s)[n := consumed_ticket now (gm_joins s ! n)]\<rparr>, Inr (consumed_ticket now (gm_joins s ! n)))"
  by (cases "index_of (\<lambda>x. joinable (asked_key U name server) now x \<and> jn_session x = trim_space session) (gm_joins s)")
    (auto simp: consume_join_def Let_def consumed_ticket_def index_of_Some)

lemma consume_join_result:
  assumes "joins_ok s"
  shows "joins_result l s (fst (consume_join U now name server session s))"
proof (rule consume_join_cases [of U now name server session s])
  fix n
  assume n: "n < length (gm_joins s)" "joinable (asked_key U name server) now (gm_joins s ! n)"
    "consume_join U now name server session s =
      (s\<lparr>gm_joins := (gm_joins s)[n := consumed_ticket now (gm_joins s ! n)]\<rparr>, Inr (consumed_ticket now (gm_joins s ! n)))"
  have "joins_result l s (s\<lparr>gm_joins := (gm_joins s)[n := consumed_ticket now (gm_joins s ! n)]\<rparr>)"
    using n(2) by (intro joins_put [OF assms n(1)])
      (auto simp: joinable_def ticket_moves_def consumed_ticket_def join_key_def)
  then show ?thesis by (simp add: n(3))
qed (simp add: joins_same assms)

section \<open>Profiles\<close>

definition fold_equiv :: "unicode \<Rightarrow> bool" where
  "fold_equiv U \<longleftrightarrow> equivp (equal_fold U)"

definition game_profiles_ok :: "unicode \<Rightarrow> game_store \<Rightarrow> bool" where
  "game_profiles_ok U s \<longleftrightarrow>
     distinct (map gp_user (gm_profiles s)) \<and>
     (\<forall>x \<in> set (gm_profiles s). \<forall>y \<in> set (gm_profiles s). equal_fold U (gp_uuid x) (gp_uuid y) \<longrightarrow> gp_user x = gp_user y)"

definition game_profile_moves :: "unicode \<Rightarrow> game_profile \<Rightarrow> game_profile \<Rightarrow> bool" where
  "game_profile_moves U p q \<longleftrightarrow>
     gp_user q = gp_user p \<and> equal_fold U (gp_uuid p) (gp_uuid q) \<and> gp_issuer q = gp_issuer p \<and>
     gp_realm q = gp_realm p \<and> gp_subject q = gp_subject p"

definition game_profile_of :: "game_store \<Rightarrow> string \<Rightarrow> game_profile option" where
  "game_profile_of s = keyed gp_user (gm_profiles s)"

definition profiles_result :: "unicode \<Rightarrow> game_store \<Rightarrow> game_store \<Rightarrow> bool" where
  "profiles_result U s t \<longleftrightarrow>
     game_profiles_ok U t \<and>
     (\<forall>u p. game_profile_of s u = Some p \<longrightarrow> (\<exists>q. game_profile_of t u = Some q \<and> game_profile_moves U p q))"

lemma game_profile_moves_refl: "fold_equiv U \<Longrightarrow> game_profile_moves U p p"
  by (simp add: game_profile_moves_def fold_equiv_def equivp_reflp)

lemma game_profile_moves_trans:
  "fold_equiv U \<Longrightarrow> game_profile_moves U p q \<Longrightarrow> game_profile_moves U q r \<Longrightarrow> game_profile_moves U p r"
  unfolding game_profile_moves_def fold_equiv_def by (metis equivp_transp)

lemma profiles_same:
  "fold_equiv U \<Longrightarrow> game_profiles_ok U s \<Longrightarrow> gm_profiles t = gm_profiles s \<Longrightarrow> profiles_result U s t"
  by (auto simp: profiles_result_def game_profiles_ok_def game_profile_of_def game_profile_moves_refl)

lemma save_game_profile_cases:
  obtains e where "save_game_profile U acc now p0 s = (s, Inl e)"
  | p where "save_game_profile U acc now p0 s = (s\<lparr>gm_profiles := gm_profiles s @ [p]\<rparr>, Inr p)"
      "p = (canonical_profile U p0)\<lparr>gp_created := gp_created p, gp_updated := now\<rparr>"
      "\<And>x. x \<in> set (gm_profiles s) \<Longrightarrow> \<not> same_game_profile U p x"
  | p n where "save_game_profile U acc now p0 s = (s\<lparr>gm_profiles := (gm_profiles s)[n := p]\<rparr>, Inr p)"
      "n < length (gm_profiles s)" "p = (canonical_profile U p0)\<lparr>gp_created := gp_created p, gp_updated := now\<rparr>"
      "same_game_profile U p (gm_profiles s ! n)"
      "gp_user (gm_profiles s ! n) = gp_user p" "equal_fold U (gp_uuid (gm_profiles s ! n)) (gp_uuid p)"
      "gp_issuer (gm_profiles s ! n) = gp_issuer p" "gp_realm (gm_profiles s ! n) = gp_realm p"
      "gp_subject (gm_profiles s ! n) = gp_subject p"
proof (cases "\<exists>e. save_game_profile U acc now p0 s = (s, Inl e)")
  case True
  then show ?thesis using that(1) by blast
next
  case False
  define p where "p = stamped_profile now (canonical_profile U p0)"
  have p: "p = (canonical_profile U p0)\<lparr>gp_created := gp_created p, gp_updated := now\<rparr>"
    by (simp add: p_def stamped_profile_def)
  have run: "save_game_profile U acc now p0 s = put_game_profile U p s"
    using False
    by (cases "get_user (gp_user (canonical_profile U p0)) acc")
      (auto simp: save_game_profile_def Let_def p_def split: if_split_asm)
  show ?thesis
  proof (cases "index_of (same_game_profile U p) (gm_profiles s)")
    case None
    then have "put_game_profile U p s = (s\<lparr>gm_profiles := gm_profiles s @ [p]\<rparr>, Inr p)"
      by (simp add: put_game_profile_def)
    then show ?thesis
      by (intro that(2) [OF _ p]) (use None in \<open>auto simp: run index_of_None\<close>)
  next
    case (Some n)
    let ?x = "gm_profiles s ! n"
    let ?q = "p\<lparr>gp_created := gp_created ?x\<rparr>"
    have n: "n < length (gm_profiles s)" "same_game_profile U p ?x" using Some by (simp_all add: index_of_Some)
    have ok: "\<not> (gp_user ?x \<noteq> gp_user p \<or> \<not> equal_fold U (gp_uuid ?x) (gp_uuid p) \<or> gp_issuer ?x \<noteq> gp_issuer p \<or>
        gp_realm ?x \<noteq> gp_realm p \<or> gp_subject ?x \<noteq> gp_subject p)"
    proof
      assume "gp_user ?x \<noteq> gp_user p \<or> \<not> equal_fold U (gp_uuid ?x) (gp_uuid p) \<or> gp_issuer ?x \<noteq> gp_issuer p \<or>
        gp_realm ?x \<noteq> gp_realm p \<or> gp_subject ?x \<noteq> gp_subject p"
      then have "put_game_profile U p s = (s, Inl GameConflict)"
        unfolding put_game_profile_def Let_def Some option.case by (rule if_P)
      then show False using False run by simp
    qed
    then have "put_game_profile U p s = (s\<lparr>gm_profiles := (gm_profiles s)[n := ?q]\<rparr>, Inr ?q)"
      using Some by (simp add: put_game_profile_def Let_def)
    then have q: "save_game_profile U acc now p0 s = (s\<lparr>gm_profiles := (gm_profiles s)[n := ?q]\<rparr>, Inr ?q)"
      using run by simp
    have shape: "?q = (canonical_profile U p0)\<lparr>gp_created := gp_created ?q, gp_updated := now\<rparr>"
      by (simp add: p_def stamped_profile_def)
    show ?thesis
      by (rule that(3) [OF q n(1) shape]) (use ok n(2) in \<open>simp_all add: same_game_profile_def\<close>)
  qed
qed

lemma save_game_profile_result:
  assumes "fold_equiv U" "game_profiles_ok U s"
  shows "profiles_result U s (fst (save_game_profile U acc now p0 s))"
proof (rule save_game_profile_cases [of U acc now p0 s])
  fix e assume "save_game_profile U acc now p0 s = (s, Inl e)"
  then show ?thesis using profiles_same [OF assms] by simp
next
  fix p
  assume run: "save_game_profile U acc now p0 s = (s\<lparr>gm_profiles := gm_profiles s @ [p]\<rparr>, Inr p)"
    and new: "\<And>x. x \<in> set (gm_profiles s) \<Longrightarrow> \<not> same_game_profile U p x"
  have sym: "equal_fold U a b = equal_fold U b a" for a b
    using assms(1) by (metis fold_equiv_def equivp_symp)
  have "gp_user p \<notin> gp_user ` set (gm_profiles s)"
    unfolding image_iff using new by (metis same_game_profile_def)
  moreover have "\<not> equal_fold U (gp_uuid p) (gp_uuid x) \<and> \<not> equal_fold U (gp_uuid x) (gp_uuid p)"
    if "x \<in> set (gm_profiles s)" for x
    using new [OF that] sym [of "gp_uuid p" "gp_uuid x"] by (simp add: same_game_profile_def)
  ultimately have "game_profiles_ok U (s\<lparr>gm_profiles := gm_profiles s @ [p]\<rparr>)"
    using assms(2) by (simp add: game_profiles_ok_def)
  moreover have "game_profile_of (s\<lparr>gm_profiles := gm_profiles s @ [p]\<rparr>) u = Some q" if "game_profile_of s u = Some q" for u q
    using that by (simp add: game_profile_of_def keyed_append)
  ultimately show ?thesis using game_profile_moves_refl [OF assms(1)] by (auto simp: run profiles_result_def)
next
  fix p n
  assume run: "save_game_profile U acc now p0 s = (s\<lparr>gm_profiles := (gm_profiles s)[n := p]\<rparr>, Inr p)"
    and n: "n < length (gm_profiles s)"
    and x: "gp_user (gm_profiles s ! n) = gp_user p" "equal_fold U (gp_uuid (gm_profiles s ! n)) (gp_uuid p)"
      "gp_issuer (gm_profiles s ! n) = gp_issuer p" "gp_realm (gm_profiles s ! n) = gp_realm p"
      "gp_subject (gm_profiles s ! n) = gp_subject p"
  let ?x = "gm_profiles s ! n" and ?t = "s\<lparr>gm_profiles := (gm_profiles s)[n := p]\<rparr>"
  have fold: "equal_fold U a b = equal_fold U b a" "equal_fold U a b \<Longrightarrow> equal_fold U b c \<Longrightarrow> equal_fold U a c" for a b c
    using assms(1) by (metis fold_equiv_def equivp_symp, metis fold_equiv_def equivp_transp)
  have mem: "?x \<in> set (gm_profiles s)" using n by simp
  have old: "\<exists>z \<in> set (gm_profiles s). gp_user z = gp_user y \<and> equal_fold U (gp_uuid y) (gp_uuid z)"
    if "y \<in> set ((gm_profiles s)[n := p])" for y
    using that set_update_subset_insert [of "gm_profiles s" n p] mem x(1,2) fold(1) game_profile_moves_refl [OF assms(1), of y]
    by (metis game_profile_moves_def insert_iff subsetD)
  have "gp_user y = gp_user z"
    if "y \<in> set ((gm_profiles s)[n := p])" "z \<in> set ((gm_profiles s)[n := p])" "equal_fold U (gp_uuid y) (gp_uuid z)" for y z
    using old [OF that(1)] old [OF that(2)] that(3) assms(2) fold by (metis game_profiles_ok_def)
  then have "game_profiles_ok U ?t" using assms(2) n x(1) by (simp add: game_profiles_ok_def map_put_same)
  moreover have "game_profile_of ?t = (game_profile_of s)(gp_user p \<mapsto> p)"
    using assms(2) n x(1) by (simp add: game_profile_of_def keyed_update game_profiles_ok_def)
  moreover have "game_profile_of s (gp_user p) = Some ?x"
    using keyed_member [OF _ mem, of gp_user] assms(2) x(1) by (simp add: game_profile_of_def game_profiles_ok_def)
  moreover have "game_profile_moves U ?x p" using x by (simp add: game_profile_moves_def)
  ultimately show ?thesis using game_profile_moves_refl [OF assms(1)] by (auto simp: run profiles_result_def)
qed

lemma save_game_profile_frame:
  "gm_sessions (fst (save_game_profile U acc now p s)) = gm_sessions s"
  "gm_joins (fst (save_game_profile U acc now p s)) = gm_joins s"
  by (rule save_game_profile_cases [of U acc now p s]; simp)+

lemma save_game_profile_Inl: "save_game_profile U acc now p s = (t, Inl e) \<Longrightarrow> t = s"
  by (rule save_game_profile_cases [of U acc now p s]) auto

lemma ensure_named_state:
  "fst (ensure_named U sha sync acc clk uuid u is s) = s \<or>
   (\<exists>now p. fst (ensure_named U sha sync acc clk uuid u is s) = fst (save_game_profile U acc now p s))"
proof (induction "is")
  case (Cons i "is")
  let ?run = "save_game_profile U acc (clk i) (new_game_profile (us_id u) (uuid i) (name_try sha u i)) s"
  show ?case
  proof (cases "name_of_other U (us_id u) (name_try sha u i) s")
    case True
    then show ?thesis using Cons.IH by simp
  next
    case False
    show ?thesis
    proof (cases "snd ?run")
      case (Inl e)
      then have "?run = (s, Inl e)" using save_game_profile_Inl by (metis prod.collapse)
      then show ?thesis using Cons.IH False by (simp add: Let_def split: sum.split)
    next
      case (Inr p)
      then obtain t where t: "?run = (t, Inr p)" by (metis prod.collapse)
      then have "fst (ensure_named U sha sync acc clk uuid u (i # is) s) = fst ?run"
        using False by (simp add: Let_def)
      then show ?thesis by blast
    qed
  qed
qed simp

lemma ensure_game_profile_state:
  "fst (ensure_game_profile U sha sync acc clk uuid u s) = s \<or>
   (\<exists>now p. fst (ensure_game_profile U sha sync acc clk uuid u s) = fst (save_game_profile U acc now p s))"
  using ensure_named_state [of U sha sync acc clk uuid u "[0..<100]" s]
  by (auto simp: ensure_game_profile_def split: sum.split)

section \<open>Runs\<close>

lemma game_frames:
  "gm_profiles (fst (save_session U now x s)) = gm_profiles s" "gm_joins (fst (save_session U now x s)) = gm_joins s"
  "gm_profiles (fst (touch_session now i s)) = gm_profiles s" "gm_joins (fst (touch_session now i s)) = gm_joins s"
  "gm_profiles (fst (revoke_session now i reason s)) = gm_profiles s" "gm_joins (fst (revoke_session now i reason s)) = gm_joins s"
  "gm_profiles (fst (revoke_where p now reason s)) = gm_profiles s" "gm_joins (fst (revoke_where p now reason s)) = gm_joins s"
  "gm_profiles (fst (save_join U now j s)) = gm_profiles s" "gm_sessions (fst (save_join U now j s)) = gm_sessions s"
  "gm_profiles (fst (consume_join U now name server session s)) = gm_profiles s"
  "gm_sessions (fst (consume_join U now name server session s)) = gm_sessions s"
  by (simp_all add: save_session_def touch_session_def revoke_session_def revoke_where_def save_join_def consume_join_def
      Let_def split: sum.split option.split)

lemma ensure_game_profile_frame:
  "gm_sessions (fst (ensure_game_profile U sha sync acc clk uuid u s)) = gm_sessions s"
  "gm_joins (fst (ensure_game_profile U sha sync acc clk uuid u s)) = gm_joins s"
  using ensure_game_profile_state [of U sha sync acc clk uuid u s] save_game_profile_frame by metis+

lemma touch_session_result:
  assumes "sessions_ok s"
  shows "sessions_result s (fst (touch_session now i s))"
proof (cases "index_of (\<lambda>x. gn_id x = i) (gm_sessions s)")
  case (Some n)
  then have n: "n < length (gm_sessions s)" by (simp add: index_of_Some)
  show ?thesis
    using sessions_put [OF assms n, of "(gm_sessions s ! n)\<lparr>gn_seen := now\<rparr>"] Some
    by (simp add: touch_session_def Let_def session_moves_def session_binding_def)
qed (simp add: touch_session_def sessions_same assms)

lemma revoke_session_result:
  assumes "sessions_ok s"
  shows "sessions_result s (fst (revoke_session now i reason s))"
proof (cases "index_of (\<lambda>x. gn_id x = i) (gm_sessions s)")
  case (Some n)
  then have n: "n < length (gm_sessions s)" by (simp add: index_of_Some)
  show ?thesis
    using sessions_put [OF assms n, of "revoked_session now (trim_space reason) (gm_sessions s ! n)"] Some
    by (simp add: revoke_session_def session_moves_def session_binding_def revoked_session_def sessions_same assms)
qed (simp add: revoke_session_def sessions_same assms)

lemma game_step_sessions:
  assumes "game_step U sha sync l s t" "sessions_ok s"
  shows "sessions_result s t"
  using assms(1)
  by cases (simp_all add: save_session_result touch_session_result revoke_session_result revoke_where_result
      revoke_by_parent_def revoke_by_user_def sessions_same game_frames ensure_game_profile_frame
      save_game_profile_frame assms(2))

lemma game_step_joins:
  assumes "game_step U sha sync l s t" "joins_ok s"
  shows "joins_result l s t"
  using assms(1)
  by cases (simp_all add: save_join_result consume_join_result revoke_by_parent_def revoke_by_user_def joins_same game_frames
      ensure_game_profile_frame save_game_profile_frame assms(2))

lemma game_step_profiles:
  assumes "game_step U sha sync l s t" "fold_equiv U" "game_profiles_ok U s"
  shows "profiles_result U s t"
  using assms(1)
proof cases
  case (profile_ensured acc clk uuid u)
  then show ?thesis
    using ensure_game_profile_state [of U sha sync acc clk uuid u s] save_game_profile_result [OF assms(2,3)]
      profiles_same [OF assms(2,3)] by metis
qed (simp_all add: save_game_profile_result revoke_by_parent_def revoke_by_user_def profiles_same game_frames assms(2,3))

interpretation session_store:
  moving_store "any_game_step U sha sync" sessions_ok session_of session_moves for U sha sync
  by unfold_locales
    (use game_step_sessions session_moves_trans in \<open>auto simp: any_game_step_def sessions_result_def; blast\<close>)+

lemma any_step_profiles:
  "fold_equiv U \<Longrightarrow> game_profiles_ok U s \<Longrightarrow> any_game_step U sha sync s t \<Longrightarrow> profiles_result U s t"
  using game_step_profiles by (auto simp: any_game_step_def)

lemma quiet_step_joins:
  "joins_ok s \<Longrightarrow> no_new_join U sha sync k s t \<Longrightarrow>
   joins_ok t \<and> (ticket_of s k = Some x \<longrightarrow> (\<exists>y. ticket_of t k = Some y \<and> ticket_moves x y))"
proof -
  assume ok: "joins_ok s" and "no_new_join U sha sync k s t"
  then obtain l where l: "l \<noteq> Some k" "game_step U sha sync l s t" by (auto simp: no_new_join_def)
  from game_step_joins [OF l(2) ok] l(1) show ?thesis unfolding joins_result_def by blast
qed

interpretation profile_of_user:
  moving_store "any_game_step U sha sync" "\<lambda>s. fold_equiv U \<and> game_profiles_ok U s" game_profile_of
    "\<lambda>p q. fold_equiv U \<longrightarrow> game_profile_moves U p q" for U sha sync
proof
  fix s t
  assume s: "fold_equiv U \<and> game_profiles_ok U s" "any_game_step U sha sync s t"
  then have r: "profiles_result U s t" using any_step_profiles by blast
  then show "fold_equiv U \<and> game_profiles_ok U t" using s(1) by (simp add: profiles_result_def)
  fix u p
  assume "game_profile_of s u = Some p"
  then show "\<exists>q. game_profile_of t u = Some q \<and> (fold_equiv U \<longrightarrow> game_profile_moves U p q)"
    using r unfolding profiles_result_def by blast
next
  show "fold_equiv U \<longrightarrow> game_profile_moves U p p" for p using game_profile_moves_refl by blast
  show "fold_equiv U \<longrightarrow> game_profile_moves U p q \<Longrightarrow> fold_equiv U \<longrightarrow> game_profile_moves U q r \<Longrightarrow>
      fold_equiv U \<longrightarrow> game_profile_moves U p r" for p q r
    using game_profile_moves_trans by blast
qed

interpretation ticket_store:
  moving_store "no_new_join U sha sync k" joins_ok "\<lambda>s (_ :: unit). ticket_of s k" ticket_moves for U sha sync k
  by unfold_locales (simp_all add: quiet_step_joins, rule ticket_moves_trans)

lemma any_joins_ok: "(any_game_step U sha sync)\<^sup>*\<^sup>* s t \<Longrightarrow> joins_ok s \<Longrightarrow> joins_ok t"
  by (induction rule: rtranclp_induct) (use game_step_joins in \<open>auto simp: any_game_step_def joins_result_def\<close>)

lemma games_reachable_ok:
  assumes "games_reachable U sha sync s"
  shows "sessions_ok s" "joins_ok s" "fold_equiv U \<Longrightarrow> game_profiles_ok U s"
proof -
  have run: "(any_game_step U sha sync)\<^sup>*\<^sup>* no_games s" using assms by (simp add: games_reachable_def)
  have s0: "sessions_ok no_games" "joins_ok no_games" "game_profiles_ok U no_games"
    by (simp_all add: no_games_def sessions_ok_def joins_ok_def game_profiles_ok_def)
  show "sessions_ok s" by (rule session_store.run_inv [OF run s0(1)])
  show "joins_ok s" by (rule any_joins_ok [OF run s0(2)])
  show "game_profiles_ok U s" if "fold_equiv U" using profile_of_user.run_inv [OF run] that s0(3) by blast
qed

end
