(* ===== verification/GameProperties.thy ===== *)
theory GameProperties
  imports GameRuns
begin

text \<open>
  The properties of game tokens, revocation, join tickets, game identities and player names over all runs of the game
  store, with their witnesses.
\<close>

section \<open>Properties\<close>

lemma session_by_token_Inr:
  "session_by_token h s = Inr x \<Longrightarrow> x \<in> set (gm_sessions s) \<and> gn_hash x = trim_space h"
  by (auto simp: session_by_token_def found_def split: option.split_asm dest: first_some_Some)

lemma session_by_token_member:
  assumes "sessions_ok s" "x \<in> set (gm_sessions s)" "trim_space h = gn_hash x"
  shows "session_by_token h s = Inr x"
proof -
  obtain y where y: "first_some (\<lambda>x. gn_hash x = trim_space h) (gm_sessions s) = Some y"
    using assms(2,3) by (metis (mono_tags) first_some_None not_Some_eq)
  then have "y \<in> set (gm_sessions s)" "gn_hash y = gn_hash x" using first_some_Some assms(3) by fastforce+
  then have "y = x" using assms(1,2) by (auto simp: sessions_ok_def distinct_map dest: inj_onD)
  then show ?thesis using y by (simp add: session_by_token_def found_def)
qed

lemma session_later:
  assumes "sessions_ok s" "x \<in> set (gm_sessions s)" "(any_game_step U sha sync)\<^sup>*\<^sup>* s t"
  shows "\<exists>y. y \<in> set (gm_sessions t) \<and> session_moves x y \<and> (trim_space h = gn_hash x \<longrightarrow> session_by_token h t = Inr y)"
proof -
  have "session_of s (gn_id x) = Some x"
    using keyed_member [OF _ assms(2), of gn_id] assms(1) by (simp add: session_of_def sessions_ok_def)
  then obtain y where y: "session_of t (gn_id x) = Some y" "session_moves x y"
    using session_store.run_moves [OF assms(3,1)] by blast
  then have m: "y \<in> set (gm_sessions t)" by (auto simp: session_of_def dest: keyed_Some)
  have "gn_hash y = gn_hash x" using y(2) by (simp add: session_moves_def session_binding_def)
  then have "trim_space h = gn_hash x \<longrightarrow> session_by_token h t = Inr y"
    using session_by_token_member [OF session_store.run_inv [OF assms(3,1)] m] by simp
  then show ?thesis using m y(2) by blast
qed

text \<open>A game token is bound for good: once a token hash resolves to a session, it resolves to that session in
  every later state, of the same user, login, game profile, device and binding epoch; and once the session has been
  revoked it stays revoked, so no later save or touch revives the token.\<close>

lemma game_token_bound:
  assumes "games_reachable U sha sync s" "session_by_token h s = Inr x" "(any_game_step U sha sync)\<^sup>*\<^sup>* s t"
  shows "\<exists>y. session_by_token h t = Inr y \<and> gn_id y = gn_id x \<and> session_binding y = session_binding x \<and>
    (gn_status x \<noteq> active \<longrightarrow> gn_status y = gn_status x \<and> gn_revoked y = gn_revoked x \<and> gn_reason y = gn_reason x)"
  using session_later [OF games_reachable_ok(1) [OF assms(1)] _ assms(3), of x h] session_by_token_Inr [OF assms(2)]
  by (auto simp: session_moves_def)

text \<open>Revocation is complete and lasting: after the sessions of a user, or of a login, have been revoked, every
  token that belonged to one of them resolves in every later state to a session that is not active.\<close>

lemma revocation_complete:
  assumes "games_reachable U sha sync s" "x \<in> set (gm_sessions s)"
    and "gn_user x = k \<and> t = fst (revoke_by_user now k reason s) \<or> gn_parent x = k \<and> t = fst (revoke_by_parent now k reason s)"
    and "(any_game_step U sha sync)\<^sup>*\<^sup>* t u"
  shows "\<exists>y. session_by_token (gn_hash x) u = Inr y \<and> gn_id y = gn_id x \<and> gn_status y \<noteq> active"
proof -
  have ok: "sessions_ok s" by (rule games_reachable_ok(1) [OF assms(1)])
  obtain p where p: "p x" "t = fst (revoke_where p now reason s)"
  proof (cases "gn_user x = k \<and> t = fst (revoke_by_user now k reason s)")
    case True
    then show ?thesis by (intro that [of "\<lambda>x. gn_user x = k"]) (simp_all add: revoke_by_user_def)
  next
    case False
    then have "gn_parent x = k \<and> t = fst (revoke_by_parent now k reason s)" using assms(3) by blast
    then show ?thesis by (intro that [of "\<lambda>x. gn_parent x = k"]) (simp_all add: revoke_by_parent_def)
  qed
  let ?y = "revoked_if p now reason x"
  have t: "sessions_ok t" "?y \<in> set (gm_sessions t)"
    using revoke_where_result [OF ok, of p now reason] assms(2) by (simp_all add: p(2) sessions_result_def revoke_where_def)
  have "trim_space (gn_hash x) = gn_hash ?y" using ok assms(2) by (simp add: sessions_ok_def revoked_if_fields(2))
  then obtain z where z: "session_moves ?y z" "session_by_token (gn_hash x) u = Inr z"
    using session_later [OF t assms(4)] by blast
  have "gn_status ?y \<noteq> active" using p(1) by (simp add: revoked_if_def revoked_session_def)
  then have "gn_status z \<noteq> active" "gn_id z = gn_id x" using z(1) by (simp_all add: session_moves_def revoked_if_fields)
  then show ?thesis using z(2) by blast
qed

lemma ticket_of_member:
  "joins_ok s \<Longrightarrow> n < length (gm_joins s) \<Longrightarrow> ticket_of s (join_key (gm_joins s ! n)) = Some (gm_joins s ! n)"
  by (simp add: ticket_of_def joins_ok_def keyed_member)

lemma consume_join_Inr:
  assumes "consume_join U now name server session s = (t, Inr j)"
  shows "\<exists>n < length (gm_joins s). joinable (asked_key U name server) now (gm_joins s ! n) \<and>
    jn_session (gm_joins s ! n) = trim_space session \<and>
    t = s\<lparr>gm_joins := (gm_joins s)[n := consumed_ticket now (gm_joins s ! n)]\<rparr> \<and> j = consumed_ticket now (gm_joins s ! n)"
proof (rule consume_join_cases [of U now name server session s])
  fix n
  assume n: "n < length (gm_joins s)" "joinable (asked_key U name server) now (gm_joins s ! n)"
    "jn_session (gm_joins s ! n) = trim_space session"
    "consume_join U now name server session s =
      (s\<lparr>gm_joins := (gm_joins s)[n := consumed_ticket now (gm_joins s ! n)]\<rparr>, Inr (consumed_ticket now (gm_joins s ! n)))"
  then show ?thesis using assms by (intro exI [of _ n]) simp
qed (use assms in simp)

lemma no_ticket:
  assumes "joins_ok s" "ticket_of s (asked_key U name server) = Some j" "jn_status j \<noteq> active"
  shows "consume_join U now name server session s = (s, Inl GameConflict)" "get_join U now name server s = Inl GameNotFound"
proof -
  have none: "\<not> joinable (asked_key U name server) now x" if "x \<in> set (gm_joins s)" for x
  proof
    assume "joinable (asked_key U name server) now x"
    then have x: "join_key x = asked_key U name server" "jn_status x = active" by (simp_all add: joinable_def)
    then have "ticket_of s (asked_key U name server) = Some x"
      using keyed_member [OF _ that, of join_key] assms(1) by (simp add: ticket_of_def joins_ok_def)
    then show False using assms(2,3) x(2) by simp
  qed
  show "consume_join U now name server session s = (s, Inl GameConflict)"
    by (rule consume_join_cases [of U now name server session s]) (use none in auto)
  have "first_some (joinable (asked_key U name server) now) (gm_joins s) = None" using none by (simp add: first_some_None)
  then show "get_join U now name server s = Inl GameNotFound" by (simp add: get_join_def found_def)
qed

text \<open>C17: A join ticket is redeemed at most once, by the session it was issued to and before it expires: after a
  successful redemption, and until a new ticket is issued for that name and server, no server can redeem or even find
  it again.\<close>

theorem join_redeemed_once:
  assumes "games_reachable U sha sync s" "consume_join U now name server session s = (t, Inr j)"
    and "(no_new_join U sha sync (asked_key U name server))\<^sup>*\<^sup>* t u"
  shows "jn_session j = trim_space session \<and> now < jn_expires j \<and>
    consume_join U now' name server session' u = (u, Inl GameConflict) \<and> get_join U now' name server u = Inl GameNotFound"
proof -
  let ?k = "asked_key U name server"
  have s: "joins_ok s" by (rule games_reachable_ok(2) [OF assms(1)])
  have t: "joins_ok t" using consume_join_result [OF s, of None U now name server session] assms(2) by (simp add: joins_result_def)
  obtain n where n: "n < length (gm_joins s)" "joinable ?k now (gm_joins s ! n)" "jn_session (gm_joins s ! n) = trim_space session"
      "t = s\<lparr>gm_joins := (gm_joins s)[n := consumed_ticket now (gm_joins s ! n)]\<rparr>" "j = consumed_ticket now (gm_joins s ! n)"
    using consume_join_Inr [OF assms(2)] by blast
  have j: "jn_status j \<noteq> active" "join_key j = ?k"
    using n(2) by (simp_all add: n(5) consumed_ticket_def joinable_def join_key_def)
  have "ticket_of t ?k = Some j" using ticket_of_member [OF t, of n] n(1,4,5) j(2) by simp
  moreover have "y = j" if "ticket_moves j y" for y using that j(1) by (simp add: ticket_moves_def)
  ultimately have "ticket_of u ?k = Some j" by (rule ticket_store.run_final [OF assms(3) t])
  note * = no_ticket [OF ticket_store.run_inv [OF assms(3) t] this j(1)]
  have "jn_session j = trim_space session" "now < jn_expires j"
    using n(2,3) by (simp_all add: n(5) consumed_ticket_def joinable_def)
  then show ?thesis using * by simp
qed

text \<open>A game identity is permanent: if letter case folding is an equivalence, no user has two game profiles and no
  UUID belongs to two users; and once a user has a game profile, every later state gives that user a profile with the
  same UUID (up to case), issuer, realm and subject.\<close>

lemma game_identity_permanent:
  assumes "fold_equiv U" "games_reachable U sha sync s" "profile_by_user u s = Inr p" "(any_game_step U sha sync)\<^sup>*\<^sup>* s t"
  shows "distinct (map gp_user (gm_profiles s)) \<and>
    (\<forall>x \<in> set (gm_profiles s). equal_fold U (gp_uuid x) (gp_uuid p) \<longrightarrow> gp_user x = gp_user p) \<and>
    (\<exists>q. profile_by_user u t = Inr q \<and> game_profile_moves U p q)"
proof -
  have ok: "game_profiles_ok U s" by (rule games_reachable_ok(3) [OF assms(2,1)])
  have look: "first_some (\<lambda>p. gp_user p = k) ps = keyed gp_user ps k" for k ps
    by (induction ps) (auto simp: keyed_def)
  have p: "game_profile_of s (trim_space u) = Some p"
    using assms(3) by (auto simp: profile_by_user_def found_def look game_profile_of_def split: option.split_asm)
  then have m: "p \<in> set (gm_profiles s)" by (auto simp: game_profile_of_def dest: keyed_Some)
  obtain q where "game_profile_of t (trim_space u) = Some q" "game_profile_moves U p q"
    using profile_of_user.run_moves [OF assms(4) _ p] assms(1) ok by blast
  then have "\<exists>q. profile_by_user u t = Inr q \<and> game_profile_moves U p q"
    by (simp add: profile_by_user_def found_def look game_profile_of_def)
  then show ?thesis using ok m unfolding game_profiles_ok_def by blast
qed

section \<open>Names\<close>

lemma name_byte_graphic: "name_byte c \<Longrightarrow> graphic c"
  by (auto simp: name_byte_def graphic_def is_lower_def is_upper_def is_digit_def byte_in_def less_eq_char_def)

lemma game_name_shape: "3 \<le> length (game_name u) \<and> length (game_name u) \<le> 16 \<and> list_all name_byte (game_name u)"
proof (cases "first_some (\<lambda>v. 3 \<le> length v)
    (map name_part [us_name u, fst (cut_char (CHR ''@'') (us_email u)), us_id u])")
  case None
  have "list_all name_byte ''NL_Player''" by code_simp
  then show ?thesis using None unfolding game_name_def by simp
next
  case (Some v)
  then obtain raw where "v = name_part raw" "3 \<le> length v" using first_some_Some by fastforce
  moreover have "list_all name_byte (name_part raw)"
    by (auto simp: name_part_def list_all_iff dest: in_set_takeD)
  ultimately show ?thesis using Some unfolding game_name_def by (simp add: name_part_def)
qed

lemma name_try_shape:
  assumes "\<And>x. 4 \<le> length (sha x) \<and> list_all name_byte (sha x)"
  shows "3 \<le> length (name_try sha u i) \<and> length (name_try sha u i) \<le> 16 \<and> list_all name_byte (name_try sha u i)"
proof (cases "i = 0")
  case True
  then show ?thesis using game_name_shape by (simp add: name_try_def Let_def)
next
  case False
  let ?x = "us_id u @ show_int (int i)"
  let ?suffix = "take 5 (CHR ''_'' # sha ?x)"
  have l: "length ?suffix = 5" using assms [of ?x] by simp
  have b: "list_all name_byte (take n xs)" if "list_all name_byte xs" for n xs
    using that by (auto simp: list_all_iff dest: in_set_takeD)
  have s: "list_all name_byte ?suffix" by (rule b) (use assms [of ?x] in \<open>simp add: name_byte_def\<close>)
  have run: "name_try sha u i = (if 11 < length (game_name u) then take 11 (game_name u) else game_name u) @ ?suffix"
    using False l by (simp add: name_try_def Let_def)
  have g: "list_all name_byte (game_name u)" "3 \<le> length (game_name u)" using game_name_shape by auto
  have "list_all name_byte (if 11 < length (game_name u) then take 11 (game_name u) else game_name u)"
    using g(1) b by simp
  then have "list_all name_byte (name_try sha u i)" unfolding run using s by (simp only: list_all_append) 
  moreover have "length (name_try sha u i) = min 11 (length (game_name u)) + 5"
    unfolding run using l by (simp only: length_append) (simp split: if_split)
  ultimately show ?thesis using g(2) by simp
qed

lemma ensure_named_fresh:
  assumes "\<And>x. 4 \<le> length (sha x) \<and> list_all name_byte (sha x)" "profile_by_user (us_id u) s = Inl e"
    and "ensure_named U sha sync acc clk uuid u is s = (t, Inr p)"
  shows "\<exists>i. gp_name p = name_try sha u i \<and> gp_user p = trim_space (us_id u) \<and> t = s\<lparr>gm_profiles := gm_profiles s @ [p]\<rparr> \<and>
    (\<forall>x \<in> set (gm_profiles s). \<not> same_game_profile U p x)"
  using assms(3)
proof (induction "is")
  case (Cons i "is")
  let ?p0 = "new_game_profile (us_id u) (uuid i) (name_try sha u i)"
  show ?case
  proof (rule save_game_profile_cases [of U acc "clk i" ?p0 s])
    fix e' assume run: "save_game_profile U acc (clk i) ?p0 s = (s, Inl e')"
    then have "ensure_named U sha sync acc clk uuid u is s = (t, Inr p)"
      using Cons.prems assms(2) by (simp add: Let_def split: if_split_asm)
    then show ?thesis by (rule Cons.IH)
  next
    fix q
    assume run: "save_game_profile U acc (clk i) ?p0 s = (s\<lparr>gm_profiles := gm_profiles s @ [q]\<rparr>, Inr q)"
      and q: "q = (canonical_profile U ?p0)\<lparr>gp_created := gp_created q, gp_updated := clk i\<rparr>"
      and new: "\<And>x. x \<in> set (gm_profiles s) \<Longrightarrow> \<not> same_game_profile U q x"
    have "trim_space (name_try sha u i) = name_try sha u i"
      using name_try_shape [OF assms(1)] name_byte_graphic by (intro trim_space_graphic) (auto simp: list_all_iff)
    then have f: "gp_name q = name_try sha u i" "gp_user q = trim_space (us_id u)"
      by (subst q, simp add: canonical_profile_def new_game_profile_def Let_def)+
    show ?thesis
    proof (cases "name_of_other U (us_id u) (name_try sha u i) s")
      case True
      then show ?thesis using Cons by simp
    next
      case False
      then have "t = s\<lparr>gm_profiles := gm_profiles s @ [q]\<rparr>" "p = q"
        using Cons.prems by (auto simp: Let_def run synced_def split: if_split_asm)
      then show ?thesis using f new by blast
    qed
  next
    fix q n
    assume n: "n < length (gm_profiles s)" "gp_user (gm_profiles s ! n) = gp_user q"
      and q: "q = (canonical_profile U ?p0)\<lparr>gp_created := gp_created q, gp_updated := clk i\<rparr>"
    have "gp_user q = trim_space (us_id u)" by (subst q) (simp add: canonical_profile_def new_game_profile_def Let_def)
    then have "first_some (\<lambda>p. gp_user p = trim_space (us_id u)) (gm_profiles s) \<noteq> None"
      using n by (auto simp: first_some_None)
    then have False using assms(2) by (auto simp: profile_by_user_def found_def split: option.split_asm)
    then show ?thesis ..
  qed
qed simp

text \<open>A player who has no game profile gets one with a usable name: 3 to 16 characters, each a letter, a digit or
  an underscore, different from every name in use up to letter case, under a UUID no profile has; and the profile is
  the only change to the store.\<close>

lemma new_player_name:
  assumes "\<And>x. 4 \<le> length (sha x) \<and> list_all name_byte (sha x)" "profile_by_user (us_id u) s = Inl e"
    and "ensure_game_profile U sha sync acc clk uuid u s = (t, Inr p)"
  shows "3 \<le> length (gp_name p) \<and> length (gp_name p) \<le> 16 \<and> list_all name_byte (gp_name p) \<and>
    (\<forall>x \<in> set (gm_profiles s). \<not> equal_fold U (gp_name x) (gp_name p) \<and> \<not> equal_fold U (gp_uuid x) (gp_uuid p)) \<and>
    t = s\<lparr>gm_profiles := gm_profiles s @ [p]\<rparr>"
proof -
  have "ensure_named U sha sync acc clk uuid u [0..<100] s = (t, Inr p)"
    using assms(2,3) by (simp add: ensure_game_profile_def)
  from ensure_named_fresh [OF assms(1,2) this] name_try_shape [OF assms(1)]
  show ?thesis by (auto simp: same_game_profile_def)
qed

section \<open>Witnesses\<close>

abbreviation hex_sample :: "string \<Rightarrow> string" where
  "hex_sample \<equiv> \<lambda>_. ''0123456789abcdef''"

definition game_session_sample :: game_session where
  "game_session_sample = \<lparr>gn_id = ''mcs-1'', gn_user = ''admin'', gn_parent = ''ns'', gn_profile = ''AB'', gn_device = [], gn_epoch = 0,
     gn_client = ''c'', gn_hash = ''h1'', gn_verified = False, gn_attestation = [], gn_evidence = [], gn_guard = [],
     gn_launcher = [], gn_launcher_version = [], gn_verified_at = 0, gn_status = [], gn_created = 0, gn_seen = 0,
     gn_expires = 900, gn_revoked = 0, gn_reason = []\<rparr>"

definition join_sample :: join_ticket where
  "join_sample = \<lparr>jn_username = ''Steve '', jn_normalized = [], jn_profile = ''AB'', jn_user = ''admin'', jn_session = ''mcs-1'',
     jn_server = ''srv'', jn_ip = [], jn_version = 0, jn_status = [], jn_created = 0, jn_expires = 50, jn_consumed = 0\<rparr>"

definition played0 :: game_store where
  "played0 = fst (ensure_game_profile ascii_only hex_sample (\<lambda>_. True) accounts_sample (\<lambda>_. 3) (\<lambda>_. ''AB'') user_sample no_games)"

definition played1 :: game_store where
  "played1 = fst (save_session ascii_only 4 game_session_sample played0)"

definition played2 :: game_store where
  "played2 = fst (save_join ascii_only 5 join_sample played1)"

definition played3 :: game_store where
  "played3 = fst (consume_join ascii_only 6 ''steve'' ''srv'' ''mcs-1'' played2)"

definition played4 :: game_store where
  "played4 = fst (revoke_by_user 7 ''admin'' ''bye'' played3)"

abbreviation game_run :: "game_store \<Rightarrow> game_store \<Rightarrow> bool" where
  "game_run \<equiv> any_game_step ascii_only hex_sample (\<lambda>_. True)"

lemma played_steps:
  "game_run no_games played0" "game_run played0 played1" "game_run played1 played2" "game_run played2 played3"
  "game_run played3 played4"
  unfolding any_game_step_def played0_def played1_def played2_def played3_def played4_def
  by (blast intro: game_step.intros)+

lemma played_reachable:
  "games_reachable ascii_only hex_sample (\<lambda>_. True) played1" "games_reachable ascii_only hex_sample (\<lambda>_. True) played2"
  "games_reachable ascii_only hex_sample (\<lambda>_. True) played3"
  unfolding games_reachable_def using played_steps by (meson rtranclp.intros)+

lemma ascii_fold_equiv: "fold_equiv ascii_only"
proof -
  have "equal_fold ascii_only = (\<lambda>s t. map lower_byte s = map lower_byte t)"
    by (auto simp: equal_fold_def ascii_only_def fun_eq_iff)
  then show ?thesis by (auto simp: fold_equiv_def equivp_def fun_eq_iff)
qed

theorem join_redeemed_once_witness:
  "consume_join ascii_only 8 ''steve'' ''srv'' ''mcs-1'' played3 = (played3, Inl GameConflict)"
proof -
  have "is_ok (snd (consume_join ascii_only 6 ''steve'' ''srv'' ''mcs-1'' played2))" by code_simp
  then obtain j where "consume_join ascii_only 6 ''steve'' ''srv'' ''mcs-1'' played2 = (played3, Inr j)"
    unfolding is_ok_iff played3_def by (metis prod.collapse)
  from join_redeemed_once [OF played_reachable(2) this rtranclp.rtrancl_refl] show ?thesis by blast
qed

text \<open>
  The first profile that matches decides, so the owner of an earlier profile can take the name of a later one: the
  store then holds two profiles of that name, and looking the name up finds the newcomer.
\<close>

lemma name_takeover:
  "let p = (\<lambda>u n. new_game_profile u (''id-'' @ u) n);
       s = \<lparr>gm_profiles = [canonical_profile ascii_only (p ''admin'' ''Alice''), canonical_profile ascii_only (p ''bob'' ''Bob'')],
            gm_sessions = [], gm_joins = []\<rparr>;
       t = fst (save_game_profile ascii_only accounts_sample 5 (p ''admin'' ''Bob'') s)
   in map gp_name (gm_profiles t) = [''Bob'', ''Bob''] \<and>
      (case profile_by_name ascii_only ''bob'' t of Inr x \<Rightarrow> gp_user x = ''admin'' | _ \<Rightarrow> False)"
  by code_simp

end
