(* ===== verification/Textures.thy ===== *)
theory Textures
  imports GoWire "HOL-Library.Word" "HOL-Library.Sublist"
begin

unbundle bit_operations_syntax

text \<open>
  Uploaded textures (\<^verbatim>\<open>texturepng/chunks.go\<close>, \<^verbatim>\<open>texturepng/process.go\<close>): the check of the whole chunk sequence
  of a PNG before it reaches the decoder, the geometry rules, and the canonical re-encoding.  \<^verbatim>\<open>hash/crc32\<close> is modelled
  bit by bit; the image decoder and encoder of the standard library are parameters.
\<close>

section \<open>Checksums\<close>

definition crc_bit :: "32 word \<Rightarrow> 32 word" where
  "crc_bit c = (if bit c 0 then drop_bit 1 c XOR 0xEDB88320 else drop_bit 1 c)"

definition crc_byte :: "32 word \<Rightarrow> char \<Rightarrow> 32 word" where
  "crc_byte c b = (crc_bit ^^ 8) (c XOR of_char b)"

definition crc32 :: "string \<Rightarrow> nat" where \<comment> \<open>\<^verbatim>\<open>crc32.ChecksumIEEE\<close>\<close>
  "crc32 s = unat (NOT (fold (\<lambda>b c. crc_byte c b) s 0xFFFFFFFF))"

definition be32 :: "string \<Rightarrow> nat" where \<comment> \<open>\<^verbatim>\<open>binary.BigEndian.Uint32\<close> of the first four bytes\<close>
  "be32 s = fold (\<lambda>c n. n * 256 + of_char c) (take 4 s) 0"

section \<open>Chunks\<close>

datatype texture_error = BadTexture | BadCrc | Animated | CriticalChunk | BadKind | BadModel | SlimCape | ReadFailed
  | TooLarge | BadHeader | BadGeometry | BadData | EncodeFailed

record png_state =
  pn_ihdr :: bool
  pn_idat :: bool
  pn_iend :: bool

definition chunk_size :: "string \<Rightarrow> nat" where
  "chunk_size rest = be32 rest"

definition chunk_type :: "string \<Rightarrow> string" where
  "chunk_type rest = take 4 (drop 4 rest)"

definition chunk_content :: "string \<Rightarrow> string" where
  "chunk_content rest = take (4 + chunk_size rest) (drop 4 rest)"

definition chunk_crc :: "string \<Rightarrow> nat" where
  "chunk_crc rest = be32 (drop (8 + chunk_size rest) rest)"

definition letter :: "char \<Rightarrow> bool" where
  "letter c \<longleftrightarrow> is_upper c \<or> is_lower c"

definition enter_chunk :: "nat \<Rightarrow> string \<Rightarrow> png_state \<Rightarrow> texture_error + png_state" where
  \<comment> \<open>the \<^verbatim>\<open>switch\<close> on the type of the chunk at an offset\<close>
  "enter_chunk offset rest s =
     (let t = chunk_type rest; size = chunk_size rest
      in if t = ''IHDR'' then
           (if pn_ihdr s \<or> pn_idat s \<or> offset \<noteq> 8 \<or> size \<noteq> 13 then Inl BadTexture else Inr (s\<lparr>pn_ihdr := True\<rparr>))
         else if t = ''IDAT'' then
           (if \<not> pn_ihdr s \<or> pn_iend s then Inl BadTexture else Inr (s\<lparr>pn_idat := True\<rparr>))
         else if t = ''IEND'' then
           (if \<not> pn_ihdr s \<or> \<not> pn_idat s \<or> pn_iend s \<or> size \<noteq> 0 \<or> 12 + size \<noteq> length rest then Inl BadTexture
            else Inr (s\<lparr>pn_iend := True\<rparr>))
         else if t \<in> {''acTL'', ''fcTL'', ''fdAT''} then Inl Animated
         else if is_upper (hd t) \<and> t \<noteq> ''PLTE'' then Inl CriticalChunk
         else Inr s)"

definition end_chunks :: "png_state \<Rightarrow> texture_error + unit" where
  "end_chunks s = (if \<not> pn_ihdr s \<or> \<not> pn_idat s \<or> \<not> pn_iend s then Inl BadTexture else Inr ())"

function scan_chunks :: "nat \<Rightarrow> string \<Rightarrow> png_state \<Rightarrow> texture_error + unit" where
  \<comment> \<open>the loop of \<^verbatim>\<open>validateChunks\<close>: the offset and the bytes from it on\<close>
  "scan_chunks offset rest s =
     (if rest = [] then end_chunks s
      else if length rest < 12 then Inl BadTexture
      else if chunk_size rest > length rest - 12 then Inl BadTexture
      else if crc32 (chunk_content rest) \<noteq> chunk_crc rest then Inl BadCrc
      else if \<not> list_all letter (chunk_type rest) then Inl BadTexture
      else
        (case enter_chunk offset rest s of
           Inl e \<Rightarrow> Inl e
         | Inr t \<Rightarrow>
             if pn_iend t then end_chunks t
             else scan_chunks (offset + 12 + chunk_size rest) (drop (12 + chunk_size rest) rest) t))"
  by pat_completeness auto
termination by (relation "measure (\<lambda>(offset, rest, s). length rest)") auto

declare scan_chunks.simps [simp del]

definition no_chunks :: png_state where
  "no_chunks = \<lparr>pn_ihdr = False, pn_idat = False, pn_iend = False\<rparr>"

definition validate_chunks :: "string \<Rightarrow> texture_error + unit" where
  "validate_chunks png = scan_chunks 8 (drop 8 png) no_chunks"

section \<open>Textures\<close>

type_synonym pixel = "8 word \<times> 8 word \<times> 8 word \<times> 8 word" \<comment> \<open>red, green, blue, alpha\<close>

record png_library = \<comment> \<open>\<^verbatim>\<open>png.DecodeConfig\<close>, \<^verbatim>\<open>png.Decode\<close> drawn to NRGBA, and \<^verbatim>\<open>png.Encoder\<close>\<close>
  pl_config :: "string \<Rightarrow> (int \<times> int) option"
  pl_decode :: "string \<Rightarrow> (int \<times> int \<times> pixel list) option"
  pl_encode :: "int \<Rightarrow> int \<Rightarrow> pixel list \<Rightarrow> string option"

record texture =
  tx_png :: string
  tx_digest :: string
  tx_width :: int
  tx_height :: int
  tx_kind :: string
  tx_model :: string

definition max_encoded_bytes :: nat where "max_encoded_bytes = 4194304"
definition max_pixels :: int where "max_pixels = 1024 * 1024"
definition max_dimension :: int where "max_dimension = 1024"

definition png_signature :: string where
  "png_signature = [CHR 0x89, CHR ''P'', CHR ''N'', CHR ''G'', CHR 0x0D, CHR 0x0A, CHR 0x1A, CHR 0x0A]"

definition valid_geometry :: "string \<Rightarrow> string \<Rightarrow> int \<Rightarrow> int \<Rightarrow> bool" where
  "valid_geometry kind model width height \<longleftrightarrow>
     (if width < 64 \<or> width mod 64 \<noteq> 0 \<or> width > max_dimension then False
      else
        (let scale = width div 64
         in if kind = ''cape'' then height = 32 * scale
            else if height = 64 * scale then True
            else model = ''classic'' \<and> height = 32 * scale))"

definition clear_pixel :: "pixel \<Rightarrow> pixel" where
  "clear_pixel p = (case p of (r, g, b, a) \<Rightarrow> if a = 0 then (0, 0, 0, a) else (r, g, b, a))"

definition process_texture ::
    "(string \<Rightarrow> string) \<Rightarrow> png_library \<Rightarrow> string option \<Rightarrow> string \<Rightarrow> string \<Rightarrow> texture_error + texture" where
  \<comment> \<open>the source is the bytes it yields, or a read error\<close>
  "process_texture sha lib src kind model =
     (if kind \<noteq> ''skin'' \<and> kind \<noteq> ''cape'' then Inl BadKind
      else if model \<noteq> ''classic'' \<and> model \<noteq> ''slim'' then Inl BadModel
      else if kind = ''cape'' \<and> model \<noteq> ''classic'' then Inl SlimCape
      else
        (case map_option (take (max_encoded_bytes + 1)) src of
           None \<Rightarrow> Inl ReadFailed
         | Some content \<Rightarrow>
             if length content > max_encoded_bytes then Inl TooLarge
             else if length content < 33 \<or> take 8 content \<noteq> png_signature then Inl BadTexture
             else
               (case validate_chunks content of
                  Inl e \<Rightarrow> Inl e
                | Inr _ \<Rightarrow>
                    (case pl_config lib content of
                       None \<Rightarrow> Inl BadHeader
                     | Some (w, h) \<Rightarrow>
                         if w \<le> 0 \<or> h \<le> 0 \<or> w > max_dimension \<or> h > max_dimension \<or> w * h > max_pixels then Inl TooLarge
                         else if \<not> valid_geometry kind model w h then Inl BadGeometry
                         else
                           (case pl_decode lib content of
                              None \<Rightarrow> Inl BadData
                            | Some (dw, dh, pixels) \<Rightarrow>
                                if dw \<noteq> w \<or> dh \<noteq> h then Inl BadTexture
                                else
                                  (case pl_encode lib w h (map clear_pixel pixels) of
                                     None \<Rightarrow> Inl EncodeFailed
                                   | Some out \<Rightarrow>
                                       if length out > max_encoded_bytes then Inl TooLarge
                                       else Inr \<lparr>tx_png = out, tx_digest = sha out, tx_width = w, tx_height = h,
                                                 tx_kind = kind, tx_model = model\<rparr>))))))"

section \<open>Chunk sequences\<close>

type_synonym chunk = "string \<times> string"

definition encode_chunk :: "chunk \<Rightarrow> string" where
  "encode_chunk c = u32be (length (snd c)) @ fst c @ snd c @ u32be (crc32 (fst c @ snd c))"

definition chunk_ok :: "chunk \<Rightarrow> bool" where
  "chunk_ok c \<longleftrightarrow> length (fst c) = 4 \<and> list_all letter (fst c) \<and> length (snd c) < 2 ^ 32"

definition middle_chunk :: "chunk \<Rightarrow> bool" where
  "middle_chunk c \<longleftrightarrow>
     chunk_ok c \<and> fst c \<notin> {''IHDR'', ''IEND'', ''acTL'', ''fcTL'', ''fdAT''} \<and>
     (is_upper (hd (fst c)) \<longrightarrow> fst c \<in> {''IDAT'', ''PLTE''})"

lemma be32_u32be:
  assumes "n < 2 ^ 32"
  shows "be32 (u32be n @ s) = n"
proof -
  have c: "int (of_char (byte_of k)) = k mod 256" for k
    by (metis byte_of_def mod_mod_trivial of_char_of of_nat_of_char)
  have "int (be32 (u32be n @ s)) =
      ((int n div 16777216 mod 256 * 256 + int n div 65536 mod 256) * 256 + int n div 256 mod 256) * 256 + int n mod 256"
    by (simp add: be32_def u32be_def Let_def c)
  also have "\<dots> = int n" by (rule u32_bytes) (use assms in simp_all)
  finally show ?thesis by simp
qed

lemma byte_digits:
  assumes "x * 256 + d = y * 256 + (e :: nat)" "d < 256" "e < 256"
  shows "x = y \<and> d = e"
proof -
  have "(x * 256 + d) mod 256 = d" "(y * 256 + e) mod 256 = e" using assms(2,3) by simp_all
  then have "d = e" using assms(1) by simp
  then show ?thesis using assms(1) by simp
qed

lemma be32_inject:
  assumes "length s = 4" "length t = 4" "be32 s = be32 t"
  shows "s = t"
proof -
  obtain a b c d where s: "s = [a, b, c, d]" using assms(1) by (auto simp: numeral_eq_Suc length_Suc_conv)
  obtain a' b' c' d' where t: "t = [a', b', c', d']" using assms(2) by (auto simp: numeral_eq_Suc length_Suc_conv)
  have h: "of_char x < (256 :: nat)" for x :: char by simp
  have "((of_char a * 256 + of_char b) * 256 + of_char c) * 256 + of_char d =
      ((of_char a' * 256 + of_char b') * 256 + of_char c') * 256 + (of_char d' :: nat)"
    using assms(3) by (simp add: s t be32_def)
  from byte_digits [OF this h h] have 1: "of_char d = (of_char d' :: nat)"
    "(of_char a * 256 + of_char b) * 256 + of_char c = (of_char a' * 256 + of_char b') * 256 + (of_char c' :: nat)" by simp_all
  from byte_digits [OF 1(2) h h] have 2: "of_char c = (of_char c' :: nat)"
    "of_char a * 256 + of_char b = of_char a' * 256 + (of_char b' :: nat)" by simp_all
  from byte_digits [OF 2(2) h h] have "of_char a = (of_char a' :: nat)" "of_char b = (of_char b' :: nat)" by simp_all
  then show ?thesis using 1(1) 2(1) by (simp add: s t)
qed

lemma u32be_be32:
  assumes "length s \<ge> 4"
  shows "u32be (be32 s) = take 4 s" "be32 s < 2 ^ 32"
proof -
  obtain a b c d r where s: "s = a # b # c # d # r"
    using assms by (auto simp: numeral_eq_Suc Suc_le_length_iff)
  have h: "of_char x \<le> (255 :: nat)" for x :: char
    using nat_of_char_less_256 [of x] by linarith
  have "be32 s = 16777216 * of_char a + 65536 * of_char b + of_char c * 256 + of_char d"
    by (simp add: s be32_def)
  also have "\<dots> \<le> 16777216 * 255 + 65536 * 255 + 255 * 256 + 255"
    by (intro add_mono mult_le_mono h) simp_all
  finally show bound: "be32 s < 2 ^ 32" by simp
  have "be32 (u32be (be32 s)) = be32 s" using be32_u32be [OF bound, of "[]"] by simp
  moreover have "be32 s = be32 (take 4 s)" by (simp add: be32_def)
  ultimately show "u32be (be32 s) = take 4 s" by (intro be32_inject) (use assms in simp_all)
qed

text \<open>Reading the chunk at the head of some bytes, and the other way round.\<close>

lemma read_encoded:
  assumes "chunk_ok c"
  shows "chunk_size (encode_chunk c @ s) = length (snd c)" "chunk_type (encode_chunk c @ s) = fst c"
    "chunk_content (encode_chunk c @ s) = fst c @ snd c" "chunk_crc (encode_chunk c @ s) = crc32 (fst c @ snd c)"
    "drop (12 + length (snd c)) (encode_chunk c @ s) = s" "length (encode_chunk c @ s) = 12 + length (snd c) + length s"
proof -
  have c: "length (fst c) = 4" "length (snd c) < 2 ^ 32" using assms by (simp_all add: chunk_ok_def)
  show size: "chunk_size (encode_chunk c @ s) = length (snd c)"
    using c(2) by (simp add: chunk_size_def encode_chunk_def be32_u32be)
  show "chunk_type (encode_chunk c @ s) = fst c" "chunk_content (encode_chunk c @ s) = fst c @ snd c"
    using c(1) by (simp_all add: chunk_type_def chunk_content_def size) (simp_all add: encode_chunk_def)
  have "crc32 (fst c @ snd c) < 2 ^ 32"
    unfolding crc32_def by (rule order_less_le_trans [OF unsigned_less]) simp
  then show "chunk_crc (encode_chunk c @ s) = crc32 (fst c @ snd c)"
    using c(1) by (simp add: chunk_crc_def size) (simp add: encode_chunk_def be32_u32be)
  show "drop (12 + length (snd c)) (encode_chunk c @ s) = s" "length (encode_chunk c @ s) = 12 + length (snd c) + length s"
    using c(1) by (simp_all add: encode_chunk_def)
qed

lemma encoded_read:
  assumes "12 \<le> length rest" "chunk_size rest \<le> length rest - 12" "crc32 (chunk_content rest) = chunk_crc rest"
    and "list_all letter (chunk_type rest)"
  shows "\<exists>c. chunk_ok c \<and> fst c = chunk_type rest \<and> rest = encode_chunk c @ drop (12 + chunk_size rest) rest \<and>
    length (snd c) = chunk_size rest"
proof -
  let ?n = "chunk_size rest"
  define c where "c = (chunk_type rest, take ?n (drop 8 rest))"
  have l: "length (fst c) = 4" "length (snd c) = ?n" using assms(1,2) by (simp_all add: c_def chunk_type_def)
  have n: "u32be ?n = take 4 rest" "?n < 2 ^ 32"
    using u32be_be32 [of rest] assms(1) by (simp_all add: chunk_size_def)
  have content: "chunk_content rest = fst c @ snd c"
    by (simp only: c_def chunk_content_def chunk_type_def take_add drop_drop fst_conv snd_conv) simp
  have "u32be (crc32 (fst c @ snd c)) = take 4 (drop (8 + ?n) rest)"
    using assms(1-3) u32be_be32 [of "drop (8 + ?n) rest"] by (simp add: content chunk_crc_def)
  then have "encode_chunk c = take 4 rest @ take 4 (drop 4 rest) @ take ?n (drop 8 rest) @ take 4 (drop (8 + ?n) rest)"
    by (simp add: encode_chunk_def l n(1)) (simp add: c_def chunk_type_def)
  also have "\<dots> = take (4 + (4 + (?n + 4))) rest"
    by (simp only: take_add drop_drop) (simp add: add.commute)
  finally have "rest = encode_chunk c @ drop (12 + ?n) rest" by (simp add: add.commute)
  moreover have "chunk_ok c" using l n(2) assms(4) by (simp add: chunk_ok_def c_def)
  ultimately show ?thesis using l(2) by (intro exI [of _ c]) (simp add: c_def)
qed

section \<open>The grammar of accepted files\<close>

definition after_header :: "bool \<Rightarrow> string \<Rightarrow> bool" where
  \<comment> \<open>any chunks but further headers, animation and unknown critical ones, some of them data, then the end chunk\<close>
  "after_header data rest \<longleftrightarrow>
     (\<exists>cs. rest = concat (map encode_chunk cs) @ encode_chunk (''IEND'', []) \<and> (\<forall>c \<in> set cs. middle_chunk c) \<and>
        (data \<or> ''IDAT'' \<in> fst ` set cs))"

definition well_formed_png :: "string \<Rightarrow> bool" where
  "well_formed_png png \<longleftrightarrow>
     (\<exists>sig header rest. png = sig @ encode_chunk (''IHDR'', header) @ rest \<and> length sig = 8 \<and> length header = 13 \<and>
        after_header False rest)"

abbreviation reading :: "bool \<Rightarrow> png_state" where
  "reading data \<equiv> \<lparr>pn_ihdr = True, pn_idat = data, pn_iend = False\<rparr>"

lemma encode_nonempty [simp]: "encode_chunk c \<noteq> []"
  by (simp add: encode_chunk_def u32be_def Let_def)

lemma length_encoded: "chunk_ok c \<Longrightarrow> length (encode_chunk c) = 12 + length (snd c)"
  using read_encoded(6) [of c "[]"] by simp

lemma scan_encoded:
  assumes "chunk_ok c"
  shows "scan_chunks offset (encode_chunk c @ s) st =
    (case enter_chunk offset (encode_chunk c @ s) st of
       Inl e \<Rightarrow> Inl e
     | Inr t \<Rightarrow> if pn_iend t then end_chunks t else scan_chunks (offset + 12 + length (snd c)) s t)"
proof -
  have "list_all letter (fst c)" using assms by (simp add: chunk_ok_def)
  then show ?thesis
    unfolding scan_chunks.simps [of offset "encode_chunk c @ s" st] read_encoded [OF assms]
    by simp
qed

lemma scan_Inr:
  assumes "scan_chunks offset rest st = Inr ()" "rest \<noteq> []"
  shows "\<exists>c s. chunk_ok c \<and> rest = encode_chunk c @ s"
proof -
  have "12 \<le> length rest" "chunk_size rest \<le> length rest - 12" "crc32 (chunk_content rest) = chunk_crc rest"
    "list_all letter (chunk_type rest)"
    using assms(1) unfolding scan_chunks.simps [of offset rest st] by (simp_all add: assms(2) split: if_split_asm)
  then show ?thesis using encoded_read by blast
qed

lemma enter_encoded:
  assumes "chunk_ok c"
  shows "enter_chunk offset (encode_chunk c @ s) (reading b) =
    (if fst c = ''IHDR'' then Inl BadTexture
     else if fst c = ''IDAT'' then Inr (reading True)
     else if fst c = ''IEND'' then
       (if \<not> b \<or> snd c \<noteq> [] \<or> s \<noteq> [] then Inl BadTexture else Inr \<lparr>pn_ihdr = True, pn_idat = True, pn_iend = True\<rparr>)
     else if fst c \<in> {''acTL'', ''fcTL'', ''fdAT''} then Inl Animated
     else if is_upper (hd (fst c)) \<and> fst c \<noteq> ''PLTE'' then Inl CriticalChunk
     else Inr (reading b))"
  using assms by (simp add: enter_chunk_def Let_def read_encoded length_encoded)

lemma scan_middle_step:
  assumes "chunk_ok c"
  shows "scan_chunks offset (encode_chunk c @ s) (reading b) = Inr () \<longleftrightarrow>
    (if c = (''IEND'', []) then b \<and> s = []
     else middle_chunk c \<and> scan_chunks (offset + 12 + length (snd c)) s (reading (b \<or> fst c = ''IDAT'')) = Inr ())"
  using assms
  by (simp add: scan_encoded enter_encoded middle_chunk_def end_chunks_def prod_eq_iff is_upper_def byte_in_def
      less_eq_char_def)

lemma scan_middle:
  "scan_chunks offset rest (reading b) = Inr () \<longleftrightarrow> after_header b rest"
proof (induction "length rest" arbitrary: offset rest b rule: less_induct)
  case less
  have iend: "chunk_ok (''IEND'', [])" by (simp add: chunk_ok_def letter_def is_upper_def byte_in_def less_eq_char_def)
  show ?case
  proof (cases "\<exists>c s. chunk_ok c \<and> rest = encode_chunk c @ s")
    case False
    have "\<not> after_header b rest"
    proof
      assume "after_header b rest"
      then obtain cs where cs: "rest = concat (map encode_chunk cs) @ encode_chunk (''IEND'', [])" "\<forall>c \<in> set cs. middle_chunk c"
        by (auto simp: after_header_def)
      have "\<exists>c s. chunk_ok c \<and> rest = encode_chunk c @ s"
      proof (cases cs)
        case Nil
        then have "rest = encode_chunk (''IEND'', []) @ []" using cs(1) by simp
        then show ?thesis using iend by blast
      next
        case (Cons d ds)
        then have "chunk_ok d" "rest = encode_chunk d @ concat (map encode_chunk ds) @ encode_chunk (''IEND'', [])"
          using cs by (simp_all add: middle_chunk_def)
        then show ?thesis by blast
      qed
      then show False using False by blast
    qed
    moreover have "scan_chunks offset rest (reading b) \<noteq> Inr ()"
    proof (cases "rest = []")
      case True
      then show ?thesis by (simp add: scan_chunks.simps end_chunks_def)
    qed (use scan_Inr False in blast)
    ultimately show ?thesis by simp
  next
    case True
    then obtain c s where c: "chunk_ok c" "rest = encode_chunk c @ s" by blast
    have less: "length s < length rest" using read_encoded(6) [OF c(1), of s] by (simp add: c(2))
    note IH = less.hyps [OF less]
    have head: "encode_chunk c @ s = encode_chunk d @ t \<Longrightarrow> c = d \<and> s = t" if "chunk_ok d" for d t
      using read_encoded [OF c(1), of s] read_encoded [OF that, of t]
      by (metis append_eq_append_conv prod_eq_iff same_append_eq)
    show ?thesis
    proof (cases "c = (''IEND'', [])")
      case True
      have "after_header b rest \<longleftrightarrow> b \<and> s = []"
      proof
        assume "after_header b rest"
        then obtain cs where cs: "rest = concat (map encode_chunk cs) @ encode_chunk (''IEND'', [])"
            "\<forall>c \<in> set cs. middle_chunk c" "b \<or> ''IDAT'' \<in> fst ` set cs" by (auto simp: after_header_def)
        have "cs = []"
        proof (cases cs)
          case (Cons d ds)
          then have "middle_chunk d" using cs(2) by simp
          moreover then have "c = d" using head [of d] cs(1) c(2) Cons by (auto simp: middle_chunk_def)
          ultimately show ?thesis using True by (auto simp: middle_chunk_def)
        qed
        then show "b \<and> s = []" using cs c(2) True head [OF iend, of "[]"] by simp
      next
        assume "b \<and> s = []"
        then show "after_header b rest" using c(2) True unfolding after_header_def by (intro exI [of _ "[]"]) simp
      qed
      then show ?thesis using scan_middle_step [OF c(1), of offset s b] True by (simp add: c(2))
    next
      case False
      have "after_header b rest \<longleftrightarrow> middle_chunk c \<and> after_header (b \<or> fst c = ''IDAT'') s"
      proof
        assume "after_header b rest"
        then obtain cs where cs: "rest = concat (map encode_chunk cs) @ encode_chunk (''IEND'', [])"
            "\<forall>c \<in> set cs. middle_chunk c" "b \<or> ''IDAT'' \<in> fst ` set cs" by (auto simp: after_header_def)
        then obtain d ds where d: "cs = d # ds" using head [OF iend, of "[]"] c(2) False by (cases cs) auto
        then have "c = d \<and> s = concat (map encode_chunk ds) @ encode_chunk (''IEND'', [])"
          using head [of d] cs(1,2) c(2) by (auto simp: middle_chunk_def)
        then show "middle_chunk c \<and> after_header (b \<or> fst c = ''IDAT'') s"
          using cs(2,3) d unfolding after_header_def by (auto intro!: exI [of _ ds])
      next
        assume r: "middle_chunk c \<and> after_header (b \<or> fst c = ''IDAT'') s"
        then obtain cs where cs: "s = concat (map encode_chunk cs) @ encode_chunk (''IEND'', [])"
            "\<forall>c \<in> set cs. middle_chunk c" "(b \<or> fst c = ''IDAT'') \<or> ''IDAT'' \<in> fst ` set cs" by (auto simp: after_header_def)
        then show "after_header b rest"
          using r c(2) unfolding after_header_def by (intro exI [of _ "c # cs"]) auto
      qed
      then show ?thesis using scan_middle_step [OF c(1), of offset s b] False IH by (simp add: c(2))
    qed
  qed
qed

section \<open>Properties\<close>

lemma enter_first:
  assumes "chunk_ok c"
  shows "enter_chunk 8 (encode_chunk c @ s) no_chunks = Inr t \<Longrightarrow>
    (fst c = ''IHDR'' \<and> length (snd c) = 13 \<and> t = reading False) \<or> (fst c \<noteq> ''IHDR'' \<and> t = no_chunks)"
  using assms
  by (auto simp: enter_chunk_def Let_def read_encoded length_encoded no_chunks_def split: if_split_asm)

lemma scan_headless:
  "8 < offset \<Longrightarrow> scan_chunks offset rest no_chunks \<noteq> Inr ()"
proof (induction "length rest" arbitrary: offset rest rule: less_induct)
  case less
  show ?case
  proof
    assume a: "scan_chunks offset rest no_chunks = Inr ()"
    have "rest \<noteq> []" using a by (auto simp: scan_chunks.simps end_chunks_def no_chunks_def)
    then obtain c s where c: "chunk_ok c" "rest = encode_chunk c @ s" using scan_Inr [OF a] by blast
    obtain t where t: "enter_chunk offset (encode_chunk c @ s) no_chunks = Inr t"
      using a by (cases "enter_chunk offset (encode_chunk c @ s) no_chunks") (simp_all add: c(2) scan_encoded [OF c(1)])
    then have "t = no_chunks"
      using less.prems c(1)
      by (auto simp: enter_chunk_def Let_def read_encoded length_encoded no_chunks_def split: if_split_asm)
    then have "scan_chunks (offset + 12 + length (snd c)) s no_chunks = Inr ()"
      using a t by (simp add: c(2) scan_encoded [OF c(1)]) (simp add: no_chunks_def)
    moreover have "length s < length rest" using length_encoded [OF c(1)] by (simp add: c(2))
    ultimately show False using less.hyps [of s] less.prems by simp
  qed
qed

lemma validate_chunks_iff:
  "validate_chunks png = Inr () \<longleftrightarrow> well_formed_png png"
proof
  assume a: "validate_chunks png = Inr ()"
  then have scan: "scan_chunks 8 (drop 8 png) no_chunks = Inr ()" by (simp add: validate_chunks_def)
  then have "drop 8 png \<noteq> []" by (auto simp: scan_chunks.simps end_chunks_def no_chunks_def)
  then obtain c s where c: "chunk_ok c" "drop 8 png = encode_chunk c @ s" using scan_Inr [OF scan] by blast
  obtain t where t: "enter_chunk 8 (encode_chunk c @ s) no_chunks = Inr t"
    using scan by (cases "enter_chunk 8 (encode_chunk c @ s) no_chunks") (simp_all add: c(2) scan_encoded [OF c(1)])
  from enter_first [OF c(1) t] show "well_formed_png png"
  proof
    assume h: "fst c = ''IHDR'' \<and> length (snd c) = 13 \<and> t = reading False"
    then have "scan_chunks (20 + length (snd c)) s (reading False) = Inr ()"
      using scan t by (simp add: c(2) scan_encoded [OF c(1)])
    then have "after_header False s" by (simp add: scan_middle)
    moreover have "png = take 8 png @ encode_chunk (''IHDR'', snd c) @ s"
      using append_take_drop_id [of 8 png] c(2) h by (metis prod.collapse)
    moreover have "length (take 8 png) = 8" using \<open>drop 8 png \<noteq> []\<close> by simp
    ultimately show ?thesis using h unfolding well_formed_png_def by blast
  next
    assume "fst c \<noteq> ''IHDR'' \<and> t = no_chunks"
    then have "scan_chunks (20 + length (snd c)) s no_chunks = Inr ()"
      using scan t by (simp add: c(2) scan_encoded [OF c(1)]) (simp add: no_chunks_def)
    then show ?thesis using scan_headless [of "20 + length (snd c)" s] by simp
  qed
next
  assume "well_formed_png png"
  then obtain sig header rest where w: "png = sig @ encode_chunk (''IHDR'', header) @ rest" "length sig = 8"
      "length header = 13" "after_header False rest" by (auto simp: well_formed_png_def)
  let ?c = "(''IHDR'', header)"
  have c: "chunk_ok ?c" using w(3) by (simp add: chunk_ok_def letter_def is_upper_def byte_in_def less_eq_char_def)
  have "enter_chunk 8 (encode_chunk ?c @ rest) no_chunks = Inr (reading False)"
    using w(3) by (simp add: enter_chunk_def Let_def read_encoded [OF c] no_chunks_def)
  then show "validate_chunks png = Inr ()"
    using w scan_middle [of "8 + 12 + length header" rest False]
    by (simp add: validate_chunks_def scan_encoded [OF c])
qed

text \<open>C35: The check of an uploaded PNG accepts exactly one grammar: after the signature one header chunk of 13 bytes,
  then ancillary chunks, palettes and at least one data chunk, then one empty end chunk as the very last bytes, each
  with a correct length and CRC; no second header, no animation, no unknown critical chunk, nothing after the end.\<close>

theorem png_grammar_exact: "validate_chunks png = Inr () \<longleftrightarrow> well_formed_png png"
  by (rule validate_chunks_iff)

lemma process_Inr:
  assumes "process_texture sha lib src kind model = Inr t"
  shows "\<exists>content dw dh pixels out. map_option (take (max_encoded_bytes + 1)) src = Some content \<and>
    length content \<le> max_encoded_bytes \<and> take 8 content = png_signature \<and> validate_chunks content = Inr () \<and>
    valid_geometry kind model dw dh \<and> pl_decode lib content = Some (dw, dh, pixels) \<and>
    pl_encode lib dw dh (map clear_pixel pixels) = Some out \<and> length out \<le> max_encoded_bytes \<and>
    t = \<lparr>tx_png = out, tx_digest = sha out, tx_width = dw, tx_height = dh, tx_kind = kind, tx_model = model\<rparr>"
  using assms
  by (auto simp: process_texture_def split: if_split_asm option.split_asm sum.split_asm)

text \<open>A texture that is stored is one the game can use: it was read whole from a well-formed PNG, is at most
  1024 pixels wide in whole multiples of 64, a cape is half as high as wide, a slim skin is square, a classic skin
  square or half as high, and its digest is that of the bytes that are kept.\<close>

lemma texture_usable:
  assumes "process_texture sha lib src kind model = Inr t"
  shows "(\<exists>content. src = Some content \<and> length content \<le> max_encoded_bytes \<and> well_formed_png content) \<and>
    64 \<le> tx_width t \<and> tx_width t \<le> 1024 \<and> tx_width t mod 64 = 0 \<and>
    (tx_height t = tx_width t \<or> 2 * tx_height t = tx_width t) \<and>
    (tx_kind t = ''cape'' \<longrightarrow> tx_model t = ''classic'' \<and> 2 * tx_height t = tx_width t) \<and>
    (tx_model t = ''slim'' \<longrightarrow> tx_kind t = ''skin'' \<and> tx_height t = tx_width t) \<and>
    tx_digest t = sha (tx_png t) \<and> length (tx_png t) \<le> max_encoded_bytes"
proof -
  obtain content dw dh pixels out where p: "map_option (take (max_encoded_bytes + 1)) src = Some content"
      "length content \<le> max_encoded_bytes" "validate_chunks content = Inr ()" "valid_geometry kind model dw dh"
      "length out \<le> max_encoded_bytes"
      "t = \<lparr>tx_png = out, tx_digest = sha out, tx_width = dw, tx_height = dh, tx_kind = kind, tx_model = model\<rparr>"
    using process_Inr [OF assms] by blast
  obtain s where s: "src = Some s" "content = take (max_encoded_bytes + 1) s" using p(1) by (cases src) auto
  have "content = s" using p(2) s(2) by (cases "length s \<le> max_encoded_bytes") auto
  then have whole: "\<exists>content. src = Some content \<and> length content \<le> max_encoded_bytes \<and> well_formed_png content"
    using s(1) p(2,3) validate_chunks_iff by blast
  have w: "64 \<le> dw" "dw \<le> 1024" "dw mod 64 = 0"
    using p(4) by (auto simp: valid_geometry_def max_dimension_def split: if_split_asm)
  then have d: "dw = 64 * (dw div 64)" by (metis mult_div_mod_eq add.right_neutral)
  have k: "kind = ''skin'' \<or> kind = ''cape''" "model = ''classic'' \<or> model = ''slim''" "kind = ''cape'' \<longrightarrow> model = ''classic''"
    using assms by (auto simp: process_texture_def split: if_split_asm)
  have "kind = ''cape'' \<longrightarrow> dh = 32 * (dw div 64)" "kind \<noteq> ''cape'' \<longrightarrow> dh = 64 * (dw div 64) \<or> model = ''classic'' \<and> dh = 32 * (dw div 64)"
    using p(4) by (auto simp: valid_geometry_def Let_def split: if_split_asm)
  then show ?thesis using whole w d k p(5) by (auto simp: p(6))
qed

definition looks_like :: "pixel \<Rightarrow> pixel \<Rightarrow> bool" where \<comment> \<open>the same pixel, or both fully transparent\<close>
  "looks_like p q \<longleftrightarrow> p = q \<or> snd (snd (snd p)) = 0 \<and> snd (snd (snd q)) = 0"

text \<open>The stored texture depends on the picture only: two uploads whose decoded pictures have the same size and
  look the same pixel by pixel (fully transparent pixels are all alike) are stored as the same bytes with the same
  digest, whatever else the two files contained.\<close>

lemma same_picture_same_texture:
  assumes "process_texture sha lib (Some f) kind model = Inr t" "process_texture sha lib (Some g) kind model = Inr u"
    and "pl_decode lib f = Some (w, h, ps)" "pl_decode lib g = Some (w, h, qs)" "list_all2 looks_like ps qs"
  shows "t = u"
proof -
  have whole: "take (max_encoded_bytes + 1) s = s" if "length (take (max_encoded_bytes + 1) s) \<le> max_encoded_bytes" for s
    using that by (cases "length s \<le> max_encoded_bytes") auto
  have px: "clear_pixel p = clear_pixel q" if "looks_like p q" for p q
    using that by (auto simp: looks_like_def clear_pixel_def split: prod.split)
  have "map clear_pixel ps = map clear_pixel qs"
    using assms(5) by (induction rule: list_all2_induct) (simp_all add: px)
  then show ?thesis
    using process_Inr [OF assms(1)] process_Inr [OF assms(2)] assms(3,4) whole by (auto simp del: take_all_iff)
qed

section \<open>Witnesses\<close>

definition png_sample :: "string \<Rightarrow> string" where
  "png_sample note =
     png_signature @ encode_chunk (''IHDR'', replicate 13 (CHR 0x00)) @
     encode_chunk (''tEXt'', note) @ encode_chunk (''IDAT'', []) @ encode_chunk (''IEND'', [])"

definition library_sample :: "pixel \<Rightarrow> png_library" where
  "library_sample p = \<lparr>pl_config = (\<lambda>_. Some (64, 32)), pl_decode = (\<lambda>s. Some (64, 32, [if length s = 69 then p else (0, 0, 0, 0)])),
     pl_encode = (\<lambda>w h ps. Some (map (\<lambda>(r, g, b, a). char_of (unat r)) ps))\<rparr>"

definition texture_sample :: texture where
  "texture_sample = \<lparr>tx_png = [CHR 0x00], tx_digest = [CHR 0x00], tx_width = 64, tx_height = 32, tx_kind = ''cape'', tx_model = ''classic''\<rparr>"

lemma png_sample_valid: "length note \<le> 9 \<Longrightarrow> validate_chunks (png_sample note) = Inr ()"
proof -
  assume n: "length note \<le> 9"
  have "list_all letter ''tEXt''" "list_all letter ''IDAT''" "\<not> is_upper (CHR ''t'')" by code_simp+
  then have "middle_chunk (''tEXt'', note)" "middle_chunk (''IDAT'', [])" using n by (simp_all add: middle_chunk_def chunk_ok_def)
  then have "after_header False (concat (map encode_chunk [(''tEXt'', note), (''IDAT'', [])]) @ encode_chunk (''IEND'', []))"
    unfolding after_header_def by (intro exI [of _ "[(''tEXt'', note), (''IDAT'', [])]"]) simp
  then have "well_formed_png (png_sample note)"
    unfolding well_formed_png_def png_sample_def
    by (intro exI [of _ png_signature] exI [of _ "replicate 13 (CHR 0x00)"]
        exI [of _ "concat (map encode_chunk [(''tEXt'', note), (''IDAT'', [])]) @ encode_chunk (''IEND'', [])"])
      (simp add: png_signature_def)
  then show ?thesis by (simp only: validate_chunks_iff)
qed

lemma png_sample_processed:
  assumes "length note \<le> 9"
  shows "process_texture id (library_sample (7, 8, 9, 0)) (Some (png_sample note)) ''cape'' ''classic'' = Inr texture_sample"
proof -
  have l: "length (png_sample note) = 69 + length note" "take 8 (png_sample note) = png_signature"
    by (simp_all add: png_sample_def png_signature_def encode_chunk_def)
  have t: "take (max_encoded_bytes + 1) (png_sample note) = png_sample note"
    using l(1) assms by (simp add: max_encoded_bytes_def)
  have g: "valid_geometry ''cape'' ''classic'' 64 32" by (simp add: valid_geometry_def max_dimension_def)
  have c: "map clear_pixel [if b then (7, 8, 9, 0) else (0, 0, 0, 0)] = [(0, 0, 0, 0)]" for b
    by (simp add: clear_pixel_def)
  have e: "pl_encode (library_sample p) w h [(0, 0, 0, 0)] = Some [CHR 0x00]" for p w h
    by (simp add: library_sample_def char_of_def)
  show ?thesis
    using l assms png_sample_valid [OF assms]
    by (simp add: process_texture_def t)
      (simp add: g max_encoded_bytes_def max_dimension_def max_pixels_def library_sample_def clear_pixel_def
        texture_sample_def char_of_def)
qed

end
