(* ===== verification/Cbor.thy ===== *)
theory Cbor
  imports GoWire "HOL-Library.AList"
begin

text \<open>
  The CBOR decoder of the passkey code (\<^verbatim>\<open>webauthn/cbor.go\<close>).  A read takes the bytes that are left and returns
  the rest; nested values are read on fuel, and every level of nesting consumes a byte, so as many levels as there
  are bytes are enough.  A Go map is an association list without duplicate keys, in the order of insertion.
\<close>

section \<open>Values\<close>

datatype cbor =
    CUint nat \<comment> \<open>\<^verbatim>\<open>uint64\<close>\<close>
  | CNegative int \<comment> \<open>\<^verbatim>\<open>int64\<close>, below zero\<close>
  | CBytes string
  | CText string
  | CArray "cbor list"
  | CMap "(cbor \<times> cbor) list"
  | CBool bool
  | CNull

datatype cbor_error =
    CborEnd | CborNegative | CborLength | CborTooLarge | CborKey | CborSimple nat | CborReserved | CborFuel

type_synonym 'a reader = "string \<Rightarrow> cbor_error + 'a \<times> string"

section \<open>Reading\<close>

definition be_value :: "string \<Rightarrow> nat" where
  "be_value s = fold (\<lambda>c n. n * 256 + of_char c) s 0"

definition read_uint :: "nat \<Rightarrow> nat reader" where
  "read_uint k rest = (if length rest < k then Inl CborEnd else Inr (be_value (take k rest), drop k rest))"

definition read_argument :: "nat \<Rightarrow> nat reader" where
  "read_argument ai rest =
     (if ai < 24 then Inr (ai, rest)
      else if ai = 24 then read_uint 1 rest
      else if ai = 25 then read_uint 2 rest
      else if ai = 26 then read_uint 4 rest
      else if ai = 27 then read_uint 8 rest
      else Inl CborReserved)"

fun read_many :: "'a reader \<Rightarrow> nat \<Rightarrow> 'a list reader" where
  "read_many rd 0 rest = Inr ([], rest)"
| "read_many rd (Suc n) rest =
     (case rd rest of
        Inl e \<Rightarrow> Inl e
      | Inr (v, r) \<Rightarrow> (case read_many rd n r of Inl e \<Rightarrow> Inl e | Inr (vs, t) \<Rightarrow> Inr (v # vs, t)))"

definition map_key :: "cbor \<Rightarrow> bool" where
  "map_key k = (case k of CText _ \<Rightarrow> True | CNegative _ \<Rightarrow> True | CUint _ \<Rightarrow> True | _ \<Rightarrow> False)"

definition read_entry :: "cbor reader \<Rightarrow> (cbor \<times> cbor) reader" where
  "read_entry rd rest =
     (case rd rest of
        Inl e \<Rightarrow> Inl e
      | Inr (k, r) \<Rightarrow>
          (case rd r of
             Inl e \<Rightarrow> Inl e
           | Inr (v, t) \<Rightarrow> if map_key k then Inr ((k, v), t) else Inl CborKey))"

definition insert_all :: "(cbor \<times> cbor) list \<Rightarrow> (cbor \<times> cbor) list" where
  "insert_all kvs = fold (\<lambda>(k, v) m. AList.update k v m) kvs []"

definition read_text :: "nat \<Rightarrow> string reader" where
  "read_text n rest = (if n > length rest then Inl CborLength else Inr (take n rest, drop n rest))"

definition map_reader :: "('a \<Rightarrow> 'b) \<Rightarrow> cbor_error + 'a \<times> string \<Rightarrow> cbor_error + 'b \<times> string" where
  "map_reader f r = (case r of Inl e \<Rightarrow> Inl e | Inr (v, rest) \<Rightarrow> Inr (f v, rest))"

definition max_items :: nat where "max_items = 1024"

definition read_body :: "cbor reader \<Rightarrow> nat \<Rightarrow> nat \<Rightarrow> nat \<Rightarrow> cbor reader" where
  \<comment> \<open>the \<^verbatim>\<open>switch\<close> on the major type, after the argument \<open>n\<close> has been read\<close>
  "read_body rd major ai n rest =
     (if major = 0 then Inr (CUint n, rest)
      else if major = 1 then
        (if n > 2 ^ 63 - 1 then Inl CborNegative else Inr (CNegative (- 1 - int n), rest))
      else if major = 2 then map_reader CBytes (read_text n rest)
      else if major = 3 then map_reader CText (read_text n rest)
      else if major = 4 then
        (if n > max_items then Inl CborTooLarge else map_reader CArray (read_many rd n rest))
      else if major = 5 then
        (if n > max_items then Inl CborTooLarge
         else map_reader (\<lambda>kvs. CMap (insert_all kvs)) (read_many (read_entry rd) n rest))
      else if major = 6 then rd rest
      else if ai = 20 then Inr (CBool False, rest)
      else if ai = 21 then Inr (CBool True, rest)
      else if ai = 22 \<or> ai = 23 then Inr (CNull, rest)
      else Inl (CborSimple ai))"

primrec read_cbor :: "nat \<Rightarrow> cbor reader" where
  "read_cbor 0 = (\<lambda>rest. Inl CborFuel)"
| "read_cbor (Suc fuel) =
     (\<lambda>rest. case rest of
        [] \<Rightarrow> Inl CborEnd
      | h # t \<Rightarrow>
          (let major = of_char h div 32; ai = of_char h mod 32
           in case read_argument ai t of
                Inl e \<Rightarrow> Inl e
              | Inr (n, r) \<Rightarrow> read_body (read_cbor fuel) major ai n r))"

definition decode_cbor :: "string \<Rightarrow> cbor_error + cbor \<times> nat" where
  \<comment> \<open>the value and the number of bytes consumed\<close>
  "decode_cbor b =
     (case read_cbor (length b + 1) b of Inl e \<Rightarrow> Inl e | Inr (v, rest) \<Rightarrow> Inr (v, length b - length rest))"

definition int_value :: "cbor option \<Rightarrow> int option" where
  "int_value v =
     (case v of
        Some (CNegative i) \<Rightarrow> Some i
      | Some (CUint n) \<Rightarrow> if n \<le> 2 ^ 63 - 1 then Some (int n) else None
      | _ \<Rightarrow> None)"

section \<open>Self-delimiting readers\<close>

lemma map_reader_Inr: "map_reader f x = Inr (v, r) \<longleftrightarrow> (\<exists>w. x = Inr (w, r) \<and> v = f w)"
  by (auto simp: map_reader_def split: sum.split)

lemma map_reader_Inl [simp]: "map_reader f x = Inl e \<longleftrightarrow> x = Inl e"
  by (auto simp: map_reader_def split: sum.split)

text \<open>
  What every reader of the decoder promises: what it consumed determines the result, whatever follows.
\<close>

locale self_delimiting =
  fixes rd :: "string \<Rightarrow> cbor_error + 'a \<times> string"
  assumes splits: "rd b = Inr (v, r) \<Longrightarrow> \<exists>p. b = p @ r \<and> (\<forall>s. rd (p @ s) = Inr (v, s))"
begin

lemma many: "self_delimiting (read_many rd n)"
proof
  show "\<exists>p. b = p @ r \<and> (\<forall>s. read_many rd n (p @ s) = Inr (v, s))" if "read_many rd n b = Inr (v, r)" for b v r
    using that
  proof (induction n arbitrary: b v)
    case (Suc n)
    then obtain x t xs where x: "rd b = Inr (x, t)" "read_many rd n t = Inr (xs, r)" "v = x # xs"
      by (auto split: sum.split_asm)
    obtain p where p: "b = p @ t" "\<And>s. rd (p @ s) = Inr (x, s)" using splits [OF x(1)] by blast
    obtain q where q: "t = q @ r" "\<And>s. read_many rd n (q @ s) = Inr (xs, s)" using Suc.IH [OF x(2)] by blast
    show ?case using p q x(3) by (intro exI [of _ "p @ q"]) simp
  qed simp
qed

lemma mapped: "self_delimiting (\<lambda>b. map_reader f (rd b))"
proof
  show "\<exists>p. b = p @ r \<and> (\<forall>s. map_reader f (rd (p @ s)) = Inr (v, s))" if "map_reader f (rd b) = Inr (v, r)" for b v r
  proof -
    from that obtain x where x: "rd b = Inr (x, r)" "v = f x" by (auto simp: map_reader_Inr)
    obtain p where "b = p @ r" "\<And>s. rd (p @ s) = Inr (x, s)" using splits [OF x(1)] by blast
    then show ?thesis using x(2) by (auto simp: map_reader_Inr)
  qed
qed

lemma shorter: "rd b = Inr (v, r) \<Longrightarrow> length r \<le> length b"
  using splits by fastforce

end

lemma entry_delimiting:
  assumes "self_delimiting rd"
  shows "self_delimiting (read_entry rd)"
proof
  show "\<exists>p. b = p @ r \<and> (\<forall>s. read_entry rd (p @ s) = Inr (kv, s))" if "read_entry rd b = Inr (kv, r)" for b kv r
  proof -
    from that obtain k t v where k: "rd b = Inr (k, t)" "rd t = Inr (v, r)" "map_key k" "kv = (k, v)"
      by (auto simp: read_entry_def split: sum.split_asm if_split_asm)
    obtain p where p: "b = p @ t" "\<And>s. rd (p @ s) = Inr (k, s)" using self_delimiting.splits [OF assms k(1)] by blast
    obtain q where q: "t = q @ r" "\<And>s. rd (q @ s) = Inr (v, s)" using self_delimiting.splits [OF assms k(2)] by blast
    show ?thesis using p q k(3,4) by (intro exI [of _ "p @ q"]) (simp add: read_entry_def)
  qed
qed

lemma take_delimiting: "self_delimiting (\<lambda>b. if length b < n then Inl e else Inr (f (take n b), drop n b))"
proof
  show "\<exists>p. b = p @ r \<and> (\<forall>s. (if length (p @ s) < n then Inl e else Inr (f (take n (p @ s)), drop n (p @ s))) = Inr (v, s))"
    if "(if length b < n then Inl e else Inr (f (take n b), drop n b)) = Inr (v, r)" for b v r
    using that by (intro exI [of _ "take n b"]) (auto split: if_split_asm)
qed

lemma nothing_delimiting: "self_delimiting (\<lambda>b. Inr (v, b))"
  by unfold_locales auto

lemma refuse_delimiting: "self_delimiting (\<lambda>b. Inl e)"
  by unfold_locales simp

lemma if_delimiting:
  "self_delimiting f \<Longrightarrow> self_delimiting g \<Longrightarrow> self_delimiting (\<lambda>b. if c then f b else g b)"
  by (cases c) simp_all

lemma argument_delimiting: "self_delimiting (read_argument ai)"
proof -
  have "self_delimiting (read_uint k)" for k
    using take_delimiting [of k CborEnd be_value] by (simp add: read_uint_def [abs_def])
  then show ?thesis
    unfolding read_argument_def [abs_def] by (intro if_delimiting nothing_delimiting refuse_delimiting)
qed

lemma body_delimiting:
  assumes "self_delimiting rd"
  shows "self_delimiting (read_body rd major ai n)"
proof -
  have t: "self_delimiting (read_text n)"
    using take_delimiting [of n CborLength "\<lambda>x. x"] by (simp add: read_text_def [abs_def])
  note m = self_delimiting.mapped [OF t] self_delimiting.mapped [OF self_delimiting.many [OF assms]]
    self_delimiting.mapped [OF self_delimiting.many [OF entry_delimiting [OF assms]]]
  show ?thesis
    unfolding read_body_def [abs_def] by (intro if_delimiting nothing_delimiting refuse_delimiting m assms)
qed

lemma cbor_delimiting: "self_delimiting (read_cbor fuel)"
proof (induction fuel)
  case (Suc fuel)
  show ?case
  proof
    show "\<exists>p. b = p @ r \<and> (\<forall>s. read_cbor (Suc fuel) (p @ s) = Inr (v, s))" if "read_cbor (Suc fuel) b = Inr (v, r)" for b v r
    proof -
      from that obtain h t n u where h: "b = h # t" "read_argument (of_char h mod 32) t = Inr (n, u)"
        "read_body (read_cbor fuel) (of_char h div 32) (of_char h mod 32) n u = Inr (v, r)"
        by (auto simp: Let_def split: list.split_asm sum.split_asm)
      obtain p where p: "t = p @ u" "\<And>s. read_argument (of_char h mod 32) (p @ s) = Inr (n, s)"
        using self_delimiting.splits [OF argument_delimiting h(2)] by blast
      obtain q where q: "u = q @ r"
        "\<And>s. read_body (read_cbor fuel) (of_char h div 32) (of_char h mod 32) n (q @ s) = Inr (v, s)"
        using self_delimiting.splits [OF body_delimiting [OF Suc.IH] h(3)] by blast
      show ?thesis using h(1) p q by (intro exI [of _ "h # p @ q"]) simp
    qed
  qed
qed (simp add: refuse_delimiting)

interpretation cbor_code: self_delimiting "read_cbor fuel" for fuel
  by (rule cbor_delimiting)

section \<open>Fuel\<close>

definition refines :: "'a reader \<Rightarrow> 'a reader \<Rightarrow> bool" where \<comment> \<open>more fuel: the same result, unless fuel ran out\<close>
  "refines rd rd' \<longleftrightarrow> (\<forall>b. rd b = Inl CborFuel \<or> rd' b = rd b)"

lemma refinesD: "refines rd rd' \<Longrightarrow> rd b \<noteq> Inl CborFuel \<Longrightarrow> rd' b = rd b"
  by (auto simp: refines_def)

lemma refines_many:
  assumes "refines rd rd'"
  shows "refines (read_many rd n) (read_many rd' n)"
proof -
  have "read_many rd n b = Inl CborFuel \<or> read_many rd' n b = read_many rd n b" for b
  proof (induction n arbitrary: b)
    case (Suc n)
    show ?case
    proof (cases "rd b")
      case (Inl e)
      then show ?thesis using refinesD [OF assms, of b] by (cases "e = CborFuel") simp_all
    next
      case (Inr x)
      then show ?thesis using refinesD [OF assms, of b] Suc.IH [of "snd x"] by (cases x) auto
    qed
  qed simp
  then show ?thesis by (simp add: refines_def)
qed

lemma refines_entry:
  assumes "refines rd rd'"
  shows "refines (read_entry rd) (read_entry rd')"
proof -
  have "read_entry rd b = Inl CborFuel \<or> read_entry rd' b = read_entry rd b" for b
  proof (cases "rd b")
    case (Inl e)
    then show ?thesis using refinesD [OF assms, of b] by (cases "e = CborFuel") (simp_all add: read_entry_def)
  next
    case (Inr x)
    then obtain k t where x: "rd b = Inr (k, t)" "rd' b = Inr (k, t)" using refinesD [OF assms, of b] by (cases x) auto
    show ?thesis
      by (cases "rd t = Inl CborFuel") (use refinesD [OF assms, of t] in \<open>auto simp: read_entry_def x\<close>)
  qed
  then show ?thesis by (simp add: refines_def)
qed

lemma refines_mapped: "refines rd rd' \<Longrightarrow> refines (\<lambda>b. map_reader f (rd b)) (\<lambda>b. map_reader f (rd' b))"
  by (auto simp: refines_def)

lemma refines_if: "refines f f' \<Longrightarrow> refines g g' \<Longrightarrow> refines (\<lambda>b. if c then f b else g b) (\<lambda>b. if c then f' b else g' b)"
  by (cases c) simp_all

lemma refines_refl: "refines rd rd"
  by (simp add: refines_def)

lemma refines_body:
  assumes "refines rd rd'"
  shows "refines (read_body rd major ai n) (read_body rd' major ai n)"
proof -
  note m = refines_mapped [OF refines_many [OF assms]] refines_mapped [OF refines_many [OF refines_entry [OF assms]]]
  show ?thesis unfolding read_body_def [abs_def] by (intro refines_if m assms refines_refl)
qed

lemma refines_cbor: "f \<le> g \<Longrightarrow> refines (read_cbor f) (read_cbor g)"
proof (induction f arbitrary: g)
  case (Suc f)
  then obtain g' where g: "g = Suc g'" "f \<le> g'" by (cases g) auto
  have "read_cbor (Suc f) b = Inl CborFuel \<or> read_cbor g b = read_cbor (Suc f) b" for b
  proof (cases "\<exists>h t n u. b = h # t \<and> read_argument (of_char h mod 32) t = Inr (n, u)")
    case True
    then obtain h t n u where h: "b = h # t" "read_argument (of_char h mod 32) t = Inr (n, u)" by blast
    then show ?thesis
      using refinesD [OF refines_body [OF Suc.IH [OF g(2)]], of "of_char h div 32" "of_char h mod 32" n u]
      by (auto simp: g(1) Let_def)
  next
    case False
    then show ?thesis by (auto simp: g(1) Let_def split: list.split sum.split)
  qed
  then show ?case by (simp add: refines_def)
qed (simp add: refines_def)

definition sated :: "nat \<Rightarrow> 'a reader \<Rightarrow> bool" where \<comment> \<open>never out of fuel on so many bytes\<close>
  "sated l rd \<longleftrightarrow> self_delimiting rd \<and> (\<forall>b. length b \<le> l \<longrightarrow> rd b \<noteq> Inl CborFuel)"

lemma sated_many: "sated l rd \<Longrightarrow> sated l (read_many rd n)"
proof -
  assume rd: "sated l rd"
  have "read_many rd n b \<noteq> Inl CborFuel" if "length b \<le> l" for b
    using that
  proof (induction n arbitrary: b)
    case (Suc n)
    show ?case
    proof (cases "rd b")
      case (Inl e)
      then show ?thesis using rd Suc.prems by (auto simp: sated_def)
    next
      case (Inr x)
      then obtain v t where x: "rd b = Inr (v, t)" by (cases x) auto
      then have "length t \<le> l" using rd Suc.prems self_delimiting.shorter [of rd b v t] by (simp add: sated_def)
      then show ?thesis using x Suc.IH [of t] by (auto split: sum.split)
    qed
  qed simp
  then show ?thesis using rd self_delimiting.many by (auto simp: sated_def)
qed

lemma sated_entry: "sated l rd \<Longrightarrow> sated l (read_entry rd)"
proof -
  assume rd: "sated l rd"
  have "read_entry rd b \<noteq> Inl CborFuel" if "length b \<le> l" for b
  proof (cases "rd b")
    case (Inl e)
    then show ?thesis using rd that by (auto simp: sated_def read_entry_def)
  next
    case (Inr x)
    then obtain v t where x: "rd b = Inr (v, t)" by (cases x) auto
    then have "length t \<le> l" using rd that self_delimiting.shorter [of rd b v t] by (simp add: sated_def)
    then have "rd t \<noteq> Inl CborFuel" using rd by (simp add: sated_def)
    then show ?thesis using x by (auto simp: read_entry_def split: sum.split)
  qed
  then show ?thesis using rd entry_delimiting by (auto simp: sated_def)
qed

lemma argument_shorter: "read_argument ai t = Inr (n, u) \<Longrightarrow> length u \<le> length t"
  by (rule self_delimiting.shorter [OF argument_delimiting])

lemma argument_fuel: "read_argument ai t \<noteq> Inl CborFuel"
  by (simp add: read_argument_def read_uint_def)

lemma sated_body: "sated l rd \<Longrightarrow> length u \<le> l \<Longrightarrow> read_body rd major ai n u \<noteq> Inl CborFuel"
  using sated_many [of l rd n] sated_many [OF sated_entry, of l rd n]
  by (simp add: read_body_def read_text_def) (auto simp: sated_def)

lemma sated_cbor: "sated f (read_cbor (Suc f))"
proof (induction f)
  case 0
  have "read_cbor (Suc 0) b \<noteq> Inl CborFuel" if "length b \<le> 0" for b using that by simp
  then show ?case using cbor_delimiting unfolding sated_def by blast
next
  case (Suc f)
  have "read_cbor (Suc (Suc f)) b \<noteq> Inl CborFuel" if l: "length b \<le> Suc f" for b
  proof (cases "\<exists>h t n u. b = h # t \<and> read_argument (of_char h mod 32) t = Inr (n, u)")
    case True
    then obtain h t n u where h: "b = h # t" "read_argument (of_char h mod 32) t = Inr (n, u)" by blast
    have "length u \<le> f" using argument_shorter [OF h(2)] l h(1) by simp
    from sated_body [OF Suc.IH this] show ?thesis
      unfolding read_cbor.simps(2) [of "Suc f"] using h by (simp add: Let_def)
  next
    case False
    then show ?thesis
      unfolding read_cbor.simps(2) [of "Suc f"] using argument_fuel
      by (auto simp: Let_def split: list.split sum.split)
  qed
  then show ?case using cbor_delimiting unfolding sated_def by blast
qed

lemma fuel_agrees:
  assumes "length b < f" "length b < g"
  shows "read_cbor f b = read_cbor g b"
proof -
  let ?n = "Suc (length b)"
  have "read_cbor ?n b \<noteq> Inl CborFuel" using sated_cbor [of "length b"] unfolding sated_def by blast
  then have "read_cbor h b = read_cbor ?n b" if "length b < h" for h
    by (rule refinesD [OF refines_cbor, rotated]) (use that in simp)
  from this [OF assms(1)] this [OF assms(2)] show ?thesis by (rule trans [OF _ sym])
qed

text \<open>The decoder always returns, and what it consumed decodes to the same value on its own, whatever follows.\<close>

lemma decode_returns: "decode_cbor b \<noteq> Inl CborFuel"
proof -
  have "read_cbor (length b + 1) b \<noteq> Inl CborFuel" using sated_cbor [of "length b"] unfolding sated_def by simp
  then show ?thesis by (auto simp: decode_cbor_def split: sum.split)
qed

lemma decode_prefix:
  assumes "decode_cbor b = Inr (v, n)"
  shows "0 < n" "n \<le> length b" "decode_cbor (take n b @ s) = Inr (v, n)"
proof -
  obtain r where r: "read_cbor (length b + 1) b = Inr (v, r)" "n = length b - length r"
    using assms by (auto simp: decode_cbor_def simp del: read_cbor.simps split: sum.split_asm)
  obtain p where p: "b = p @ r" "\<And>s. read_cbor (length b + 1) (p @ s) = Inr (v, s)"
    using cbor_code.splits [OF r(1)] by blast
  have n: "n = length p" "take n b = p" using r(2) p(1) by simp_all
  have "p \<noteq> []"
  proof
    assume "p = []"
    then have "read_cbor (length b + 1) [] = Inr (v, [])" using p(2) [of "[]"] by simp
    then show False by simp
  qed
  then show "0 < n" "n \<le> length b" using n(1) p(1) by simp_all
  define g where "g = Suc (length b + length (p @ s))"
  have "read_cbor g (p @ s) = Inr (v, s)"
    using refinesD [OF refines_cbor, of "length b + 1" g "p @ s"] p(2) [of s] by (simp add: g_def del: read_cbor.simps)
  moreover have "read_cbor g (p @ s) = read_cbor (length (p @ s) + 1) (p @ s)"
    by (rule fuel_agrees) (simp_all add: g_def)
  ultimately have "read_cbor (length (p @ s) + 1) (p @ s) = Inr (v, s)" by (rule trans [OF sym, rotated])
  then have "decode_cbor (p @ s) = Inr (v, length p)"
    unfolding decode_cbor_def by simp
  then show "decode_cbor (take n b @ s) = Inr (v, n)" by (simp add: n(1) p(1))
qed

section \<open>Encoding\<close>

fun be_bytes :: "nat \<Rightarrow> nat \<Rightarrow> string" where
  "be_bytes 0 n = []"
| "be_bytes (Suc k) n = be_bytes k (n div 256) @ [char_of (n mod 256)]"

definition encode_head :: "nat \<Rightarrow> nat \<Rightarrow> string" where
  "encode_head major n =
     (if n < 24 then [char_of (32 * major + n)]
      else if n < 2 ^ 8 then char_of (32 * major + 24) # be_bytes 1 n
      else if n < 2 ^ 16 then char_of (32 * major + 25) # be_bytes 2 n
      else if n < 2 ^ 32 then char_of (32 * major + 26) # be_bytes 4 n
      else char_of (32 * major + 27) # be_bytes 8 n)"

primrec encode_cbor :: "cbor \<Rightarrow> string" where
  "encode_cbor (CUint n) = encode_head 0 n"
| "encode_cbor (CNegative i) = encode_head 1 (nat (- 1 - i))"
| "encode_cbor (CBytes s) = encode_head 2 (length s) @ s"
| "encode_cbor (CText s) = encode_head 3 (length s) @ s"
| "encode_cbor (CArray vs) = encode_head 4 (length vs) @ concat (map encode_cbor vs)"
| "encode_cbor (CMap kvs) =
     encode_head 5 (length kvs) @ concat (map (\<lambda>(k, v). k @ v) (map (map_prod encode_cbor encode_cbor) kvs))"
| "encode_cbor (CBool b) = [if b then CHR 0xF5 else CHR 0xF4]"
| "encode_cbor CNull = [CHR 0xF6]"

primrec good_cbor :: "cbor \<Rightarrow> bool" where
  "good_cbor (CUint n) \<longleftrightarrow> n < 2 ^ 64"
| "good_cbor (CNegative i) \<longleftrightarrow> i < 0 \<and> - (2 ^ 63) \<le> i"
| "good_cbor (CBytes s) \<longleftrightarrow> length s < 2 ^ 64"
| "good_cbor (CText s) \<longleftrightarrow> length s < 2 ^ 64"
| "good_cbor (CArray vs) \<longleftrightarrow> length vs \<le> max_items \<and> list_all id (map good_cbor vs)"
| "good_cbor (CMap kvs) \<longleftrightarrow>
     length kvs \<le> max_items \<and> distinct (map fst kvs) \<and> list_all (\<lambda>k. map_key k) (map fst kvs) \<and>
     list_all (\<lambda>(a, b). a \<and> b) (map (map_prod good_cbor good_cbor) kvs)"
| "good_cbor (CBool b) \<longleftrightarrow> True"
| "good_cbor CNull \<longleftrightarrow> True"

lemma length_be_bytes [simp]: "length (be_bytes k n) = k"
  by (induction k arbitrary: n) auto

lemma be_value_snoc: "be_value (s @ [c]) = be_value s * 256 + of_char c"
  by (simp add: be_value_def)

lemma be_value_bytes: "n < 256 ^ k \<Longrightarrow> be_value (be_bytes k n) = n"
proof (induction k arbitrary: n)
  case (Suc k)
  then have "n div 256 < 256 ^ k" by (simp add: less_mult_imp_div_less mult.commute)
  then show ?case using Suc.IH by (simp add: be_value_snoc)
qed (simp add: be_value_def)

lemma read_head:
  assumes "major < 8" "n < 2 ^ 64"
  shows "\<exists>h t ai. encode_head major n @ s = h # t \<and> of_char h div 32 = major \<and> of_char h mod 32 = ai \<and>
    read_argument ai t = Inr (n, s)"
proof -
  have h: "of_char (char_of (32 * major + a)) div 32 = major \<and> of_char (char_of (32 * major + a)) mod 32 = a"
    if "a < 32" for a :: nat
  proof -
    have "32 * major + a < 256" using assms(1) that by simp
    then show ?thesis using that by simp
  qed
  have r: "read_uint k (be_bytes k n @ s) = Inr (n, s)" if "n < 256 ^ k" for k
    using be_value_bytes [OF that] by (simp add: read_uint_def)
  consider "n < 24" | "\<not> n < 24" "n < 2 ^ 8" | "\<not> n < 2 ^ 8" "n < 2 ^ 16" | "\<not> n < 2 ^ 16" "n < 2 ^ 32" | "\<not> n < 2 ^ 32"
    by linarith
  then show ?thesis
  proof cases
    case 1
    then show ?thesis using h [of n] by (simp add: encode_head_def read_argument_def)
  next
    case 2
    then show ?thesis using h [of 24] r [of 1] by (simp add: encode_head_def read_argument_def del: be_bytes.simps)
  next
    case 3
    then have "\<not> n < 24" by simp
    then show ?thesis using 3 h [of 25] r [of 2] by (simp add: encode_head_def read_argument_def del: be_bytes.simps)
  next
    case 4
    then have "\<not> n < 24" "\<not> n < 2 ^ 8" by simp_all
    then show ?thesis using 4 h [of 26] r [of 4] by (simp add: encode_head_def read_argument_def del: be_bytes.simps)
  next
    case 5
    then have "\<not> n < 24" "\<not> n < 2 ^ 8" "\<not> n < 2 ^ 16" by simp_all
    then show ?thesis using 5 assms(2) h [of 27] r [of 8] by (simp add: encode_head_def read_argument_def del: be_bytes.simps)
  qed
qed

lemma read_cbor_head:
  assumes "major < 8" "n < 2 ^ 64"
  shows "\<exists>ai. read_cbor (Suc f) (encode_head major n @ s) = read_body (read_cbor f) major ai n s"
proof -
  obtain h t ai where "encode_head major n @ s = h # t" "of_char h div 32 = major" "of_char h mod 32 = ai"
    "read_argument ai t = Inr (n, s)" using read_head [OF assms] by blast
  then show ?thesis by (auto simp: Let_def)
qed

lemma head_nonempty: "1 \<le> length (encode_head major n)"
  by (simp add: encode_head_def)

lemma read_many_encoded:
  assumes "\<And>v s. v \<in> set vs \<Longrightarrow> length (enc v @ s) < f \<Longrightarrow> rd (enc v @ s) = Inr (v, s)"
    and "length (concat (map enc vs) @ s) < f"
  shows "read_many rd (length vs) (concat (map enc vs) @ s) = Inr (vs, s)"
  using assms
proof (induction vs)
  case (Cons v vs)
  have "rd (enc v @ (concat (map enc vs) @ s)) = Inr (v, concat (map enc vs) @ s)"
    using Cons.prems by (intro Cons.prems(1)) simp_all
  moreover have "read_many rd (length vs) (concat (map enc vs) @ s) = Inr (vs, s)"
    using Cons.prems by (intro Cons.IH) simp_all
  ultimately show ?case by simp
qed simp

lemma insert_all_distinct: "distinct (map fst kvs) \<Longrightarrow> insert_all kvs = kvs"
proof -
  have "distinct (map fst (m @ kvs)) \<Longrightarrow> fold (\<lambda>(k, v) m. AList.update k v m) kvs m = m @ kvs" for m
  proof (induction kvs arbitrary: m)
    case (Cons kv kvs)
    obtain k v where kv: "kv = (k, v)" by (cases kv)
    have "AList.update k v m = m @ [(k, v)]"
      using Cons.prems by (induction m) (auto simp: kv)
    then show ?case using Cons.IH [of "m @ [kv]"] Cons.prems by (simp add: kv)
  qed simp
  from this [of "[]"] show "distinct (map fst kvs) \<Longrightarrow> insert_all kvs = kvs" by (simp add: insert_all_def)
qed

lemma read_cbor_encoded:
  "good_cbor v \<Longrightarrow> length (encode_cbor v @ s) < f \<Longrightarrow> read_cbor f (encode_cbor v @ s) = Inr (v, s)"
proof (induction v arbitrary: s f)
  case (CArray vs)
  then obtain f' where f: "f = Suc f'" by (cases f) auto
  have l: "length (concat (map encode_cbor vs) @ s) < f'"
    using CArray.prems(2) head_nonempty [of 4 "length vs"] by (simp add: f)
  have n: "length vs < 2 ^ 64" "length vs \<le> max_items" using CArray.prems(1) by (simp_all add: max_items_def)
  have "read_many (read_cbor f') (length vs) (concat (map encode_cbor vs) @ s) = Inr (vs, s)"
    using CArray l by (intro read_many_encoded [where f = f']) (auto simp: list_all_iff)
  then show ?case
    using read_cbor_head [of 4 "length vs" f' "concat (map encode_cbor vs) @ s"] n
    by (auto simp: f read_body_def map_reader_def simp del: read_cbor.simps)
next
  case (CMap kvs)
  then obtain f' where f: "f = Suc f'" by (cases f) auto
  let ?enc = "\<lambda>kv. encode_cbor (fst kv) @ encode_cbor (snd kv)"
  have e: "map (\<lambda>(k, v). k @ v) (map (map_prod encode_cbor encode_cbor) kvs) = map ?enc kvs"
    by (simp add: case_prod_beta comp_def)
  have l: "length (concat (map ?enc kvs) @ s) < f'"
    using CMap.prems(2) head_nonempty [of 5 "length kvs"] by (simp add: f e del: map_map)
  have n: "length kvs < 2 ^ 64" "length kvs \<le> max_items" "insert_all kvs = kvs"
    using CMap.prems(1) insert_all_distinct by (simp_all add: max_items_def)
  have "read_entry (read_cbor f') (?enc kv @ t) = Inr (kv, t)" if "kv \<in> set kvs" "length (?enc kv @ t) < f'" for kv t
  proof -
    have g: "good_cbor (fst kv)" "good_cbor (snd kv)" "map_key (fst kv)"
      using CMap.prems(1) that(1) by (cases kv; fastforce simp: list_all_iff)+
    have "read_cbor f' (encode_cbor (fst kv) @ (encode_cbor (snd kv) @ t)) = Inr (fst kv, encode_cbor (snd kv) @ t)"
      using that g(1) by (intro CMap.IH(1) [of kv]) (simp_all add: fsts.simps prod_set_defs)
    moreover have "read_cbor f' (encode_cbor (snd kv) @ t) = Inr (snd kv, t)"
      using that g(2) by (intro CMap.IH(2) [of kv]) (simp_all add: snds.simps prod_set_defs)
    ultimately show ?thesis using g(3) by (simp add: read_entry_def)
  qed
  then have "read_many (read_entry (read_cbor f')) (length kvs) (concat (map ?enc kvs) @ s) = Inr (kvs, s)"
    using l by (intro read_many_encoded [where f = f']) auto
  then show ?case
    using read_cbor_head [of 5 "length kvs" f' "concat (map ?enc kvs) @ s"] n
    by (auto simp: f e read_body_def map_reader_def simp del: read_cbor.simps map_map)
next
  case (CUint n)
  then obtain f' where f: "f = Suc f'" by (cases f) auto
  then show ?case using read_cbor_head [of 0 n f' s] CUint by (auto simp: read_body_def simp del: read_cbor.simps)
next
  case (CNegative i)
  then obtain f' where f: "f = Suc f'" by (cases f) auto
  have n: "nat (- 1 - i) < 2 ^ 64" "\<not> nat (- 1 - i) > 2 ^ 63 - 1" "- 1 - int (nat (- 1 - i)) = i"
    using CNegative.prems(1) by (simp_all add: nat_less_iff not_less nat_le_iff)
  then show ?case
    using read_cbor_head [of 1 "nat (- 1 - i)" f' s] by (auto simp: f read_body_def simp del: read_cbor.simps)
next
  case (CBytes x)
  then obtain f' where f: "f = Suc f'" by (cases f) auto
  then show ?case
    using read_cbor_head [of 2 "length x" f' "x @ s"] CBytes
    by (auto simp: read_body_def read_text_def map_reader_def simp del: read_cbor.simps)
next
  case (CText x)
  then obtain f' where f: "f = Suc f'" by (cases f) auto
  then show ?case
    using read_cbor_head [of 3 "length x" f' "x @ s"] CText
    by (auto simp: read_body_def read_text_def map_reader_def simp del: read_cbor.simps)
next
  case (CBool b)
  then obtain f' where f: "f = Suc f'" by (cases f) auto
  then show ?case by (simp add: read_argument_def read_body_def Let_def)
next
  case CNull
  then obtain f' where f: "f = Suc f'" by (cases f) auto
  then show ?case by (simp add: read_argument_def read_body_def Let_def)
qed

section \<open>Properties\<close>

lemma decode_encoded:
  assumes "good_cbor v"
  shows "decode_cbor (encode_cbor v @ s) = Inr (v, length (encode_cbor v))"
proof -
  have "read_cbor (length (encode_cbor v @ s) + 1) (encode_cbor v @ s) = Inr (v, s)"
    by (rule read_cbor_encoded [OF assms]) simp
  then show ?thesis unfolding decode_cbor_def by simp
qed

text \<open>C34: The decoder reads back every value it supports from its canonical encoding, whatever bytes follow, and
  reports exactly the bytes of the encoding as consumed.\<close>

theorem cbor_roundtrip:
  assumes "good_cbor v"
  shows "decode_cbor (encode_cbor v @ s) = Inr (v, length (encode_cbor v))"
  by (rule decode_encoded [OF assms])

definition key_sample :: cbor where
  "key_sample = CMap [(CUint 1, CUint 1), (CUint 3, CNegative (-8)), (CNegative (-1), CUint 6),
     (CNegative (-2), CBytes (replicate 32 (CHR ''x'')))]"

lemma key_sample_good: "good_cbor key_sample"
  by (simp add: key_sample_def max_items_def map_key_def)

theorem cbor_roundtrip_witness:
  "decode_cbor (encode_cbor key_sample @ ''more'') = Inr (key_sample, length (encode_cbor key_sample))"
  by (rule cbor_roundtrip [OF key_sample_good])

end
