(* ===== verification/WebAuthn.thy ===== *)
theory WebAuthn
  imports Cbor GoText "HOL-Library.Sublist"
begin

text \<open>
  Passkey ceremonies (\<^verbatim>\<open>webauthn/verify.go\<close>): the checks of the client data, the authenticator data and the
  COSE key, registration and assertion.  Hashing, the signature schemes, the curve test and \<^verbatim>\<open>encoding/json\<close> are
  parameters; base64url is modelled.
\<close>

section \<open>Data\<close>

record client_data =
  cl_type :: string
  cl_challenge :: string
  cl_origin :: string
  cl_cross :: bool

record verify_config =
  vc_rpid :: string
  vc_origins :: "string list"
  vc_challenge :: string
  vc_uv :: bool

record registration =
  rg_credential :: string
  rg_key :: string
  rg_algorithm :: int
  rg_count :: nat
  rg_aaguid :: string
  rg_eligible :: bool
  rg_backed :: bool

record assertion =
  as_count :: nat
  as_eligible :: bool
  as_backed :: bool
  as_verified :: bool

record auth_data =
  ad_flags :: nat
  ad_count :: nat
  ad_aaguid :: string
  ad_credential :: string
  ad_key :: string

datatype public_key = KeyP256 nat nat | KeyRsa nat nat | KeyEd string

datatype webauthn_error =
    BadClientSize | BadClientJson | TrailingClientJson | TypeMismatch | BadChallengeText | ChallengeMismatch | CrossOrigin
  | OriginRefused | AttestationCbor cbor_error | TrailingAttestation | NotAMap | FormatRefused string | NoStatement
  | StatementNotEmpty | NoAuthData | BadAuthData | ShortAuthData | RpMismatch | NoPresence | NoVerification | BadBackupFlags
  | NoAttested | ShortAttested | BadCredentialLength | KeyCbor cbor_error | NoKey | RawIdMismatch | TrailingKey
  | BadAlgorithm int int | BadCurve | BadPoint | BadRsaKey | BadRsaExponent | BadEdKey | BadKeyType int
  | KeyMismatch | BadSignature | EligibilityChanged | CounterNotIncreased

record crypto =
  cr_client :: "string \<Rightarrow> (client_data \<times> bool) option" \<comment> \<open>the first JSON value, and whether nothing follows it\<close>
  cr_sha :: "string \<Rightarrow> string" \<comment> \<open>SHA-256 as 32 bytes\<close>
  cr_on_curve :: "nat \<Rightarrow> nat \<Rightarrow> bool"
  cr_ecdsa :: "nat \<Rightarrow> nat \<Rightarrow> string \<Rightarrow> string \<Rightarrow> bool" \<comment> \<open>key, digest, signature\<close>
  cr_rsa :: "nat \<Rightarrow> nat \<Rightarrow> string \<Rightarrow> string \<Rightarrow> bool"
  cr_ed25519 :: "string \<Rightarrow> string \<Rightarrow> string \<Rightarrow> bool" \<comment> \<open>key, message, signature\<close>

section \<open>base64url\<close>

definition base64_value :: "char \<Rightarrow> nat option" where
  "base64_value c =
     (if is_upper c then Some (of_char c - 65)
      else if is_lower c then Some (of_char c - 71)
      else if is_digit c then Some (of_char c + 4)
      else if c = CHR ''-'' then Some 62
      else if c = CHR ''_'' then Some 63
      else None)"

fun base64_bytes :: "nat list \<Rightarrow> string option" where
  "base64_bytes [] = Some []"
| "base64_bytes [a] = None"
| "base64_bytes [a, b] = Some [char_of (a * 4 + b div 16)]"
| "base64_bytes [a, b, c] = Some [char_of (a * 4 + b div 16), char_of (b mod 16 * 16 + c div 4)]"
| "base64_bytes (a # b # c # d # r) =
     map_option (\<lambda>t. char_of (a * 4 + b div 16) # char_of (b mod 16 * 16 + c div 4) # char_of (c mod 4 * 64 + d) # t)
       (base64_bytes r)"

definition base64url_decode :: "string \<Rightarrow> string option" where
  \<comment> \<open>\<^verbatim>\<open>base64.RawURLEncoding.DecodeString\<close>: line breaks are skipped, trailing bits ignored\<close>
  "base64url_decode s =
     (let vs = map base64_value (filter (\<lambda>c. c \<noteq> CHR 0x0A \<and> c \<noteq> CHR 0x0D) s)
      in if None \<in> set vs then None else base64_bytes (map the vs))"

section \<open>Checks\<close>

definition verify_client_data :: "crypto \<Rightarrow> verify_config \<Rightarrow> string \<Rightarrow> string \<Rightarrow> webauthn_error + unit" where
  "verify_client_data cr cfg raw expected =
     (if raw = [] \<or> length raw > 64 * 1024 then Inl BadClientSize
      else
        (case cr_client cr raw of
           None \<Rightarrow> Inl BadClientJson
         | Some (cd, alone) \<Rightarrow>
             if \<not> alone then Inl TrailingClientJson
             else if cl_type cd \<noteq> expected then Inl TypeMismatch
             else
               (case base64url_decode (cl_challenge cd) of
                  None \<Rightarrow> Inl BadChallengeText
                | Some got \<Rightarrow>
                    if got \<noteq> vc_challenge cfg then Inl ChallengeMismatch
                    else if cl_cross cd then Inl CrossOrigin
                    else if trim_space (cl_origin cd) \<notin> set (vc_origins cfg) then Inl OriginRefused
                    else Inr ())))"

abbreviation flag_up :: nat where "flag_up \<equiv> 1"
abbreviation flag_uv :: nat where "flag_uv \<equiv> 4"
abbreviation flag_be :: nat where "flag_be \<equiv> 8"
abbreviation flag_bs :: nat where "flag_bs \<equiv> 16"
abbreviation flag_at :: nat where "flag_at \<equiv> 64"

definition has_flag :: "nat \<Rightarrow> nat \<Rightarrow> bool" where \<comment> \<open>\<^verbatim>\<open>flags & f != 0\<close> for a power of two\<close>
  "has_flag flags f = odd (flags div f)"

definition attested_data :: "string \<Rightarrow> auth_data \<Rightarrow> webauthn_error + auth_data" where
  "attested_data b p =
     (if \<not> has_flag (ad_flags p) flag_at then Inl NoAttested
      else if length b < 55 then Inl ShortAttested
      else
        (let n = be_value (take 2 (drop 53 b))
         in if n < 1 \<or> n > 1024 \<or> length b < 55 + n then Inl BadCredentialLength
            else
              (case decode_cbor (drop (55 + n) b) of
                 Inl e \<Rightarrow> Inl (KeyCbor e)
               | Inr (_, used) \<Rightarrow>
                   if used < 1 then Inl NoKey
                   else Inr (p\<lparr>ad_aaguid := take 16 (drop 37 b), ad_credential := take n (drop 55 b),
                               ad_key := take used (drop (55 + n) b)\<rparr>))))"

definition parse_auth_data :: "crypto \<Rightarrow> verify_config \<Rightarrow> string \<Rightarrow> bool \<Rightarrow> webauthn_error + auth_data" where
  "parse_auth_data cr cfg b need_attested =
     (if length b < 37 then Inl ShortAuthData
      else if take 32 b \<noteq> cr_sha cr (vc_rpid cfg) then Inl RpMismatch
      else
        (let flags = of_char (b ! 32)
         in if \<not> has_flag flags flag_up then Inl NoPresence
            else if vc_uv cfg \<and> \<not> has_flag flags flag_uv then Inl NoVerification
            else if has_flag flags flag_bs \<and> \<not> has_flag flags flag_be then Inl BadBackupFlags
            else
              (let p = \<lparr>ad_flags = flags, ad_count = be_value (take 4 (drop 33 b)), ad_aaguid = [], ad_credential = [],
                        ad_key = []\<rparr>
               in if \<not> need_attested then Inr p else attested_data b p)))"

definition int_at :: "(cbor \<times> cbor) list \<Rightarrow> cbor \<Rightarrow> int" where
  "int_at m k = (case int_value (map_of m k) of None \<Rightarrow> 0 | Some i \<Rightarrow> i)"

definition bytes_at :: "(cbor \<times> cbor) list \<Rightarrow> cbor \<Rightarrow> string" where
  "bytes_at m k = (case map_of m k of Some (CBytes s) \<Rightarrow> s | _ \<Rightarrow> [])"

definition parse_cose :: "crypto \<Rightarrow> string \<Rightarrow> webauthn_error + int \<times> public_key" where
  "parse_cose cr raw =
     (case decode_cbor raw of
        Inl e \<Rightarrow> Inl (KeyCbor e)
      | Inr (v, used) \<Rightarrow>
          if used \<noteq> length raw then Inl TrailingKey
          else
            (case v of
               CMap m \<Rightarrow>
                 (let kty = int_at m (CUint 1); alg = int_at m (CUint 3);
                      crv = int_at m (CNegative (-1)); b1 = bytes_at m (CNegative (-1));
                      b2 = bytes_at m (CNegative (-2)); b3 = bytes_at m (CNegative (-3))
                  in if kty = 2 then
                       (if alg \<noteq> -7 then Inl (BadAlgorithm kty alg)
                        else if crv \<noteq> 1 then Inl BadCurve
                        else if length b2 \<noteq> 32 \<or> length b3 \<noteq> 32 then Inl BadPoint
                        else if \<not> cr_on_curve cr (be_value b2) (be_value b3) then Inl BadPoint
                        else Inr (alg, KeyP256 (be_value b2) (be_value b3)))
                     else if kty = 3 then
                       (if alg \<noteq> -257 then Inl (BadAlgorithm kty alg)
                        else if length b1 < 256 \<or> b2 = [] \<or> length b2 > 4 then Inl BadRsaKey
                        else if be_value b2 < 3 then Inl BadRsaExponent
                        else Inr (alg, KeyRsa (be_value b1) (be_value b2)))
                     else if kty = 1 then
                       (if alg \<noteq> -8 then Inl (BadAlgorithm kty alg)
                        else if crv \<noteq> 6 \<or> length b2 \<noteq> 32 then Inl BadEdKey
                        else Inr (alg, KeyEd b2))
                     else Inl (BadKeyType kty))
             | _ \<Rightarrow> Inl NotAMap))"

definition verify_signature :: "crypto \<Rightarrow> int \<Rightarrow> public_key \<Rightarrow> string \<Rightarrow> string \<Rightarrow> webauthn_error + unit" where
  "verify_signature cr alg pub data sig =
     (if alg = -7 then
        (case pub of KeyP256 x y \<Rightarrow> if cr_ecdsa cr x y (cr_sha cr data) sig then Inr () else Inl BadSignature | _ \<Rightarrow> Inl KeyMismatch)
      else if alg = -257 then
        (case pub of KeyRsa n e \<Rightarrow> if cr_rsa cr n e (cr_sha cr data) sig then Inr () else Inl BadSignature | _ \<Rightarrow> Inl KeyMismatch)
      else if alg = -8 then
        (case pub of KeyEd k \<Rightarrow> if cr_ed25519 cr k data sig then Inr () else Inl BadSignature | _ \<Rightarrow> Inl KeyMismatch)
      else Inl (BadAlgorithm 0 alg))"

section \<open>Ceremonies\<close>

definition attestation_data :: "cbor \<Rightarrow> webauthn_error + string" where
  \<comment> \<open>the authenticator data of an attestation object of format \<^verbatim>\<open>none\<close>\<close>
  "attestation_data v =
     (case v of
        CMap m \<Rightarrow>
          (let format = (case map_of m (CText ''fmt'') of Some (CText s) \<Rightarrow> s | _ \<Rightarrow> [])
           in if format \<noteq> ''none'' then Inl (FormatRefused format)
              else
                (case map_of m (CText ''attStmt'') of
                   None \<Rightarrow> Inl NoStatement
                 | Some stmt \<Rightarrow>
                     if stmt \<noteq> CMap [] then Inl StatementNotEmpty
                     else
                       (case map_of m (CText ''authData'') of
                          None \<Rightarrow> Inl NoAuthData
                        | Some (CBytes b) \<Rightarrow> Inr b
                        | Some _ \<Rightarrow> Inl BadAuthData)))
      | _ \<Rightarrow> Inl NotAMap)"

definition verify_registration ::
    "crypto \<Rightarrow> verify_config \<Rightarrow> string \<Rightarrow> string \<Rightarrow> string \<Rightarrow> webauthn_error + registration" where
  "verify_registration cr cfg client attestation raw_id =
     (case verify_client_data cr cfg client ''webauthn.create'' of
        Inl e \<Rightarrow> Inl e
      | Inr _ \<Rightarrow>
          (case decode_cbor attestation of
             Inl e \<Rightarrow> Inl (AttestationCbor e)
           | Inr (v, consumed) \<Rightarrow>
               if consumed \<noteq> length attestation then Inl TrailingAttestation
               else
                 (case attestation_data v of
                    Inl e \<Rightarrow> Inl e
                  | Inr b \<Rightarrow>
                      (case parse_auth_data cr cfg b True of
                         Inl e \<Rightarrow> Inl e
                       | Inr p \<Rightarrow>
                           if raw_id \<noteq> ad_credential p then Inl RawIdMismatch
                           else
                             (case parse_cose cr (ad_key p) of
                                Inl e \<Rightarrow> Inl e
                              | Inr (alg, _) \<Rightarrow>
                                  Inr \<lparr>rg_credential = ad_credential p, rg_key = ad_key p, rg_algorithm = alg,
                                       rg_count = ad_count p, rg_aaguid = ad_aaguid p,
                                       rg_eligible = has_flag (ad_flags p) flag_be,
                                       rg_backed = has_flag (ad_flags p) flag_bs\<rparr>)))))"

definition verify_assertion ::
    "crypto \<Rightarrow> verify_config \<Rightarrow> string \<Rightarrow> string \<Rightarrow> string \<Rightarrow> string \<Rightarrow> nat \<Rightarrow> bool \<Rightarrow> webauthn_error + assertion" where
  "verify_assertion cr cfg client auth sig key stored eligible =
     (case verify_client_data cr cfg client ''webauthn.get'' of
        Inl e \<Rightarrow> Inl e
      | Inr _ \<Rightarrow>
          (case parse_auth_data cr cfg auth False of
             Inl e \<Rightarrow> Inl e
           | Inr p \<Rightarrow>
               (case parse_cose cr key of
                  Inl e \<Rightarrow> Inl e
                | Inr (alg, pub) \<Rightarrow>
                    (case verify_signature cr alg pub (auth @ cr_sha cr client) sig of
                       Inl e \<Rightarrow> Inl e
                     | Inr _ \<Rightarrow>
                         if has_flag (ad_flags p) flag_be \<noteq> eligible then Inl EligibilityChanged
                         else if \<not> eligible \<and> stored \<noteq> 0 \<and> ad_count p \<noteq> 0 \<and> ad_count p \<le> stored then Inl CounterNotIncreased
                         else Inr \<lparr>as_count = ad_count p, as_eligible = has_flag (ad_flags p) flag_be,
                                   as_backed = has_flag (ad_flags p) flag_bs,
                                   as_verified = has_flag (ad_flags p) flag_uv\<rparr>))))"

section \<open>What the checks establish\<close>

lemma client_data_ok:
  assumes "verify_client_data cr cfg raw ty = Inr u"
  obtains cd where "cr_client cr raw = Some (cd, True)" "cl_type cd = ty"
    "base64url_decode (cl_challenge cd) = Some (vc_challenge cfg)" "\<not> cl_cross cd"
    "trim_space (cl_origin cd) \<in> set (vc_origins cfg)"
  using assms that unfolding verify_client_data_def
  by (auto split: if_split_asm option.split_asm prod.split_asm)

lemma attested_ok:
  assumes "attested_data b p = Inr q"
  shows "ad_flags q = ad_flags p" "ad_count q = ad_count p" "1 \<le> length (ad_credential q)"
    "length (ad_credential q) \<le> 1024" "\<exists>v. decode_cbor (ad_key q) = Inr (v, length (ad_key q))"
proof -
  define n where "n = be_value (take 2 (drop 53 b))"
  from assms have n: "1 \<le> n" "n \<le> 1024" "55 + n \<le> length b"
    by (auto simp: attested_data_def n_def Let_def split: if_split_asm)
  from assms obtain v used where d: "decode_cbor (drop (55 + n) b) = Inr (v, used)"
    and q: "q = p\<lparr>ad_aaguid := take 16 (drop 37 b), ad_credential := take n (drop 55 b), ad_key := take used (drop (55 + n) b)\<rparr>"
    by (auto simp: attested_data_def n_def Let_def split: if_split_asm sum.split_asm prod.split_asm)
  show "ad_flags q = ad_flags p" "ad_count q = ad_count p" by (simp_all add: q)
  have l: "length (ad_credential q) = n" using n by (simp add: q)
  show "1 \<le> length (ad_credential q)" "length (ad_credential q) \<le> 1024" using n by (simp_all only: l)
  have k: "ad_key q = take used (drop (55 + n) b)" by (simp add: q)
  have len: "length (ad_key q) = used" using decode_prefix(2) [OF d] by (simp add: k)
  have "decode_cbor (ad_key q) = Inr (v, used)" using decode_prefix(3) [OF d, of "[]"] by (simp add: k)
  then show "\<exists>v. decode_cbor (ad_key q) = Inr (v, length (ad_key q))" by (auto simp: len)
qed

definition auth_flags :: "string \<Rightarrow> nat" where
  "auth_flags b = of_char (b ! 32)"

definition auth_counter :: "string \<Rightarrow> nat" where
  "auth_counter b = be_value (take 4 (drop 33 b))"

definition auth_accepted :: "crypto \<Rightarrow> verify_config \<Rightarrow> string \<Rightarrow> bool" where
  \<comment> \<open>the authenticator data is for this relying party and its flags are in order\<close>
  "auth_accepted cr cfg b =
     (37 \<le> length b \<and> take 32 b = cr_sha cr (vc_rpid cfg) \<and> has_flag (auth_flags b) flag_up \<and>
      (vc_uv cfg \<longrightarrow> has_flag (auth_flags b) flag_uv) \<and>
      (has_flag (auth_flags b) flag_bs \<longrightarrow> has_flag (auth_flags b) flag_be))"

lemma parse_auth_plain:
  "parse_auth_data cr cfg b False = Inr p \<longleftrightarrow>
     auth_accepted cr cfg b \<and>
     p = \<lparr>ad_flags = auth_flags b, ad_count = auth_counter b, ad_aaguid = [], ad_credential = [], ad_key = []\<rparr>"
  unfolding parse_auth_data_def auth_accepted_def Let_def auth_flags_def auth_counter_def by auto

lemma parse_auth_attested:
  assumes "parse_auth_data cr cfg b True = Inr q"
  shows "auth_accepted cr cfg b" "ad_flags q = auth_flags b" "ad_count q = auth_counter b"
    "1 \<le> length (ad_credential q)" "length (ad_credential q) \<le> 1024"
    "\<exists>v. decode_cbor (ad_key q) = Inr (v, length (ad_key q))"
proof -
  let ?p = "\<lparr>ad_flags = auth_flags b, ad_count = auth_counter b, ad_aaguid = [], ad_credential = [], ad_key = []\<rparr>"
  from assms show "auth_accepted cr cfg b"
    unfolding parse_auth_data_def auth_accepted_def Let_def auth_flags_def by (auto split: if_split_asm)
  from assms have a: "attested_data b ?p = Inr q"
    unfolding parse_auth_data_def Let_def auth_flags_def auth_counter_def by (simp split: if_split_asm)
  show "ad_flags q = auth_flags b" "ad_count q = auth_counter b"
    using attested_ok(1,2) [OF a] by simp_all
  show "1 \<le> length (ad_credential q)" "length (ad_credential q) \<le> 1024"
    "\<exists>v. decode_cbor (ad_key q) = Inr (v, length (ad_key q))"
    by (rule attested_ok [OF a])+
qed

definition signature_valid :: "crypto \<Rightarrow> public_key \<Rightarrow> string \<Rightarrow> string \<Rightarrow> bool" where
  "signature_valid cr k data sig =
     (case k of KeyP256 x y \<Rightarrow> cr_ecdsa cr x y (cr_sha cr data) sig
              | KeyRsa n e \<Rightarrow> cr_rsa cr n e (cr_sha cr data) sig
              | KeyEd q \<Rightarrow> cr_ed25519 cr q data sig)"

lemma cose_kinds:
  assumes "parse_cose cr raw = Inr (alg, k)"
  obtains (ec) x y where "alg = -7" "k = KeyP256 x y" "cr_on_curve cr x y"
  | (rsa) n e where "alg = -257" "k = KeyRsa n e" "3 \<le> e"
  | (ed) q where "alg = -8" "k = KeyEd q" "length q = 32"
  using assms that unfolding parse_cose_def Let_def
  by (auto split: if_split_asm sum.split_asm prod.split_asm cbor.split_asm)

lemma signature_of_key:
  "parse_cose cr raw = Inr (alg, k) \<Longrightarrow>
     verify_signature cr alg k data sig = (if signature_valid cr k data sig then Inr () else Inl BadSignature)"
  by (erule cose_kinds) (simp_all add: verify_signature_def signature_valid_def)

lemma registration_ok:
  assumes "verify_registration cr cfg client att raw = Inr r"
  obtains b p k where "verify_client_data cr cfg client ''webauthn.create'' = Inr ()"
    "parse_auth_data cr cfg b True = Inr p" "raw = ad_credential p" "parse_cose cr (ad_key p) = Inr (rg_algorithm r, k)"
    "r = \<lparr>rg_credential = ad_credential p, rg_key = ad_key p, rg_algorithm = rg_algorithm r, rg_count = ad_count p,
          rg_aaguid = ad_aaguid p, rg_eligible = has_flag (ad_flags p) flag_be, rg_backed = has_flag (ad_flags p) flag_bs\<rparr>"
  using assms that unfolding verify_registration_def
  by (auto split: if_split_asm sum.split_asm prod.split_asm)

lemma assertion_ok:
  "verify_assertion cr cfg client auth sig key stored eligible = Inr a \<longleftrightarrow>
     verify_client_data cr cfg client ''webauthn.get'' = Inr () \<and> auth_accepted cr cfg auth \<and>
     (\<exists>alg k. parse_cose cr key = Inr (alg, k) \<and> signature_valid cr k (auth @ cr_sha cr client) sig) \<and>
     has_flag (auth_flags auth) flag_be = eligible \<and>
     (eligible \<or> stored = 0 \<or> auth_counter auth = 0 \<or> stored < auth_counter auth) \<and>
     a = \<lparr>as_count = auth_counter auth, as_eligible = has_flag (auth_flags auth) flag_be,
          as_backed = has_flag (auth_flags auth) flag_bs, as_verified = has_flag (auth_flags auth) flag_uv\<rparr>"
  (is "?L \<longleftrightarrow> ?R")
proof
  assume ?L
  then obtain p alg k where c: "verify_client_data cr cfg client ''webauthn.get'' = Inr ()"
    and p: "parse_auth_data cr cfg auth False = Inr p" and k: "parse_cose cr key = Inr (alg, k)"
    and s: "verify_signature cr alg k (auth @ cr_sha cr client) sig = Inr ()"
    and r: "has_flag (ad_flags p) flag_be = eligible" "\<not> (\<not> eligible \<and> stored \<noteq> 0 \<and> ad_count p \<noteq> 0 \<and> ad_count p \<le> stored)"
      "a = \<lparr>as_count = ad_count p, as_eligible = has_flag (ad_flags p) flag_be, as_backed = has_flag (ad_flags p) flag_bs,
            as_verified = has_flag (ad_flags p) flag_uv\<rparr>"
    unfolding verify_assertion_def by (auto split: if_split_asm sum.split_asm prod.split_asm)
  have "signature_valid cr k (auth @ cr_sha cr client) sig"
    using s unfolding signature_of_key [OF k] by (simp split: if_split_asm)
  then show ?R using c p k r unfolding parse_auth_plain by auto
next
  assume r: ?R
  then obtain alg k where k: "parse_cose cr key = Inr (alg, k)" "signature_valid cr k (auth @ cr_sha cr client) sig"
    by blast
  have s: "verify_signature cr alg k (auth @ cr_sha cr client) sig = Inr ()"
    unfolding signature_of_key [OF k(1)] using k(2) by simp
  show ?L using r k(1) s iffD2 [OF parse_auth_plain, OF conjI, OF _ refl, of cr cfg auth]
    unfolding verify_assertion_def by auto
qed

section \<open>Properties\<close>

text \<open>C29: An accepted assertion was made for this challenge, from an allowed origin and not across origins, by an
  authenticator for this relying party with the user present (and verified where required), and its signature over the
  authenticator data and the hash of the client data verifies under the stored key; the counter of a key that cannot be
  backed up has grown, unless either counter is zero.\<close>

theorem assertion_sound:
  assumes "verify_assertion cr cfg client auth sig key stored eligible = Inr a"
  shows "\<exists>cd alg k. cr_client cr client = Some (cd, True) \<and> cl_type cd = ''webauthn.get'' \<and>
      base64url_decode (cl_challenge cd) = Some (vc_challenge cfg) \<and> \<not> cl_cross cd \<and>
      trim_space (cl_origin cd) \<in> set (vc_origins cfg) \<and> take 32 auth = cr_sha cr (vc_rpid cfg) \<and>
      has_flag (auth_flags auth) flag_up \<and> (vc_uv cfg \<longrightarrow> as_verified a) \<and>
      parse_cose cr key = Inr (alg, k) \<and> signature_valid cr k (auth @ cr_sha cr client) sig \<and>
      as_eligible a = eligible \<and>
      (\<not> eligible \<longrightarrow> stored = 0 \<or> as_count a = 0 \<or> stored < as_count a)"
proof -
  note a = assms [unfolded assertion_ok]
  from a have "verify_client_data cr cfg client ''webauthn.get'' = Inr ()" by blast
  then obtain cd where "cr_client cr client = Some (cd, True)" "cl_type cd = ''webauthn.get''"
    "base64url_decode (cl_challenge cd) = Some (vc_challenge cfg)" "\<not> cl_cross cd"
    "trim_space (cl_origin cd) \<in> set (vc_origins cfg)"
    by (rule client_data_ok)
  with a show ?thesis unfolding auth_accepted_def by auto
qed

definition sample_key :: string where
  "sample_key = encode_cbor key_sample"

definition sample_auth :: "nat \<Rightarrow> nat \<Rightarrow> string" where
  "sample_auth flags n = replicate 32 (CHR ''h'') @ [char_of flags] @ be_bytes 4 n"

definition sample_attestation :: string where
  "sample_attestation = encode_cbor (CMap [(CText ''fmt'', CText ''none''), (CText ''attStmt'', CMap []),
     (CText ''authData'', CBytes (sample_auth 69 5 @ replicate 16 (CHR 0x00) @ be_bytes 2 3 @ ''key'' @ sample_key))])"

definition sample_client :: "string \<Rightarrow> client_data" where
  "sample_client ty = \<lparr>cl_type = ty, cl_challenge = ''YWJj'', cl_origin = ''https://app'', cl_cross = False\<rparr>"

definition sample_crypto :: crypto where
  "sample_crypto = \<lparr>cr_client = (\<lambda>raw. if raw = ''create'' then Some (sample_client ''webauthn.create'', True)
                                  else if raw = ''get'' then Some (sample_client ''webauthn.get'', True) else None),
     cr_sha = (\<lambda>s. replicate 32 (CHR ''h'')), cr_on_curve = (\<lambda>x y. True), cr_ecdsa = (\<lambda>x y d s. False),
     cr_rsa = (\<lambda>n e d s. False), cr_ed25519 = (\<lambda>k m s. s = ''ok'')\<rparr>"

definition sample_config :: verify_config where
  "sample_config = \<lparr>vc_rpid = ''app'', vc_origins = [''https://app''], vc_challenge = ''abc'', vc_uv = True\<rparr>"

definition sample_assertion :: assertion where
  "sample_assertion = \<lparr>as_count = 6, as_eligible = False, as_backed = False, as_verified = True\<rparr>"

lemma sample_decoded: "decode_cbor sample_key = Inr (key_sample, length sample_key)"
  using decode_encoded [OF key_sample_good, of "[]"] by (simp add: sample_key_def)

lemma sample_key_parsed: "parse_cose sample_crypto sample_key = Inr (-8, KeyEd (replicate 32 (CHR ''x'')))"
  by (simp add: parse_cose_def sample_decoded key_sample_def int_at_def int_value_def bytes_at_def Let_def)

lemma sample_client_ok:
  "verify_client_data sample_crypto sample_config ''get'' ''webauthn.get'' = Inr ()"
  "verify_client_data sample_crypto sample_config ''create'' ''webauthn.create'' = Inr ()"
proof -
  have "base64url_decode ''YWJj'' = Some ''abc''" "trim_space ''https://app'' = ''https://app''" by code_simp+
  then show "verify_client_data sample_crypto sample_config ''get'' ''webauthn.get'' = Inr ()"
    "verify_client_data sample_crypto sample_config ''create'' ''webauthn.create'' = Inr ()"
    by (simp_all add: verify_client_data_def sample_crypto_def sample_config_def sample_client_def)
qed

lemma sample_auth_fields:
  "length (sample_auth f n) = 37" "take 32 (sample_auth f n @ r) = replicate 32 (CHR ''h'')"
  "f < 256 \<Longrightarrow> auth_flags (sample_auth f n @ r) = f" "n < 2 ^ 32 \<Longrightarrow> auth_counter (sample_auth f n @ r) = n"
  by (simp_all add: sample_auth_def auth_flags_def auth_counter_def nth_append be_value_bytes)

lemma sample_auth_accepted:
  "auth_accepted sample_crypto sample_config (sample_auth 5 6)" "auth_flags (sample_auth 5 6) = 5"
  "auth_counter (sample_auth 5 6) = 6"
  using sample_auth_fields(1) [of 5 6] sample_auth_fields(2-4) [of 5 6 "[]"] sample_auth_fields(3) [of 5 6 "[]"]
    sample_auth_fields(4) [of 6 5 "[]"]
  by (simp_all add: auth_accepted_def has_flag_def sample_crypto_def sample_config_def)

lemma sample_signature:
  "signature_valid sample_crypto (KeyEd q) data ''ok''"
  by (simp add: signature_valid_def sample_crypto_def)

lemma sample_assertion_accepted:
  "verify_assertion sample_crypto sample_config ''get'' (sample_auth 5 6) ''ok'' sample_key 5 False = Inr sample_assertion"
  unfolding assertion_ok using sample_key_parsed sample_client_ok(1) sample_signature
  by (auto simp: sample_auth_accepted has_flag_def sample_assertion_def)

theorem assertion_sound_witness:
  "\<exists>cd alg k. cr_client sample_crypto ''get'' = Some (cd, True) \<and> parse_cose sample_crypto sample_key = Inr (alg, k) \<and>
     (5::nat) < as_count sample_assertion"
proof -
  have n: "as_count sample_assertion = 6" by (simp add: sample_assertion_def)
  show ?thesis
    using assertion_sound [OF sample_assertion_accepted] unfolding n by auto
qed

text \<open>C33: An accepted registration answers this challenge from an allowed origin for this relying party, is for the
  credential named in the request, and stores a key that a later assertion can use: for well-formed client and
  authenticator data with the same backup eligibility and a grown counter, the assertion is accepted exactly when the
  signature verifies under the registered key.\<close>

theorem registered_key_signs_in:
  assumes "verify_registration cr cfg client att raw = Inr r"
    and "verify_client_data cr cfg' client' ''webauthn.get'' = Inr ()"
    and "parse_auth_data cr cfg' auth False = Inr p"
    and "has_flag (ad_flags p) flag_be = rg_eligible r" and "rg_count r < ad_count p"
  shows "rg_credential r = raw \<and> 1 \<le> length raw \<and> length raw \<le> 1024 \<and> (rg_backed r \<longrightarrow> rg_eligible r) \<and>
    (\<exists>k. parse_cose cr (rg_key r) = Inr (rg_algorithm r, k) \<and>
      verify_assertion cr cfg' client' auth sig (rg_key r) (rg_count r) (rg_eligible r) =
        (if signature_valid cr k (auth @ cr_sha cr client') sig
         then Inr \<lparr>as_count = ad_count p, as_eligible = rg_eligible r, as_backed = has_flag (ad_flags p) flag_bs,
                   as_verified = has_flag (ad_flags p) flag_uv\<rparr>
         else Inl BadSignature))"
proof -
  obtain b q k where q: "parse_auth_data cr cfg b True = Inr q" "raw = ad_credential q"
    and k: "parse_cose cr (ad_key q) = Inr (rg_algorithm r, k)"
    and r: "r = \<lparr>rg_credential = ad_credential q, rg_key = ad_key q, rg_algorithm = rg_algorithm r,
      rg_count = ad_count q, rg_aaguid = ad_aaguid q, rg_eligible = has_flag (ad_flags q) flag_be,
      rg_backed = has_flag (ad_flags q) flag_bs\<rparr>"
    by (rule registration_ok [OF assms(1)])
  have f: "rg_credential r = ad_credential q" "rg_key r = ad_key q" "rg_eligible r = has_flag (ad_flags q) flag_be"
    "rg_backed r = has_flag (ad_flags q) flag_bs"
    by (subst r, simp)+
  note a = parse_auth_attested [OF q(1)]
  have "rg_credential r = raw \<and> 1 \<le> length raw \<and> length raw \<le> 1024 \<and> (rg_backed r \<longrightarrow> rg_eligible r)"
    using a(1,2,4,5) unfolding f q(2) auth_accepted_def by simp
  moreover have "verify_assertion cr cfg' client' auth sig (rg_key r) (rg_count r) (rg_eligible r) =
        (if signature_valid cr k (auth @ cr_sha cr client') sig
         then Inr \<lparr>as_count = ad_count p, as_eligible = rg_eligible r, as_backed = has_flag (ad_flags p) flag_bs,
                   as_verified = has_flag (ad_flags p) flag_uv\<rparr>
         else Inl BadSignature)"
    using assms(2-5) k unfolding f(2) verify_assertion_def signature_of_key [OF k, folded f(2)]
    by (simp add: signature_of_key [OF k] split: sum.split)
  ultimately show ?thesis using k unfolding f(2) by blast
qed

definition sample_registration :: registration where
  "sample_registration = \<lparr>rg_credential = ''key'', rg_key = sample_key, rg_algorithm = -8, rg_count = 5,
     rg_aaguid = replicate 16 (CHR 0x00), rg_eligible = False, rg_backed = False\<rparr>"

definition sample_attested :: string where
  "sample_attested = sample_auth 69 5 @ replicate 16 (CHR 0x00) @ be_bytes 2 3 @ ''key'' @ sample_key"

lemma sample_attestation_decoded:
  "decode_cbor sample_attestation = Inr (CMap [(CText ''fmt'', CText ''none''), (CText ''attStmt'', CMap []),
     (CText ''authData'', CBytes sample_attested)], length sample_attestation)"
proof -
  have "length sample_attested < 2 ^ 63"
    by (simp add: sample_attested_def sample_auth_def sample_key_def key_sample_def encode_head_def)
  then have "good_cbor (CMap [(CText ''fmt'', CText ''none''), (CText ''attStmt'', CMap []),
     (CText ''authData'', CBytes sample_attested)])"
    by (simp add: max_items_def map_key_def)
  from decode_encoded [OF this, of "[]"] show ?thesis
    by (simp add: sample_attestation_def sample_attested_def)
qed

lemma sample_attested_parsed:
  "parse_auth_data sample_crypto sample_config sample_attested True =
     Inr \<lparr>ad_flags = 69, ad_count = 5, ad_aaguid = replicate 16 (CHR 0x00), ad_credential = ''key'', ad_key = sample_key\<rparr>"
proof -
  have d: "drop 58 sample_attested = sample_key" "take 16 (drop 37 sample_attested) = replicate 16 (CHR 0x00)"
    "take 3 (drop 55 sample_attested) = ''key''" "be_value (take 2 (drop 53 sample_attested)) = 3"
    by (simp_all add: sample_attested_def sample_auth_fields(1) be_value_bytes)
  have e: "auth_flags sample_attested = 69" "auth_counter sample_attested = 5" "take 32 sample_attested = replicate 32 (CHR ''h'')"
    by (simp_all add: sample_attested_def sample_auth_fields(2-4) del: take_append)
  have l: "length sample_attested = 58 + length sample_key"
    by (simp add: sample_attested_def sample_auth_def)
  have k: "0 < length sample_key" using decode_prefix(1) [OF sample_decoded] .
  show ?thesis
    using k unfolding parse_auth_data_def attested_data_def Let_def
    by (simp add: d e(1) [unfolded auth_flags_def] e(2) [unfolded auth_counter_def] e(3) l sample_decoded has_flag_def
          sample_crypto_def sample_config_def)
qed

lemma sample_registration_accepted:
  "verify_registration sample_crypto sample_config ''create'' sample_attestation ''key'' = Inr sample_registration"
  unfolding verify_registration_def
  by (simp add: sample_client_ok sample_attestation_decoded attestation_data_def sample_attested_parsed sample_key_parsed
      has_flag_def sample_registration_def)

theorem registered_key_signs_in_witness:
  "\<exists>k. parse_cose sample_crypto sample_key = Inr (-8, k)"
proof -
  let ?p = "\<lparr>ad_flags = 5, ad_count = 6, ad_aaguid = [], ad_credential = [], ad_key = []\<rparr>"
  have "parse_auth_data sample_crypto sample_config (sample_auth 5 6) False = Inr ?p"
    unfolding parse_auth_plain by (simp add: sample_auth_accepted)
  moreover have "has_flag (ad_flags ?p) flag_be = rg_eligible sample_registration" "rg_count sample_registration < ad_count ?p"
    by (simp_all add: has_flag_def sample_registration_def)
  ultimately have "\<exists>k. parse_cose sample_crypto (rg_key sample_registration) = Inr (rg_algorithm sample_registration, k)"
    using registered_key_signs_in [OF sample_registration_accepted sample_client_ok(1), of "sample_auth 5 6" ?p "''ok''"] by blast
  then show ?thesis by (simp add: sample_registration_def)
qed

end
