(* ===== verification/Passkeys.thy ===== *)
theory Passkeys
  imports WebAuthn Authorization
begin

text \<open>
  The store of passkeys and of their challenges, in memory (\<^verbatim>\<open>httpapi/webauthn_store_117.go\<close>), and the check of a
  passkey at login (\<^verbatim>\<open>verifyPasskeyAssertion117\<close> in \<^verbatim>\<open>httpapi/webauthn_handlers_117.go\<close>).  The hash of a token, the
  handle of a user, the JSON copy of the metadata, the cryptography and the clock readings are parameters.
\<close>

section \<open>base64url\<close>

definition base64_digit :: "nat \<Rightarrow> char" where
  "base64_digit n =
     (if n < 26 then char_of (n + 65) else if n < 52 then char_of (n + 71) else if n < 62 then char_of (n - 4)
      else if n = 62 then CHR ''-'' else CHR ''_'')"

fun base64_sextets :: "nat list \<Rightarrow> nat list" where
  "base64_sextets [] = []"
| "base64_sextets [a] = [a div 4, a mod 4 * 16]"
| "base64_sextets [a, b] = [a div 4, a mod 4 * 16 + b div 16, b mod 16 * 4]"
| "base64_sextets (a # b # c # r) =
     a div 4 # (a mod 4 * 16 + b div 16) # (b mod 16 * 4 + c div 64) # c mod 64 # base64_sextets r"

definition base64url_encode :: "string \<Rightarrow> string" where \<comment> \<open>\<^verbatim>\<open>base64.RawURLEncoding.EncodeToString\<close>\<close>
  "base64url_encode s = map base64_digit (base64_sextets (map of_char s))"

lemma base64_digit_value: "n < 64 \<Longrightarrow> base64_value (base64_digit n) = Some n"
proof -
  have "list_all (\<lambda>n. base64_value (base64_digit n) = Some n) [0..<64]" by code_simp
  then show "n < 64 \<Longrightarrow> base64_value (base64_digit n) = Some n" by (simp add: list_all_iff)
qed

lemma base64_digit_visible: "n < 64 \<Longrightarrow> base64_digit n \<noteq> CHR 0x0A \<and> base64_digit n \<noteq> CHR 0x0D"
proof -
  have "list_all (\<lambda>n. base64_digit n \<noteq> CHR 0x0A \<and> base64_digit n \<noteq> CHR 0x0D) [0..<64]" by code_simp
  then show "n < 64 \<Longrightarrow> base64_digit n \<noteq> CHR 0x0A \<and> base64_digit n \<noteq> CHR 0x0D" by (simp add: list_all_iff)
qed

lemma sextets_small: "\<forall>a \<in> set bs. a < 256 \<Longrightarrow> \<forall>n \<in> set (base64_sextets bs). n < 64"
  by (induction bs rule: base64_sextets.induct) (auto simp: less_mult_imp_div_less)

lemma digit_join: "(y::nat) < m \<Longrightarrow> (x * m + y) div m = x" "(y::nat) < m \<Longrightarrow> (x * m + y) mod m = y"
  by simp_all

lemma char_small: "(of_char x :: nat) div 16 < 16" "(of_char x :: nat) div 64 < 4"
proof -
  have "(of_char x :: nat) < 256" by simp
  then show "(of_char x :: nat) div 16 < 16" "(of_char x :: nat) div 64 < 4" by (simp_all only: less_mult_imp_div_less)
qed

lemma sextets_join:
  "char_of (of_char x div 4 * 4 + (of_char x mod 4 * 16 + of_char y div 16) div 16 :: nat) = x"
  "char_of ((of_char x mod 4 * 16 + of_char y div 16) mod 16 * 16 + (of_char y mod 16 * 4 + of_char z div 64) div 4 :: nat) = y"
  "char_of ((of_char y mod 16 * 4 + of_char z div 64) mod 4 * 64 + of_char z mod 64 :: nat) = z"
  "char_of (of_char x div 4 * 4 + (of_char x mod 4 * 16) div 16 :: nat) = x"
  "char_of ((of_char x mod 4 * 16 + of_char y div 16) mod 16 * 16 + (of_char y mod 16 * 4) div 4 :: nat) = y"
proof -
  have m: "x * n div n = x" if "0 < n" for x n :: nat using that by simp
  show "char_of (of_char x div 4 * 4 + (of_char x mod 4 * 16 + of_char y div 16) div 16 :: nat) = x"
    "char_of ((of_char x mod 4 * 16 + of_char y div 16) mod 16 * 16 + (of_char y mod 16 * 4 + of_char z div 64) div 4 :: nat) = y"
    "char_of ((of_char y mod 16 * 4 + of_char z div 64) mod 4 * 64 + of_char z mod 64 :: nat) = z"
    "char_of (of_char x div 4 * 4 + (of_char x mod 4 * 16) div 16 :: nat) = x"
    "char_of ((of_char x mod 4 * 16 + of_char y div 16) mod 16 * 16 + (of_char y mod 16 * 4) div 4 :: nat) = y"
    by (simp_all only: digit_join char_small m div_mult_mod_eq char_of_char zero_less_numeral)
qed

fun by_three :: "'a list \<Rightarrow> bool" where
  "by_three [] = True"
| "by_three [a] = True"
| "by_three [a, b] = True"
| "by_three (a # b # c # r) = by_three r"

lemma list_by_three [case_names Nil One Two Three]:
  assumes "P []" "\<And>x. P [x]" "\<And>x y. P [x, y]" "\<And>x y z t. P t \<Longrightarrow> P (x # y # z # t)"
  shows "P s"
  using assms by (induction s rule: by_three.induct) blast+

lemma base64_bytes_sextets: "base64_bytes (base64_sextets (map of_char s)) = Some s"
  by (induction s rule: list_by_three) (simp_all only: list.map base64_sextets.simps base64_bytes.simps sextets_join option.map)

lemma base64url_decode_encode: "base64url_decode (base64url_encode s) = Some s"
proof -
  let ?ns = "base64_sextets (map of_char s)"
  have small: "\<forall>n \<in> set ?ns. n < 64" by (rule sextets_small) auto
  have "filter (\<lambda>c. c \<noteq> CHR 0x0A \<and> c \<noteq> CHR 0x0D) (base64url_encode s) = base64url_encode s"
    unfolding filter_id_conv base64url_encode_def using small base64_digit_visible by auto
  moreover have "map base64_value (base64url_encode s) = map Some ?ns"
    unfolding base64url_encode_def using small base64_digit_value by simp
  ultimately show ?thesis
    by (auto simp: base64url_decode_def base64_bytes_sextets comp_def)
qed

lemma base64url_encode_inject: "base64url_encode s = base64url_encode t \<longleftrightarrow> s = t"
  using base64url_decode_encode by (metis option.inject)

section \<open>Data\<close>

record passkey =
  pk_id :: string
  pk_user :: string
  pk_raw :: string
  pk_handle :: string
  pk_key :: string
  pk_algorithm :: int
  pk_count :: nat
  pk_aaguid :: string
  pk_transports :: "string list"
  pk_name :: string
  pk_eligible :: bool
  pk_backed :: bool
  pk_status :: string
  pk_created :: time
  pk_used :: time
  pk_updated :: time

datatype meta_value = MetaText string | MetaTexts "string list"

record challenge =
  ch_id :: string
  ch_hash :: string
  ch_user :: string
  ch_purpose :: string
  ch_bytes :: string
  ch_metadata :: "meta_value gomap"
  ch_created :: time
  ch_expires :: time
  ch_used :: time

record passkey_store =
  ps_credentials :: "passkey gomap"
  ps_index :: "string gomap" \<comment> \<open>base64url of the raw id to the id\<close>
  ps_challenges :: "challenge gomap" \<comment> \<open>by the hash of the token\<close>
  ps_policies :: "string gomap"

datatype passkey_error =
    ChallengeInvalid | AlreadyRegistered | NoPasskey | BadRequirement | NotPublicKey | EmptyBase64 | BadBase64 | BadSize
  | OtherUser | HandleMismatch | NameTooLong | Ceremony webauthn_error

type_synonym 'a passkey_outcome = "passkey_store \<times> (passkey_error + 'a)"

definition no_passkeys :: passkey_store where
  "no_passkeys = \<lparr>ps_credentials = Map.empty, ps_index = Map.empty, ps_challenges = Map.empty, ps_policies = Map.empty\<rparr>"

section \<open>Challenges\<close>

definition challenge_ttl :: time where
  "challenge_ttl = 5 * 60 * 1000000000"

definition clone_metadata :: "(meta_value gomap \<Rightarrow> meta_value gomap) \<Rightarrow> meta_value gomap option \<Rightarrow> meta_value gomap" where
  "clone_metadata copy m = (case m of None \<Rightarrow> Map.empty | Some v \<Rightarrow> copy v)"

definition cleanup_challenges :: "time \<Rightarrow> passkey_store \<Rightarrow> passkey_store" where
  "cleanup_challenges now s =
     s\<lparr>ps_challenges := (\<lambda>k. case ps_challenges s k of
          None \<Rightarrow> None
        | Some c \<Rightarrow> if ch_expires c < now \<or> ch_used c \<noteq> 0 then None else Some c)\<rparr>"

definition create_challenge ::
    "(string \<Rightarrow> string) \<Rightarrow> (meta_value gomap \<Rightarrow> meta_value gomap) \<Rightarrow> string \<Rightarrow> time \<Rightarrow> time \<Rightarrow> string \<Rightarrow> string \<Rightarrow> string \<Rightarrow>
     meta_value gomap option \<Rightarrow> passkey_store \<Rightarrow> passkey_store" where
  \<comment> \<open>the token is drawn at random; \<open>hash\<close> is \<^verbatim>\<open>tokenHash117\<close>, of 64 digits; the clean-up reads the clock again\<close>
  "create_challenge hash copy token now later user purpose bytes metadata s =
     (let rec = \<lparr>ch_id = ''wch-'' @ take 24 (hash token), ch_hash = hash token, ch_user = user, ch_purpose = purpose,
                 ch_bytes = bytes, ch_metadata = clone_metadata copy metadata, ch_created = now,
                 ch_expires = now + challenge_ttl, ch_used = 0\<rparr>;
          s1 = cleanup_challenges later s
      in s1\<lparr>ps_challenges := (ps_challenges s1)(ch_hash rec \<mapsto> rec)\<rparr>)"

definition consume_challenge ::
    "(string \<Rightarrow> string) \<Rightarrow> (nat \<Rightarrow> time) \<Rightarrow> string \<Rightarrow> string \<Rightarrow> passkey_store \<Rightarrow> challenge passkey_outcome" where
  \<comment> \<open>\<open>clk\<close>: the readings of the clock in the clean-up, in the test and in the mark\<close>
  "consume_challenge hash clk token purpose s =
     (let s1 = cleanup_challenges (clk 0) s; h = hash (trim_space token)
      in case ps_challenges s1 h of
           None \<Rightarrow> (s1, Inl ChallengeInvalid)
         | Some rec \<Rightarrow>
             if ch_purpose rec \<noteq> purpose \<or> ch_used rec \<noteq> 0 \<or> ch_expires rec < clk 1 then (s1, Inl ChallengeInvalid)
             else
               (let used = rec\<lparr>ch_used := clk 2\<rparr>
                in (s1\<lparr>ps_challenges := (ps_challenges s1)(h \<mapsto> used)\<rparr>, Inr used)))"

section \<open>Passkeys\<close>

definition save_credential :: "time \<Rightarrow> passkey \<Rightarrow> passkey_store \<Rightarrow> unit passkey_outcome" where
  "save_credential now c s =
     (let key = base64url_encode (pk_raw c)
      in if (case ps_index s key of None \<Rightarrow> False | Some i \<Rightarrow> i \<noteq> pk_id c) then (s, Inl AlreadyRegistered)
         else
           (let c1 = c\<lparr>pk_status := if pk_status c = [] then ''active'' else pk_status c,
                       pk_created := if pk_created c = 0 then now else pk_created c, pk_updated := now\<rparr>
            in (s\<lparr>ps_credentials := (ps_credentials s)(pk_id c \<mapsto> c1), ps_index := (ps_index s)(key \<mapsto> pk_id c)\<rparr>, Inr ())))"

definition credential_by_raw :: "string \<Rightarrow> passkey_store \<Rightarrow> passkey_error + passkey" where
  "credential_by_raw raw s =
     (case ps_index s (base64url_encode raw) of
        None \<Rightarrow> Inl NoPasskey
      | Some i \<Rightarrow>
          (case ps_credentials s i of
             None \<Rightarrow> Inl NoPasskey \<comment> \<open>the zero value, whose status is not active\<close>
           | Some c \<Rightarrow> if pk_status c \<noteq> ''active'' then Inl NoPasskey else Inr c))"

definition own_passkey :: "string \<Rightarrow> string \<Rightarrow> passkey_store \<Rightarrow> passkey option" where
  \<comment> \<open>the guard of the changes by the user; also what \<^verbatim>\<open>listByUser\<close> lists\<close>
  "own_passkey i user s =
     (case ps_credentials s i of
        None \<Rightarrow> None
      | Some c \<Rightarrow> if pk_user c \<noteq> user \<or> pk_status c \<noteq> ''active'' then None else Some c)"

definition put_passkey :: "string \<Rightarrow> passkey \<Rightarrow> passkey_store \<Rightarrow> passkey_store" where
  "put_passkey i c s = s\<lparr>ps_credentials := (ps_credentials s)(i \<mapsto> c)\<rparr>"

definition update_use :: "time \<Rightarrow> string \<Rightarrow> string \<Rightarrow> nat \<Rightarrow> bool \<Rightarrow> passkey_store \<Rightarrow> unit passkey_outcome" where
  "update_use now i user n backed s =
     (case own_passkey i user s of
        None \<Rightarrow> (s, Inl NoPasskey)
      | Some c \<Rightarrow>
          (put_passkey i (c\<lparr>pk_count := if n > pk_count c then n else pk_count c, pk_backed := backed, pk_used := now,
                            pk_updated := now\<rparr>) s, Inr ()))"

definition rename_passkey :: "time \<Rightarrow> string \<Rightarrow> string \<Rightarrow> string \<Rightarrow> passkey_store \<Rightarrow> unit passkey_outcome" where
  "rename_passkey now i user name s =
     (case own_passkey i user s of
        None \<Rightarrow> (s, Inl NoPasskey)
      | Some c \<Rightarrow> (put_passkey i (c\<lparr>pk_name := name, pk_updated := now\<rparr>) s, Inr ()))"

definition revoke_passkey :: "time \<Rightarrow> string \<Rightarrow> string \<Rightarrow> passkey_store \<Rightarrow> unit passkey_outcome" where
  "revoke_passkey now i user s =
     (case own_passkey i user s of
        None \<Rightarrow> (s, Inl NoPasskey)
      | Some c \<Rightarrow> (put_passkey i (c\<lparr>pk_status := ''revoked'', pk_updated := now\<rparr>) s, Inr ()))"

section \<open>Requirement of a second factor\<close>

definition normalize_mfa :: "unicode \<Rightarrow> string \<Rightarrow> string" where
  "normalize_mfa U v =
     (let w = to_lower U (trim_space v)
      in if w = [] \<or> w = ''optional'' then ''optional''
         else if w = ''required'' then ''required''
         else if w \<in> {''phishing-resistant'', ''phishing_resistant'', ''phishingresistant''} then ''phishing-resistant''
         else [])"

definition mfa_policy :: "unicode \<Rightarrow> string \<Rightarrow> passkey_store \<Rightarrow> string" where
  "mfa_policy U user s = normalize_mfa U (case ps_policies s user of None \<Rightarrow> [] | Some v \<Rightarrow> v)"

definition set_mfa_policy :: "unicode \<Rightarrow> string \<Rightarrow> string \<Rightarrow> passkey_store \<Rightarrow> unit passkey_outcome" where
  "set_mfa_policy U user req0 s =
     (let req = normalize_mfa U req0
      in if req = [] then (s, Inl BadRequirement)
         else (s\<lparr>ps_policies := (ps_policies s)(user \<mapsto> req)\<rparr>, Inr ()))"

definition requirement_strength :: "unicode \<Rightarrow> string \<Rightarrow> string" where
  "requirement_strength U req =
     (let r = normalize_mfa U req
      in if r = ''required'' then ''mfa'' else if r = ''phishing-resistant'' then ''phishing-resistant'' else ''single-factor'')"

section \<open>Login with a passkey\<close>

record assertion_input =
  in_id :: string
  in_raw_id :: string
  in_type :: string
  in_client :: string
  in_auth :: string
  in_signature :: string
  in_handle :: string

definition decode_web_b64 :: "string \<Rightarrow> nat \<Rightarrow> passkey_error + string" where
  "decode_web_b64 v0 limit =
     (let v = trim_space v0
      in if v = [] then Inl EmptyBase64
         else
           (case base64url_decode v of
              None \<Rightarrow> Inl BadBase64
            | Some b \<Rightarrow> if length b = 0 \<or> length b > limit then Inl BadSize else Inr b))"

fun first_non_empty :: "string list \<Rightarrow> string" where
  "first_non_empty [] = []"
| "first_non_empty (v # vs) = (if trim_space v \<noteq> [] then trim_space v else first_non_empty vs)"

definition decode_assertion ::
    "assertion_input \<Rightarrow> passkey_error + string \<times> string \<times> string \<times> string \<times> string" where
  "decode_assertion c =
     (if in_type c \<noteq> ''public-key'' then Inl NotPublicKey
      else
        (case decode_web_b64 (first_non_empty [in_raw_id c, in_id c]) 2048 of
           Inl e \<Rightarrow> Inl e
         | Inr raw \<Rightarrow>
             (case decode_web_b64 (in_client c) (64 * 1024) of
                Inl e \<Rightarrow> Inl e
              | Inr client \<Rightarrow>
                  (case decode_web_b64 (in_auth c) (64 * 1024) of
                     Inl e \<Rightarrow> Inl e
                   | Inr auth \<Rightarrow>
                       (case decode_web_b64 (in_signature c) (16 * 1024) of
                          Inl e \<Rightarrow> Inl e
                        | Inr sig \<Rightarrow>
                            if trim_space (in_handle c) \<noteq> [] then
                              (case decode_web_b64 (in_handle c) 1024 of
                                 Inl e \<Rightarrow> Inl e
                               | Inr h \<Rightarrow> Inr (raw, client, auth, sig, h))
                            else Inr (raw, client, auth, sig, []))))))"

record webauthn_settings =
  ws_rpid :: string
  ws_origins :: "string list"
  ws_public :: string

definition trim_slashes :: "string \<Rightarrow> string" where \<comment> \<open>\<^verbatim>\<open>strings.TrimRight(s, "/")\<close>\<close>
  "trim_slashes s = rev (dropWhile (\<lambda>c. c = CHR ''/'') (rev s))"

definition verify_config_of :: "webauthn_settings \<Rightarrow> string \<Rightarrow> verify_config" where
  "verify_config_of ws bytes =
     (let origins = filter (\<lambda>v. v \<noteq> []) (map trim_space (ws_origins ws))
      in \<lparr>vc_rpid = first_non_empty [ws_rpid ws, ''localhost''],
          vc_origins = if origins = [] then [trim_slashes (ws_public ws)] else origins, vc_challenge = bytes, vc_uv = True\<rparr>)"

definition verify_passkey ::
    "crypto \<Rightarrow> (string \<Rightarrow> string) \<Rightarrow> webauthn_settings \<Rightarrow> assertion_input \<Rightarrow> string \<Rightarrow> string \<Rightarrow> passkey_store \<Rightarrow>
     passkey_error + passkey \<times> assertion" where
  \<comment> \<open>\<open>handle\<close>: the keyed hash of a user id\<close>
  "verify_passkey cr handle ws input bytes expected s =
     (case decode_assertion input of
        Inl e \<Rightarrow> Inl e
      | Inr (raw, client, auth, sig, h) \<Rightarrow>
          (case credential_by_raw raw s of
             Inl e \<Rightarrow> Inl e
           | Inr c \<Rightarrow>
               if expected \<noteq> [] \<and> pk_user c \<noteq> expected then Inl OtherUser
               else if h \<noteq> [] \<and> h \<noteq> handle (pk_user c) then Inl HandleMismatch
               else
                 (case verify_assertion cr (verify_config_of ws bytes) client auth sig (pk_key c) (pk_count c) (pk_eligible c) of
                    Inl e \<Rightarrow> Inl (Ceremony e)
                  | Inr a \<Rightarrow> Inr (c, a))))"

section \<open>Handlers\<close>

record registration_input =
  ri_id :: string
  ri_raw_id :: string
  ri_type :: string
  ri_client :: string
  ri_attestation :: string
  ri_transports :: "string list"
  ri_name :: string

definition decode_registration :: "registration_input \<Rightarrow> passkey_error + string \<times> string \<times> string" where
  "decode_registration c =
     (if ri_type c \<noteq> ''public-key'' then Inl NotPublicKey
      else
        (case decode_web_b64 (first_non_empty [ri_raw_id c, ri_id c]) 2048 of
           Inl e \<Rightarrow> Inl e
         | Inr raw \<Rightarrow>
             (case decode_web_b64 (ri_client c) (64 * 1024) of
                Inl e \<Rightarrow> Inl e
              | Inr client \<Rightarrow>
                  (case decode_web_b64 (ri_attestation c) (256 * 1024) of
                     Inl e \<Rightarrow> Inl e
                   | Inr att \<Rightarrow> Inr (raw, client, att)))))"

definition normalize_transports :: "unicode \<Rightarrow> string list \<Rightarrow> string list" where
  "normalize_transports U xs =
     sort (rev (fold (\<lambda>raw out. let v = to_lower U (trim_space raw)
                 in if v \<in> {''usb'', ''nfc'', ''ble'', ''smart-card'', ''hybrid'', ''internal''} \<and> v \<notin> set out then v # out else out)
       xs []))"

definition friendly_name :: "(string \<Rightarrow> nat) \<Rightarrow> string \<Rightarrow> passkey_error + string" where
  \<comment> \<open>\<open>runes\<close>: the number of code points\<close>
  "friendly_name runes v0 =
     (let v = trim_space v0
      in if v = [] then Inr ''Passkey'' else if runes v > 80 then Inl NameTooLong else Inr v)"

definition metadata_text :: "meta_value gomap \<Rightarrow> string \<Rightarrow> string" where
  "metadata_text m k = (case m k of Some (MetaText v) \<Rightarrow> trim_space v | _ \<Rightarrow> [])"

record world = \<comment> \<open>the parameters of a request\<close>
  w_crypto :: crypto
  w_settings :: webauthn_settings
  w_unicode :: unicode
  w_hash :: "string \<Rightarrow> string"
  w_handle :: "string \<Rightarrow> string"
  w_runes :: "string \<Rightarrow> nat"

definition register_passkey ::
    "world \<Rightarrow> (nat \<Rightarrow> time) \<Rightarrow> string \<Rightarrow> string \<Rightarrow> string \<Rightarrow> string \<Rightarrow> registration_input \<Rightarrow> passkey_store \<Rightarrow>
     passkey passkey_outcome" where
  \<comment> \<open>\<^verbatim>\<open>authPasskeyRegisterComplete117\<close> for the caller's user and session, until the passkey is saved under the drawn
      identifier \<open>fresh\<close>\<close>
  "register_passkey w clk user session fresh token input s =
     (let (s1, r) = consume_challenge (w_hash w) clk token ''passkey-register'' s
      in case r of
           Inl e \<Rightarrow> (s1, Inl e)
         | Inr tx \<Rightarrow>
             if ch_user tx \<noteq> user \<or> metadata_text (ch_metadata tx) ''sessionId'' \<noteq> session then (s1, Inl ChallengeInvalid)
             else
               (case decode_registration input of
                  Inl e \<Rightarrow> (s1, Inl e)
                | Inr (raw, client, att) \<Rightarrow>
                    (case verify_registration (w_crypto w) (verify_config_of (w_settings w) (ch_bytes tx)) client att raw of
                       Inl e \<Rightarrow> (s1, Inl (Ceremony e))
                     | Inr r \<Rightarrow>
                         (case friendly_name (w_runes w) (ri_name input) of
                            Inl e \<Rightarrow> (s1, Inl e)
                          | Inr name \<Rightarrow>
                              (let c = \<lparr>pk_id = fresh, pk_user = user, pk_raw = rg_credential r, pk_handle = w_handle w user,
                                        pk_key = rg_key r, pk_algorithm = rg_algorithm r, pk_count = rg_count r,
                                        pk_aaguid = rg_aaguid r,
                                        pk_transports = normalize_transports (w_unicode w) (ri_transports input),
                                        pk_name = name, pk_eligible = rg_eligible r, pk_backed = rg_backed r,
                                        pk_status = ''active'', pk_created = 0, pk_used = 0, pk_updated = 0\<rparr>;
                                   (s2, u) = save_credential (clk 3) c s1
                               in case u of Inl e \<Rightarrow> (s2, Inl e) | Inr _ \<Rightarrow> (s2, Inr c))))))"

definition account_of :: "account_store \<Rightarrow> string \<Rightarrow> user option" where \<comment> \<open>who may log in\<close>
  "account_of acc i = (case get_user i acc of Inl _ \<Rightarrow> None | Inr u \<Rightarrow> if us_status u = ''disabled'' then None else Some u)"

definition passkey_login ::
    "world \<Rightarrow> (nat \<Rightarrow> time) \<Rightarrow> account_store \<Rightarrow> string \<Rightarrow> assertion_input \<Rightarrow> passkey_store \<Rightarrow> user passkey_outcome" where
  \<comment> \<open>\<^verbatim>\<open>authPasskeyLoginComplete117\<close>, until the session is issued\<close>
  "passkey_login w clk acc token input s =
     (let (s1, r) = consume_challenge (w_hash w) clk token ''passkey-login'' s
      in case r of
           Inl e \<Rightarrow> (s1, Inl e)
         | Inr tx \<Rightarrow>
             (case verify_passkey (w_crypto w) (w_handle w) (w_settings w) input (ch_bytes tx) [] s1 of
                Inl e \<Rightarrow> (s1, Inl e)
              | Inr (c, a) \<Rightarrow>
                  (case account_of acc (pk_user c) of
                     None \<Rightarrow> (s1, Inl OtherUser)
                   | Some u \<Rightarrow>
                       (let (s2, r) = update_use (clk 3) (pk_id c) (us_id u) (as_count a) (as_backed a) s1
                        in case r of Inl e \<Rightarrow> (s2, Inl e) | Inr _ \<Rightarrow> (s2, Inr u)))))"

definition passkey_second_factor ::
    "world \<Rightarrow> (nat \<Rightarrow> time) \<Rightarrow> account_store \<Rightarrow> string \<Rightarrow> assertion_input \<Rightarrow> passkey_store \<Rightarrow>
     (user \<times> challenge) passkey_outcome" where
  \<comment> \<open>\<^verbatim>\<open>authPasskeyMFALoginComplete117\<close>, until the session is issued\<close>
  "passkey_second_factor w clk acc token input s =
     (let (s1, r) = consume_challenge (w_hash w) clk token ''passkey-mfa-login'' s
      in case r of
           Inl e \<Rightarrow> (s1, Inl e)
         | Inr tx \<Rightarrow>
             (case verify_passkey (w_crypto w) (w_handle w) (w_settings w) input (ch_bytes tx) (ch_user tx) s1 of
                Inl e \<Rightarrow> (s1, Inl e)
              | Inr (c, a) \<Rightarrow>
                  (case account_of acc (ch_user tx) of
                     None \<Rightarrow> (s1, Inl OtherUser)
                   | Some u \<Rightarrow>
                       if pk_user c \<noteq> us_id u then (s1, Inl OtherUser)
                       else
                         (let (s2, r) = update_use (clk 3) (pk_id c) (us_id u) (as_count a) (as_backed a) s1
                          in case r of Inl e \<Rightarrow> (s2, Inl e) | Inr _ \<Rightarrow> (s2, Inr (u, tx))))))"

definition passkey_step_up ::
    "world \<Rightarrow> (nat \<Rightarrow> time) \<Rightarrow> string \<Rightarrow> string \<Rightarrow> string \<Rightarrow> assertion_input \<Rightarrow> passkey_store \<Rightarrow> unit passkey_outcome" where
  \<comment> \<open>\<^verbatim>\<open>authPasskeyStepUpComplete117\<close> for the caller's user and session, until the session is raised\<close>
  "passkey_step_up w clk user session token input s =
     (let (s1, r) = consume_challenge (w_hash w) clk token ''passkey-step-up'' s
      in case r of
           Inl e \<Rightarrow> (s1, Inl e)
         | Inr tx \<Rightarrow>
             if ch_user tx \<noteq> user \<or> metadata_text (ch_metadata tx) ''sessionId'' \<noteq> session then (s1, Inl ChallengeInvalid)
             else
               (case verify_passkey (w_crypto w) (w_handle w) (w_settings w) input (ch_bytes tx) user s1 of
                  Inl e \<Rightarrow> (s1, Inl e)
                | Inr (c, a) \<Rightarrow> update_use (clk 3) (pk_id c) user (as_count a) (as_backed a) s1))"

end
