(* ===== verification/SingleUse.thy ===== *)
theory SingleUse
  imports GoBase
begin

text \<open>
  The contract of a store of credentials that are good for one use: what has been spent stays spent under every
  operation that does not issue it again.  Its interpretations are the challenges of the passkeys, the recovery codes
  and the one-time tokens.
\<close>

locale single_use =
  fixes step :: "'l \<Rightarrow> 's \<Rightarrow> 's \<Rightarrow> bool" and issues :: "'l \<Rightarrow> 'k \<Rightarrow> bool" and spent :: "'k \<Rightarrow> 's \<Rightarrow> bool"
  assumes spent_step: "step l s t \<Longrightarrow> \<not> issues l k \<Longrightarrow> spent k s \<Longrightarrow> spent k t"
begin

lemma run_spent: "(\<lambda>s t. \<exists>l. \<not> issues l k \<and> step l s t)\<^sup>*\<^sup>* s t \<Longrightarrow> spent k s \<Longrightarrow> spent k t"
  by (induction rule: rtranclp_induct) (auto intro: spent_step)

end

end
