(* ===== verification/PasskeyRuns.thy ===== *)
theory PasskeyRuns
  imports Passkeys Stores SingleUse
begin

text \<open>
  Runs of the passkey store: every operation as a step, the invariant of the index, what a passkey may become, and the
  properties of all runs.
\<close>

section \<open>Operations as steps\<close>

text \<open>A step is labelled with the hash of the token it creates, if it creates one.  Identifiers of new passkeys are
  drawn at random, so they are fresh, and no clock reads the zero time.\<close>

inductive passkey_step ::
    "unicode \<Rightarrow> (string \<Rightarrow> string) \<Rightarrow> string option \<Rightarrow> passkey_store \<Rightarrow> passkey_store \<Rightarrow> bool"
  for U hash where
  challenge_created: "passkey_step U hash (Some (hash token)) s (create_challenge hash copy token now later u p b md s)"
| challenge_consumed: "(\<And>i. 0 < clk i) \<Longrightarrow> passkey_step U hash None s (fst (consume_challenge hash clk token p s))"
| passkey_saved: "ps_credentials s (pk_id c) = None \<Longrightarrow> passkey_step U hash None s (fst (save_credential now c s))"
| passkey_used: "passkey_step U hash None s (fst (update_use now i u n b s))"
| passkey_renamed: "passkey_step U hash None s (fst (rename_passkey now i u name s))"
| passkey_revoked: "passkey_step U hash None s (fst (revoke_passkey now i u s))"
| policy_set: "passkey_step U hash None s (fst (set_mfa_policy U u req s))"

definition any_passkey_step :: "unicode \<Rightarrow> (string \<Rightarrow> string) \<Rightarrow> passkey_store \<Rightarrow> passkey_store \<Rightarrow> bool" where
  "any_passkey_step U hash s t \<longleftrightarrow> (\<exists>l. passkey_step U hash l s t)"

definition without_token :: "unicode \<Rightarrow> (string \<Rightarrow> string) \<Rightarrow> string \<Rightarrow> passkey_store \<Rightarrow> passkey_store \<Rightarrow> bool" where
  "without_token U hash h s t \<longleftrightarrow> (\<exists>l. l \<noteq> Some h \<and> passkey_step U hash l s t)"

section \<open>The index\<close>

definition index_ok :: "passkey_store \<Rightarrow> bool" where
  "index_ok s \<longleftrightarrow>
     (\<forall>k i. ps_index s k = Some i \<longrightarrow> (\<exists>c. ps_credentials s i = Some c \<and> base64url_encode (pk_raw c) = k)) \<and>
     (\<forall>i c. ps_credentials s i = Some c \<longrightarrow> pk_id c = i \<and> ps_index s (base64url_encode (pk_raw c)) = Some i)"

definition passkey_moves :: "passkey \<Rightarrow> passkey \<Rightarrow> bool" where
  "passkey_moves c d \<longleftrightarrow>
     pk_id d = pk_id c \<and> pk_user d = pk_user c \<and> pk_raw d = pk_raw c \<and> pk_handle d = pk_handle c \<and> pk_key d = pk_key c \<and>
     pk_algorithm d = pk_algorithm c \<and> pk_eligible d = pk_eligible c \<and> pk_created d = pk_created c \<and>
     pk_count c \<le> pk_count d \<and> (pk_status c \<noteq> ''active'' \<longrightarrow> d = c)"

definition passkey_result :: "passkey_store \<Rightarrow> passkey_store \<Rightarrow> bool" where
  "passkey_result s t \<longleftrightarrow> index_ok t \<and>
     (\<forall>i c. ps_credentials s i = Some c \<longrightarrow> (\<exists>d. ps_credentials t i = Some d \<and> passkey_moves c d))"

lemma passkey_moves_refl [simp]: "passkey_moves c c"
  by (simp add: passkey_moves_def)

lemma passkey_moves_trans: "passkey_moves c d \<Longrightarrow> passkey_moves d e \<Longrightarrow> passkey_moves c e"
  unfolding passkey_moves_def by auto

lemma index_okD:
  "index_ok s \<Longrightarrow> ps_index s k = Some i \<Longrightarrow> \<exists>c. ps_credentials s i = Some c \<and> base64url_encode (pk_raw c) = k"
  "index_ok s \<Longrightarrow> ps_credentials s i = Some c \<Longrightarrow> pk_id c = i"
  "index_ok s \<Longrightarrow> ps_credentials s i = Some c \<Longrightarrow> ps_index s (base64url_encode (pk_raw c)) = Some i"
  by (simp_all add: index_ok_def)

lemma same_passkeys:
  "index_ok s \<Longrightarrow> ps_credentials t = ps_credentials s \<Longrightarrow> ps_index t = ps_index s \<Longrightarrow> passkey_result s t"
  by (auto simp: passkey_result_def index_ok_def)

lemma put_passkey_result:
  assumes "index_ok s" "ps_credentials s i = Some c" "passkey_moves c d"
  shows "passkey_result s (put_passkey i d s)"
proof -
  have id: "pk_id d = i" "pk_raw d = pk_raw c" using assms by (auto simp: passkey_moves_def index_ok_def)
  have "\<exists>e. ((ps_credentials s)(i \<mapsto> d)) j = Some e \<and> base64url_encode (pk_raw e) = k" if "ps_index s k = Some j" for k j
    using index_okD(1) [OF assms(1) that] assms(2) id(2) by (cases "j = i") auto
  then have "index_ok (put_passkey i d s)"
    using index_okD(2,3) [OF assms(1)] assms(2) id unfolding index_ok_def put_passkey_def by (auto split: if_split_asm)
  then show ?thesis using assms(2,3) by (auto simp: passkey_result_def put_passkey_def)
qed

lemma own_passkey_Some: "own_passkey i u s = Some c \<longleftrightarrow> ps_credentials s i = Some c \<and> pk_user c = u \<and> pk_status c = ''active''"
  by (auto simp: own_passkey_def split: option.split if_split)

lemma own_change_result:
  assumes "index_ok s" "\<And>c. pk_status c = ''active'' \<Longrightarrow> passkey_moves c (f c)"
  shows "passkey_result s (fst (case own_passkey i u s of None \<Rightarrow> (s, Inl e) | Some c \<Rightarrow> (put_passkey i (f c) s, Inr x)))"
proof (cases "own_passkey i u s")
  case None
  then show ?thesis using same_passkeys [OF assms(1)] by simp
next
  case (Some c)
  then show ?thesis using put_passkey_result [OF assms(1)] assms(2) unfolding own_passkey_Some by (simp add: Some)
qed

lemma update_use_result: "index_ok s \<Longrightarrow> passkey_result s (fst (update_use now i u n b s))"
  unfolding update_use_def by (rule own_change_result) (simp_all add: passkey_moves_def)

lemma rename_result: "index_ok s \<Longrightarrow> passkey_result s (fst (rename_passkey now i u name s))"
  unfolding rename_passkey_def by (rule own_change_result) (simp_all add: passkey_moves_def)

lemma revoke_result: "index_ok s \<Longrightarrow> passkey_result s (fst (revoke_passkey now i u s))"
  unfolding revoke_passkey_def by (rule own_change_result) (simp_all add: passkey_moves_def)

lemma save_credential_result:
  assumes "index_ok s" "ps_credentials s (pk_id c) = None"
  shows "passkey_result s (fst (save_credential now c s))"
proof (cases "ps_index s (base64url_encode (pk_raw c))")
  case None
  let ?c = "c\<lparr>pk_status := if pk_status c = [] then ''active'' else pk_status c,
              pk_created := if pk_created c = 0 then now else pk_created c, pk_updated := now\<rparr>"
  let ?t = "s\<lparr>ps_credentials := (ps_credentials s)(pk_id c \<mapsto> ?c), ps_index := (ps_index s)(base64url_encode (pk_raw c) \<mapsto> pk_id c)\<rparr>"
  have t: "fst (save_credential now c s) = ?t" by (simp add: save_credential_def None)
  have "index_ok ?t" unfolding index_ok_def
  proof (intro conjI allI impI)
    fix k i assume "ps_index ?t k = Some i"
    then show "\<exists>d. ps_credentials ?t i = Some d \<and> base64url_encode (pk_raw d) = k"
      using index_okD(1) [OF assms(1), of k i] assms(2)
      by (cases "k = base64url_encode (pk_raw c)"; cases "i = pk_id c") auto
  next
    fix i d assume d: "ps_credentials ?t i = Some d"
    show "pk_id d = i" using assms(1) d unfolding index_ok_def by (auto split: if_split_asm)
    show "ps_index ?t (base64url_encode (pk_raw d)) = Some i"
    proof (cases "i = pk_id c")
      case False
      then have "ps_index s (base64url_encode (pk_raw d)) = Some i"
        using assms(1) d unfolding index_ok_def by auto
      then show ?thesis using None by auto
    qed (use d in auto)
  qed
  then show ?thesis using assms(2) unfolding t passkey_result_def by auto
next
  case (Some i)
  then obtain d where "ps_credentials s i = Some d" using index_okD(1) [OF assms(1)] by blast
  then have "i \<noteq> pk_id c" using assms(2) by auto
  then have "fst (save_credential now c s) = s" by (simp add: save_credential_def Some)
  then show ?thesis using same_passkeys [OF assms(1)] by simp
qed

lemma cleanup_same [simp]:
  "ps_credentials (cleanup_challenges now s) = ps_credentials s" "ps_index (cleanup_challenges now s) = ps_index s"
  by (simp_all add: cleanup_challenges_def)

lemma consume_same:
  "ps_credentials (fst (consume_challenge hash clk token p s)) = ps_credentials s"
  "ps_index (fst (consume_challenge hash clk token p s)) = ps_index s"
  unfolding consume_challenge_def Let_def by (simp_all split: option.split)

lemma passkey_step_result:
  assumes "passkey_step U hash l s t" "index_ok s"
  shows "passkey_result s t"
  using assms(1)
proof cases
  case (challenge_created token copy now later u p b md)
  then show ?thesis using same_passkeys [OF assms(2)] by (simp add: create_challenge_def Let_def)
next
  case (challenge_consumed clk token p)
  then show ?thesis using same_passkeys [OF assms(2)] by (simp add: consume_same)
next
  case (policy_set u req)
  then show ?thesis using same_passkeys [OF assms(2)] by (simp add: set_mfa_policy_def Let_def)
qed (use assms(2) save_credential_result update_use_result rename_result revoke_result in simp_all)

interpretation passkeys: moving_store "any_passkey_step U hash" index_ok ps_credentials passkey_moves for U hash
proof
  fix s t k x
  assume "index_ok s" "any_passkey_step U hash s t"
  then have r: "passkey_result s t" using passkey_step_result by (auto simp: any_passkey_step_def)
  then show "index_ok t" by (simp add: passkey_result_def)
  assume "ps_credentials s k = Some x"
  then show "\<exists>y. ps_credentials t k = Some y \<and> passkey_moves x y" using r by (simp add: passkey_result_def)
qed (simp_all, rule passkey_moves_trans)

lemma no_passkeys_ok: "index_ok no_passkeys"
  by (simp add: index_ok_def no_passkeys_def)


definition passkeys_reachable :: "unicode \<Rightarrow> (string \<Rightarrow> string) \<Rightarrow> passkey_store \<Rightarrow> bool" where
  "passkeys_reachable U hash s \<longleftrightarrow> (any_passkey_step U hash)\<^sup>*\<^sup>* no_passkeys s"

lemma reachable_index: "passkeys_reachable U hash s \<Longrightarrow> index_ok s"
  using passkeys.run_inv no_passkeys_ok unfolding passkeys_reachable_def by blast

lemma found_by_raw:
  assumes "index_ok s"
  shows "credential_by_raw raw s = Inr c \<longleftrightarrow> ps_credentials s (pk_id c) = Some c \<and> pk_raw c = raw \<and> pk_status c = ''active''"
proof
  assume "credential_by_raw raw s = Inr c"
  then obtain i where i: "ps_index s (base64url_encode raw) = Some i" "ps_credentials s i = Some c" "pk_status c = ''active''"
    by (auto simp: credential_by_raw_def split: option.split_asm if_split_asm)
  obtain d where d: "ps_credentials s i = Some d" "base64url_encode (pk_raw d) = base64url_encode raw"
    using assms i(1) unfolding index_ok_def by blast
  then have "pk_raw c = raw" using i(2) by (simp add: base64url_encode_inject)
  moreover have "pk_id c = i" using assms i(2) unfolding index_ok_def by blast
  ultimately show "ps_credentials s (pk_id c) = Some c \<and> pk_raw c = raw \<and> pk_status c = ''active''" using i by simp
next
  assume c: "ps_credentials s (pk_id c) = Some c \<and> pk_raw c = raw \<and> pk_status c = ''active''"
  then have "ps_index s (base64url_encode raw) = Some (pk_id c)" using assms unfolding index_ok_def by blast
  then show "credential_by_raw raw s = Inr c" using c by (simp add: credential_by_raw_def)
qed

section \<open>Challenges\<close>

definition spent :: "string \<Rightarrow> passkey_store \<Rightarrow> bool" where \<comment> \<open>no challenge with this hash can be consumed\<close>
  "spent h s \<longleftrightarrow> (\<forall>rec. ps_challenges s h = Some rec \<longrightarrow> ch_used rec \<noteq> 0)"

lemma spent_cleanup: "spent h s \<Longrightarrow> ps_challenges (cleanup_challenges now s) h = None"
  by (auto simp: spent_def cleanup_challenges_def split: option.split)

lemma spent_refused:
  assumes "spent (hash (trim_space token)) s"
  shows "snd (consume_challenge hash clk token p s) = Inl ChallengeInvalid"
  using spent_cleanup [OF assms] by (simp add: consume_challenge_def Let_def)

lemma consume_Inr:
  assumes "consume_challenge hash clk token p s = (t, Inr tx)"
  obtains rec where "ps_challenges s (hash (trim_space token)) = Some rec" "ch_purpose rec = p" "ch_used rec = 0"
    "\<not> ch_expires rec < clk 1" "tx = rec\<lparr>ch_used := clk 2\<rparr>"
    "t = (cleanup_challenges (clk 0) s)\<lparr>ps_challenges :=
       (ps_challenges (cleanup_challenges (clk 0) s))(hash (trim_space token) \<mapsto> tx)\<rparr>"
  using assms that unfolding consume_challenge_def Let_def
  by (auto simp: cleanup_challenges_def split: option.split_asm if_split_asm)

lemma consume_spends:
  assumes "consume_challenge hash clk token p s = (t, Inr tx)" "0 < clk 2"
  shows "spent (hash (trim_space token)) t"
  using assms(1) by (rule consume_Inr) (use assms(2) in \<open>auto simp: spent_def\<close>)

lemma consume_keeps_spent:
  assumes "spent h s" "\<And>i. 0 < clk i"
  shows "spent h (fst (consume_challenge hash clk token p s))"
proof (cases "consume_challenge hash clk token p s")
  case (Pair t r)
  show ?thesis
  proof (cases r)
    case (Inl e)
    then have "t = cleanup_challenges (clk 0) s"
      using Pair by (auto simp: consume_challenge_def Let_def split: option.split_asm if_split_asm)
    then show ?thesis using spent_cleanup [OF assms(1)] Pair by (simp add: spent_def)
  next
    case (Inr tx)
    have g: "0 < clk 2" by (rule assms(2))
    from Pair [unfolded Inr] show ?thesis
      by (rule consume_Inr) (use spent_cleanup [OF assms(1), of "clk 0"] g in \<open>auto simp: spent_def Pair\<close>)
  qed
qed

lemma other_keeps_spent: "spent h s \<Longrightarrow> ps_challenges t = ps_challenges s \<Longrightarrow> spent h t"
  by (simp add: spent_def)

lemma change_keeps_challenges:
  "ps_challenges (fst (case own_passkey i u s of None \<Rightarrow> (s, e) | Some c \<Rightarrow> (put_passkey i (f c) s, x))) = ps_challenges s"
  by (simp add: put_passkey_def split: option.split)

lemma step_keeps_spent:
  assumes "without_token U hash h s t" "spent h s"
  shows "spent h t"
proof -
  obtain l where l: "l \<noteq> Some h" "passkey_step U hash l s t" using assms(1) unfolding without_token_def by blast
  from l(2) show ?thesis
  proof cases
    case (challenge_created token copy now later u p b md)
    then show ?thesis
      using spent_cleanup [OF assms(2)] l(1) by (simp add: create_challenge_def Let_def spent_def)
  next
    case (challenge_consumed clk token p)
    then show ?thesis using consume_keeps_spent [OF assms(2)] by simp
  next
    case (passkey_saved c now)
    then show ?thesis by (intro other_keeps_spent [OF assms(2)]) (simp add: save_credential_def Let_def)
  next
    case (policy_set u req)
    then show ?thesis by (intro other_keeps_spent [OF assms(2)]) (simp add: set_mfa_policy_def Let_def)
  qed (intro other_keeps_spent [OF assms(2)],
       simp add: update_use_def rename_passkey_def revoke_passkey_def change_keeps_challenges)+
qed

interpretation challenges: single_use "passkey_step U hash" "\<lambda>l h. l = Some h" spent for U hash
  by unfold_locales (rule step_keeps_spent, auto simp: without_token_def)

lemma run_keeps_spent: "(without_token U hash h)\<^sup>*\<^sup>* s t \<Longrightarrow> spent h s \<Longrightarrow> spent h t"
  using challenges.run_spent unfolding without_token_def by blast

section \<open>Properties\<close>

text \<open>A challenge is good for one attempt: once it has been consumed, no later request with its token is accepted for
  any purpose, unless the same token is drawn again.\<close>

lemma challenge_once:
  assumes "consume_challenge hash clk token p s = (s1, Inr tx)" and "\<forall>i. 0 < clk i"
    and "(without_token U hash (hash (trim_space token)))\<^sup>*\<^sup>* s1 t"
  shows "snd (consume_challenge hash clk' token p' t) = Inl ChallengeInvalid"
proof -
  have "spent (hash (trim_space token)) s1" by (rule consume_spends [OF assms(1)]) (use assms(2) in simp)
  then have "spent (hash (trim_space token)) t" by (rule run_keeps_spent [OF assms(3)])
  then show ?thesis by (rule spent_refused)
qed

text \<open>C32: A revoked passkey never comes back: whatever happens later, its raw identifier finds no passkey, and no other
  passkey can be saved with it.\<close>

theorem revoked_passkey_dead:
  assumes "passkeys_reachable U hash s" and "own_passkey i u s = Some c"
    and "(any_passkey_step U hash)\<^sup>*\<^sup>* (fst (revoke_passkey now i u s)) t"
  shows "credential_by_raw (pk_raw c) t = Inl NoPasskey \<and>
    (pk_raw d = pk_raw c \<and> pk_id d \<noteq> i \<longrightarrow> snd (save_credential now' d t) = Inl AlreadyRegistered)"
proof -
  let ?c = "c\<lparr>pk_status := ''revoked'', pk_updated := now\<rparr>"
  let ?s1 = "fst (revoke_passkey now i u s)"
  note ok = reachable_index [OF assms(1)]
  have ok1: "index_ok ?s1" using revoke_result [OF ok] by (simp add: passkey_result_def)
  have s1: "ps_credentials ?s1 i = Some ?c" by (simp add: revoke_passkey_def assms(2) put_passkey_def)
  have dead: "y = ?c" if "passkey_moves ?c y" for y using that by (simp add: passkey_moves_def)
  have t: "ps_credentials t i = Some ?c" by (rule passkeys.run_final [OF assms(3) ok1 s1 dead])
  have okt: "index_ok t" by (rule passkeys.run_inv [OF assms(3) ok1])
  have k: "ps_index t (base64url_encode (pk_raw c)) = Some i" using index_okD(3) [OF okt t] by simp
  show ?thesis by (simp add: credential_by_raw_def save_credential_def Let_def k t)
qed

text \<open>C31: Once a use with a nonzero counter has been recorded for a passkey that cannot be backed up, every assertion
  accepted for it in a later state, whatever happened in between, has a larger counter or the counter zero.\<close>

theorem counter_grows:
  assumes "passkeys_reachable U hash s" and "verify_passkey cr handle ws input bytes expected s = Inr (c, a)"
    and "\<not> pk_eligible c" and "0 < as_count a"
    and "(any_passkey_step U hash)\<^sup>*\<^sup>* (fst (update_use now (pk_id c) (pk_user c) (as_count a) b s)) t"
    and "verify_passkey cr' handle' ws' input' bytes' expected' t = Inr (d, a')" and "pk_id d = pk_id c"
  shows "as_count a' = 0 \<or> as_count a < as_count a'"
proof -
  let ?s1 = "fst (update_use now (pk_id c) (pk_user c) (as_count a) b s)"
  note ok = reachable_index [OF assms(1)]
  have ok1: "index_ok ?s1" using update_use_result [OF ok] by (simp add: passkey_result_def)
  have okt: "index_ok t" by (rule passkeys.run_inv [OF assms(5) ok1])
  obtain raw where "credential_by_raw raw s = Inr c"
    using assms(2) by (auto simp: verify_passkey_def split: sum.split_asm prod.split_asm if_split_asm)
  then have c: "own_passkey (pk_id c) (pk_user c) s = Some c" unfolding found_by_raw [OF ok] own_passkey_Some by simp
  then obtain c1 where c1: "ps_credentials ?s1 (pk_id c) = Some c1" "as_count a \<le> pk_count c1" "\<not> pk_eligible c1"
    using assms(3) by (simp add: update_use_def put_passkey_def)
  obtain e where e: "ps_credentials t (pk_id c) = Some e" "passkey_moves c1 e"
    using passkeys.run_moves [OF assms(5) ok1 c1(1)] by blast
  obtain raw' client auth sig where d: "credential_by_raw raw' t = Inr d"
    and v: "verify_assertion cr' (verify_config_of ws' bytes') client auth sig (pk_key d) (pk_count d) (pk_eligible d) = Inr a'"
    using assms(6) by (auto simp: verify_passkey_def split: sum.split_asm prod.split_asm if_split_asm)
  have "d = e" using d e(1) assms(7) unfolding found_by_raw [OF okt] by simp
  then have "as_count a \<le> pk_count d" "\<not> pk_eligible d" using c1 e(2) by (auto simp: passkey_moves_def)
  moreover have "pk_count d = 0 \<or> as_count a' = 0 \<or> pk_count d < as_count a'"
    using v calculation(2) unfolding assertion_ok by auto
  ultimately show ?thesis using assms(4) by auto
qed

text \<open>C30: A login with a passkey succeeds only for a challenge that was issued for a login, has not been used and has not
  expired, with an assertion that verifies for it under the key of an active passkey of the user, who is not disabled; the
  use is recorded, and the challenge cannot be used again.\<close>

theorem passkey_login_sound:
  assumes "passkeys_reachable U (w_hash w) s" and "passkey_login w clk acc token input s = (t, Inr u)" and "\<forall>i. 0 < clk i"
  shows "\<exists>ch c client auth sig a. ps_challenges s (w_hash w (trim_space token)) = Some ch \<and>
      ch_purpose ch = ''passkey-login'' \<and> ch_used ch = 0 \<and> clk 1 \<le> ch_expires ch \<and>
      ps_credentials s (pk_id c) = Some c \<and> pk_status c = ''active'' \<and> pk_user c = us_id u \<and>
      get_user (us_id u) acc = Inr u \<and> us_status u \<noteq> ''disabled'' \<and>
      verify_assertion (w_crypto w) (verify_config_of (w_settings w) (ch_bytes ch)) client auth sig (pk_key c) (pk_count c)
        (pk_eligible c) = Inr a \<and>
      (\<exists>d. ps_credentials t (pk_id c) = Some d \<and> passkey_moves c d \<and> as_count a \<le> pk_count d) \<and>
      snd (consume_challenge (w_hash w) clk' token p t) = Inl ChallengeInvalid"
proof -
  let ?h = "w_hash w (trim_space token)"
  note ok = reachable_index [OF assms(1)]
  obtain s1 tx where s1: "consume_challenge (w_hash w) clk token ''passkey-login'' s = (s1, Inr tx)"
    using assms(2) by (auto simp: passkey_login_def split: prod.split_asm sum.split_asm)
  have same: "ps_credentials s1 = ps_credentials s" "ps_index s1 = ps_index s"
    using consume_same [of "w_hash w" clk token "''passkey-login''" s] by (simp_all add: s1)
  have ok1: "index_ok s1" using same_passkeys [OF ok same] by (simp add: passkey_result_def)
  obtain c a where v: "verify_passkey (w_crypto w) (w_handle w) (w_settings w) input (ch_bytes tx) [] s1 = Inr (c, a)"
    using assms(2) by (auto simp: passkey_login_def s1 split: prod.split_asm sum.split_asm)
  have acc: "account_of acc (pk_user c) = Some u"
    using assms(2) by (auto simp: passkey_login_def s1 v split: prod.split_asm sum.split_asm option.split_asm)
  have t: "update_use (clk 3) (pk_id c) (us_id u) (as_count a) (as_backed a) s1 = (t, Inr ())"
    using assms(2) by (auto simp: passkey_login_def s1 v acc split: prod.split_asm sum.split_asm)
  have u: "get_user (pk_user c) acc = Inr u" "us_status u \<noteq> ''disabled''"
    using acc by (auto simp: account_of_def split: sum.split_asm if_split_asm)
  have uid: "pk_user c = us_id u" using u(1) first_some_Some by (fastforce simp: get_user_def split: option.split_asm)
  obtain raw client auth sig where c: "credential_by_raw raw s1 = Inr c"
    and va: "verify_assertion (w_crypto w) (verify_config_of (w_settings w) (ch_bytes tx)) client auth sig (pk_key c)
      (pk_count c) (pk_eligible c) = Inr a"
    using v by (auto simp: verify_passkey_def split: sum.split_asm prod.split_asm if_split_asm)
  note c' = c [unfolded found_by_raw [OF ok1]]
  have own: "own_passkey (pk_id c) (us_id u) s1 = Some c" using c' uid unfolding own_passkey_Some by simp
  have d: "\<exists>d. ps_credentials t (pk_id c) = Some d \<and> passkey_moves c d \<and> as_count a \<le> pk_count d"
    using t c' by (auto simp: update_use_def own put_passkey_def passkey_moves_def)
  have "ps_challenges t = ps_challenges s1" using t by (auto simp: update_use_def own put_passkey_def)
  moreover have "spent ?h s1" by (rule consume_spends [OF s1]) (use assms(3) in simp)
  ultimately have "spent ?h t" by (rule other_keeps_spent [rotated])
  then have again: "snd (consume_challenge (w_hash w) clk' token p t) = Inl ChallengeInvalid" by (rule spent_refused)
  from s1 obtain ch where ch: "ps_challenges s ?h = Some ch" "ch_purpose ch = ''passkey-login''" "ch_used ch = 0"
    "\<not> ch_expires ch < clk 1" "tx = ch\<lparr>ch_used := clk 2\<rparr>"
    by (rule consume_Inr)
  have b: "ch_bytes tx = ch_bytes ch" "clk 1 \<le> ch_expires ch" using ch(4,5) by simp_all
  show ?thesis
    using ch(1-3) b(2) c' uid u va [unfolded b(1)] d again unfolding same by (metis (no_types))
qed


section \<open>Samples\<close>

lemma base64_digit_graphic: "n < 64 \<Longrightarrow> graphic (base64_digit n)"
proof -
  have "list_all (\<lambda>n. graphic (base64_digit n)) [0..<64]" by code_simp
  then show "n < 64 \<Longrightarrow> graphic (base64_digit n)" by (simp add: list_all_iff)
qed

lemma base64url_encode_trim: "trim_space (base64url_encode s) = base64url_encode s"
proof (rule trim_space_graphic)
  have "\<forall>n \<in> set (base64_sextets (map of_char s)). n < 64" by (rule sextets_small) auto
  then show "\<forall>c \<in> set (base64url_encode s). graphic c" by (auto simp: base64url_encode_def base64_digit_graphic)
qed

lemma decode_web_b64_encode:
  assumes "s \<noteq> []" "length s \<le> limit"
  shows "decode_web_b64 (base64url_encode s) limit = Inr s"
proof -
  have "base64url_encode s \<noteq> []"
    using base64url_decode_encode [of s] assms(1) by (auto simp: base64url_decode_def)
  then show ?thesis using assms by (simp add: decode_web_b64_def base64url_encode_trim base64url_decode_encode)
qed

definition passkey_sample :: passkey where
  "passkey_sample = \<lparr>pk_id = ''pkc'', pk_user = ''admin'', pk_raw = ''key'', pk_handle = ''h'', pk_key = sample_key,
     pk_algorithm = -8, pk_count = 5, pk_aaguid = [], pk_transports = [], pk_name = ''Passkey'', pk_eligible = False,
     pk_backed = False, pk_status = ''active'', pk_created = 1, pk_used = 0, pk_updated = 1\<rparr>"

definition saved_sample :: passkey_store where
  "saved_sample = fst (save_credential 1 passkey_sample no_passkeys)"

definition asked_sample :: passkey_store where
  "asked_sample = create_challenge id id ''wtx'' 2 2 [] ''passkey-login'' ''abc'' None saved_sample"

definition settings_sample :: webauthn_settings where
  "settings_sample = \<lparr>ws_rpid = ''app'', ws_origins = [''https://app''], ws_public = []\<rparr>"

definition world_sample :: world where
  "world_sample = \<lparr>w_crypto = sample_crypto, w_settings = settings_sample, w_unicode = ascii_only, w_hash = id, w_handle = id,
     w_runes = length\<rparr>"

definition input_sample :: "nat \<Rightarrow> assertion_input" where
  "input_sample n = \<lparr>in_id = [], in_raw_id = base64url_encode ''key'', in_type = ''public-key'', in_client = base64url_encode ''get'',
     in_auth = base64url_encode (sample_auth 5 n), in_signature = base64url_encode ''ok'', in_handle = []\<rparr>"

abbreviation verified_sample :: "nat \<Rightarrow> assertion" where
  "verified_sample n \<equiv> \<lparr>as_count = n, as_eligible = False, as_backed = False, as_verified = True\<rparr>"

lemma saved_sample_store:
  "saved_sample = no_passkeys\<lparr>ps_credentials := [''pkc'' \<mapsto> passkey_sample], ps_index := [base64url_encode ''key'' \<mapsto> ''pkc'']\<rparr>"
  by (simp add: saved_sample_def save_credential_def no_passkeys_def passkey_sample_def)

lemma saved_sample_reachable: "passkeys_reachable U id saved_sample"
proof -
  have "passkey_step U id None no_passkeys saved_sample"
    unfolding saved_sample_def by (rule passkey_saved) (simp add: no_passkeys_def)
  then show ?thesis unfolding passkeys_reachable_def any_passkey_step_def by blast
qed

lemma asked_sample_reachable: "passkeys_reachable U id asked_sample"
proof -
  have "passkey_step U id (Some (id ''wtx'')) saved_sample asked_sample"
    unfolding asked_sample_def by (rule challenge_created)
  then show ?thesis using saved_sample_reachable
    unfolding passkeys_reachable_def any_passkey_step_def by (auto intro: rtranclp.rtrancl_into_rtrancl)
qed

lemma settings_sample_config: "verify_config_of settings_sample ''abc'' = sample_config"
proof -
  have "trim_space ''app'' = ''app''" "trim_space ''https://app'' = ''https://app''" by code_simp+
  then show ?thesis by (simp add: verify_config_of_def settings_sample_def sample_config_def)
qed

lemma input_sample_decoded: "decode_assertion (input_sample n) = Inr (''key'', ''get'', sample_auth 5 n, ''ok'', [])"
proof -
  have "sample_auth 5 n \<noteq> []" using sample_auth_fields(1) [of 5 n] by auto
  moreover have "trim_space [] = []" by code_simp
  moreover have "base64url_encode ''key'' \<noteq> []" by code_simp
  ultimately show ?thesis
    by (simp add: decode_assertion_def input_sample_def base64url_encode_trim decode_web_b64_encode sample_auth_fields(1))
qed

lemma sample_accepts:
  assumes "k < n" "n < 2 ^ 32"
  shows "verify_assertion sample_crypto sample_config ''get'' (sample_auth 5 n) ''ok'' sample_key k False = Inr (verified_sample n)"
proof -
  have f: "auth_flags (sample_auth 5 n) = 5" "auth_counter (sample_auth 5 n) = n"
    "take 32 (sample_auth 5 n) = replicate 32 (CHR ''h'')"
    using sample_auth_fields(2) [of 5 n "[]"] sample_auth_fields(3) [of 5 n "[]"] sample_auth_fields(4) [of n 5 "[]"] assms(2)
    by simp_all
  have "auth_accepted sample_crypto sample_config (sample_auth 5 n)"
    by (simp add: auth_accepted_def f sample_auth_fields(1) has_flag_def sample_crypto_def sample_config_def)
  then show ?thesis unfolding assertion_ok using assms(1) sample_key_parsed sample_client_ok(1) sample_signature
    by (auto simp: f has_flag_def)
qed

lemma sample_verified:
  assumes "ps_index s = ps_index saved_sample" "ps_credentials s ''pkc'' = Some c"
    "c = passkey_sample\<lparr>pk_count := k, pk_used := x, pk_updated := y\<rparr>" "k < n" "n < 2 ^ 32"
  shows "verify_passkey sample_crypto id settings_sample (input_sample n) ''abc'' [] s = Inr (c, verified_sample n)"
proof -
  have i: "ps_index s (base64url_encode ''key'') = Some ''pkc''" by (simp add: assms(1) saved_sample_store)
  have "credential_by_raw ''key'' s = Inr c"
    by (simp add: credential_by_raw_def i assms(2,3) passkey_sample_def)
  then show ?thesis
    using sample_accepts [OF assms(4,5)]
    by (simp add: verify_passkey_def input_sample_decoded settings_sample_config assms(3) passkey_sample_def)
qed

lemma passkey_sample_as: "passkey_sample = passkey_sample\<lparr>pk_count := 5, pk_used := 0, pk_updated := 1\<rparr>"
  by (simp add: passkey_sample_def)

lemma asked_sample_store:
  "ps_index asked_sample = ps_index saved_sample" "ps_credentials asked_sample = ps_credentials saved_sample"
  by (simp_all add: asked_sample_def create_challenge_def Let_def)


definition spent_sample :: passkey_store where
  "spent_sample = fst (consume_challenge id (\<lambda>_. 3) ''wtx'' ''passkey-login'' asked_sample)"

lemma wtx_trim: "trim_space ''wtx'' = ''wtx''"
  by code_simp

lemma sample_consumed: "\<exists>tx. consume_challenge id (\<lambda>_. 3) ''wtx'' ''passkey-login'' asked_sample = (spent_sample, Inr tx) \<and> ch_bytes tx = ''abc''"
  unfolding spent_sample_def consume_challenge_def asked_sample_def create_challenge_def cleanup_challenges_def Let_def
    saved_sample_store no_passkeys_def
  by (simp add: wtx_trim challenge_ttl_def)

lemma spent_sample_reachable: "passkeys_reachable U id spent_sample"
proof -
  have "passkey_step U id None asked_sample spent_sample"
    unfolding spent_sample_def by (rule challenge_consumed) simp
  then show ?thesis using asked_sample_reachable
    unfolding passkeys_reachable_def any_passkey_step_def by (auto intro: rtranclp.rtrancl_into_rtrancl)
qed

theorem revoked_passkey_dead_witness:
  "credential_by_raw ''key'' (fst (revoke_passkey 4 ''pkc'' ''admin'' saved_sample)) = Inl NoPasskey"
proof -
  have "own_passkey ''pkc'' ''admin'' saved_sample = Some passkey_sample"
    unfolding own_passkey_Some by (simp add: saved_sample_store passkey_sample_def)
  from revoked_passkey_dead [OF saved_sample_reachable this rtranclp.rtrancl_refl]
  have "credential_by_raw (pk_raw passkey_sample) (fst (revoke_passkey 4 ''pkc'' ''admin'' saved_sample)) = Inl NoPasskey"
    by blast
  then show ?thesis by (simp add: passkey_sample_def)
qed

theorem counter_grows_witness:
  "as_count (verified_sample 7) = 0 \<or> as_count (verified_sample 6) < as_count (verified_sample 7)"
proof -
  let ?s1 = "fst (update_use 4 ''pkc'' ''admin'' 6 False saved_sample)"
  have v1: "verify_passkey sample_crypto id settings_sample (input_sample 6) ''abc'' [] saved_sample = Inr (passkey_sample, verified_sample 6)"
    by (rule sample_verified [OF refl _ passkey_sample_as]) (simp_all add: saved_sample_store)
  let ?d = "passkey_sample\<lparr>pk_count := 6, pk_used := 4, pk_updated := 4\<rparr>"
  have s1: "ps_index ?s1 = ps_index saved_sample" "ps_credentials ?s1 ''pkc'' = Some ?d"
    by (simp_all add: update_use_def own_passkey_def saved_sample_store passkey_sample_def put_passkey_def)
  have v2: "verify_passkey sample_crypto id settings_sample (input_sample 7) ''abc'' [] ?s1 = Inr (?d, verified_sample 7)"
    by (rule sample_verified [OF s1 refl]) simp_all
  have p: "\<not> pk_eligible passkey_sample" "0 < as_count (verified_sample 6)" "pk_id ?d = pk_id passkey_sample"
    by (simp_all add: passkey_sample_def)
  have run: "(any_passkey_step ascii_only id)\<^sup>*\<^sup>*
      (fst (update_use 4 (pk_id passkey_sample) (pk_user passkey_sample) (as_count (verified_sample 6)) False saved_sample)) ?s1"
    by (simp add: passkey_sample_def)
  show ?thesis
    by (rule counter_grows [OF saved_sample_reachable v1 p(1,2) run v2 p(3)])
qed

theorem passkey_login_sound_witness:
  "\<exists>c a. ps_credentials asked_sample (pk_id c) = Some c \<and> pk_user c = ''admin'' \<and>
     snd (passkey_login world_sample (\<lambda>_. 3) accounts_sample ''wtx'' (input_sample 6) asked_sample) = Inr a"
proof -
  obtain tx where tx: "consume_challenge id (\<lambda>_. 3) ''wtx'' ''passkey-login'' asked_sample = (spent_sample, Inr tx)" "ch_bytes tx = ''abc''"
    using sample_consumed by blast
  have same: "ps_index spent_sample = ps_index saved_sample" "ps_credentials spent_sample ''pkc'' = Some passkey_sample"
    unfolding spent_sample_def consume_same asked_sample_store by (simp_all add: saved_sample_store)
  have v: "verify_passkey sample_crypto id settings_sample (input_sample 6) ''abc'' [] spent_sample = Inr (passkey_sample, verified_sample 6)"
    by (rule sample_verified [OF same passkey_sample_as]) simp_all
  have acc: "account_of accounts_sample (pk_user passkey_sample) = Some user_sample"
    by (simp add: account_of_def get_user_def accounts_sample_def user_sample_def passkey_sample_def)
  have own: "own_passkey ''pkc'' ''admin'' spent_sample = Some passkey_sample"
    unfolding own_passkey_Some using same(2) by (simp add: passkey_sample_def)
  obtain t where l: "passkey_login world_sample (\<lambda>_. 3) accounts_sample ''wtx'' (input_sample 6) asked_sample = (t, Inr user_sample)"
    unfolding passkey_login_def
    by (simp add: world_sample_def tx v acc update_use_def own) (simp add: passkey_sample_def user_sample_def own)
  have r: "passkeys_reachable ascii_only (w_hash world_sample) asked_sample"
    using asked_sample_reachable by (simp add: world_sample_def)
  have u: "us_id user_sample = ''admin''" by (simp add: user_sample_def)
  show ?thesis
    using passkey_login_sound [OF r l, where clk' = "\<lambda>_. 4" and p = "''passkey-login''"] unfolding l u by auto
qed

end
