(* ===== verification/AuthSessions.thy ===== *)
theory AuthSessions
  imports Authorization Passkeys
begin

text \<open>
  Login sessions in memory (\<^verbatim>\<open>httpapi/auth_sessions.go\<close>, \<^verbatim>\<open>session_management_118.go\<close>) with the families of their
  rotated refresh tokens, the binding to a device, and the risk of a session (\<^verbatim>\<open>session_device_risk.go\<close>).  Drawn
  tokens, the hash of a token, the order in which a map is walked and the clock readings are arguments.
\<close>

section \<open>Data\<close>

record risk =
  rk_state :: string
  rk_reasons :: "string list"
  rk_score :: int
  rk_action :: string
  rk_evaluated :: time
  rk_updated :: time

record binding =
  bd_device :: string
  bd_trust :: string
  bd_verified :: time
  bd_epoch :: int

record auth_session =
  an_id :: string
  an_user :: string
  an_email :: string
  an_role :: string
  an_device_id :: string
  an_device :: string
  an_status :: string
  an_hash :: string
  an_family :: string
  an_methods :: "string list"
  an_strength :: string
  an_auth_time :: time
  an_identity :: string
  an_provider :: string
  an_created :: time
  an_seen :: time
  an_expires :: time
  an_revoked :: time
  an_reason :: string
  an_ip :: string
  an_agent :: string
  an_last_ip :: string
  an_last_agent :: string
  an_renamed :: time
  an_risk :: risk
  an_binding :: binding

record refresh_token =
  rt_hash :: string
  rt_family :: string
  rt_session :: string
  rt_status :: string
  rt_created :: time
  rt_expires :: time
  rt_consumed :: time

record refresh_family =
  rf_id :: string
  rf_session :: string
  rf_user :: string
  rf_status :: string
  rf_created :: time
  rf_compromised :: time
  rf_revoked :: time
  rf_reason :: string

record session_store =
  sn_sessions :: "auth_session gomap"
  sn_tokens :: "refresh_token gomap"
  sn_families :: "refresh_family gomap"

datatype session_error =
  RefreshInvalid | RefreshReused | BindingChanged | AuthRequired | SessionNotFound | BadDeviceName

type_synonym 'a session_outcome = "session_store \<times> (session_error + 'a)"

abbreviation tok_current :: string where "tok_current \<equiv> ''current''"
abbreviation tok_consumed :: string where "tok_consumed \<equiv> ''consumed''"
abbreviation is_revoked :: string where "is_revoked \<equiv> ''revoked''"

definition access_ttl :: time where "access_ttl = 15 * 60 * 1000000000"

definition refresh_ttl :: time where "refresh_ttl = 30 * 24 * 3600 * 1000000000"

definition max_sessions :: nat where "max_sessions = 10"

definition no_sessions :: session_store where
  "no_sessions = \<lparr>sn_sessions = Map.empty, sn_tokens = Map.empty, sn_families = Map.empty\<rparr>"

section \<open>Methods and strength\<close>

definition merge_methods :: "unicode \<Rightarrow> string list \<Rightarrow> string list \<Rightarrow> string list" where
  "merge_methods U existing extra =
     rev (fold (\<lambda>raw out. let v = to_lower U (trim_space raw) in if v = [] \<or> v \<in> set out then out else v # out)
       (existing @ extra) [])"

definition strength_level :: "unicode \<Rightarrow> string \<Rightarrow> int" where
  "strength_level U v =
     (let w = to_lower U (trim_space v)
      in if w = ''single-factor'' then 0 else if w = ''mfa'' then 1 else if w = ''phishing-resistant'' then 2 else -1)"

definition normalize_auth ::
    "unicode \<Rightarrow> time \<Rightarrow> string list \<Rightarrow> string \<Rightarrow> time \<Rightarrow> string \<Rightarrow> string list \<times> string \<times> time \<times> string" where
  "normalize_auth U now methods0 strength auth_time provider0 =
     (let methods = merge_methods U [] methods0; provider = to_lower U (trim_space provider0)
      in (if methods = [] then [''unknown''] else methods,
          if strength_level U strength < 0 then ''single-factor'' else strength,
          if auth_time = 0 then now else auth_time,
          if provider = [] then ''local'' else provider))"

section \<open>Risk\<close>

definition risk_state :: "unicode \<Rightarrow> string \<Rightarrow> string" where
  "risk_state U v =
     (let w = to_lower U (trim_space v)
      in if w = ''elevated'' then ''elevated'' else if w = ''compromised'' then ''compromised'' else ''normal'')"

definition merge_reasons :: "unicode \<Rightarrow> string list \<Rightarrow> string list \<Rightarrow> string list" where
  "merge_reasons U existing extra = sort (merge_methods U existing extra)"

definition remove_reasons :: "unicode \<Rightarrow> string list \<Rightarrow> string list \<Rightarrow> string list" where
  "remove_reasons U existing dropped =
     (let gone = map (\<lambda>v. to_lower U (trim_space v)) dropped
      in merge_reasons U []
           (filter (\<lambda>v. v \<noteq> [] \<and> v \<notin> set gone) (map (\<lambda>raw. to_lower U (trim_space raw)) existing)))"

record risk_scan =
  rx_score :: int
  rx_network :: bool
  rx_hwid :: bool
  rx_reattest :: bool
  rx_compromise :: bool

definition scan_reason :: "string \<Rightarrow> risk_scan \<Rightarrow> risk_scan" where
  "scan_reason r x =
     (if r = ''ip-changed'' then x\<lparr>rx_score := rx_score x + 25, rx_network := True\<rparr>
      else if r = ''user-agent-changed'' then x\<lparr>rx_score := rx_score x + 35, rx_network := True\<rparr>
      else if r = ''hwid-signal-changed'' then x\<lparr>rx_hwid := True\<rparr>
      else if r = ''device-attestation-stale'' then x\<lparr>rx_score := rx_score x + 40, rx_reattest := True\<rparr>
      else if r \<in> {''trusted-device-revoked'', ''trusted-device-missing'', ''trusted-device-invalid'', ''refresh-token-reuse''}
      then x\<lparr>rx_score := 100, rx_compromise := True\<rparr>
      else x\<lparr>rx_score := rx_score x + 25, rx_network := True\<rparr>)"

definition weigh_hwid :: "risk_scan \<Rightarrow> risk_scan" where
  "weigh_hwid x =
     (if rx_hwid x \<and> \<not> rx_compromise x then
        x\<lparr>rx_network := True,
          rx_score := if rx_score x < 100 then (if rx_score x + 20 \<ge> 100 then 99 else rx_score x + 20) else rx_score x\<rparr>
      else x)"

definition risk_verdict :: "risk_scan \<Rightarrow> string \<times> int \<times> string" where
  "risk_verdict x =
     (let score = if rx_score x > 100 then 100 else rx_score x
      in if rx_compromise x \<or> score \<ge> 100 then (''compromised'', 100, ''revoke'')
         else if rx_reattest x then (''elevated'', score, ''reattest'')
         else if rx_network x then (''elevated'', score, ''step-up'')
         else (''normal'', 0, ''allow''))"

definition no_risk_seen :: risk_scan where
  "no_risk_seen = \<lparr>rx_score = 0, rx_network = False, rx_hwid = False, rx_reattest = False, rx_compromise = False\<rparr>"

definition evaluate_reasons :: "unicode \<Rightarrow> string list \<Rightarrow> string \<times> int \<times> string" where
  "evaluate_reasons U reasons =
     risk_verdict (weigh_hwid (fold scan_reason (merge_reasons U [] reasons) no_risk_seen))"

definition recompute_risk :: "unicode \<Rightarrow> time \<Rightarrow> auth_session \<Rightarrow> auth_session" where
  "recompute_risk U now x =
     (let k = an_risk x; (state, score, action) = evaluate_reasons U (rk_reasons k)
      in x\<lparr>an_risk := k\<lparr>rk_state := state, rk_score := score, rk_action := action, rk_evaluated := now,
             rk_updated :=
               (if state = ''normal'' then 0
                else if rk_updated k = 0 \<or> state \<noteq> risk_state U (rk_state k) \<or> score \<noteq> rk_score k \<or>
                        action \<noteq> first_non_empty [rk_action k, ''allow''] then now
                else rk_updated k)\<rparr>\<rparr>)"

definition clear_step_up_risk :: "unicode \<Rightarrow> time \<Rightarrow> auth_session \<Rightarrow> auth_session" where
  "clear_step_up_risk U now x =
     recompute_risk U now (x\<lparr>an_risk := (an_risk x)\<lparr>rk_reasons :=
       remove_reasons U (rk_reasons (an_risk x)) [''ip-changed'', ''user-agent-changed'']\<rparr>\<rparr>)"

definition add_reason :: "unicode \<Rightarrow> string \<Rightarrow> auth_session \<Rightarrow> auth_session" where
  "add_reason U r x = x\<lparr>an_risk := (an_risk x)\<lparr>rk_reasons := merge_reasons U (rk_reasons (an_risk x)) [r]\<rparr>\<rparr>"

definition first_origin :: "string \<Rightarrow> string \<Rightarrow> auth_session \<Rightarrow> auth_session" where
  "first_origin ip agent x =
     x\<lparr>an_risk := (an_risk x)\<lparr>rk_state := if rk_state (an_risk x) = [] then ''normal'' else rk_state (an_risk x)\<rparr>,
       an_last_ip := if an_last_ip x = [] then first_non_empty [an_ip x, ip] else an_last_ip x,
       an_last_agent := if an_last_agent x = [] then first_non_empty [an_agent x, agent] else an_last_agent x\<rparr>"

definition reason_if :: "unicode \<Rightarrow> bool \<Rightarrow> string \<Rightarrow> auth_session \<Rightarrow> auth_session" where
  "reason_if U b r x = (if b then add_reason U r x else x)"

definition last_origin :: "string \<Rightarrow> string \<Rightarrow> auth_session \<Rightarrow> auth_session" where
  "last_origin ip agent x =
     x\<lparr>an_last_ip := if ip \<noteq> [] then ip else an_last_ip x, an_last_agent := if agent \<noteq> [] then agent else an_last_agent x\<rparr>"

definition moved :: "string \<Rightarrow> string \<Rightarrow> bool" where
  "moved new old \<longleftrightarrow> new \<noteq> [] \<and> old \<noteq> [] \<and> new \<noteq> old"

definition observe_request :: "unicode \<Rightarrow> string \<Rightarrow> string \<Rightarrow> time \<Rightarrow> auth_session \<Rightarrow> auth_session" where
  "observe_request U ip0 agent0 now x0 =
     (let ip = trim_space ip0; agent = trim_space agent0; x1 = first_origin ip agent x0;
          b = moved ip (an_last_ip x1); c = moved agent (an_last_agent x1);
          x2 = reason_if U c ''user-agent-changed'' (reason_if U b ''ip-changed'' x1)
      in last_origin ip agent (if b \<or> c then recompute_risk U now x2 else x2))"

definition sanitize :: "unicode \<Rightarrow> auth_session \<Rightarrow> auth_session" where
  "sanitize U x =
     (let b = an_binding x; k = an_risk x;
          k1 = (if trim_space (rk_action k) = [] then
                  (let st = risk_state U (rk_state k)
                   in if st = ''compromised'' then k\<lparr>rk_action := ''revoke'', rk_score := 100\<rparr>
                      else if st = ''elevated'' then k\<lparr>rk_action := ''step-up'', rk_score := max 25 (rk_score k)\<rparr>
                      else k\<lparr>rk_action := ''allow''\<rparr>)
                else k)
      in x\<lparr>an_hash := [],
           an_binding := b\<lparr>bd_trust := if trim_space (bd_trust b) = [] then ''unverified'' else bd_trust b,
                            bd_epoch := if bd_epoch b < 1 then 1 else bd_epoch b\<rparr>,
           an_risk := k1\<rparr>)"

section \<open>Families\<close>

definition no_family :: refresh_family where \<comment> \<open>the zero value a missing family reads as\<close>
  "no_family = \<lparr>rf_id = [], rf_session = [], rf_user = [], rf_status = [], rf_created = 0, rf_compromised = 0,
     rf_revoked = 0, rf_reason = []\<rparr>"

definition family_of :: "session_store \<Rightarrow> string \<Rightarrow> refresh_family" where
  "family_of s f = (case sn_families s f of None \<Rightarrow> no_family | Some r \<Rightarrow> r)"

definition revoke_tokens :: "string \<Rightarrow> session_store \<Rightarrow> session_store" where
  "revoke_tokens f s = s\<lparr>sn_tokens := (\<lambda>h. map_option (\<lambda>t. if rt_family t = f then t\<lparr>rt_status := is_revoked\<rparr> else t) (sn_tokens s h))\<rparr>"

definition put_session :: "string \<Rightarrow> auth_session \<Rightarrow> session_store \<Rightarrow> session_store" where
  "put_session i x s = s\<lparr>sn_sessions := (sn_sessions s)(i \<mapsto> x)\<rparr>"

definition put_family :: "string \<Rightarrow> refresh_family \<Rightarrow> session_store \<Rightarrow> session_store" where
  "put_family f r s = s\<lparr>sn_families := (sn_families s)(f \<mapsto> r)\<rparr>"

definition put_token :: "string \<Rightarrow> refresh_token \<Rightarrow> session_store \<Rightarrow> session_store" where
  "put_token h t s = s\<lparr>sn_tokens := (sn_tokens s)(h \<mapsto> t)\<rparr>"

definition revoke_family :: "string \<Rightarrow> string \<Rightarrow> time \<Rightarrow> session_store \<Rightarrow> session_store" where
  "revoke_family f reason now s =
     (if f = [] then s
      else revoke_tokens f (put_family f ((family_of s f)\<lparr>rf_status := is_revoked, rf_revoked := now, rf_reason := reason\<rparr>) s))"

definition compromised_session :: "unicode \<Rightarrow> time \<Rightarrow> string \<Rightarrow> auth_session \<Rightarrow> auth_session" where
  "compromised_session U now reason x =
     x\<lparr>an_status := is_revoked, an_revoked := now, an_reason := reason,
       an_risk := \<lparr>rk_state = ''compromised'', rk_reasons = merge_reasons U (rk_reasons (an_risk x)) [reason], rk_score = 100,
                   rk_action = ''revoke'', rk_evaluated = now, rk_updated = now\<rparr>\<rparr>"

definition compromise_family :: "unicode \<Rightarrow> time \<Rightarrow> string \<Rightarrow> string \<Rightarrow> session_store \<Rightarrow> session_store" where
  "compromise_family U now f reason s =
     (let r = (family_of s f)\<lparr>rf_status := ''compromised'', rf_compromised := now, rf_reason := reason\<rparr>;
          s1 = put_family f r s;
          s2 = (case sn_sessions s1 (rf_session r) of
                  None \<Rightarrow> s1
                | Some x \<Rightarrow> put_session (an_id x) (compromised_session U now reason x) s1)
      in revoke_tokens f s2)"

section \<open>Walks over the sessions\<close>

definition end_session :: "(auth_session \<Rightarrow> bool) \<Rightarrow> (auth_session \<Rightarrow> auth_session) \<Rightarrow> time \<Rightarrow> string \<Rightarrow>
    session_store \<times> string list \<Rightarrow> session_store \<times> string list" where
  \<comment> \<open>the body of the loops that revoke sessions: the marked record is stored and its family revoked\<close>
  "end_session p mark now i =
     (\<lambda>(s, ids). case sn_sessions s i of
        None \<Rightarrow> (s, ids)
      | Some x \<Rightarrow>
          if \<not> p x then (s, ids)
          else (revoke_family (an_family x) (an_reason (mark x)) now (put_session i (mark x) s), ids @ [i]))"

definition sweep :: "string list \<Rightarrow> (auth_session \<Rightarrow> bool) \<Rightarrow> (auth_session \<Rightarrow> auth_session) \<Rightarrow> time \<Rightarrow> session_store \<Rightarrow>
    session_store \<times> string list" where
  \<comment> \<open>\<open>order\<close>: the order in which the map is walked\<close>
  "sweep order p mark now s = fold (end_session p mark now) order (s, [])"

definition ended :: "time \<Rightarrow> string \<Rightarrow> auth_session \<Rightarrow> auth_session" where
  "ended now reason x = x\<lparr>an_status := is_revoked, an_revoked := now, an_reason := reason\<rparr>"

definition revoke_user :: "string list \<Rightarrow> time \<Rightarrow> string \<Rightarrow> string \<Rightarrow> session_store \<Rightarrow> session_store \<times> nat" where
  "revoke_user order now user reason s =
     (let (t, ids) = sweep order (\<lambda>x. an_user x = user \<and> an_status x = ''active'')
            (ended now (first_non_empty [reason, ''user-session-revoke''])) now s
      in (t, length ids))"

definition revoke_others :: "string list \<Rightarrow> time \<Rightarrow> string \<Rightarrow> string \<Rightarrow> string \<Rightarrow> session_store \<Rightarrow> session_store \<times> nat" where
  "revoke_others order now user current reason s =
     (let (t, ids) = sweep order (\<lambda>x. an_user x = user \<and> an_id x \<noteq> current \<and> an_status x = ''active'')
            (ended now (first_non_empty [reason, ''user-revoke-other-sessions''])) now s
      in (t, length ids))"

definition revoke_filtered ::
    "unicode \<Rightarrow> string list \<Rightarrow> time \<Rightarrow> string \<Rightarrow> string \<Rightarrow> string \<Rightarrow> string \<Rightarrow> session_store \<Rightarrow> session_store \<times> nat" where
  "revoke_filtered U order now user provider0 risk0 reason0 s =
     (let provider = to_lower U (trim_space provider0); risk = to_lower U (trim_space risk0);
          reason = first_non_empty [reason0, ''admin-session-revoke''];
          (t, ids) = sweep order
            (\<lambda>x. an_status x = ''active'' \<and> (user = [] \<or> an_user x = user) \<and>
                 (provider = [] \<or> to_lower U (an_provider x) = provider) \<and>
                 (risk = [] \<or> risk_state U (rk_state (an_risk x)) = risk))
            (\<lambda>x. let y = ended now reason x
                 in if risk = ''compromised'' \<or> contains_str reason ''compromised'' then
                      y\<lparr>an_risk := (an_risk y)\<lparr>rk_state := ''compromised'',
                          rk_reasons := merge_reasons U (rk_reasons (an_risk y)) [reason], rk_updated := now\<rparr>\<rparr>
                    else y) now s
      in (t, length ids))"

definition revoke_device ::
    "unicode \<Rightarrow> string list \<Rightarrow> time \<Rightarrow> string \<Rightarrow> string \<Rightarrow> string \<Rightarrow> session_store \<Rightarrow> session_store \<times> string list" where
  "revoke_device U order now user device reason0 s =
     (let reason = first_non_empty [trim_space reason0, ''device-revoked'']
      in sweep order
           (\<lambda>x. an_user x = trim_space user \<and> bd_device (an_binding x) = trim_space device \<and> an_status x = ''active'')
           (\<lambda>x. let y = compromised_session U now reason x
                in y\<lparr>an_binding := (an_binding y)\<lparr>bd_trust := is_revoked\<rparr>\<rparr>) now s)"

section \<open>Login\<close>

definition active_of :: "string list \<Rightarrow> string \<Rightarrow> session_store \<Rightarrow> auth_session list" where
  "active_of order user s =
     filter (\<lambda>x. an_user x = user \<and> an_status x = ''active'') (List.map_filter (sn_sessions s) order)"

fun end_all :: "(nat \<Rightarrow> time) \<Rightarrow> nat \<Rightarrow> auth_session list \<Rightarrow> session_store \<Rightarrow> session_store" where
  "end_all clk n [] s = s"
| "end_all clk n (x # xs) s =
     end_all clk (n + 1) xs
       (revoke_family (an_family x) ''max-sessions-per-user'' (clk n)
          (put_session (an_id x) (ended (clk n) ''max-sessions-per-user'' x) s))"

definition enforce_limit :: "string list \<Rightarrow> (nat \<Rightarrow> time) \<Rightarrow> nat \<Rightarrow> string \<Rightarrow> session_store \<Rightarrow> session_store" where
  \<comment> \<open>the sessions seen longest ago end; which of several seen at the same time depends on \<open>order\<close>\<close>
  "enforce_limit order clk n user s =
     (let items = active_of order user s
      in if length items \<le> max_sessions then s
         else end_all clk n (take (length items - max_sessions) (sort_key an_seen items)) s)"

record login_request =
  lr_device :: string
  lr_methods :: "string list"
  lr_strength :: string
  lr_time :: time
  lr_identity :: string
  lr_provider :: string
  lr_ip :: string
  lr_agent :: string

record drawn = \<comment> \<open>random tokens\<close>
  dw_refresh :: string
  dw_session :: string
  dw_family :: string

definition new_session :: "(string \<Rightarrow> string) \<Rightarrow> unicode \<Rightarrow> (nat \<Rightarrow> time) \<Rightarrow> drawn \<Rightarrow> user \<Rightarrow> login_request \<Rightarrow> auth_session" where
  "new_session hash U clk d u q =
     (let (methods, strength, auth_time, provider) =
            normalize_auth U (clk 0) (lr_methods q) (lr_strength q) (lr_time q) (lr_provider q);
          now = clk 1; device = (if trim_space (lr_device q) = [] then ''admin-panel'' else trim_space (lr_device q))
      in \<lparr>an_id = dw_session d, an_user = us_id u, an_email = us_email u, an_role = us_role u, an_device_id = device,
          an_device = device, an_status = ''active'', an_hash = hash (dw_refresh d), an_family = dw_family d,
          an_methods = methods, an_strength = strength, an_auth_time = auth_time, an_identity = trim_space (lr_identity q),
          an_provider = provider, an_created = now, an_seen = now, an_expires = now + refresh_ttl, an_revoked = 0,
          an_reason = [], an_ip = lr_ip q, an_agent = lr_agent q, an_last_ip = lr_ip q, an_last_agent = lr_agent q,
          an_renamed = 0,
          an_risk = \<lparr>rk_state = ''normal'', rk_reasons = [], rk_score = 0, rk_action = ''allow'', rk_evaluated = now,
                     rk_updated = 0\<rparr>,
          an_binding = \<lparr>bd_device = [], bd_trust = ''unverified'', bd_verified = 0, bd_epoch = 1\<rparr>\<rparr>)"

definition create_session ::
    "(string \<Rightarrow> string) \<Rightarrow> unicode \<Rightarrow> (nat \<Rightarrow> time) \<Rightarrow> string list \<Rightarrow> drawn \<Rightarrow> user \<Rightarrow> login_request \<Rightarrow> session_store \<Rightarrow>
     session_store \<times> auth_session \<times> string" where
  \<comment> \<open>\<open>order\<close>: the order of the walk after the new session has been stored\<close>
  "create_session hash U clk order d u q s =
     (let x = new_session hash U clk d u q;
          s1 = put_session (an_id x) x s;
          s2 = put_family (dw_family d) \<lparr>rf_id = dw_family d, rf_session = an_id x, rf_user = us_id u, rf_status = ''active'',
                 rf_created = clk 1, rf_compromised = 0, rf_revoked = 0, rf_reason = []\<rparr> s1;
          s3 = put_token (an_hash x) \<lparr>rt_hash = an_hash x, rt_family = dw_family d, rt_session = an_id x, rt_status = tok_current,
                 rt_created = clk 1, rt_expires = an_expires x, rt_consumed = 0\<rparr> s2
      in (enforce_limit order clk 2 (us_id u) s3, x, dw_refresh d))"

section \<open>Rotation of refresh tokens\<close>

definition same_binding :: "auth_session \<Rightarrow> auth_session \<Rightarrow> bool" where
  "same_binding x y \<longleftrightarrow>
     an_id x = an_id y \<and> an_user x = an_user y \<and> bd_device (an_binding x) = bd_device (an_binding y) \<and>
     bd_trust (an_binding x) = bd_trust (an_binding y) \<and> bd_epoch (an_binding x) = bd_epoch (an_binding y)"

definition adopt_token :: "string list \<Rightarrow> string \<Rightarrow> session_store \<Rightarrow> (session_store \<times> refresh_token) option" where
  \<comment> \<open>the token of a session stored before tokens were kept on their own\<close>
  "adopt_token order h s =
     (case sn_tokens s h of
        Some t \<Rightarrow> Some (s, t)
      | None \<Rightarrow>
          map_option (\<lambda>x.
            let t = \<lparr>rt_hash = h, rt_family = an_family x, rt_session = an_id x, rt_status = tok_current,
                     rt_created = an_created x, rt_expires = an_expires x, rt_consumed = 0\<rparr>;
                s1 = put_token h t s
            in (case sn_families s1 (an_family x) of
                  None \<Rightarrow> put_family (an_family x) \<lparr>rf_id = an_family x, rf_session = an_id x, rf_user = an_user x,
                            rf_status = ''active'', rf_created = an_created x, rf_compromised = 0, rf_revoked = 0,
                            rf_reason = []\<rparr> s1
                | Some _ \<Rightarrow> s1, t))
            (first_some (\<lambda>x. an_hash x = h) (List.map_filter (sn_sessions s) order)))"

definition rotated ::
    "unicode \<Rightarrow> (string \<times> string) option \<Rightarrow> time \<Rightarrow> string \<Rightarrow> auth_session \<Rightarrow> auth_session" where
  "rotated U request now h x =
     (let y = x\<lparr>an_hash := h, an_seen := now, an_expires := now + refresh_ttl\<rparr>
      in case request of None \<Rightarrow> y | Some (ip, agent) \<Rightarrow> observe_request U ip agent now y)"

definition rotate_token ::
    "(string \<Rightarrow> string) \<Rightarrow> unicode \<Rightarrow> (nat \<Rightarrow> time) \<Rightarrow> string list \<Rightarrow> string \<Rightarrow> string \<Rightarrow> auth_session option \<Rightarrow>
     (string \<times> string) option \<Rightarrow> session_store \<Rightarrow> (auth_session \<times> string) session_outcome" where
  \<comment> \<open>\<open>fresh\<close>: the refresh token drawn for the answer\<close>
  "rotate_token hash U clk order fresh token expected request s =
     (let now = clk 0; h = hash token
      in case adopt_token order h s of
           None \<Rightarrow> (s, Inl RefreshInvalid)
         | Some (s1, t) \<Rightarrow>
             if rt_status t = tok_consumed then
               (compromise_family U (clk 1) (rt_family t) ''refresh-token-reuse'' s1, Inl RefreshReused)
             else if rt_status t \<noteq> tok_current then (s1, Inl RefreshInvalid)
             else
               (case sn_sessions s1 (rt_session t) of
                  None \<Rightarrow> (s1, Inl RefreshInvalid)
                | Some x \<Rightarrow>
                    if (case expected of None \<Rightarrow> False | Some y \<Rightarrow> \<not> same_binding x y) then (s1, Inl BindingChanged)
                    else if an_status x \<noteq> ''active'' \<or> an_expires x < now \<or> rt_expires t < now then
                      (put_session (an_id x) (ended now ''expired-or-inactive-refresh-token'' x) s1, Inl RefreshInvalid)
                    else
                      (let y = rotated U request now (hash fresh) x;
                           s2 = put_token h (t\<lparr>rt_status := tok_consumed, rt_consumed := now\<rparr>) s1;
                           s3 = put_token (hash fresh) \<lparr>rt_hash = hash fresh, rt_family = rt_family t,
                                  rt_session = rt_session t, rt_status = tok_current, rt_created = now,
                                  rt_expires = now + refresh_ttl, rt_consumed = 0\<rparr> s2
                       in (put_session (an_id y) y s3, Inr (sanitize U y, fresh)))))"

definition preview_refresh ::
    "(string \<Rightarrow> string) \<Rightarrow> unicode \<Rightarrow> (nat \<Rightarrow> time) \<Rightarrow> string \<Rightarrow> session_store \<Rightarrow> session_error + auth_session" where
  "preview_refresh hash U clk token s =
     (case sn_tokens s (hash token) of
        None \<Rightarrow> Inl RefreshInvalid
      | Some t \<Rightarrow>
          if rt_status t = tok_consumed then Inl RefreshReused
          else if rt_status t \<noteq> tok_current \<or> rt_expires t < clk 0 then Inl RefreshInvalid
          else
            (case sn_sessions s (rt_session t) of
               None \<Rightarrow> Inl RefreshInvalid
             | Some x \<Rightarrow> if an_status x \<noteq> ''active'' \<or> an_expires x < clk 1 then Inl RefreshInvalid else Inr (sanitize U x)))"

section \<open>One session\<close>

definition live_session :: "time \<Rightarrow> string \<Rightarrow> string \<Rightarrow> session_store \<Rightarrow> auth_session option" where
  \<comment> \<open>the guard of the operations on a session of a user\<close>
  "live_session now i user s =
     (case sn_sessions s i of
        None \<Rightarrow> None
      | Some x \<Rightarrow> if an_user x \<noteq> user \<or> an_status x \<noteq> ''active'' \<or> an_expires x < now then None else Some x)"

definition session_get :: "unicode \<Rightarrow> time \<Rightarrow> string \<Rightarrow> string \<Rightarrow> session_store \<Rightarrow> auth_session option" where
  "session_get U now i user s = map_option (sanitize U) (live_session now i user s)"

definition observe_session ::
    "unicode \<Rightarrow> (nat \<Rightarrow> time) \<Rightarrow> string \<Rightarrow> string \<Rightarrow> (string \<times> string) option \<Rightarrow> session_store \<Rightarrow>
     session_store \<times> auth_session option" where
  "observe_session U clk i user request s =
     (case live_session (clk 0) i user s of
        None \<Rightarrow> (s, None)
      | Some x \<Rightarrow>
          (let y = (case request of None \<Rightarrow> x | Some (ip, agent) \<Rightarrow> observe_request U ip agent (clk 1) x);
               z = y\<lparr>an_seen := clk 1\<rparr>
           in (put_session i z s, Some (sanitize U z))))"

definition revoke_login :: "time \<Rightarrow> string \<Rightarrow> string \<Rightarrow> session_store \<Rightarrow> session_store \<times> bool" where
  "revoke_login now i reason s =
     (case sn_sessions s i of
        None \<Rightarrow> (s, False)
      | Some x \<Rightarrow>
          (let y = ended now (first_non_empty [reason, ''manual-revoke'']) x
           in (revoke_family (an_family y) (an_reason y) now (put_session i y s), True)))"

definition raise_session ::
    "unicode \<Rightarrow> (nat \<Rightarrow> time) \<Rightarrow> string \<Rightarrow> string \<Rightarrow> string list \<Rightarrow> string \<Rightarrow> time \<Rightarrow> session_store \<Rightarrow> auth_session session_outcome" where
  "raise_session U clk i user methods0 strength0 time0 s =
     (let (methods, strength, auth_time, _) = normalize_auth U (clk 0) methods0 strength0 time0 ''local''
      in case live_session (clk 1) i user s of
           None \<Rightarrow> (s, Inl AuthRequired)
         | Some x \<Rightarrow>
             (let y = x\<lparr>an_methods := merge_methods U (an_methods x) methods,
                        an_strength := if strength_level U strength > strength_level U (an_strength x) then strength else an_strength x,
                        an_auth_time := auth_time\<rparr>;
                  z = (clear_step_up_risk U (clk 2) y)\<lparr>an_seen := clk 2\<rparr>
              in (put_session (an_id z) z s, Inr (sanitize U z))))"

definition device_name :: "(string \<Rightarrow> bool) \<Rightarrow> string \<Rightarrow> session_error + string" where
  \<comment> \<open>\<open>control\<close>: some code point is below 32 or 127\<close>
  "device_name control v0 =
     (let v = trim_space v0
      in if length v < 1 \<or> length v > 96 then Inl BadDeviceName else if control v then Inl BadDeviceName else Inr v)"

definition rename_device ::
    "(string \<Rightarrow> bool) \<Rightarrow> unicode \<Rightarrow> (nat \<Rightarrow> time) \<Rightarrow> string \<Rightarrow> string \<Rightarrow> string \<Rightarrow> session_store \<Rightarrow> auth_session session_outcome" where
  "rename_device control U clk i user name0 s =
     (case device_name control name0 of
        Inl e \<Rightarrow> (s, Inl e)
      | Inr name \<Rightarrow>
          (case live_session (clk 0) i user s of
             None \<Rightarrow> (s, Inl SessionNotFound)
           | Some x \<Rightarrow>
               (let y = x\<lparr>an_device := name, an_renamed := clk 1\<rparr> in (put_session i y s, Inr (sanitize U y)))))"

definition bind_device ::
    "unicode \<Rightarrow> (nat \<Rightarrow> time) \<Rightarrow> string \<Rightarrow> string \<Rightarrow> string \<Rightarrow> time \<Rightarrow> session_store \<Rightarrow> auth_session session_outcome" where
  "bind_device U clk i user device verified s =
     (case live_session (clk 0) i user s of
        None \<Rightarrow> (s, Inl SessionNotFound)
      | Some x \<Rightarrow>
          (let b = an_binding x
           in if bd_device b \<noteq> [] \<or> bd_trust b \<noteq> ''unverified'' \<or> trim_space device = [] then (s, Inl BindingChanged)
              else
                (let y = x\<lparr>an_binding := \<lparr>bd_device = trim_space device, bd_trust = ''verified'', bd_verified = verified,
                             bd_epoch = (if bd_epoch b < 1 then 1 else bd_epoch b) + 1\<rparr>, an_seen := clk 1\<rparr>
                 in (put_session i y s, Inr (sanitize U y)))))"

definition device_reasons :: "string list" where
  "device_reasons = [''trusted-device-missing'', ''trusted-device-revoked'', ''trusted-device-invalid'', ''device-attestation-stale'']"

definition replace_binding ::
    "unicode \<Rightarrow> (nat \<Rightarrow> time) \<Rightarrow> string \<Rightarrow> string \<Rightarrow> string \<Rightarrow> int \<Rightarrow> string \<Rightarrow> time \<Rightarrow> session_store \<Rightarrow> auth_session session_outcome" where
  "replace_binding U clk i user previous epoch device verified s =
     (if trim_space device = [] \<or> epoch < 1 then (s, Inl BindingChanged)
      else
        (case sn_sessions s i of
           None \<Rightarrow> (s, Inl BindingChanged)
         | Some x \<Rightarrow>
             if an_user x \<noteq> user \<or> an_status x \<noteq> ''active'' \<or> \<not> an_expires x > clk 0 \<or>
                bd_device (an_binding x) \<noteq> previous \<or> bd_epoch (an_binding x) \<noteq> epoch then (s, Inl BindingChanged)
             else
               (let y = x\<lparr>an_binding := \<lparr>bd_device = device, bd_trust = ''verified'', bd_verified = verified,
                            bd_epoch = bd_epoch (an_binding x) + 1\<rparr>, an_seen := clk 1,
                          an_risk := (an_risk x)\<lparr>rk_reasons := remove_reasons U (rk_reasons (an_risk x)) device_reasons\<rparr>\<rparr>;
                    z = recompute_risk U verified y
                in (put_session i z s, Inr (sanitize U z)))))"

definition apply_risk ::
    "unicode \<Rightarrow> (nat \<Rightarrow> time) \<Rightarrow> string \<Rightarrow> string \<Rightarrow> risk \<Rightarrow> session_store \<Rightarrow> auth_session session_outcome" where
  "apply_risk U clk i user k s =
     (case live_session (clk 0) i user s of
        None \<Rightarrow> (s, Inl SessionNotFound)
      | Some x \<Rightarrow>
          (let st = risk_state U (rk_state k);
               y = x\<lparr>an_risk := k\<lparr>rk_state := st, rk_reasons := merge_reasons U [] (rk_reasons k),
                                  rk_updated := if st = ''normal'' then 0 else rk_updated k\<rparr>\<rparr>
           in if st = ''compromised'' \<or> rk_action k = ''revoke'' then
                (let z = ended (clk 1) ''risk-compromised'' y
                 in (put_session i z (revoke_family (an_family z) (an_reason z) (clk 1) s), Inr (sanitize U z)))
              else (put_session i y s, Inr (sanitize U y))))"

section \<open>Device risk\<close>

record device_view = \<comment> \<open>the registered device, and whether its attestation is still good\<close>
  dv_status :: string
  dv_trust :: string
  dv_binding :: string
  dv_algorithm :: string
  dv_attestation :: string

datatype device_lookup = DeviceFound device_view | DeviceMissing | DeviceFailed

definition device_risk_reasons ::
    "unicode \<Rightarrow> device_lookup \<Rightarrow> string option \<Rightarrow> auth_session \<Rightarrow> string list option" where
  \<comment> \<open>\<open>hwid\<close>: the state of the hardware observation, if it can be read; \<open>None\<close>: the device store failed\<close>
  "device_risk_reasons U lookup hwid x =
     (let reasons = merge_reasons U [] (rk_reasons (an_risk x))
      in if bd_device (an_binding x) = [] then
           Some (remove_reasons U reasons [''trusted-device-missing'', ''trusted-device-revoked'', ''trusted-device-invalid'',
             ''device-attestation-stale'', ''hwid-signal-changed''])
         else
           (case lookup of
              DeviceFailed \<Rightarrow> None
            | DeviceMissing \<Rightarrow> Some (merge_reasons U reasons [''trusted-device-missing''])
            | DeviceFound d \<Rightarrow>
                if dv_status d \<noteq> ''active'' \<or> dv_trust d \<noteq> ''verified'' \<or> bd_trust (an_binding x) \<noteq> ''verified'' then
                  Some (merge_reasons U reasons [''trusted-device-revoked''])
                else
                  (let r1 = (if hwid = Some ''changed'' then merge_reasons U reasons [''hwid-signal-changed'']
                             else if hwid = Some ''recognized'' then remove_reasons U reasons [''hwid-signal-changed'']
                             else reasons);
                       r2 = remove_reasons U r1 [''trusted-device-missing'', ''trusted-device-revoked'', ''trusted-device-invalid'']
                   in Some (if dv_binding d = ''hardware'' \<and> dv_algorithm d = ''p256'' \<and> dv_attestation d \<noteq> ''verified''
                            then merge_reasons U r2 [''device-attestation-stale'']
                            else remove_reasons U r2 [''device-attestation-stale'']))))"

definition reconcile_risk ::
    "unicode \<Rightarrow> (nat \<Rightarrow> time) \<Rightarrow> device_lookup \<Rightarrow> string option \<Rightarrow> auth_session \<Rightarrow> session_store \<Rightarrow>
     session_store \<times> auth_session option" where
  \<comment> \<open>\<open>x\<close>: the record the caller read before; no result: refused\<close>
  "reconcile_risk U clk lookup hwid x s =
     (case device_risk_reasons U lookup hwid x of
        None \<Rightarrow> (s, None)
      | Some reasons \<Rightarrow>
          (let y = recompute_risk U (clk 0) (x\<lparr>an_risk := (an_risk x)\<lparr>rk_reasons := reasons\<rparr>\<rparr>);
               (s1, r) = apply_risk U (\<lambda>n. clk (n + 1)) (an_id y) (an_user y) ((an_risk y)\<lparr>rk_evaluated := clk 0\<rparr>) s
           in case r of
                Inl _ \<Rightarrow> (s1, None)
              | Inr z \<Rightarrow>
                  if rk_action (an_risk z) = ''revoke'' \<or> rk_state (an_risk z) = ''compromised'' then
                    (fst (revoke_login (clk 3) (an_id z) ''session-risk-policy'' s1), None)
                  else (s1, Some z)))"

record claims =
  cm_device :: string
  cm_trust :: string
  cm_epoch :: int
  cm_strength :: string
  cm_time :: int
  cm_risk_action :: string
  cm_risk_updated :: int

definition claims_match :: "claims \<Rightarrow> auth_session \<Rightarrow> bool" where
  "claims_match c x =
     (let b = an_binding x; epoch = (if bd_epoch b < 1 then 1 else bd_epoch b);
          own = trim_space (bd_device b); theirs = trim_space (cm_device c)
      in if cm_epoch c \<noteq> 0 \<and> cm_epoch c \<noteq> epoch then False
         else if cm_epoch c = 0 \<and> epoch \<noteq> 1 then False
         else if own \<noteq> theirs then False
         else if own = [] then theirs = []
         else bd_trust b = ''verified'' \<and> cm_trust c = ''verified'')"

definition risk_requirement :: "unicode \<Rightarrow> claims \<Rightarrow> string option" where \<comment> \<open>what the caller is asked for first\<close>
  "risk_requirement U c =
     (if cm_risk_action c = ''revoke'' then Some ''revoke''
      else if cm_risk_action c = ''reattest'' then Some ''reattest''
      else if cm_risk_action c = ''step-up'' then
        (if cm_risk_updated c = 0 \<or> cm_time c < cm_risk_updated c \<or>
            strength_level U (cm_strength c) < strength_level U ''phishing-resistant'' then Some ''step-up'' else None)
      else None)"

end
