(* ===== verification/SessionRuns.thy ===== *)
theory SessionRuns
  imports AuthSessions Stores
begin

text \<open>
  Runs of the login sessions: every operation as a step, the invariant that ties sessions, token families and refresh
  tokens together, and what a session and a token may become, as interpretations of \<open>moving_store\<close>.
\<close>

section \<open>Invariant and moves\<close>

definition logins_ok :: "session_store \<Rightarrow> bool" where
  "logins_ok s \<longleftrightarrow>
     (\<forall>i x. sn_sessions s i = Some x \<longrightarrow>
        an_id x = i \<and> an_family x \<noteq> [] \<and> (\<exists>f. sn_families s (an_family x) = Some f \<and> rf_session f = i) \<and>
        sn_tokens s (an_hash x) \<noteq> None) \<and>
     (\<forall>h t. sn_tokens s h = Some t \<longrightarrow>
        (\<exists>x. sn_sessions s (rt_session t) = Some x \<and> an_family x = rt_family t \<and>
             (rt_status t = tok_current \<longrightarrow> an_hash x = h)))"

definition same_login :: "auth_session \<Rightarrow> auth_session \<Rightarrow> bool" where
  "same_login x y \<longleftrightarrow> an_id y = an_id x \<and> an_user y = an_user x \<and> an_family y = an_family x"

definition login_moves :: "auth_session \<Rightarrow> auth_session \<Rightarrow> bool" where
  "login_moves x y \<longleftrightarrow> same_login x y \<and> (an_status x \<noteq> ''active'' \<longrightarrow> an_status y \<noteq> ''active'')"

definition token_moves :: "refresh_token \<Rightarrow> refresh_token \<Rightarrow> bool" where
  "token_moves t u \<longleftrightarrow>
     rt_family u = rt_family t \<and> rt_session u = rt_session t \<and>
     (rt_status t \<noteq> tok_current \<longrightarrow> rt_status u \<noteq> tok_current) \<and> (rt_status t = is_revoked \<longrightarrow> rt_status u = is_revoked)"

definition login_result :: "session_store \<Rightarrow> session_store \<Rightarrow> bool" where
  "login_result s t \<longleftrightarrow> logins_ok t \<and>
     (\<forall>i x. sn_sessions s i = Some x \<longrightarrow> (\<exists>y. sn_sessions t i = Some y \<and> login_moves x y)) \<and>
     (\<forall>h x. sn_tokens s h = Some x \<longrightarrow> (\<exists>y. sn_tokens t h = Some y \<and> token_moves x y))"

lemma same_login_trans: "same_login x y \<Longrightarrow> same_login y z \<Longrightarrow> same_login x z"
  by (simp add: same_login_def)

lemma login_moves_refl [simp]: "login_moves x x"
  by (simp add: login_moves_def same_login_def)

lemma login_moves_trans: "login_moves x y \<Longrightarrow> login_moves y z \<Longrightarrow> login_moves x z"
  by (auto simp: login_moves_def same_login_def)

lemma token_moves_refl [simp]: "token_moves x x"
  by (simp add: token_moves_def)

lemma token_moves_trans: "token_moves x y \<Longrightarrow> token_moves y z \<Longrightarrow> token_moves x z"
  by (auto simp: token_moves_def)

lemma login_result_refl: "logins_ok s \<Longrightarrow> login_result s s"
  by (simp add: login_result_def)

lemma login_result_ok: "login_result s t \<Longrightarrow> logins_ok t"
  by (simp add: login_result_def)

lemma login_result_trans:
  assumes "login_result s t" "login_result t u"
  shows "login_result s u"
proof -
  have "\<exists>z. sn_sessions u i = Some z \<and> login_moves x z" if x: "sn_sessions s i = Some x" for i x
  proof -
    obtain y where "sn_sessions t i = Some y" "login_moves x y" using assms(1) x unfolding login_result_def by blast
    moreover from this(1) obtain z where "sn_sessions u i = Some z" "login_moves y z"
      using assms(2) unfolding login_result_def by blast
    ultimately show ?thesis using login_moves_trans by blast
  qed
  moreover have "\<exists>z. sn_tokens u h = Some z \<and> token_moves x z" if x: "sn_tokens s h = Some x" for h x
  proof -
    obtain y where "sn_tokens t h = Some y" "token_moves x y" using assms(1) x unfolding login_result_def by blast
    moreover from this(1) obtain z where "sn_tokens u h = Some z" "token_moves y z"
      using assms(2) unfolding login_result_def by blast
    ultimately show ?thesis using token_moves_trans by blast
  qed
  ultimately show ?thesis using login_result_ok [OF assms(2)] unfolding login_result_def by blast
qed

lemma logins_okD:
  assumes "logins_ok s" "sn_sessions s i = Some x"
  shows "an_id x = i" "an_family x \<noteq> []" "\<exists>f. sn_families s (an_family x) = Some f \<and> rf_session f = i"
    "sn_tokens s (an_hash x) \<noteq> None"
  using assms unfolding logins_ok_def by blast+

lemma tokens_okD:
  assumes "logins_ok s" "sn_tokens s h = Some t"
  shows "\<exists>x. sn_sessions s (rt_session t) = Some x \<and> an_family x = rt_family t \<and> (rt_status t = tok_current \<longrightarrow> an_hash x = h)"
  using assms unfolding logins_ok_def by blast

lemma logins_okI:
  assumes "\<And>i x. sn_sessions s i = Some x \<Longrightarrow> an_id x = i \<and> an_family x \<noteq> [] \<and>
      (\<exists>f. sn_families s (an_family x) = Some f \<and> rf_session f = i) \<and> sn_tokens s (an_hash x) \<noteq> None"
    and "\<And>h t. sn_tokens s h = Some t \<Longrightarrow>
      \<exists>x. sn_sessions s (rt_session t) = Some x \<and> an_family x = rt_family t \<and> (rt_status t = tok_current \<longrightarrow> an_hash x = h)"
  shows "logins_ok s"
  using assms unfolding logins_ok_def by blast

section \<open>Changes\<close>

lemma put_simps [simp]:
  "sn_sessions (put_session i x s) = (sn_sessions s)(i \<mapsto> x)" "sn_tokens (put_session i x s) = sn_tokens s"
  "sn_families (put_session i x s) = sn_families s"
  "sn_sessions (put_family f r s) = sn_sessions s" "sn_tokens (put_family f r s) = sn_tokens s"
  "sn_families (put_family f r s) = (sn_families s)(f \<mapsto> r)"
  "sn_sessions (put_token h t s) = sn_sessions s" "sn_tokens (put_token h t s) = (sn_tokens s)(h \<mapsto> t)"
  "sn_families (put_token h t s) = sn_families s"
  "sn_sessions (revoke_tokens f s) = sn_sessions s" "sn_families (revoke_tokens f s) = sn_families s"
  by (simp_all add: put_session_def put_family_def put_token_def revoke_tokens_def)

lemma revoked_tokens:
  "sn_tokens (revoke_tokens f s) h = map_option (\<lambda>t. if rt_family t = f then t\<lparr>rt_status := is_revoked\<rparr> else t) (sn_tokens s h)"
  by (simp add: revoke_tokens_def)

lemma put_login_result:
  assumes "logins_ok s" "sn_sessions s i = Some x" "login_moves x y" "an_hash y = an_hash x"
  shows "login_result s (put_session i y s)"
proof -
  note x = logins_okD [OF assms(1,2)]
  have y: "an_id y = i" "an_family y = an_family x" using assms(3) x(1) by (simp_all add: login_moves_def same_login_def)
  have "logins_ok (put_session i y s)"
  proof (rule logins_okI)
    fix j z assume "sn_sessions (put_session i y s) j = Some z"
    then show "an_id z = j \<and> an_family z \<noteq> [] \<and> (\<exists>f. sn_families (put_session i y s) (an_family z) = Some f \<and> rf_session f = j) \<and>
        sn_tokens (put_session i y s) (an_hash z) \<noteq> None"
      using x y assms(4) logins_okD [OF assms(1), of j z] by (cases "j = i") auto
  next
    fix h t assume "sn_tokens (put_session i y s) h = Some t"
    then show "\<exists>z. sn_sessions (put_session i y s) (rt_session t) = Some z \<and> an_family z = rt_family t \<and>
        (rt_status t = tok_current \<longrightarrow> an_hash z = h)"
      using tokens_okD [OF assms(1), of h t] assms(2,4) y(2) by (cases "rt_session t = i") auto
  qed
  then show ?thesis using assms(2,3) by (simp add: login_result_def)
qed

lemma put_family_result:
  assumes "logins_ok s" "rf_session r = rf_session (family_of s f)"
  shows "login_result s (put_family f r s)"
proof -
  have "logins_ok (put_family f r s)"
  proof (rule logins_okI)
    fix i x assume "sn_sessions (put_family f r s) i = Some x"
    then have x: "sn_sessions s i = Some x" by simp
    obtain g where g: "sn_families s (an_family x) = Some g" "rf_session g = i" using logins_okD(3) [OF assms(1) x] by blast
    have "\<exists>g. sn_families (put_family f r s) (an_family x) = Some g \<and> rf_session g = i"
      using g assms(2) by (cases "an_family x = f") (auto simp: family_of_def)
    then show "an_id x = i \<and> an_family x \<noteq> [] \<and> (\<exists>g. sn_families (put_family f r s) (an_family x) = Some g \<and> rf_session g = i) \<and>
        sn_tokens (put_family f r s) (an_hash x) \<noteq> None"
      using logins_okD [OF assms(1) x] by simp
  qed (use tokens_okD [OF assms(1)] in simp)
  then show ?thesis by (simp add: login_result_def)
qed

lemma revoke_tokens_result:
  assumes "logins_ok s"
  shows "login_result s (revoke_tokens f s)"
proof -
  have "logins_ok (revoke_tokens f s)"
  proof (rule logins_okI)
    fix i x assume "sn_sessions (revoke_tokens f s) i = Some x"
    then show "an_id x = i \<and> an_family x \<noteq> [] \<and> (\<exists>g. sn_families (revoke_tokens f s) (an_family x) = Some g \<and> rf_session g = i) \<and>
        sn_tokens (revoke_tokens f s) (an_hash x) \<noteq> None"
      using logins_okD [OF assms, of i x] by (simp add: revoked_tokens)
  next
    fix h t assume "sn_tokens (revoke_tokens f s) h = Some t"
    then obtain u where u: "sn_tokens s h = Some u" "t = (if rt_family u = f then u\<lparr>rt_status := is_revoked\<rparr> else u)"
      by (auto simp: revoked_tokens)
    then show "\<exists>x. sn_sessions (revoke_tokens f s) (rt_session t) = Some x \<and> an_family x = rt_family t \<and>
        (rt_status t = tok_current \<longrightarrow> an_hash x = h)"
      using tokens_okD [OF assms u(1)] by auto
  qed
  then show ?thesis by (auto simp: login_result_def revoked_tokens token_moves_def)
qed

lemma revoke_family_result: "logins_ok s \<Longrightarrow> login_result s (revoke_family f reason now s)"
  unfolding revoke_family_def
  using login_result_trans [OF put_family_result revoke_tokens_result [OF login_result_ok [OF put_family_result]]]
  by (auto intro: login_result_refl simp: family_of_def)

lemma compromise_family_result:
  assumes "logins_ok s"
  shows "login_result s (compromise_family U now f reason s)"
proof -
  let ?r = "(family_of s f)\<lparr>rf_status := ''compromised'', rf_compromised := now, rf_reason := reason\<rparr>"
  let ?s1 = "put_family f ?r s"
  have r1: "login_result s ?s1" by (rule put_family_result [OF assms]) simp
  define s2 where "s2 = (case sn_sessions ?s1 (rf_session ?r) of None \<Rightarrow> ?s1
     | Some x \<Rightarrow> put_session (an_id x) (compromised_session U now reason x) ?s1)"
  have r2: "login_result ?s1 s2"
  proof (cases "sn_sessions ?s1 (rf_session ?r)")
    case None
    then show ?thesis using login_result_refl [OF login_result_ok [OF r1]] by (simp add: s2_def)
  next
    case (Some x)
    have "an_id x = rf_session ?r" using logins_okD(1) [OF login_result_ok [OF r1] Some] .
    then have "login_result ?s1 (put_session (an_id x) (compromised_session U now reason x) ?s1)"
      by (intro put_login_result [OF login_result_ok [OF r1]])
        (use Some in \<open>simp_all add: compromised_session_def login_moves_def same_login_def\<close>)
    then show ?thesis using Some by (simp add: s2_def)
  qed
  have "login_result s (revoke_tokens f s2)"
    using login_result_trans [OF login_result_trans [OF r1 r2] revoke_tokens_result [OF login_result_ok [OF r2]]] .
  then show ?thesis by (simp add: compromise_family_def s2_def Let_def)
qed

lemma change_login:
  assumes "logins_ok s" "live_session now i user s = Some x" "same_login x y" "an_hash y = an_hash x"
  shows "login_result s (put_session i y s)"
proof (rule put_login_result [OF assms(1) _ _ assms(4)])
  show "sn_sessions s i = Some x"
    using assms(2) by (auto simp: live_session_def split: option.split_asm if_split_asm)
  have "an_status x = ''active''" using assms(2) by (auto simp: live_session_def split: option.split_asm if_split_asm)
  then show "login_moves x y" using assms(3) by (simp add: login_moves_def)
qed

lemma recompute_same [simp]:
  "an_id (recompute_risk U now x) = an_id x" "an_user (recompute_risk U now x) = an_user x"
  "an_family (recompute_risk U now x) = an_family x" "an_hash (recompute_risk U now x) = an_hash x"
  "an_status (recompute_risk U now x) = an_status x" "an_binding (recompute_risk U now x) = an_binding x"
  by (simp_all add: recompute_risk_def Let_def split: prod.split)

lemma add_reason_same [simp]:
  "an_id (add_reason U r x) = an_id x" "an_user (add_reason U r x) = an_user x" "an_family (add_reason U r x) = an_family x"
  "an_hash (add_reason U r x) = an_hash x" "an_status (add_reason U r x) = an_status x"
  "an_binding (add_reason U r x) = an_binding x"
  by (simp_all add: add_reason_def)

lemma origin_same [simp]:
  "an_id (first_origin ip a x) = an_id x" "an_user (first_origin ip a x) = an_user x"
  "an_family (first_origin ip a x) = an_family x" "an_hash (first_origin ip a x) = an_hash x"
  "an_status (first_origin ip a x) = an_status x" "an_binding (first_origin ip a x) = an_binding x"
  "an_id (last_origin ip a x) = an_id x" "an_user (last_origin ip a x) = an_user x"
  "an_family (last_origin ip a x) = an_family x" "an_hash (last_origin ip a x) = an_hash x"
  "an_status (last_origin ip a x) = an_status x" "an_binding (last_origin ip a x) = an_binding x"
  "an_id (reason_if U b r x) = an_id x" "an_user (reason_if U b r x) = an_user x"
  "an_family (reason_if U b r x) = an_family x" "an_hash (reason_if U b r x) = an_hash x"
  "an_status (reason_if U b r x) = an_status x" "an_binding (reason_if U b r x) = an_binding x"
  by (simp_all add: first_origin_def last_origin_def reason_if_def)

lemma observe_same [simp]:
  "an_id (observe_request U ip agent now x) = an_id x" "an_user (observe_request U ip agent now x) = an_user x"
  "an_family (observe_request U ip agent now x) = an_family x" "an_hash (observe_request U ip agent now x) = an_hash x"
  "an_status (observe_request U ip agent now x) = an_status x"
  "an_binding (observe_request U ip agent now x) = an_binding x"
  by (simp_all add: observe_request_def Let_def if_distrib [of an_id] if_distrib [of an_user] if_distrib [of an_family]
      if_distrib [of an_hash] if_distrib [of an_status] if_distrib [of an_binding])

lemma ended_same [simp]:
  "an_id (ended now r x) = an_id x" "an_user (ended now r x) = an_user x" "an_family (ended now r x) = an_family x"
  "an_hash (ended now r x) = an_hash x" "an_status (ended now r x) = is_revoked"
  by (simp_all add: ended_def)

lemma rotated_same [simp]:
  "an_id (rotated U q now h x) = an_id x" "an_user (rotated U q now h x) = an_user x"
  "an_family (rotated U q now h x) = an_family x" "an_hash (rotated U q now h x) = h"
  "an_status (rotated U q now h x) = an_status x" "an_binding (rotated U q now h x) = an_binding x"
  by (simp_all add: rotated_def Let_def split: option.split prod.split)

lemma live_id: "logins_ok s \<Longrightarrow> live_session now i user s = Some x \<Longrightarrow> an_id x = i"
  using logins_okD(1) by (fastforce simp: live_session_def split: option.split_asm if_split_asm)

lemma observe_session_result: "logins_ok s \<Longrightarrow> login_result s (fst (observe_session U clk i user q s))"
  unfolding observe_session_def Let_def
  by (cases "live_session (clk 0) i user s")
    (auto simp: same_login_def login_result_refl split: option.split intro!: change_login)

lemma raise_session_result: "logins_ok s \<Longrightarrow> login_result s (fst (raise_session U clk i user ms st at s))"
  unfolding raise_session_def Let_def clear_step_up_risk_def
  by (cases "live_session (clk 1) i user s")
    (auto simp: same_login_def login_result_refl live_id split: prod.split intro!: change_login)

lemma rename_device_result: "logins_ok s \<Longrightarrow> login_result s (fst (rename_device control U clk i user name s))"
  unfolding rename_device_def Let_def
  by (cases "live_session (clk 0) i user s")
    (auto simp: same_login_def login_result_refl split: sum.split intro!: change_login)

lemma bind_device_result: "logins_ok s \<Longrightarrow> login_result s (fst (bind_device U clk i user d v s))"
  unfolding bind_device_def Let_def
  by (cases "live_session (clk 0) i user s")
    (auto simp: same_login_def login_result_refl intro!: change_login)

lemma replace_binding_result:
  assumes "logins_ok s"
  shows "login_result s (fst (replace_binding U clk i user p e d v s))"
proof -
  have "login_result s (put_session i y s)" if "sn_sessions s i = Some x" "same_login x y" "an_hash y = an_hash x"
    "an_status y = an_status x" for x y
    by (rule put_login_result [OF assms that(1) _ that(3)]) (use that in \<open>simp add: login_moves_def\<close>)
  then show ?thesis unfolding replace_binding_def Let_def
    by (auto simp: same_login_def login_result_refl assms split: option.split)
qed

lemma end_login:
  assumes "logins_ok s" "sn_sessions s i = Some x" "same_login x y" "an_hash y = an_hash x" "an_status y = is_revoked"
  shows "login_result s (revoke_family f r now (put_session i y s))"
proof -
  have p: "login_result s (put_session i y s)"
    by (rule put_login_result [OF assms(1,2) _ assms(4)]) (use assms(3,5) in \<open>simp add: login_moves_def\<close>)
  show ?thesis by (rule login_result_trans [OF p revoke_family_result [OF login_result_ok [OF p]]])
qed

lemma revoke_family_sessions [simp]: "sn_sessions (revoke_family f r now s) = sn_sessions s"
  by (simp add: revoke_family_def)

lemma revoke_family_put: "revoke_family f r now (put_session i y s) = put_session i y (revoke_family f r now s)"
  by (simp add: revoke_family_def revoke_tokens_def put_family_def put_session_def family_of_def)

lemma apply_risk_result:
  assumes "logins_ok s"
  shows "login_result s (fst (apply_risk U clk i user k s))"
proof (cases "live_session (clk 0) i user s")
  case None
  then show ?thesis using login_result_refl [OF assms] by (simp add: apply_risk_def)
next
  case (Some x)
  then have x: "sn_sessions s i = Some x" by (auto simp: live_session_def split: option.split_asm if_split_asm)
  show ?thesis
    unfolding apply_risk_def Let_def revoke_family_put [symmetric]
    using end_login [OF assms x] change_login [OF assms Some] by (simp add: Some same_login_def)
qed

lemma revoke_login_result: "logins_ok s \<Longrightarrow> login_result s (fst (revoke_login now i reason s))"
  unfolding revoke_login_def Let_def
  by (cases "sn_sessions s i") (auto simp: login_result_refl same_login_def intro!: end_login)

definition marks_ended :: "(auth_session \<Rightarrow> auth_session) \<Rightarrow> bool" where
  "marks_ended mark \<longleftrightarrow> (\<forall>x. same_login x (mark x) \<and> an_hash (mark x) = an_hash x \<and> an_status (mark x) = is_revoked)"

lemma end_session_result:
  assumes "marks_ended mark" "logins_ok s"
  shows "login_result s (fst (end_session p mark now i (s, ids)))"
  using assms(1) unfolding end_session_def
  by (cases "sn_sessions s i")
    (auto simp: login_result_refl assms(2) marks_ended_def intro!: end_login [OF assms(2)])

lemma sweep_loop_result:
  "marks_ended mark \<Longrightarrow> logins_ok s \<Longrightarrow> login_result s (fst (fold (end_session p mark now) order (s, ids)))"
proof (induction order arbitrary: s ids)
  case Nil
  then show ?case by (simp add: login_result_refl)
next
  case (Cons i order)
  obtain t js where t: "end_session p mark now i (s, ids) = (t, js)" by (cases "end_session p mark now i (s, ids)")
  have r: "login_result s t" using end_session_result [OF Cons.prems, of p now i ids] by (simp add: t)
  show ?case using login_result_trans [OF r Cons.IH [OF Cons.prems(1) login_result_ok [OF r]]] by (simp add: t)
qed

lemma sweep_result: "marks_ended mark \<Longrightarrow> logins_ok s \<Longrightarrow> login_result s (fst (sweep order p mark now s))"
  unfolding sweep_def by (rule sweep_loop_result)

lemma ended_marks: "marks_ended (ended now r)"
  by (simp add: marks_ended_def same_login_def)

lemma revoke_user_result: "logins_ok s \<Longrightarrow> login_result s (fst (revoke_user order now user reason s))"
  using sweep_result [OF ended_marks] by (simp add: revoke_user_def case_prod_beta)

lemma revoke_others_result: "logins_ok s \<Longrightarrow> login_result s (fst (revoke_others order now user c reason s))"
  using sweep_result [OF ended_marks] by (simp add: revoke_others_def case_prod_beta)

lemma revoke_filtered_result: "logins_ok s \<Longrightarrow> login_result s (fst (revoke_filtered U order now user pr rk reason s))"
  unfolding revoke_filtered_def Let_def case_prod_beta fst_conv
  by (rule sweep_result) (simp_all add: marks_ended_def same_login_def)

lemma revoke_device_result: "logins_ok s \<Longrightarrow> login_result s (fst (revoke_device U order now user d reason s))"
  unfolding revoke_device_def Let_def
  by (rule sweep_result) (simp_all add: marks_ended_def same_login_def compromised_session_def)

section \<open>Login\<close>

lemma end_all_result:
  assumes "logins_ok s" "\<And>x. x \<in> set xs \<Longrightarrow> \<exists>y. sn_sessions s (an_id x) = Some y \<and> same_login y x \<and> an_hash y = an_hash x"
  shows "login_result s (end_all clk n xs s)"
  using assms
proof (induction xs arbitrary: n s)
  case Nil
  then show ?case by (simp add: login_result_refl)
next
  case (Cons x xs)
  let ?e = "ended (clk n) ''max-sessions-per-user'' x"
  let ?t = "revoke_family (an_family x) ''max-sessions-per-user'' (clk n) (put_session (an_id x) ?e s)"
  obtain y where y: "sn_sessions s (an_id x) = Some y" "same_login y x" "an_hash y = an_hash x" using Cons.prems(2) by force
  have r: "login_result s ?t"
    by (rule end_login [OF Cons.prems(1) y(1)]) (use y in \<open>simp_all add: same_login_def\<close>)
  have "\<exists>z. sn_sessions ?t (an_id w) = Some z \<and> same_login z w \<and> an_hash z = an_hash w" if w: "w \<in> set xs" for w
  proof -
    obtain v where v: "sn_sessions s (an_id w) = Some v" "same_login v w" "an_hash v = an_hash w" using Cons.prems(2) w by force
    show ?thesis
    proof (cases "an_id w = an_id x")
      case True
      then have "v = y" using v(1) y(1) by simp
      then show ?thesis using True v y by (simp add: same_login_def)
    qed (use v in simp)
  qed
  from login_result_trans [OF r Cons.IH [OF login_result_ok [OF r] this]] show ?case by simp
qed

lemma active_of_set:
  assumes "logins_ok s" "x \<in> set (active_of order user s)"
  shows "sn_sessions s (an_id x) = Some x" "an_user x = user" "an_status x = ''active''"
proof -
  obtain i where i: "i \<in> set order" "sn_sessions s i = Some x"
    using assms(2) by (auto simp: active_of_def List.map_filter_def)
  then show "sn_sessions s (an_id x) = Some x" using logins_okD(1) [OF assms(1) i(2)] by simp
  show "an_user x = user" "an_status x = ''active''" using assms(2) by (auto simp: active_of_def)
qed

lemma enforce_limit_result:
  assumes "logins_ok s"
  shows "login_result s (enforce_limit order clk n user s)"
proof -
  let ?xs = "take (length (active_of order user s) - max_sessions) (sort_key an_seen (active_of order user s))"
  have "login_result s (end_all clk n ?xs s)"
  proof (rule end_all_result [OF assms])
    fix x assume "x \<in> set ?xs"
    then have "x \<in> set (active_of order user s)" by (auto dest: in_set_takeD)
    from active_of_set(1) [OF assms this]
    show "\<exists>y. sn_sessions s (an_id x) = Some y \<and> same_login y x \<and> an_hash y = an_hash x" by (simp add: same_login_def)
  qed
  then show ?thesis using login_result_refl [OF assms] by (simp add: enforce_limit_def Let_def)
qed

definition stored_login :: "(string \<Rightarrow> string) \<Rightarrow> unicode \<Rightarrow> (nat \<Rightarrow> time) \<Rightarrow> drawn \<Rightarrow> user \<Rightarrow> login_request \<Rightarrow> session_store \<Rightarrow> session_store" where
  "stored_login hash U clk d u q s =
     (let x = new_session hash U clk d u q
      in put_token (an_hash x) \<lparr>rt_hash = an_hash x, rt_family = dw_family d, rt_session = an_id x, rt_status = tok_current,
           rt_created = clk 1, rt_expires = an_expires x, rt_consumed = 0\<rparr>
          (put_family (dw_family d) \<lparr>rf_id = dw_family d, rf_session = an_id x, rf_user = us_id u, rf_status = ''active'',
             rf_created = clk 1, rf_compromised = 0, rf_revoked = 0, rf_reason = []\<rparr> (put_session (an_id x) x s)))"

lemma create_stored:
  "fst (create_session hash U clk order d u q s) = enforce_limit order clk 2 (us_id u) (stored_login hash U clk d u q s)"
  by (simp add: create_session_def stored_login_def Let_def)

lemma new_session_same [simp]:
  "an_id (new_session hash U clk d u q) = dw_session d" "an_user (new_session hash U clk d u q) = us_id u"
  "an_family (new_session hash U clk d u q) = dw_family d" "an_hash (new_session hash U clk d u q) = hash (dw_refresh d)"
  "an_status (new_session hash U clk d u q) = ''active''" "an_seen (new_session hash U clk d u q) = clk 1"
  by (simp_all add: new_session_def Let_def split: prod.split)

definition fresh_draw :: "(string \<Rightarrow> string) \<Rightarrow> drawn \<Rightarrow> session_store \<Rightarrow> bool" where
  "fresh_draw hash d s \<longleftrightarrow>
     sn_sessions s (dw_session d) = None \<and> sn_families s (dw_family d) = None \<and> dw_family d \<noteq> [] \<and>
     sn_tokens s (hash (dw_refresh d)) = None"

lemma stored_login_result:
  assumes "logins_ok s" "fresh_draw hash d s"
  shows "login_result s (stored_login hash U clk d u q s)" (is "login_result s ?t")
proof -
  let ?x = "new_session hash U clk d u q"
  have f: "sn_sessions s (dw_session d) = None" "sn_families s (dw_family d) = None" "dw_family d \<noteq> []"
    "sn_tokens s (hash (dw_refresh d)) = None"
    using assms(2) by (simp_all add: fresh_draw_def)
  let ?r = "\<lparr>rf_id = dw_family d, rf_session = dw_session d, rf_user = us_id u, rf_status = ''active'',
     rf_created = clk 1, rf_compromised = 0, rf_revoked = 0, rf_reason = []\<rparr>"
  let ?k = "\<lparr>rt_hash = hash (dw_refresh d), rt_family = dw_family d, rt_session = dw_session d, rt_status = tok_current,
     rt_created = clk 1, rt_expires = an_expires ?x, rt_consumed = 0\<rparr>"
  have t: "sn_sessions ?t = (sn_sessions s)(dw_session d \<mapsto> ?x)"
    and r: "sn_families ?t = (sn_families s)(dw_family d \<mapsto> ?r)"
    and k: "sn_tokens ?t = (sn_tokens s)(hash (dw_refresh d) \<mapsto> ?k)"
    by (simp_all add: stored_login_def Let_def)
  have "logins_ok ?t"
  proof (rule logins_okI)
    fix i x assume x: "sn_sessions ?t i = Some x"
    show "an_id x = i \<and> an_family x \<noteq> [] \<and> (\<exists>g. sn_families ?t (an_family x) = Some g \<and> rf_session g = i) \<and> sn_tokens ?t (an_hash x) \<noteq> None"
    proof (cases "i = dw_session d")
      case True
      then show ?thesis using x f(3) by (auto simp: t r k)
    next
      case False
      then have x': "sn_sessions s i = Some x" using x by (simp add: t)
      then have "an_family x \<noteq> dw_family d" using logins_okD(3) [OF assms(1) x'] f(2) by auto
      then show ?thesis using logins_okD [OF assms(1) x'] by (auto simp: r k)
    qed
  next
    fix h y assume y: "sn_tokens ?t h = Some y"
    show "\<exists>x. sn_sessions ?t (rt_session y) = Some x \<and> an_family x = rt_family y \<and> (rt_status y = tok_current \<longrightarrow> an_hash x = h)"
    proof (cases "h = hash (dw_refresh d)")
      case True
      then show ?thesis using y by (auto simp: t k)
    next
      case False
      then have "sn_tokens s h = Some y" using y by (simp add: k)
      from tokens_okD [OF assms(1) this] show ?thesis using f(1) by (auto simp: t)
    qed
  qed
  then show ?thesis using f by (auto simp: login_result_def t k)
qed

lemma create_session_result:
  "logins_ok s \<Longrightarrow> fresh_draw hash d s \<Longrightarrow> login_result s (fst (create_session hash U clk order d u q s))"
  unfolding create_stored
  by (rule login_result_trans [OF stored_login_result enforce_limit_result [OF login_result_ok [OF stored_login_result]]])

section \<open>Rotation\<close>

lemma adopt_known:
  assumes "logins_ok s"
  shows "adopt_token order h s = map_option (Pair s) (sn_tokens s h)"
proof (cases "sn_tokens s h")
  case None
  have "first_some (\<lambda>x. an_hash x = h) (List.map_filter (sn_sessions s) order) = None"
    unfolding first_some_None
  proof
    fix x assume "x \<in> set (List.map_filter (sn_sessions s) order)"
    then obtain i where "sn_sessions s i = Some x" by (auto simp: List.map_filter_def)
    then show "an_hash x \<noteq> h" using logins_okD(4) [OF assms] None by blast
  qed
  then show ?thesis by (simp add: adopt_token_def None)
qed (simp add: adopt_token_def)

definition swapped :: "unicode \<Rightarrow> (string \<times> string) option \<Rightarrow> time \<Rightarrow> string \<Rightarrow> string \<Rightarrow> refresh_token \<Rightarrow> auth_session \<Rightarrow>
    session_store \<Rightarrow> session_store" where \<comment> \<open>the store after a token has been exchanged\<close>
  "swapped U q now h h' t x s =
     put_session (an_id x) (rotated U q now h' x)
       (put_token h' \<lparr>rt_hash = h', rt_family = rt_family t, rt_session = rt_session t, rt_status = tok_current,
          rt_created = now, rt_expires = now + refresh_ttl, rt_consumed = 0\<rparr>
         (put_token h (t\<lparr>rt_status := tok_consumed, rt_consumed := now\<rparr>) s))"

lemma rotate_cases:
  assumes "logins_ok s"
  obtains (unknown) "sn_tokens s (hash token) = None"
      "rotate_token hash U clk order fresh token expected q s = (s, Inl RefreshInvalid)"
  | (reused) t where "sn_tokens s (hash token) = Some t" "rt_status t = tok_consumed"
      "rotate_token hash U clk order fresh token expected q s =
         (compromise_family U (clk 1) (rt_family t) ''refresh-token-reuse'' s, Inl RefreshReused)"
  | (dead) t where "sn_tokens s (hash token) = Some t" "rt_status t \<noteq> tok_current" "rt_status t \<noteq> tok_consumed"
      "rotate_token hash U clk order fresh token expected q s = (s, Inl RefreshInvalid)"
  | (rebound) "rotate_token hash U clk order fresh token expected q s = (s, Inl BindingChanged)"
  | (expired) t x where "sn_tokens s (hash token) = Some t" "sn_sessions s (rt_session t) = Some x"
      "rotate_token hash U clk order fresh token expected q s =
         (put_session (an_id x) (ended (clk 0) ''expired-or-inactive-refresh-token'' x) s, Inl RefreshInvalid)"
  | (exchanged) t x where "sn_tokens s (hash token) = Some t" "rt_status t = tok_current"
      "sn_sessions s (rt_session t) = Some x" "an_status x = ''active''" "\<not> an_expires x < clk 0" "\<not> rt_expires t < clk 0"
      "rotate_token hash U clk order fresh token expected q s =
         (swapped U q (clk 0) (hash token) (hash fresh) t x s, Inr (sanitize U (rotated U q (clk 0) (hash fresh) x), fresh))"
proof (cases "sn_tokens s (hash token)")
  case None
  then show ?thesis by (intro unknown) (simp_all add: rotate_token_def Let_def adopt_known [OF assms])
next
  case t: (Some t)
  obtain x where x: "sn_sessions s (rt_session t) = Some x" using tokens_okD [OF assms t] by blast
  define bad where "bad = (case expected of None \<Rightarrow> False | Some y \<Rightarrow> \<not> same_binding x y)"
  note r = rotate_token_def [of hash U clk order fresh token expected q s, unfolded Let_def adopt_known [OF assms] t option.map
      option.case prod.case x bad_def [symmetric]]
  show ?thesis
  proof (cases "rt_status t = tok_current")
    case False
    show ?thesis
    proof (cases "rt_status t = tok_consumed")
      case True
      then show ?thesis by (intro reused [OF t]) (simp_all add: r)
    next
      case nc: False
      then show ?thesis by (intro dead [OF t False nc]) (simp_all add: r False)
    qed
  next
    case c: True
    show ?thesis
    proof (cases bad)
      case True
      then show ?thesis by (intro rebound) (simp add: r c)
    next
      case nb: False
      show ?thesis
      proof (cases "an_status x \<noteq> ''active'' \<or> an_expires x < clk 0 \<or> rt_expires t < clk 0")
        case True
        then show ?thesis by (intro expired [OF t x]) (simp add: r c nb)
      next
        case False
        then show ?thesis by (intro exchanged [OF t c x]) (simp_all add: r c nb swapped_def)
      qed
    qed
  qed
qed

lemma swapped_result:
  assumes "logins_ok s" "sn_tokens s h = Some t" "rt_status t = tok_current" "sn_sessions s (rt_session t) = Some x"
    "an_status x = ''active''" "sn_tokens s h' = None"
  shows "login_result s (swapped U q now h h' t x s)" (is "login_result s ?v")
proof -
  note x = logins_okD [OF assms(1,4)]
  have xh: "an_hash x = h" "an_family x = rt_family t" using tokens_okD [OF assms(1,2)] assms(3,4) by simp_all
  have hh: "h \<noteq> h'" using assms(2,6) by auto
  let ?y = "rotated U q now h' x"
  let ?t = "t\<lparr>rt_status := tok_consumed, rt_consumed := now\<rparr>"
  let ?k = "\<lparr>rt_hash = h', rt_family = rt_family t, rt_session = rt_session t, rt_status = tok_current,
     rt_created = now, rt_expires = now + refresh_ttl, rt_consumed = 0\<rparr>"
  have v: "sn_sessions ?v = (sn_sessions s)(rt_session t \<mapsto> ?y)" "sn_families ?v = sn_families s"
    "sn_tokens ?v = (sn_tokens s)(h \<mapsto> ?t, h' \<mapsto> ?k)"
    by (simp_all add: swapped_def x(1))
  have "logins_ok ?v"
  proof (rule logins_okI)
    fix j z assume z: "sn_sessions ?v j = Some z"
    show "an_id z = j \<and> an_family z \<noteq> [] \<and> (\<exists>g. sn_families ?v (an_family z) = Some g \<and> rf_session g = j) \<and> sn_tokens ?v (an_hash z) \<noteq> None"
      using z x logins_okD [OF assms(1), of j z] by (cases "j = rt_session t") (auto simp: v)
  next
    fix g k assume k: "sn_tokens ?v g = Some k"
    show "\<exists>z. sn_sessions ?v (rt_session k) = Some z \<and> an_family z = rt_family k \<and> (rt_status k = tok_current \<longrightarrow> an_hash z = g)"
    proof (cases "g = h \<or> g = h'")
      case True
      then show ?thesis using k hh xh by (auto simp: v)
    next
      case False
      then have k': "sn_tokens s g = Some k" using k by (simp add: v)
      from tokens_okD [OF assms(1) k'] False show ?thesis using assms(4) xh by (auto simp: v)
    qed
  qed
  moreover have "login_moves x ?y" by (simp add: login_moves_def same_login_def)
  moreover have "token_moves t ?t" using assms(3) by (simp add: token_moves_def)
  ultimately show ?thesis using assms(2,4,6) hh by (auto simp: login_result_def v)
qed

lemma rotate_result:
  assumes "logins_ok s" "sn_tokens s (hash fresh) = None"
  shows "login_result s (fst (rotate_token hash U clk order fresh token expected q s))"
  using assms(1)
proof (cases rule: rotate_cases [where hash = hash and U = U and clk = clk and order = order and fresh = fresh and
      token = token and expected = expected and q = q])
  case (expired t x)
  then show ?thesis
    using put_login_result [OF assms(1) expired(2)] logins_okD(1) [OF assms(1) expired(2)]
    by (simp add: login_moves_def same_login_def)
next
  case (exchanged t x)
  then show ?thesis using swapped_result [OF assms(1) exchanged(1-4) assms(2)] by simp
qed (simp_all add: login_result_refl assms(1) compromise_family_result)

section \<open>Operations as steps\<close>

text \<open>Random tokens are fresh.\<close>

inductive login_step :: "(string \<Rightarrow> string) \<Rightarrow> unicode \<Rightarrow> session_store \<Rightarrow> session_store \<Rightarrow> bool" for hash U where
  login_created: "fresh_draw hash d s \<Longrightarrow> login_step hash U s (fst (create_session hash U clk order d u q s))"
| login_rotated: "sn_tokens s (hash fresh) = None \<Longrightarrow>
    login_step hash U s (fst (rotate_token hash U clk order fresh token expected r s))"
| login_observed: "login_step hash U s (fst (observe_session U clk i user r s))"
| login_ended: "login_step hash U s (fst (revoke_login now i reason s))"
| user_ended: "login_step hash U s (fst (revoke_user order now user reason s))"
| others_ended: "login_step hash U s (fst (revoke_others order now user current reason s))"
| filtered_ended: "login_step hash U s (fst (revoke_filtered U order now user provider risk reason s))"
| device_ended: "login_step hash U s (fst (revoke_device U order now user device reason s))"
| login_raised: "login_step hash U s (fst (raise_session U clk i user ms strength at s))"
| device_renamed: "login_step hash U s (fst (rename_device control U clk i user name s))"
| device_bound: "login_step hash U s (fst (bind_device U clk i user device verified s))"
| binding_replaced: "login_step hash U s (fst (replace_binding U clk i user previous epoch device verified s))"
| risk_applied: "login_step hash U s (fst (apply_risk U clk i user k s))"

definition logins_reachable :: "(string \<Rightarrow> string) \<Rightarrow> unicode \<Rightarrow> session_store \<Rightarrow> bool" where
  "logins_reachable hash U s \<longleftrightarrow> (login_step hash U)\<^sup>*\<^sup>* no_sessions s"

lemma login_step_result: "login_step hash U s t \<Longrightarrow> logins_ok s \<Longrightarrow> login_result s t"
  by (induction rule: login_step.induct)
    (simp_all add: create_session_result rotate_result observe_session_result revoke_login_result revoke_user_result
      revoke_others_result revoke_filtered_result revoke_device_result raise_session_result rename_device_result bind_device_result
      replace_binding_result apply_risk_result)

interpretation logins: moving_store "login_step hash U" logins_ok sn_sessions login_moves for hash U
proof
  fix s t k x
  assume "logins_ok s" "login_step hash U s t"
  then have r: "login_result s t" using login_step_result by blast
  then show "logins_ok t" by (simp add: login_result_def)
  assume "sn_sessions s k = Some x"
  then show "\<exists>y. sn_sessions t k = Some y \<and> login_moves x y" using r by (simp add: login_result_def)
qed (simp_all, rule login_moves_trans)

interpretation refresh_tokens: moving_store "login_step hash U" logins_ok sn_tokens token_moves for hash U
proof
  fix s t k x
  assume "logins_ok s" "login_step hash U s t"
  then have r: "login_result s t" using login_step_result by blast
  then show "logins_ok t" by (simp add: login_result_def)
  assume "sn_tokens s k = Some x"
  then show "\<exists>y. sn_tokens t k = Some y \<and> token_moves x y" using r by (simp add: login_result_def)
qed (simp_all, rule token_moves_trans)

lemma no_sessions_ok: "logins_ok no_sessions"
  by (simp add: logins_ok_def no_sessions_def)

lemma reachable_logins: "logins_reachable hash U s \<Longrightarrow> logins_ok s"
  using logins.run_inv no_sessions_ok unfolding logins_reachable_def by blast

end
