(* ===== verification/SessionProperties.thy ===== *)
theory SessionProperties
  imports SessionRuns
begin

text \<open>
  What holds in all runs of the login sessions: refresh tokens are good for one exchange, reuse ends the login, a
  revoked login stays revoked, the number of logins is bounded; and what the weighing of risks promises.
\<close>

section \<open>Lemmas on runs\<close>

lemma dead_session:
  assumes "logins_ok s" "sn_sessions s i = Some x" "an_status x \<noteq> ''active''" "(login_step hash U)\<^sup>*\<^sup>* s t"
  shows "live_session now i user t = None"
proof -
  obtain y where "sn_sessions t i = Some y" "login_moves x y" using logins.run_moves [OF assms(4,1,2)] by blast
  then show ?thesis using assms(3) by (simp add: live_session_def login_moves_def)
qed

lemma dead_token_refused:
  assumes "logins_ok s" "sn_tokens s (hash token) = Some t" "rt_status t \<noteq> tok_current"
  shows "snd (rotate_token hash U clk order fresh token expected q s) \<in> {Inl RefreshReused, Inl RefreshInvalid}"
  by (simp add: rotate_token_def Let_def adopt_known [OF assms(1)] assms(2,3))

lemma revoked_token_refused:
  assumes "logins_ok s" "sn_tokens s (hash token) = Some t" "rt_status t = is_revoked"
  shows "rotate_token hash U clk order fresh token expected q s = (s, Inl RefreshInvalid)"
  by (simp add: rotate_token_def Let_def adopt_known [OF assms(1)] assms(2,3))

lemma dead_session_refused:
  assumes "logins_ok s" "sn_tokens s (hash token) = Some t" "sn_sessions s (rt_session t) = Some x" "an_status x \<noteq> ''active''"
  shows "\<not> is_ok (snd (rotate_token hash U clk order fresh token expected q s))"
  using assms(1)
  by (cases rule: rotate_cases [where hash = hash and U = U and clk = clk and order = order and fresh = fresh and
      token = token and expected = expected and q = q]) (use assms(2-4) in simp_all)

lemma compromised_tokens:
  "sn_tokens (compromise_family U now f reason s) h =
     map_option (\<lambda>t. if rt_family t = f then t\<lparr>rt_status := is_revoked\<rparr> else t) (sn_tokens s h)"
  by (cases "sn_sessions s (rf_session (family_of s f))") (simp_all add: compromise_family_def Let_def revoked_tokens)

section \<open>Refresh tokens\<close>

text \<open>C19: A refresh token is good for one exchange: after an exchange that succeeded, every later exchange of the same
  token is refused, as reused or as invalid.\<close>

theorem refresh_single_use:
  assumes "logins_reachable hash U s" and "sn_tokens s (hash fresh) = None"
    and "rotate_token hash U clk order fresh token expected q s = (s1, Inr r)" and "(login_step hash U)\<^sup>*\<^sup>* s1 t"
  shows "snd (rotate_token hash U clk' order' fresh' token expected' q' t) \<in> {Inl RefreshReused, Inl RefreshInvalid}"
proof -
  note ok = reachable_logins [OF assms(1)]
  have ok1: "logins_ok s1"
    using login_result_ok [OF rotate_result [where hash = hash and fresh = fresh, OF ok assms(2), of U clk order token expected q]] by (simp add: assms(3))
  have "\<exists>k. sn_tokens s1 (hash token) = Some k \<and> rt_status k = tok_consumed"
    using ok
  proof (cases rule: rotate_cases [where hash = hash and U = U and clk = clk and order = order and fresh = fresh and
      token = token and expected = expected and q = q])
    case (exchanged t x)
    then have "hash token \<noteq> hash fresh" using assms(2) by auto
    then show ?thesis using exchanged(7) by (simp add: assms(3) swapped_def)
  qed (simp_all add: assms(3))
  then obtain k where k: "sn_tokens s1 (hash token) = Some k" "rt_status k \<noteq> tok_current" by auto
  obtain l where "sn_tokens t (hash token) = Some l" "token_moves k l"
    using refresh_tokens.run_moves [OF assms(4) ok1 k(1)] by blast
  then have "sn_tokens t (hash token) = Some l" "rt_status l \<noteq> tok_current" using k(2) by (auto simp: token_moves_def)
  then show ?thesis by (rule dead_token_refused [OF logins.run_inv [OF assms(4) ok1]])
qed

text \<open>C18: Presenting a refresh token that has been exchanged ends its login for good: the session is never live again,
  and every token of the family, whoever holds it, is refused from then on.\<close>

theorem reuse_ends_login:
  assumes "logins_reachable hash U s" and "sn_tokens s (hash token) = Some k" and "rt_status k = tok_consumed"
    and "rotate_token hash U clk order fresh token expected q s = (s1, r)" and "(login_step hash U)\<^sup>*\<^sup>* s1 t"
  shows "r = Inl RefreshReused \<and> live_session now (rt_session k) user t = None \<and>
    (\<forall>token' k'. sn_tokens s (hash token') = Some k' \<and> rt_family k' = rt_family k \<longrightarrow>
       rotate_token hash U clk' order' fresh' token' expected' q' t = (t, Inl RefreshInvalid))"
proof -
  note ok = reachable_logins [OF assms(1)]
  let ?c = "compromise_family U (clk 1) (rt_family k) ''refresh-token-reuse'' s"
  have r: "s1 = ?c" "r = Inl RefreshReused"
    using assms(4) by (simp_all add: rotate_token_def Let_def adopt_known [OF ok] assms(2,3))
  have ok1: "logins_ok s1" using login_result_ok [OF compromise_family_result [OF ok]] by (simp add: r(1))
  obtain x where x: "sn_sessions s (rt_session k) = Some x" "an_family x = rt_family k" using tokens_okD [OF ok assms(2)] by blast
  obtain f where f: "sn_families s (rt_family k) = Some f" "rf_session f = rt_session k"
    using logins_okD(3) [OF ok x(1)] x(2) by auto
  have x1: "sn_sessions s1 (rt_session k) = Some (compromised_session U (clk 1) ''refresh-token-reuse'' x)"
    using logins_okD(1) [OF ok x(1)] by (simp add: r(1) compromise_family_def Let_def family_of_def f x(1))
  have dead: "live_session now (rt_session k) user t = None"
    by (rule dead_session [OF ok1 x1 _ assms(5)]) (simp add: compromised_session_def)
  have "rotate_token hash U clk' order' fresh' token' expected' q' t = (t, Inl RefreshInvalid)"
    if k': "sn_tokens s (hash token') = Some k'" "rt_family k' = rt_family k" for token' k'
  proof -
    have "sn_tokens s1 (hash token') = Some (k'\<lparr>rt_status := is_revoked\<rparr>)"
      using k' by (simp add: r(1) compromised_tokens)
    from refresh_tokens.run_moves [OF assms(5) ok1 this]
    obtain l where "sn_tokens t (hash token') = Some l" "rt_status l = is_revoked" by (auto simp: token_moves_def)
    then show ?thesis by (rule revoked_token_refused [OF logins.run_inv [OF assms(5) ok1]])
  qed
  then show ?thesis using r(2) dead by blast
qed

text \<open>C21: At any time a login has at most one refresh token that can be exchanged: the one whose hash its session
  records, and all its tokens belong to the session's family.\<close>

theorem one_current_token:
  assumes "logins_reachable hash U s" and "sn_tokens s h = Some k" and "sn_tokens s h' = Some k'"
    and "rt_session k = rt_session k'"
  shows "\<exists>x. sn_sessions s (rt_session k) = Some x \<and> rt_family k = an_family x \<and> rt_family k' = an_family x \<and>
    (rt_status k = tok_current \<longrightarrow> h = an_hash x) \<and> (rt_status k = tok_current \<and> rt_status k' = tok_current \<longrightarrow> h = h')"
  using tokens_okD [OF reachable_logins [OF assms(1)] assms(2)] tokens_okD [OF reachable_logins [OF assms(1)] assms(3)] assms(4)
  by auto

section \<open>Revocation\<close>

lemma end_session_reach:
  "fst (end_session p mark now i (s, ids)) =
     (case sn_sessions s i of None \<Rightarrow> s
      | Some x \<Rightarrow> if p x then revoke_family (an_family x) (an_reason (mark x)) now (put_session i (mark x) s) else s)"
  by (simp add: end_session_def split: option.split)

lemma sweep_ends:
  assumes "marks_ended mark" "\<And>x. p (mark x) = False"
  shows "sn_sessions (fst (fold (end_session p mark now) order (s, ids))) i =
    (case sn_sessions s i of None \<Rightarrow> None | Some x \<Rightarrow> Some (if i \<in> set order \<and> p x then mark x else x))"
proof (induction order arbitrary: s ids)
  case Nil
  then show ?case by (simp split: option.split)
next
  case (Cons j order)
  obtain t js where t: "end_session p mark now j (s, ids) = (t, js)" by (cases "end_session p mark now j (s, ids)")
  have "sn_sessions t i = (case sn_sessions s i of None \<Rightarrow> None | Some x \<Rightarrow> Some (if i = j \<and> p x then mark x else x))"
    using end_session_reach [of p mark now j s ids] by (auto simp: t split: option.split_asm option.split if_split_asm)
  then show ?case by (auto simp: t Cons.IH assms(2) split: option.split)
qed

text \<open>C20: Revoking the logins of a user is final and complete: no session the user had is ever live again, and none of
  its refresh tokens is ever exchanged again; the sessions of other users are untouched.\<close>

theorem user_revocation_final:
  assumes "logins_reachable hash U s" and "set order = dom (sn_sessions s)"
    and "sn_sessions s i = Some x" and "(login_step hash U)\<^sup>*\<^sup>* (fst (revoke_user order now user reason s)) t"
  shows "(an_user x = user \<longrightarrow> live_session now' i user' t = None \<and>
      (\<forall>token k. sn_tokens t (hash token) = Some k \<and> rt_session k = i \<longrightarrow>
         \<not> is_ok (snd (rotate_token hash U clk order' fresh token expected q t)))) \<and>
    (an_user x \<noteq> user \<longrightarrow> sn_sessions (fst (revoke_user order now user reason s)) i = Some x)"
proof -
  note ok = reachable_logins [OF assms(1)]
  let ?p = "\<lambda>x. an_user x = user \<and> an_status x = ''active''"
  let ?m = "ended now (first_non_empty [reason, ''user-session-revoke''])"
  let ?s1 = "fst (revoke_user order now user reason s)"
  have ok1: "logins_ok ?s1" using login_result_ok [OF revoke_user_result [OF ok]] .
  have "i \<in> set order" using assms(2,3) by auto
  then have s1: "sn_sessions ?s1 i = Some (if ?p x then ?m x else x)"
    using sweep_ends [OF ended_marks, of ?p now "first_non_empty [reason, ''user-session-revoke'']" now order s "[]" i] assms(3)
    by (simp add: revoke_user_def sweep_def case_prod_beta)
  have "live_session now' i user' t = None \<and> (\<forall>token k. sn_tokens t (hash token) = Some k \<and> rt_session k = i \<longrightarrow>
         \<not> is_ok (snd (rotate_token hash U clk order' fresh token expected q t)))" if u: "an_user x = user"
  proof -
    obtain y where y: "sn_sessions ?s1 i = Some y" "an_status y \<noteq> ''active''" using s1 u by (cases "?p x") auto
    obtain z where z: "sn_sessions t i = Some z" "login_moves y z" using logins.run_moves [OF assms(4) ok1 y(1)] by blast
    then have "an_status z \<noteq> ''active''" using y(2) by (simp add: login_moves_def)
    then have "\<not> is_ok (snd (rotate_token hash U clk order' fresh token expected q t))"
      if "sn_tokens t (hash token) = Some k" "rt_session k = i" for token k
      using dead_session_refused [where hash = hash, OF logins.run_inv [OF assms(4) ok1] that(1)] z(1) that(2) by simp
    then show ?thesis using dead_session [OF ok1 y(1,2) assms(4)] by blast
  qed
  moreover have "sn_sessions ?s1 i = Some x" if "an_user x \<noteq> user" using s1 that by simp
  ultimately show ?thesis by blast
qed

section \<open>Risk\<close>

definition hwid_only :: "risk_scan \<Rightarrow> risk_scan" where "hwid_only x = x\<lparr>rx_hwid := True\<rparr>"

lemma scan_hwid: "r \<noteq> ''hwid-signal-changed'' \<Longrightarrow> scan_reason r (hwid_only x) = hwid_only (scan_reason r x)"
  by (simp add: scan_reason_def hwid_only_def)

lemma scan_hwid_self: "scan_reason ''hwid-signal-changed'' x = hwid_only x"
  by (simp add: scan_reason_def hwid_only_def)

lemma scan_hwid_any: "scan_reason r (hwid_only x) = hwid_only (scan_reason r x)"
  by (cases "r = ''hwid-signal-changed''") (simp add: scan_hwid_self hwid_only_def, rule scan_hwid)

lemma scan_all_hwid: "fold scan_reason rs (hwid_only x) = hwid_only (fold scan_reason rs x)"
  by (induction rs arbitrary: x) (simp_all add: scan_hwid_any)

lemma scan_drop_hwid:
  "hwid_only (fold scan_reason (filter (\<lambda>r. r \<noteq> ''hwid-signal-changed'') rs) x) = hwid_only (fold scan_reason rs x)"
proof (induction rs arbitrary: x)
  case (Cons r rs)
  then show ?case
    by (cases "r = ''hwid-signal-changed''") (simp_all add: scan_hwid_self scan_all_hwid, simp add: hwid_only_def)
qed simp

lemma verdict_hwid: "fst (risk_verdict (weigh_hwid (hwid_only x))) = ''compromised'' \<longleftrightarrow> fst (risk_verdict (weigh_hwid x)) = ''compromised''"
  by (auto simp: risk_verdict_def weigh_hwid_def hwid_only_def Let_def)

lemma hwid_text: "to_lower U (trim_space ''hwid-signal-changed'') = ''hwid-signal-changed''"
proof -
  have "trim_space ''hwid-signal-changed'' = ''hwid-signal-changed''" "list_all is_ascii ''hwid-signal-changed''"
    "map lower_byte ''hwid-signal-changed'' = ''hwid-signal-changed''"
    by code_simp+
  then show ?thesis by (simp add: to_lower_def)
qed

text \<open>C23: A changed hardware identifier can raise the risk of a session, but never decides that it is compromised: with
  it or without it, the other reasons decide.\<close>

theorem hwid_never_compromises:
  "fst (evaluate_reasons U (reasons @ [''hwid-signal-changed''])) = ''compromised'' \<longleftrightarrow>
   fst (evaluate_reasons U reasons) = ''compromised''"
proof -
  let ?h = "''hwid-signal-changed''" and ?m = "merge_methods U [] reasons"
  define F where "F = (\<lambda>ys. fold scan_reason (sort ys) no_risk_seen)"
  have drop: "hwid_only (F ys) = hwid_only (F (filter (\<lambda>r. r \<noteq> ?h) ys))" for ys
    unfolding F_def by (subst scan_drop_hwid [symmetric]) (simp add: filter_sort)
  have "merge_methods U [] (reasons @ [?h]) = (if ?h \<in> set ?m then ?m else ?m @ [?h])"
    by (simp add: merge_methods_def Let_def hwid_text)
  then have "filter (\<lambda>r. r \<noteq> ?h) (merge_methods U [] (reasons @ [?h])) = filter (\<lambda>r. r \<noteq> ?h) ?m"
    by simp
  then have "hwid_only (F (merge_methods U [] (reasons @ [?h]))) = hwid_only (F ?m)"
    using drop by metis
  then show ?thesis
    using verdict_hwid [of "F ?m"] verdict_hwid [of "F (merge_methods U [] (reasons @ [?h]))"]
    by (simp add: evaluate_reasons_def merge_reasons_def F_def)
qed

section \<open>Number of logins\<close>

lemma end_all_sessions:
  assumes "distinct (map an_id xs)"
  shows "(i \<notin> an_id ` set xs \<longrightarrow> sn_sessions (end_all clk n xs s) i = sn_sessions s i) \<and>
    (\<forall>y. i \<in> an_id ` set xs \<longrightarrow> sn_sessions (end_all clk n xs s) i = Some y \<longrightarrow> an_status y = is_revoked)"
  using assms
proof (induction xs arbitrary: n s)
  case (Cons x xs)
  let ?t = "revoke_family (an_family x) ''max-sessions-per-user'' (clk n)
    (put_session (an_id x) (ended (clk n) ''max-sessions-per-user'' x) s)"
  have d: "an_id x \<notin> an_id ` set xs" "distinct (map an_id xs)" using Cons.prems by auto
  note IH = Cons.IH [OF d(2), where n = "n + 1" and s = ?t]
  show ?case
  proof (cases "i \<in> an_id ` set xs")
    case False
    then have "sn_sessions (end_all clk n (x # xs) s) i = sn_sessions ?t i" using IH by simp
    then show ?thesis using False by auto
  qed (use IH d in auto)
qed simp

lemma active_ids:
  assumes "logins_ok s" "distinct order"
  shows "distinct (map an_id (active_of order user s))"
proof -
  have "distinct (map an_id (List.map_filter (sn_sessions s) order))"
    using assms(2)
  proof (induction order)
    case (Cons i order)
    show ?case
    proof (cases "sn_sessions s i")
      case (Some x)
      have ni: "an_id y \<noteq> i" if y: "y \<in> set (List.map_filter (sn_sessions s) order)" for y
      proof -
        obtain j where "j \<in> set order" "sn_sessions s j = Some y" using y by (auto simp: List.map_filter_def)
        then show ?thesis using logins_okD(1) [OF assms(1)] Cons.prems by auto
      qed
      then have "i \<notin> an_id ` set (List.map_filter (sn_sessions s) order)" by blast
      then show ?thesis
        using Cons.IH Cons.prems logins_okD(1) [OF assms(1) Some] by (simp add: List.map_filter_simps Some)
    qed (use Cons in \<open>simp add: List.map_filter_simps\<close>)
  qed (simp add: List.map_filter_simps)
  then show ?thesis unfolding active_of_def by (rule distinct_map_filter)
qed

definition active_logins :: "string \<Rightarrow> session_store \<Rightarrow> string set" where
  "active_logins user s = {i. \<exists>x. sn_sessions s i = Some x \<and> an_user x = user \<and> an_status x = ''active''}"

lemma active_of_ids:
  assumes "logins_ok s" "set order = dom (sn_sessions s)"
  shows "an_id ` set (active_of order user s) = active_logins user s"
proof
  show "an_id ` set (active_of order user s) \<subseteq> active_logins user s"
    using active_of_set [OF assms(1)] unfolding active_logins_def by fastforce
  show "active_logins user s \<subseteq> an_id ` set (active_of order user s)"
  proof
    fix i assume "i \<in> active_logins user s"
    then obtain x where x: "sn_sessions s i = Some x" "an_user x = user" "an_status x = ''active''" by (auto simp: active_logins_def)
    then have "x \<in> set (active_of order user s)" using assms(2) unfolding active_of_def by (force simp: List.map_filter_def)
    then show "i \<in> an_id ` set (active_of order user s)" using logins_okD(1) [OF assms(1) x(1)] by force
  qed
qed

lemma enforce_below:
  assumes "logins_ok s" "distinct order" "set order = dom (sn_sessions s)" "card (active_logins user s) \<le> max_sessions"
  shows "enforce_limit order clk n user s = s"
proof -
  have "card (an_id ` set (active_of order user s)) = length (active_of order user s)"
    using distinct_card [OF active_ids [OF assms(1,2), of user]] by simp
  then show ?thesis using assms(4) by (simp add: enforce_limit_def active_of_ids [OF assms(1,3)])
qed

lemma enforced:
  assumes "logins_ok s" "distinct order" "set order = dom (sn_sessions s)"
  shows "card (active_logins user (enforce_limit order clk n user s)) \<le> max_sessions"
    and "sn_sessions s i = Some x \<Longrightarrow> an_user x = user \<Longrightarrow> an_status x = ''active'' \<Longrightarrow>
      (\<And>j y. sn_sessions s j = Some y \<Longrightarrow> j \<noteq> i \<Longrightarrow> an_user y = user \<Longrightarrow> an_status y = ''active'' \<Longrightarrow> an_seen y < an_seen x) \<Longrightarrow>
      sn_sessions (enforce_limit order clk n user s) i = Some x"
proof -
  define items where "items = active_of order user s"
  define k where "k = length items - max_sessions"
  define xs where "xs = sort_key an_seen items"
  have d: "distinct (map an_id items)" unfolding items_def by (rule active_ids [OF assms(1,2)])
  have dx: "distinct (map an_id xs)"
    using d unfolding xs_def distinct_map by (auto simp: distinct_sort)
  have set: "an_id ` set items = active_logins user s" unfolding items_def by (rule active_of_ids [OF assms(1,3)])
  have v: "enforce_limit order clk n user s = (if length items \<le> max_sessions then s else end_all clk n (take k xs) s)"
    by (simp add: enforce_limit_def Let_def items_def k_def xs_def)
  have dt: "distinct (map an_id (take k xs))" using dx by (simp add: take_map [symmetric])
  have split: "set xs = set (take k xs) \<union> set (drop k xs)" by (metis append_take_drop_id set_append)
  show "card (active_logins user (enforce_limit order clk n user s)) \<le> max_sessions"
  proof (cases "length items \<le> max_sessions")
    case True
    then have "card (an_id ` set items) \<le> max_sessions" using card_image_le [of "set items" an_id] card_length [of items] by simp
    then show ?thesis using True by (simp add: v set)
  next
    case False
    have "active_logins user (end_all clk n (take k xs) s) \<subseteq> an_id ` set (drop k xs)"
    proof
      fix i assume "i \<in> active_logins user (end_all clk n (take k xs) s)"
      then obtain y where y: "sn_sessions (end_all clk n (take k xs) s) i = Some y" "an_user y = user" "an_status y = ''active''"
        by (auto simp: active_logins_def)
      then have i: "i \<notin> an_id ` set (take k xs)" using end_all_sessions [OF dt, where clk = clk and n = n and s = s and i = i] by auto
      then have "sn_sessions s i = Some y" using y(1) end_all_sessions [OF dt, where clk = clk and n = n and s = s and i = i] by simp
      then have "i \<in> active_logins user s" using y(2,3) unfolding active_logins_def by blast
      then have "i \<in> an_id ` set xs" using set by (simp add: xs_def)
      then show "i \<in> an_id ` set (drop k xs)" using i split by auto
    qed
    then have "card (active_logins user (end_all clk n (take k xs) s)) \<le> card (an_id ` set (drop k xs))" by (intro card_mono) auto
    also have "\<dots> \<le> length (drop k xs)" using card_image_le [of "set (drop k xs)" an_id] card_length [of "drop k xs"] by simp
    also have "\<dots> \<le> max_sessions" using False by (simp add: k_def xs_def)
    finally show ?thesis using False by (simp add: v)
  qed
  assume x: "sn_sessions s i = Some x" "an_user x = user" "an_status x = ''active''"
    and newest: "\<And>j y. sn_sessions s j = Some y \<Longrightarrow> j \<noteq> i \<Longrightarrow> an_user y = user \<Longrightarrow> an_status y = ''active'' \<Longrightarrow> an_seen y < an_seen x"
  have id: "an_id x = i" by (rule logins_okD(1) [OF assms(1) x(1)])
  have "i \<notin> an_id ` set (take k xs)" if "\<not> length items \<le> max_sessions"
  proof
    assume "i \<in> an_id ` set (take k xs)"
    then obtain a where a: "a < k" "a < length xs" "an_id (xs ! a) = i" by (auto simp: in_set_conv_nth)
    let ?b = "length xs - 1"
    have b: "k \<le> ?b" "?b < length xs" using that by (auto simp: k_def xs_def max_sessions_def)
    have "xs ! a \<in> set items" "xs ! ?b \<in> set items" using a(2) b(2) nth_mem [of a xs] nth_mem [of ?b xs] by (simp_all add: xs_def)
    note A = active_of_set [OF assms(1) this(1) [unfolded items_def]] and B = active_of_set [OF assms(1) this(2) [unfolded items_def]]
    have "xs ! a = x" using A(1) a(3) x(1) by simp
    moreover have "an_id (xs ! ?b) \<noteq> i"
      using dx a b nth_eq_iff_index_eq [of "map an_id xs" a ?b] by auto
    then have "an_seen (xs ! ?b) < an_seen x" using newest B by blast
    moreover have "an_seen (xs ! a) \<le> an_seen (xs ! ?b)"
      using sorted_nth_mono [of "map an_seen xs" a ?b] a(1) b by (simp add: xs_def)
    ultimately show False by simp
  qed
  then show "sn_sessions (enforce_limit order clk n user s) i = Some x"
    using end_all_sessions [OF dt, where clk = clk and n = n and s = s and i = i] x(1) by (simp add: v)
qed

text \<open>C22: After a login a user has at most ten active sessions, whatever the clock.  If the clock has moved on since
  the user's active sessions were last seen, the new session is one of them.  If the user had fewer than ten, none of
  them is ended: the new one is added.\<close>

theorem session_limit:
  assumes "logins_reachable hash U s" and "fresh_draw hash d s" and "distinct order"
    and "set order = insert (dw_session d) (dom (sn_sessions s))"
    and "create_session hash U clk order d u q s = (t, x, token)"
  shows "card (active_logins (us_id u) t) \<le> 10 \<and>
    ((\<forall>i y. sn_sessions s i = Some y \<longrightarrow> an_user y = us_id u \<longrightarrow> an_status y = ''active'' \<longrightarrow> an_seen y < clk 1) \<longrightarrow>
      sn_sessions t (dw_session d) = Some x \<and> dw_session d \<in> active_logins (us_id u) t) \<and>
    (card (active_logins (us_id u) s) < 10 \<longrightarrow>
      active_logins (us_id u) t = insert (dw_session d) (active_logins (us_id u) s))"
proof -
  let ?s3 = "stored_login hash U clk d u q s"
  note ok = login_result_ok [OF stored_login_result [OF reachable_logins [OF assms(1)] assms(2), of U clk u q]]
  have t: "t = enforce_limit order clk 2 (us_id u) ?s3" using create_stored [of hash U clk order d u q s] by (simp add: assms(5))
  have x: "x = new_session hash U clk d u q" using assms(5) by (simp add: create_session_def Let_def)
  have s3: "sn_sessions ?s3 = (sn_sessions s)(dw_session d \<mapsto> x)" by (simp add: stored_login_def Let_def x)
  then have dom: "set order = dom (sn_sessions ?s3)" using assms(4) by auto
  have new: "sn_sessions ?s3 (dw_session d) = Some x" "an_user x = us_id u" "an_status x = ''active''" "an_seen x = clk 1"
    by (simp_all add: s3) (simp_all add: x)
  have "card (active_logins (us_id u) t) \<le> 10"
    using enforced(1) [OF ok assms(3) dom] unfolding t max_sessions_def by blast
  moreover have kept: "sn_sessions t (dw_session d) = Some x \<and> dw_session d \<in> active_logins (us_id u) t"
    if "\<forall>i y. sn_sessions s i = Some y \<longrightarrow> an_user y = us_id u \<longrightarrow> an_status y = ''active'' \<longrightarrow> an_seen y < clk 1"
  proof -
    have "sn_sessions t (dw_session d) = Some x"
      unfolding t by (rule enforced(2) [OF ok assms(3) dom new(1-3)]) (use that new(4) in \<open>auto simp: s3\<close>)
    then show ?thesis using new(2,3) by (simp add: active_logins_def)
  qed
  moreover have "active_logins (us_id u) t = insert (dw_session d) (active_logins (us_id u) s)"
    if "card (active_logins (us_id u) s) < 10"
  proof -
    have more: "active_logins (us_id u) ?s3 = insert (dw_session d) (active_logins (us_id u) s)"
      using assms(2) new(2,3) by (auto simp: active_logins_def s3 fresh_draw_def)
    then have "card (active_logins (us_id u) ?s3) \<le> max_sessions"
      using that card_insert_le_m1 [of 10 "active_logins (us_id u) s" "dw_session d"] by (simp add: max_sessions_def)
    then show ?thesis using more by (simp add: t enforce_below [OF ok assms(3) dom])
  qed
  ultimately show ?thesis by blast
qed

section \<open>Samples\<close>

definition draw_sample :: drawn where
  "draw_sample = \<lparr>dw_refresh = ''r1'', dw_session = ''s1'', dw_family = ''f1''\<rparr>"

definition request_sample :: login_request where
  "request_sample = \<lparr>lr_device = ''pc'', lr_methods = [''password''], lr_strength = ''mfa'', lr_time = 1, lr_identity = [],
     lr_provider = [], lr_ip = ''ip'', lr_agent = ''ua''\<rparr>"

definition login_sample1 :: auth_session where
  "login_sample1 = new_session id ascii_only (\<lambda>_. 1) draw_sample user_sample request_sample"

definition logged_sample :: session_store where
  "logged_sample = stored_login id ascii_only (\<lambda>_. 1) draw_sample user_sample request_sample no_sessions"

lemma login_sample1_fields:
  "an_id login_sample1 = ''s1''" "an_user login_sample1 = ''admin''" "an_family login_sample1 = ''f1''" "an_hash login_sample1 = ''r1''"
  "an_status login_sample1 = ''active''" "an_expires login_sample1 = 1 + refresh_ttl"
  by (simp_all add: login_sample1_def draw_sample_def user_sample_def) (simp add: new_session_def Let_def split: prod.split)

lemma logged_sample_store:
  "sn_sessions logged_sample = [''s1'' \<mapsto> login_sample1]"
  "sn_tokens logged_sample = [''r1'' \<mapsto> \<lparr>rt_hash = ''r1'', rt_family = ''f1'', rt_session = ''s1'', rt_status = tok_current,
     rt_created = 1, rt_expires = 1 + refresh_ttl, rt_consumed = 0\<rparr>]"
  unfolding logged_sample_def stored_login_def Let_def login_sample1_def [symmetric]
  by (simp_all add: login_sample1_fields no_sessions_def draw_sample_def)

lemma draw_sample_fresh: "fresh_draw id draw_sample no_sessions"
  by (simp add: fresh_draw_def no_sessions_def draw_sample_def)

lemma logged_sample_created:
  "create_session id ascii_only (\<lambda>_. 1) [''s1''] draw_sample user_sample request_sample no_sessions = (logged_sample, login_sample1, ''r1'')"
proof -
  have "length (active_of [''s1''] u s) \<le> 1" for u s
    by (simp add: active_of_def List.map_filter_simps split: option.split)
  then have "enforce_limit [''s1''] clk n u s = s" for clk n u s
    by (simp add: enforce_limit_def Let_def max_sessions_def order.trans [where b = 1])
  then show ?thesis
    unfolding create_session_def Let_def logged_sample_def stored_login_def login_sample1_def by (simp add: draw_sample_def)
qed

lemma logged_sample_reachable: "logins_reachable id ascii_only logged_sample"
proof -
  have "login_step id ascii_only no_sessions
      (fst (create_session id ascii_only (\<lambda>_. 1) [''s1''] draw_sample user_sample request_sample no_sessions))"
    by (rule login_created [OF draw_sample_fresh])
  then show ?thesis unfolding logged_sample_created logins_reachable_def by auto
qed

definition exchanged_sample :: session_store where
  "exchanged_sample = fst (rotate_token id ascii_only (\<lambda>_. 2) [] ''r2'' ''r1'' None None logged_sample)"

lemma refresh_ttl_pos: "0 < refresh_ttl"
  by (simp add: refresh_ttl_def)

lemma exchange_sample:
  "\<exists>r. rotate_token id ascii_only (\<lambda>_. 2) [] ''r2'' ''r1'' None None logged_sample = (exchanged_sample, Inr r)"
  "sn_tokens exchanged_sample ''r1'' \<noteq> None" "rt_status (the (sn_tokens exchanged_sample ''r1'')) = tok_consumed"
  "sn_tokens exchanged_sample ''r2'' \<noteq> None" "rt_session (the (sn_tokens exchanged_sample ''r1'')) = ''s1''"
  "rt_session (the (sn_tokens exchanged_sample ''r2'')) = ''s1''"
  using refresh_ttl_pos
  by (simp_all add: exchanged_sample_def rotate_token_def adopt_token_def logged_sample_store login_sample1_fields Let_def)

lemma exchanged_sample_reachable: "logins_reachable id ascii_only exchanged_sample"
proof -
  have "login_step id ascii_only logged_sample exchanged_sample"
    unfolding exchanged_sample_def by (rule login_rotated) (simp add: logged_sample_store)
  then show ?thesis using logged_sample_reachable unfolding logins_reachable_def by (rule rtranclp.rtrancl_into_rtrancl [rotated])
qed

theorem refresh_single_use_witness:
  "snd (rotate_token id ascii_only (\<lambda>_. 3) [] ''r3'' ''r1'' None None exchanged_sample) \<in> {Inl RefreshReused, Inl RefreshInvalid}"
proof -
  obtain r where r: "rotate_token id ascii_only (\<lambda>_. 2) [] ''r2'' ''r1'' None None logged_sample = (exchanged_sample, Inr r)"
    using exchange_sample(1) by blast
  have f: "sn_tokens logged_sample (id ''r2'') = None" by (simp add: logged_sample_store)
  show ?thesis by (rule refresh_single_use [OF logged_sample_reachable f r rtranclp.rtrancl_refl])
qed

theorem reuse_ends_login_witness:
  "snd (rotate_token id ascii_only (\<lambda>_. 3) [] ''r3'' ''r1'' None None exchanged_sample) = Inl RefreshReused"
proof -
  obtain k where k: "sn_tokens exchanged_sample (id ''r1'') = Some k" "rt_status k = tok_consumed"
    using exchange_sample(2,3) by auto
  obtain s1 r where r: "rotate_token id ascii_only (\<lambda>_. 3) [] ''r3'' ''r1'' None None exchanged_sample = (s1, r)"
    by (cases "rotate_token id ascii_only (\<lambda>_. 3) [] ''r3'' ''r1'' None None exchanged_sample")
  show ?thesis
    using reuse_ends_login [OF exchanged_sample_reachable k r rtranclp.rtrancl_refl] by (simp add: r)
qed

theorem one_current_token_witness:
  "\<exists>x. sn_sessions exchanged_sample ''s1'' = Some x \<and> an_family x = rt_family (the (sn_tokens exchanged_sample ''r2''))"
proof -
  obtain k k' where k: "sn_tokens exchanged_sample ''r1'' = Some k" "sn_tokens exchanged_sample ''r2'' = Some k'"
    using exchange_sample(2,4) by auto
  have s: "rt_session k = rt_session k'" "rt_session k = ''s1''" using exchange_sample(5,6) by (simp_all add: k)
  show ?thesis
    using one_current_token [OF exchanged_sample_reachable k s(1)] by (auto simp: k s(2))
qed

theorem user_revocation_final_witness:
  "live_session 4 ''s1'' ''admin'' (fst (revoke_user [''s1''] 4 ''admin'' [] logged_sample)) = None"
proof -
  have "set [''s1''] = dom (sn_sessions logged_sample)" "sn_sessions logged_sample ''s1'' = Some login_sample1"
    by (simp_all add: logged_sample_store)
  from user_revocation_final [OF logged_sample_reachable this rtranclp.rtrancl_refl]
  show ?thesis by (simp add: login_sample1_fields)
qed

text \<open>A user who logs in again and again, once per tick of the clock.\<close>

definition tick_draw :: "nat \<Rightarrow> drawn" where
  "tick_draw n = \<lparr>dw_refresh = replicate n CHR ''r'', dw_session = replicate n CHR ''s'', dw_family = replicate (Suc n) CHR ''f''\<rparr>"

definition tick_sessions :: "nat \<Rightarrow> string list" where
  "tick_sessions n = map (\<lambda>k. replicate k CHR ''s'') [0..<n]"

definition tick_login :: "nat \<Rightarrow> auth_session" where
  "tick_login n = new_session id ascii_only (\<lambda>_. int n) (tick_draw n) user_sample request_sample"

lemma tick_login_fields [simp]:
  "an_id (tick_login n) = replicate n CHR ''s''" "an_user (tick_login n) = ''admin''" "an_status (tick_login n) = ''active''"
  "an_seen (tick_login n) = int n"
  by (simp_all add: tick_login_def) (simp_all add: tick_draw_def user_sample_def)

fun ticked :: "nat \<Rightarrow> session_store" where
  "ticked 0 = no_sessions"
| "ticked (Suc n) = stored_login id ascii_only (\<lambda>_. int n) (tick_draw n) user_sample request_sample (ticked n)"

lemma replicate_inject: "replicate k a = replicate n a \<longleftrightarrow> k = n"
  by (metis length_replicate)

lemma ticked_sessions:
  "sn_sessions (ticked n) i = Some y \<longleftrightarrow> (\<exists>k < n. i = replicate k CHR ''s'' \<and> y = tick_login k)"
proof (induction n)
  case (Suc n)
  have "sn_sessions (ticked (Suc n)) = (sn_sessions (ticked n))(replicate n CHR ''s'' \<mapsto> tick_login n)"
    unfolding ticked.simps stored_login_def tick_login_def [symmetric] Let_def by simp
  then show ?case using Suc by (auto simp: less_Suc_eq replicate_inject simp del: ticked.simps)
qed (simp add: no_sessions_def)

lemma ticked_other:
  "n \<le> k \<Longrightarrow> sn_tokens (ticked n) (replicate k CHR ''r'') = None \<and> sn_families (ticked n) (replicate (Suc k) CHR ''f'') = None"
  by (induction n) (simp_all add: no_sessions_def stored_login_def tick_draw_def Let_def replicate_inject del: replicate_Suc)

lemma tick_fresh: "fresh_draw id (tick_draw n) (ticked n)"
proof -
  have "sn_sessions (ticked n) (replicate n CHR ''s'') = None"
    using ticked_sessions [of n "replicate n CHR ''s''"] by (cases "sn_sessions (ticked n) (replicate n CHR ''s'')") (auto simp: replicate_inject)
  then show ?thesis using ticked_other [of n n] by (simp add: fresh_draw_def tick_draw_def)
qed

lemma tick_order:
  "distinct (tick_sessions (Suc n))" "set (tick_sessions (Suc n)) = insert (dw_session (tick_draw n)) (dom (sn_sessions (ticked n)))"
proof -
  show "distinct (tick_sessions (Suc n))" by (auto simp: tick_sessions_def distinct_map inj_on_def replicate_inject)
  have "dom (sn_sessions (ticked n)) = (\<lambda>k. replicate k CHR ''s'') ` {0..<n}"
    unfolding dom_def by (auto simp: ticked_sessions)
  then show "set (tick_sessions (Suc n)) = insert (dw_session (tick_draw n)) (dom (sn_sessions (ticked n)))"
    by (simp add: tick_sessions_def tick_draw_def)
qed

lemma ticked_active: "active_logins ''admin'' (ticked n) = (\<lambda>k. replicate k CHR ''s'') ` {0..<n}"
  by (auto simp: active_logins_def ticked_sessions)

lemma ticked_count: "card (active_logins ''admin'' (ticked n)) = n"
  unfolding ticked_active by (subst card_image) (auto simp: inj_on_def replicate_inject)

lemma ticked_reachable: "n \<le> 10 \<Longrightarrow> logins_reachable id ascii_only (ticked n)"
proof (induction n)
  case (Suc n)
  have r: "logins_reachable id ascii_only (ticked n)" by (rule Suc.IH) (use Suc.prems in simp)
  note ok = login_result_ok [OF stored_login_result [OF reachable_logins [OF r] tick_fresh]]
  have "set (tick_sessions (Suc n)) = dom (sn_sessions (ticked (Suc n)))"
    unfolding tick_order(2) by (simp add: stored_login_def Let_def)
  then have "enforce_limit (tick_sessions (Suc n)) (\<lambda>_. int n) 2 ''admin'' (ticked (Suc n)) = ticked (Suc n)"
    by (intro enforce_below tick_order(1)) (use Suc.prems ok in \<open>simp_all add: ticked_count max_sessions_def del: ticked.simps(2), simp\<close>)
  then have "ticked (Suc n) = fst (create_session id ascii_only (\<lambda>_. int n) (tick_sessions (Suc n)) (tick_draw n) user_sample
      request_sample (ticked n))"
    by (simp add: create_stored user_sample_def)
  then have "login_step id ascii_only (ticked n) (ticked (Suc n))" using login_created [OF tick_fresh] by metis
  then show ?case using r unfolding logins_reachable_def by (rule rtranclp.rtrancl_into_rtrancl [rotated])
qed (simp add: logins_reachable_def)

text \<open>The user has ten sessions; after the eleventh login there are still at most ten, and the new one is among them.\<close>

theorem session_limit_witness:
  "card (active_logins ''admin'' (ticked 10)) = 10 \<and>
   (let t = fst (create_session id ascii_only (\<lambda>_. 10) (tick_sessions 11) (tick_draw 10) user_sample request_sample (ticked 10))
    in card (active_logins ''admin'' t) \<le> 10 \<and> replicate 10 CHR ''s'' \<in> active_logins ''admin'' t)"
proof -
  have u: "us_id user_sample = ''admin''" "dw_session (tick_draw 10) = replicate 10 CHR ''s''"
    by (simp_all add: user_sample_def tick_draw_def)
  obtain t x r where c: "create_session id ascii_only (\<lambda>_. 10) (tick_sessions 11) (tick_draw 10) user_sample request_sample (ticked 10) =
      (t, x, r)" by (metis prod_cases3)
  have o: "distinct (tick_sessions 11)" "set (tick_sessions 11) = insert (dw_session (tick_draw 10)) (dom (sn_sessions (ticked 10)))"
    using tick_order [of 10] by simp_all
  have "an_seen y < (10::int)" if "sn_sessions (ticked 10) i = Some y" for i y
    using that unfolding ticked_sessions by auto
  with session_limit [OF ticked_reachable tick_fresh o c] show ?thesis
    unfolding u by (simp add: c ticked_count Let_def)
qed

end
