(* ===== verification/Hardening.thy ===== *)
theory Hardening
  imports GoText SingleUse
begin

text \<open>
  Login hardening in memory (\<^verbatim>\<open>httpapi/security_hardening.go\<close>): time-based codes and recovery codes, one-time
  tokens for password resets and e-mail verification, and the lockout after failed logins.  Base32, the keyed hash of
  the codes, the hash of a token, drawn tokens and the clock are parameters.
\<close>

section \<open>Data\<close>

record mfa_record =
  mf_pending :: string
  mf_active :: string
  mf_enabled :: bool
  mf_recovery :: "string gomap option" \<comment> \<open>\<open>None\<close>: a nil map\<close>
  mf_updated :: time

record login_failures =
  lf_count :: int
  lf_first :: time
  lf_last :: time
  lf_lockout :: time

record one_time_token =
  ot_user :: string
  ot_email :: string
  ot_hash :: string
  ot_expires :: time
  ot_used :: bool
  ot_purpose :: string
  ot_created :: time

record hardening =
  hd_mfa :: "mfa_record gomap"
  hd_failed :: "login_failures gomap"
  hd_resets :: "one_time_token gomap"
  hd_emails :: "one_time_token gomap"
  hd_verified :: "bool gomap"
  hd_log :: "(string \<times> time) list"

definition second :: time where "second = 1000000000"
definition minute :: time where "minute = 60 * second"
definition totp_step :: int where "totp_step = 30"
definition reset_ttl :: time where "reset_ttl = 30 * minute"
definition email_ttl :: time where "email_ttl = 24 * 60 * minute"
definition failure_window :: time where "failure_window = 10 * minute"
definition lockout_time :: time where "lockout_time = 15 * minute"
definition failure_limit :: int where "failure_limit = 5"

section \<open>Time-based codes\<close>

record totp_code =
  tc_base32 :: "string \<Rightarrow> string option"
  tc_mac :: "string \<Rightarrow> string \<Rightarrow> nat list" \<comment> \<open>HMAC-SHA-1: 20 bytes\<close>

definition unix_time :: "time \<Rightarrow> int" where
  \<comment> \<open>\<^verbatim>\<open>Unix()\<close>: whole seconds since 1970, which is 62135596800 seconds after the zero time\<close>
  "unix_time t = t div second - 62135596800"

definition be64 :: "int \<Rightarrow> string" where
  "be64 n = map (\<lambda>k. char_of (n div 256 ^ k mod 256)) [7, 6, 5, 4, 3, 2, 1, 0]"

fun digits6 :: "nat \<Rightarrow> int \<Rightarrow> string" where
  "digits6 0 n = []"
| "digits6 (Suc k) n = digits6 k (n div 10) @ [char_of (48 + n mod 10)]"

definition totp_counter :: "time \<Rightarrow> int" where \<comment> \<open>Go divides towards zero\<close>
  "totp_counter now = (if unix_time now < 0 then - (- unix_time now div totp_step) else unix_time now div totp_step)"

definition truncate_mac :: "nat list \<Rightarrow> int" where
  "truncate_mac m =
     (let off = m ! (length m - 1) mod 16
      in int (m ! off mod 128 * 2 ^ 24 + m ! (off + 1) * 2 ^ 16 + m ! (off + 2) * 2 ^ 8 + m ! (off + 3)))"

definition code_at :: "unicode \<Rightarrow> totp_code \<Rightarrow> string \<Rightarrow> int \<Rightarrow> string" where
  \<comment> \<open>the code of a counter, written as \<^verbatim>\<open>uint64\<close>\<close>
  "code_at U tc secret n =
     (case tc_base32 tc (to_upper U (filter (\<lambda>c. c \<noteq> CHR '' '') (trim_space secret))) of
        None \<Rightarrow> ''000000''
      | Some key \<Rightarrow> digits6 6 (truncate_mac (tc_mac tc key (be64 (n mod 2 ^ 64))) mod 1000000))"

definition current_code :: "unicode \<Rightarrow> totp_code \<Rightarrow> string \<Rightarrow> time \<Rightarrow> string" where
  "current_code U tc secret now = code_at U tc secret (totp_counter now)"

definition verify_totp :: "unicode \<Rightarrow> totp_code \<Rightarrow> string \<Rightarrow> string \<Rightarrow> time \<Rightarrow> bool" where
  "verify_totp U tc secret code0 now =
     (let code = trim_space code0
      in if length code \<noteq> 6 \<or> secret = [] then False
         else list_ex (\<lambda>k. current_code U tc secret (now + k * totp_step * second) = code) [-1, 0, 1])"

section \<open>Second factor\<close>

definition no_mfa :: mfa_record where
  "no_mfa = \<lparr>mf_pending = [], mf_active = [], mf_enabled = False, mf_recovery = None, mf_updated = 0\<rparr>"

definition mfa_of :: "string \<Rightarrow> hardening \<Rightarrow> mfa_record" where
  "mfa_of user s = (case hd_mfa s user of None \<Rightarrow> no_mfa | Some r \<Rightarrow> r)"

definition put_mfa :: "string \<Rightarrow> mfa_record \<Rightarrow> hardening \<Rightarrow> hardening" where
  "put_mfa user r s = s\<lparr>hd_mfa := (hd_mfa s)(user \<mapsto> r)\<rparr>"

definition some_map :: "'v gomap option \<Rightarrow> 'v gomap option" where
  "some_map m = (case m of None \<Rightarrow> Some Map.empty | Some v \<Rightarrow> Some v)"

definition start_enrollment :: "time \<Rightarrow> string \<Rightarrow> string \<Rightarrow> hardening \<Rightarrow> hardening" where
  "start_enrollment now user secret s =
     (let r = mfa_of user s
      in put_mfa user (r\<lparr>mf_pending := secret, mf_updated := now, mf_recovery := some_map (mf_recovery r)\<rparr>) s)"

definition finish_enrollment ::
    "unicode \<Rightarrow> totp_code \<Rightarrow> (nat \<Rightarrow> time) \<Rightarrow> string \<Rightarrow> string \<Rightarrow> hardening \<Rightarrow> hardening \<times> bool" where
  "finish_enrollment U tc clk user code s =
     (let r = mfa_of user s
      in if mf_pending r = [] \<or> \<not> verify_totp U tc (mf_pending r) code (clk 0) then (s, False)
         else (put_mfa user (r\<lparr>mf_active := mf_pending r, mf_pending := [], mf_enabled := True, mf_updated := clk 1,
                               mf_recovery := some_map (mf_recovery r)\<rparr>) s, True))"

definition disable_totp ::
    "unicode \<Rightarrow> totp_code \<Rightarrow> (nat \<Rightarrow> time) \<Rightarrow> string \<Rightarrow> string \<Rightarrow> hardening \<Rightarrow> hardening \<times> bool" where
  "disable_totp U tc clk user code s =
     (let r = mfa_of user s
      in if \<not> mf_enabled r \<or> \<not> verify_totp U tc (mf_active r) code (clk 0) then (s, False)
         else (put_mfa user (r\<lparr>mf_enabled := False, mf_active := [], mf_pending := [], mf_updated := clk 1\<rparr>) s, True))"

definition recovery_code :: "unicode \<Rightarrow> string \<Rightarrow> string" where
  "recovery_code U token = to_upper U (map (\<lambda>c. if c = CHR ''_'' then CHR ''-'' else c) token)"

definition security_hash :: "(string \<Rightarrow> string) \<Rightarrow> string \<Rightarrow> string" where
  "security_hash sha token = sha (trim_space token)"

definition generate_codes ::
    "(string \<Rightarrow> string) \<Rightarrow> unicode \<Rightarrow> time \<Rightarrow> string list \<Rightarrow> string \<Rightarrow> hardening \<Rightarrow> hardening \<times> string list" where
  \<comment> \<open>\<open>tokens\<close>: the drawn tokens, one for each code\<close>
  "generate_codes sha U now tokens user s =
     (let codes = map (recovery_code U) tokens; r = mfa_of user s
      in (put_mfa user (r\<lparr>mf_recovery := Some (map_of (map (\<lambda>c. (security_hash sha c, ''active'')) codes)), mf_updated := now\<rparr>) s,
          codes))"

definition consume_recovery ::
    "(string \<Rightarrow> string) \<Rightarrow> (nat \<Rightarrow> time) \<Rightarrow> string \<Rightarrow> string \<Rightarrow> hardening \<Rightarrow> hardening \<times> bool" where
  "consume_recovery sha clk user code0 s =
     (let code = trim_space code0; r = mfa_of user s; h = security_hash sha code
      in if code = [] then (s, False)
         else
           (case mf_recovery r of
              None \<Rightarrow> (s, False)
            | Some m \<Rightarrow>
                if m h \<noteq> Some ''active'' then (s, False)
                else ((put_mfa user (r\<lparr>mf_recovery := Some (m(h \<mapsto> ''used'')), mf_updated := clk 0\<rparr>) s)
                        \<lparr>hd_log := hd_log s @ [(user, clk 1)]\<rparr>, True)))"

definition second_factor ::
    "unicode \<Rightarrow> totp_code \<Rightarrow> (string \<Rightarrow> string) \<Rightarrow> (nat \<Rightarrow> time) \<Rightarrow> string \<Rightarrow> string \<Rightarrow> string \<Rightarrow> hardening \<Rightarrow>
     hardening \<times> bool \<times> string" where
  "second_factor U tc sha clk user totp recovery s =
     (let r = mfa_of user s
      in if \<not> mf_enabled r then (s, True, ''mfa-not-enabled'')
         else if verify_totp U tc (mf_active r) totp (clk 0) then (s, True, ''totp-ok'')
         else
           (let (s1, ok) = consume_recovery sha (\<lambda>n. clk (n + 1)) user recovery s
            in if ok then (s1, True, ''recovery-ok'') else (s1, False, ''mfa-required'')))"

section \<open>One-time tokens\<close>

definition drop_expired :: "time \<Rightarrow> one_time_token gomap \<Rightarrow> one_time_token gomap" where
  "drop_expired now m = (\<lambda>h. case m h of None \<Rightarrow> None | Some t \<Rightarrow> if ot_expires t < now \<or> ot_used t then None else Some t)"

definition clear_expired :: "time \<Rightarrow> hardening \<Rightarrow> hardening" where
  "clear_expired now s = s\<lparr>hd_resets := drop_expired now (hd_resets s), hd_emails := drop_expired now (hd_emails s)\<rparr>"

definition tokens_for :: "string \<Rightarrow> hardening \<Rightarrow> one_time_token gomap" where
  "tokens_for purpose s = (if purpose = ''password-reset'' then hd_resets s else hd_emails s)"

definition put_one_time :: "string \<Rightarrow> string \<Rightarrow> one_time_token \<Rightarrow> hardening \<Rightarrow> hardening" where
  "put_one_time purpose h t s =
     (if purpose = ''password-reset'' then s\<lparr>hd_resets := (hd_resets s)(h \<mapsto> t)\<rparr> else s\<lparr>hd_emails := (hd_emails s)(h \<mapsto> t)\<rparr>)"

definition create_one_time ::
    "(string \<Rightarrow> string) \<Rightarrow> string \<Rightarrow> (nat \<Rightarrow> time) \<Rightarrow> string \<Rightarrow> string \<Rightarrow> string \<Rightarrow> time \<Rightarrow> hardening \<Rightarrow> hardening" where
  "create_one_time sha token clk user email purpose ttl s =
     (let h = security_hash sha token
      in put_one_time purpose h \<lparr>ot_user = user, ot_email = email, ot_hash = h, ot_expires = clk 0 + ttl, ot_used = False,
           ot_purpose = purpose, ot_created = clk 1\<rparr> (clear_expired (clk 2) s))"

definition consume_one_time ::
    "(string \<Rightarrow> string) \<Rightarrow> (nat \<Rightarrow> time) \<Rightarrow> string \<Rightarrow> string \<Rightarrow> hardening \<Rightarrow> hardening \<times> one_time_token option" where
  "consume_one_time sha clk token purpose s =
     (let h = security_hash sha token; s1 = clear_expired (clk 0) s
      in case tokens_for purpose s1 h of
           None \<Rightarrow> (s1, None)
         | Some t \<Rightarrow>
             if ot_used t \<or> ot_expires t < clk 1 \<or> ot_purpose t \<noteq> purpose then (s1, None)
             else (put_one_time purpose h (t\<lparr>ot_used := True\<rparr>) s1, Some (t\<lparr>ot_used := True\<rparr>)))"

definition set_email_verified :: "string \<Rightarrow> bool \<Rightarrow> hardening \<Rightarrow> hardening" where
  "set_email_verified user v s = s\<lparr>hd_verified := (hd_verified s)(user \<mapsto> v)\<rparr>"

section \<open>Failed logins\<close>

definition login_key :: "unicode \<Rightarrow> string \<Rightarrow> string \<Rightarrow> string" where
  "login_key U email ip = to_lower U (trim_space email) @ ''|'' @ trim_space ip"

definition no_failures :: login_failures where
  "no_failures = \<lparr>lf_count = 0, lf_first = 0, lf_last = 0, lf_lockout = 0\<rparr>"

definition failures_of :: "string \<Rightarrow> hardening \<Rightarrow> login_failures" where
  "failures_of k s = (case hd_failed s k of None \<Rightarrow> no_failures | Some r \<Rightarrow> r)"

definition allow_login :: "unicode \<Rightarrow> time \<Rightarrow> string \<Rightarrow> string \<Rightarrow> hardening \<Rightarrow> bool \<times> time" where
  "allow_login U now email ip s =
     (let r = failures_of (login_key U email ip) s in if lf_lockout r > now then (False, lf_lockout r) else (True, 0))"

definition add_failure :: "time \<Rightarrow> login_failures \<Rightarrow> login_failures" where
  "add_failure now r0 =
     (let r = (if lf_first r0 = 0 \<or> now - lf_first r0 > failure_window then no_failures\<lparr>lf_first := now\<rparr> else r0);
          n = lf_count r + 1
      in r\<lparr>lf_count := n, lf_last := now, lf_lockout := if n \<ge> failure_limit then now + lockout_time else lf_lockout r\<rparr>)"

definition login_failed :: "unicode \<Rightarrow> time \<Rightarrow> string \<Rightarrow> string \<Rightarrow> hardening \<Rightarrow> hardening" where
  "login_failed U now email ip s =
     (let k = login_key U email ip in s\<lparr>hd_failed := (hd_failed s)(k \<mapsto> add_failure now (failures_of k s))\<rparr>)"

definition login_succeeded :: "unicode \<Rightarrow> string \<Rightarrow> string \<Rightarrow> hardening \<Rightarrow> hardening" where
  "login_succeeded U email ip s = s\<lparr>hd_failed := (hd_failed s)(login_key U email ip := None)\<rparr>"

section \<open>Lockout\<close>

text \<open>The failures of the current window: a window is opened by a failure and takes in those of the next ten minutes;
  the first failure after them opens a new one, which does not remember the old.\<close>

definition into_window :: "time \<Rightarrow> time list \<Rightarrow> time list" where
  "into_window t w = (if w \<noteq> [] \<and> t - hd w \<le> failure_window then w @ [t] else [t])"

definition current_window :: "time list \<Rightarrow> time list" where
  "current_window ts = fold into_window ts []"

definition failures_after :: "time list \<Rightarrow> login_failures" where
  "failures_after ts = fold add_failure ts no_failures"

lemma failures_count:
  assumes "ts \<noteq> []" "\<forall>t \<in> set ts. 0 < t"
  shows "current_window ts \<noteq> [] \<and> set (current_window ts) \<subseteq> set ts \<and>
    failures_after ts = \<lparr>lf_count = int (length (current_window ts)), lf_first = hd (current_window ts), lf_last = last ts,
      lf_lockout = if int (length (current_window ts)) \<ge> failure_limit then last ts + lockout_time else 0\<rparr>"
  using assms
proof (induction ts rule: rev_nonempty_induct)
  case (single t)
  then show ?case
    by (simp add: failures_after_def current_window_def into_window_def add_failure_def no_failures_def failure_limit_def)
next
  case (snoc t ts)
  let ?w = "current_window ts"
  have IH: "?w \<noteq> []" "set ?w \<subseteq> set ts" "fold add_failure ts no_failures = \<lparr>lf_count = int (length ?w), lf_first = hd ?w,
    lf_last = last ts, lf_lockout = if int (length ?w) \<ge> failure_limit then last ts + lockout_time else 0\<rparr>"
    using snoc by (simp_all add: failures_after_def)
  have step: "current_window (ts @ [t]) = (if t - hd ?w \<le> failure_window then ?w @ [t] else [t])"
    using IH(1) by (simp add: current_window_def into_window_def)
  have "hd ?w \<noteq> 0" using IH(1,2) snoc.prems by (metis hd_in_set in_mono less_irrefl set_append Un_iff)
  then have "failures_after (ts @ [t]) = \<lparr>lf_count = int (length (current_window (ts @ [t]))),
      lf_first = hd (current_window (ts @ [t])), lf_last = t,
      lf_lockout = if int (length (current_window (ts @ [t]))) \<ge> failure_limit then t + lockout_time else 0\<rparr>"
    using IH(1) unfolding failures_after_def fold_append comp_def IH(3) step
    by (simp add: add_failure_def no_failures_def failure_limit_def Let_def)
  then show ?case using IH(1,2) by (auto simp: step)
qed

lemma login_failed_fold:
  "failures_of (login_key U email ip) (fold (\<lambda>t. login_failed U t email ip) ts s) =
     fold add_failure ts (failures_of (login_key U email ip) s)"
  by (induction ts arbitrary: s) (simp_all add: login_failed_def Let_def failures_of_def)

lemma login_failed_other:
  "k \<noteq> login_key U email ip \<Longrightarrow> failures_of k (fold (\<lambda>t. login_failed U t email ip) ts s) = failures_of k s"
  by (induction ts arbitrary: s) (simp_all add: login_failed_def Let_def failures_of_def)

text \<open>C24: After any series of failed logins for a name and address that had none recorded (at the start, or since its
  last successful login), the next attempt is refused exactly when the current window of ten minutes, the one
  opened by the first failure after the window before it, holds at least five failures and fifteen minutes have not
  passed since the last one.  Failures of the earlier windows do not count, and other names and addresses are not
  affected.\<close>

theorem lockout_exact:
  assumes "hd_failed s (login_key U email ip) = None" and "ts \<noteq> []" and "\<forall>t \<in> set ts. 0 < t" and "0 \<le> now"
  shows "let t = fold (\<lambda>t. login_failed U t email ip) ts s
    in (fst (allow_login U now email ip t) \<longleftrightarrow> \<not> (5 \<le> length (current_window ts) \<and> now < last ts + lockout_time)) \<and>
       (login_key U email' ip' \<noteq> login_key U email ip \<longrightarrow> allow_login U now email' ip' t = allow_login U now email' ip' s)"
proof -
  have "failures_of (login_key U email ip) s = no_failures" using assms(1) by (simp add: failures_of_def)
  then have f: "failures_of (login_key U email ip) (fold (\<lambda>t. login_failed U t email ip) ts s) = failures_after ts"
    by (simp add: login_failed_fold failures_after_def)
  have "fst (allow_login U now email ip (fold (\<lambda>t. login_failed U t email ip) ts s)) \<longleftrightarrow>
      \<not> (5 \<le> length (current_window ts) \<and> now < last ts + lockout_time)"
    using assms(4) failures_count [OF assms(2,3)] by (auto simp: allow_login_def Let_def f failure_limit_def)
  moreover have "allow_login U now email' ip' (fold (\<lambda>t. login_failed U t email ip) ts s) = allow_login U now email' ip' s"
    if "login_key U email' ip' \<noteq> login_key U email ip"
    by (simp add: allow_login_def login_failed_other [OF that])
  ultimately show ?thesis by (simp add: Let_def)
qed

section \<open>Operations as steps\<close>

text \<open>A step is labelled with what it issues: the hashes of recovery codes for a user, or of a one-time token for a
  purpose.\<close>

datatype issued = Codes string "string set" | Token string string | Nothing

inductive hardening_step :: "unicode \<Rightarrow> totp_code \<Rightarrow> (string \<Rightarrow> string) \<Rightarrow> issued \<Rightarrow> hardening \<Rightarrow> hardening \<Rightarrow> bool"
  for U tc sha where
  enrollment_started: "hardening_step U tc sha Nothing s (start_enrollment now user secret s)"
| enrollment_finished: "hardening_step U tc sha Nothing s (fst (finish_enrollment U tc clk user code s))"
| totp_disabled: "hardening_step U tc sha Nothing s (fst (disable_totp U tc clk user code s))"
| codes_generated: "hardening_step U tc sha (Codes user (security_hash sha ` recovery_code U ` set ts)) s
    (fst (generate_codes sha U now ts user s))"
| code_consumed: "hardening_step U tc sha Nothing s (fst (consume_recovery sha clk user code s))"
| factor_checked: "hardening_step U tc sha Nothing s (fst (second_factor U tc sha clk user code recovery s))"
| token_created: "hardening_step U tc sha (Token purpose (security_hash sha token)) s
    (create_one_time sha token clk user email purpose ttl s)"
| token_consumed: "hardening_step U tc sha Nothing s (fst (consume_one_time sha clk token purpose s))"
| email_verified: "hardening_step U tc sha Nothing s (set_email_verified user v s)"
| failure_counted: "hardening_step U tc sha Nothing s (login_failed U now email ip s)"
| success_counted: "hardening_step U tc sha Nothing s (login_succeeded U email ip s)"

definition code_spent :: "string \<times> string \<Rightarrow> hardening \<Rightarrow> bool" where
  "code_spent k s \<longleftrightarrow> (\<forall>m. mf_recovery (mfa_of (fst k) s) = Some m \<longrightarrow> m (snd k) \<noteq> Some ''active'')"

definition issues_code :: "issued \<Rightarrow> string \<times> string \<Rightarrow> bool" where
  "issues_code l k \<longleftrightarrow> (\<exists>hs. l = Codes (fst k) hs \<and> snd k \<in> hs)"

definition token_spent :: "string \<times> string \<Rightarrow> hardening \<Rightarrow> bool" where
  "token_spent k s \<longleftrightarrow> (\<forall>t. tokens_for (fst k) s (snd k) = Some t \<longrightarrow> ot_used t)"

definition same_table :: "string \<Rightarrow> string \<Rightarrow> bool" where \<comment> \<open>purposes that share a table\<close>
  "same_table p q \<longleftrightarrow> (p = ''password-reset'' \<longleftrightarrow> q = ''password-reset'')"

definition issues_token :: "issued \<Rightarrow> string \<times> string \<Rightarrow> bool" where
  "issues_token l k \<longleftrightarrow> (\<exists>p. l = Token p (snd k) \<and> same_table p (fst k))"

lemma mfa_put [simp]: "mfa_of u (put_mfa v r s) = (if u = v then r else mfa_of u s)"
  by (simp add: mfa_of_def put_mfa_def)

lemma tables_put_mfa [simp]: "tokens_for p (put_mfa u r s) = tokens_for p s"
  by (simp add: tokens_for_def put_mfa_def)

lemma mfa_frame [simp]:
  "mfa_of u (s\<lparr>hd_log := x\<rparr>) = mfa_of u s" "mfa_of u (clear_expired now s) = mfa_of u s"
  "mfa_of u (put_one_time p h t s) = mfa_of u s" "mfa_of u (set_email_verified w v s) = mfa_of u s"
  "mfa_of u (login_failed U now e i s) = mfa_of u s" "mfa_of u (login_succeeded U e i s) = mfa_of u s"
  by (simp_all add: mfa_of_def clear_expired_def put_one_time_def set_email_verified_def login_failed_def login_succeeded_def Let_def)

lemma tables_frame [simp]:
  "tokens_for p (s\<lparr>hd_log := x\<rparr>) = tokens_for p s" "tokens_for p (set_email_verified w v s) = tokens_for p s"
  "tokens_for p (login_failed U now e i s) = tokens_for p s" "tokens_for p (login_succeeded U e i s) = tokens_for p s"
  by (simp_all add: tokens_for_def set_email_verified_def login_failed_def login_succeeded_def Let_def)

lemma some_map_Some: "some_map m = Some v \<Longrightarrow> m = Some v \<or> v = Map.empty"
  by (auto simp: some_map_def split: option.split_asm)

lemma consume_recovery_frame:
  "tokens_for p (fst (consume_recovery sha clk u c s)) = tokens_for p s"
  by (simp add: consume_recovery_def Let_def split: option.split)

lemma consume_recovery_spent: "code_spent k s \<Longrightarrow> code_spent k (fst (consume_recovery sha clk u c s))"
  by (auto simp: consume_recovery_def Let_def code_spent_def split: option.split)

lemma second_factor_state:
  "fst (second_factor U tc sha clk u t r s) = s \<or>
   fst (second_factor U tc sha clk u t r s) = fst (consume_recovery sha (\<lambda>n. clk (n + 1)) u r s)"
  by (simp add: second_factor_def Let_def split: prod.split)

lemma consume_one_time_mfa: "mfa_of u (fst (consume_one_time sha clk t p s)) = mfa_of u s"
  by (simp add: consume_one_time_def Let_def split: option.split)

lemma code_step:
  assumes "hardening_step U tc sha l s t" "\<not> issues_code l k" "code_spent k s"
  shows "code_spent k t"
  using assms(1)
proof cases
  case (enrollment_started now user secret)
  then show ?thesis using assms(3) by (auto simp: start_enrollment_def Let_def code_spent_def dest: some_map_Some)
next
  case (enrollment_finished clk user code)
  then show ?thesis using assms(3) by (auto simp: finish_enrollment_def Let_def code_spent_def dest: some_map_Some)
next
  case (totp_disabled clk user code)
  then show ?thesis using assms(3) by (auto simp: disable_totp_def Let_def code_spent_def)
next
  case (codes_generated user ts now)
  show ?thesis
  proof (cases "user = fst k")
    case True
    then have "snd k \<notin> security_hash sha ` recovery_code U ` set ts" using codes_generated(1) assms(2) by (auto simp: issues_code_def)
    then have "map_of (map (\<lambda>c. (security_hash sha c, ''active'')) (map (recovery_code U) ts)) (snd k) = None"
      by (auto simp: map_of_eq_None_iff)
    then show ?thesis using True codes_generated(2) by (simp add: generate_codes_def Let_def code_spent_def)
  next
    case False
    then show ?thesis using assms(3) codes_generated(2) by (simp add: generate_codes_def Let_def code_spent_def)
  qed
next
  case (factor_checked clk user code recovery)
  then show ?thesis
    using second_factor_state [of U tc sha clk user code recovery s] consume_recovery_spent [OF assms(3)] assms(3) by metis
qed (use assms(3) consume_recovery_spent [OF assms(3)] in \<open>simp_all add: code_spent_def create_one_time_def Let_def consume_one_time_mfa\<close>)

lemma tokens_cleared: "tokens_for p (clear_expired now s) = drop_expired now (tokens_for p s)"
  by (simp add: tokens_for_def clear_expired_def)

lemma tokens_put: "tokens_for p (put_one_time q h t s) = (if same_table q p then (tokens_for p s)(h \<mapsto> t) else tokens_for p s)"
  by (auto simp: tokens_for_def put_one_time_def same_table_def)

lemma cleared_spent: "token_spent k s \<Longrightarrow> tokens_for (fst k) (clear_expired now s) (snd k) = None"
  unfolding tokens_cleared token_spent_def by (auto simp: drop_expired_def split: option.split)

lemma token_step:
  assumes "hardening_step U tc sha l s t" "\<not> issues_token l k" "token_spent k s"
  shows "token_spent k t"
  using assms(1)
proof cases
  case (token_created purpose token clk user email ttl)
  then have "\<not> (security_hash sha token = snd k \<and> same_table purpose (fst k))" using assms(2) by (auto simp: issues_token_def)
  then show ?thesis
    using token_created(2) cleared_spent [OF assms(3)] by (auto simp: create_one_time_def Let_def token_spent_def tokens_put)
next
  case (token_consumed clk token purpose)
  then show ?thesis
    using cleared_spent [OF assms(3)]
    by (auto simp: consume_one_time_def Let_def token_spent_def tokens_put split: option.split)
next
  case (factor_checked clk user code recovery)
  then show ?thesis
    using second_factor_state [of U tc sha clk user code recovery s] consume_recovery_frame assms(3)
    unfolding token_spent_def by metis
qed (use assms(3) in \<open>simp_all add: token_spent_def start_enrollment_def finish_enrollment_def disable_totp_def generate_codes_def
      consume_recovery_frame Let_def\<close>)

interpretation recovery_codes: single_use "hardening_step U tc sha" issues_code code_spent for U tc sha
  by unfold_locales (rule code_step)

interpretation one_time_tokens: single_use "hardening_step U tc sha" issues_token token_spent for U tc sha
  by unfold_locales (rule token_step)

definition no_code_issued ::
    "unicode \<Rightarrow> totp_code \<Rightarrow> (string \<Rightarrow> string) \<Rightarrow> string \<times> string \<Rightarrow> hardening \<Rightarrow> hardening \<Rightarrow> bool" where
  "no_code_issued U tc sha k = (\<lambda>s t. \<exists>l. \<not> issues_code l k \<and> hardening_step U tc sha l s t)"

definition no_token_issued ::
    "unicode \<Rightarrow> totp_code \<Rightarrow> (string \<Rightarrow> string) \<Rightarrow> string \<times> string \<Rightarrow> hardening \<Rightarrow> hardening \<Rightarrow> bool" where
  "no_token_issued U tc sha k = (\<lambda>s t. \<exists>l. \<not> issues_token l k \<and> hardening_step U tc sha l s t)"

section \<open>Properties\<close>

text \<open>C25: A recovery code works once: after it was accepted, it is refused in every later state, as a recovery code and as
  a second factor without a valid time-based code, until it is generated again for that user.\<close>

theorem recovery_code_once:
  assumes "consume_recovery sha clk user code s = (s1, True)"
    and "(no_code_issued U tc sha (user, security_hash sha (trim_space code)))\<^sup>*\<^sup>* s1 t"
  shows "consume_recovery sha clk' user code t = (t, False) \<and>
    (mf_enabled (mfa_of user t) \<and> \<not> verify_totp U tc (mf_active (mfa_of user t)) totp (clk' 0) \<longrightarrow>
       second_factor U tc sha clk' user totp code t = (t, False, ''mfa-required''))"
proof -
  let ?k = "(user, security_hash sha (trim_space code))"
  have "code_spent ?k s1"
    using assms(1) by (auto simp: consume_recovery_def Let_def code_spent_def split: option.split_asm if_split_asm)
  then have "code_spent ?k t"
    using recovery_codes.run_spent [OF assms(2) [unfolded no_code_issued_def]] by blast
  then have "consume_recovery sha clk' user code t = (t, False)" for clk'
    by (auto simp: consume_recovery_def Let_def code_spent_def split: option.split)
  then show ?thesis by (simp add: second_factor_def Let_def)
qed

text \<open>C26: A token for a password reset or an e-mail verification works once: after it was accepted, it is refused in every
  later state, until the same token is drawn again for that kind of purpose.\<close>

theorem one_time_token_once:
  assumes "consume_one_time sha clk token purpose s = (s1, Some r)"
    and "(no_token_issued U tc sha (purpose, security_hash sha token))\<^sup>*\<^sup>* s1 t"
  shows "snd (consume_one_time sha clk' token purpose t) = None"
proof -
  let ?k = "(purpose, security_hash sha token)"
  have "token_spent ?k s1"
    using assms(1)
    by (auto simp: consume_one_time_def Let_def token_spent_def tokens_put same_table_def split: option.split_asm if_split_asm)
  then have "token_spent ?k t"
    using one_time_tokens.run_spent [OF assms(2) [unfolded no_token_issued_def]] by blast
  from cleared_spent [OF this] show ?thesis by (simp add: consume_one_time_def Let_def)
qed

text \<open>A time-based code is accepted exactly when it has six characters and is the code of the current half minute, the
  one before or the one after.\<close>

lemma totp_window:
  assumes "totp_step \<le> unix_time now"
  shows "verify_totp U tc secret code now \<longleftrightarrow> length (trim_space code) = 6 \<and> secret \<noteq> [] \<and>
    (\<exists>d \<in> {-1, 0, 1}. code_at U tc secret (unix_time now div totp_step + d) = trim_space code)"
proof -
  have u: "unix_time (now + k * totp_step * second) = unix_time now + k * totp_step" for k
    by (simp add: unix_time_def second_def)
  have c: "totp_counter (now + k * totp_step * second) = unix_time now div totp_step + k" if "-1 \<le> k" for k
  proof -
    have "(-1) * totp_step \<le> k * totp_step" using that by (intro mult_right_mono) (simp_all add: totp_step_def)
    then have "0 \<le> unix_time now + k * totp_step" using assms by simp
    then show ?thesis unfolding totp_counter_def u by (simp add: totp_step_def)
  qed
  have "current_code U tc secret (now + k * totp_step * second) = code_at U tc secret (unix_time now div totp_step + k)"
    if "-1 \<le> k" for k
    unfolding current_code_def c [OF that] by (rule refl)
  from this [of "-1"] this [of 0] this [of 1] show ?thesis by (auto simp: verify_totp_def Let_def)
qed

section \<open>Samples\<close>

definition no_hardening :: hardening where
  "no_hardening = \<lparr>hd_mfa = Map.empty, hd_failed = Map.empty, hd_resets = Map.empty, hd_emails = Map.empty, hd_verified = Map.empty,
     hd_log = []\<rparr>"

text \<open>Five failures in one window lock the login; five in ten minutes that fall into two windows do not.\<close>

definition minutes_after_start :: "time list \<Rightarrow> time list" where
  "minutes_after_start = map (\<lambda>m. 1 + m * minute)"

theorem lockout_exact_witness:
  "\<not> fst (allow_login ascii_only (1 + 12 * minute) ''a'' ''ip''
       (fold (\<lambda>t. login_failed ascii_only t ''a'' ''ip'') (minutes_after_start [0, 1, 2, 3, 4]) no_hardening)) \<and>
   fst (allow_login ascii_only (1 + 12 * minute) ''a'' ''ip''
       (fold (\<lambda>t. login_failed ascii_only t ''a'' ''ip'') (minutes_after_start [0, 9, 9, 9, 11, 11]) no_hardening))"
proof -
  have n: "hd_failed no_hardening (login_key ascii_only ''a'' ''ip'') = None" by (simp add: no_hardening_def)
  have w: "length (current_window (minutes_after_start [0, 1, 2, 3, 4])) = 5"
    "length (current_window (minutes_after_start [0, 9, 9, 9, 11, 11])) = 2"
    by (simp_all add: current_window_def into_window_def minutes_after_start_def failure_window_def minute_def second_def)
  have t: "(0::int) \<le> 1 + 12 * minute" "1 + 12 * minute < last (minutes_after_start [0, 1, 2, 3, 4]) + lockout_time"
    by (simp_all add: minutes_after_start_def lockout_time_def minute_def second_def)
  have p: "\<forall>t \<in> set (minutes_after_start [0, 1, 2, 3, 4]). 0 < t" "\<forall>t \<in> set (minutes_after_start [0, 9, 9, 9, 11, 11]). 0 < t"
    "minutes_after_start [0, 1, 2, 3, 4] \<noteq> []" "minutes_after_start [0, 9, 9, 9, 11, 11] \<noteq> []"
    by (simp_all add: minutes_after_start_def minute_def second_def)
  show ?thesis
    using lockout_exact [OF n p(3,1) t(1)] lockout_exact [OF n p(4,2) t(1)] w t(2) by (simp add: Let_def)
qed

definition codes_sample :: hardening where
  "codes_sample = fst (generate_codes id ascii_only 1 [''nlrec_1'', ''nlrec_2''] ''u'' no_hardening)"

definition code_used_sample :: hardening where
  "code_used_sample = fst (consume_recovery id (\<lambda>_. 2) ''u'' ''NLREC-1'' codes_sample)"

lemma code_used: "snd (consume_recovery id (\<lambda>_. 2) ''u'' ''NLREC-1'' codes_sample)"
  by code_simp

theorem recovery_code_once_witness:
  "consume_recovery id (\<lambda>_. 3) ''u'' ''NLREC-1'' code_used_sample = (code_used_sample, False)"
proof -
  have c: "consume_recovery id (\<lambda>_. 2) ''u'' ''NLREC-1'' codes_sample = (code_used_sample, True)"
    using code_used by (simp add: code_used_sample_def prod_eq_iff)
  let ?tc = "\<lparr>tc_base32 = Some, tc_mac = (\<lambda>k m. replicate 20 0)\<rparr>"
  show ?thesis
    using recovery_code_once [OF c rtranclp.rtrancl_refl [of "no_code_issued ascii_only ?tc id (''u'', security_hash id (trim_space ''NLREC-1''))"]]
    by blast
qed

definition reset_sample :: hardening where
  "reset_sample = create_one_time id ''nlsec_1'' (\<lambda>_. 1) ''u'' ''u@x'' ''password-reset'' reset_ttl no_hardening"

definition reset_used_sample :: hardening where
  "reset_used_sample = fst (consume_one_time id (\<lambda>_. 2) ''nlsec_1'' ''password-reset'' reset_sample)"

lemma reset_used: "snd (consume_one_time id (\<lambda>_. 2) ''nlsec_1'' ''password-reset'' reset_sample) \<noteq> None"
  by code_simp

theorem one_time_token_once_witness:
  "snd (consume_one_time id (\<lambda>_. 3) ''nlsec_1'' ''password-reset'' reset_used_sample) = None"
proof -
  obtain r where c: "consume_one_time id (\<lambda>_. 2) ''nlsec_1'' ''password-reset'' reset_sample = (reset_used_sample, Some r)"
    using reset_used by (auto simp: reset_used_sample_def prod_eq_iff)
  let ?tc = "\<lparr>tc_base32 = Some, tc_mac = (\<lambda>k m. replicate 20 0)\<rparr>"
  show ?thesis
    by (rule one_time_token_once [OF c rtranclp.rtrancl_refl [of "no_token_issued ascii_only ?tc id (''password-reset'', security_hash id ''nlsec_1'')"]])
qed

end
