(* ===== verification/Policies.thy ===== *)
theory Policies
  imports GoText
begin

text \<open>
  The engine that asks the protection handlers before a login, a launch or a join (\<^verbatim>\<open>pkg/protection/engine.go\<close>), and
  the rate limiter in memory (\<^verbatim>\<open>ratelimit/limiter.go\<close>).  What a handler answers, the state of the request context and
  the clock are parameters.
\<close>

section \<open>Protection engine\<close>

record protection_request =
  pq_stage :: string
  pq_user :: string
  pq_session :: string
  pq_device :: string
  pq_role :: string
  pq_project :: string
  pq_issuer :: string

record verdict =
  vd_action :: string
  vd_reason :: string
  vd_handler :: string

record handler =
  hn_priority :: int
  hn_mandatory :: bool
  hn_stages :: "string list"
  hn_name :: string
  hn_evaluate :: "protection_request \<Rightarrow> verdict option" \<comment> \<open>\<open>None\<close>: an error, a panic, or past the deadline\<close>

datatype register_error = BadHandler | UnknownStage string | DuplicateHandler

definition stage_supported :: "string \<Rightarrow> bool" where
  "stage_supported s \<longleftrightarrow> s \<in> {''before-auth'', ''after-auth'', ''before-launch'', ''before-join''}"

definition verdict_allowed :: "verdict \<Rightarrow> bool" where
  "verdict_allowed d \<longleftrightarrow> vd_action d = ''allow''"

definition handler_timeout :: "time \<Rightarrow> time" where
  "handler_timeout t = (if t \<le> 0 \<or> t > 30 * 1000000000 then 3 * 1000000000 else t)"

definition register_handler :: "handler \<Rightarrow> handler list \<Rightarrow> register_error + handler list" where
  "register_handler h hs =
     (if trim_space (hn_name h) = [] \<or> hn_stages h = [] then Inl BadHandler
      else
        (case first_some (\<lambda>s. \<not> stage_supported s) (hn_stages h) of
           Some s \<Rightarrow> Inl (UnknownStage s)
         | None \<Rightarrow>
             if list_ex (\<lambda>g. hn_name g = hn_name h) hs then Inl DuplicateHandler
             else Inr (sort_key hn_priority (hs @ [h]))))"

definition refuse :: "string \<Rightarrow> string \<Rightarrow> verdict" where
  "refuse reason name = \<lparr>vd_action = ''deny'', vd_reason = reason, vd_handler = name\<rparr>"

fun ask_handlers :: "(nat \<Rightarrow> bool) \<Rightarrow> nat \<Rightarrow> protection_request \<Rightarrow> handler list \<Rightarrow> verdict" where
  \<comment> \<open>\<open>alive n\<close>: whether the \<open>n\<close>-th look at the request context finds it alive\<close>
  "ask_handlers alive n q [] =
     (if \<not> alive n then refuse ''policy_context_unavailable'' ''engine''
      else \<lparr>vd_action = ''allow'', vd_reason = ''policy_approved'', vd_handler = ''engine''\<rparr>)"
| "ask_handlers alive n q (h # hs) =
     (if pq_stage q \<notin> set (hn_stages h) then ask_handlers alive n q hs
      else if \<not> alive n then refuse ''policy_context_unavailable'' ''engine''
      else
        (case hn_evaluate h q of
           None \<Rightarrow> if hn_mandatory h then refuse ''policy_handler_unavailable'' (hn_name h) else ask_handlers alive (n + 1) q hs
         | Some d \<Rightarrow>
             if vd_action d = ''allow'' then ask_handlers alive (n + 1) q hs
             else if vd_action d \<in> {''deny'', ''step-up'', ''reattest'', ''review''} then
               (if trim_space (vd_reason d) = [] then refuse ''policy_reason_missing'' (hn_name h)
                else d\<lparr>vd_handler := hn_name h\<rparr>)
             else refuse ''invalid_policy_decision'' (hn_name h)))"

definition evaluate_protection :: "(nat \<Rightarrow> bool) \<Rightarrow> protection_request \<Rightarrow> handler list option \<Rightarrow> verdict" where
  \<comment> \<open>\<open>None\<close>: no engine\<close>
  "evaluate_protection alive q engine =
     (case engine of
        None \<Rightarrow> refuse ''policy_engine_unavailable'' ''engine''
      | Some hs \<Rightarrow>
          if \<not> stage_supported (pq_stage q) then refuse ''policy_engine_unavailable'' ''engine''
          else if \<not> alive 0 then refuse ''policy_context_unavailable'' ''engine''
          else ask_handlers alive 1 q hs)"

definition approves :: "protection_request \<Rightarrow> handler \<Rightarrow> bool" where
  "approves q h \<longleftrightarrow> (case hn_evaluate h q of None \<Rightarrow> \<not> hn_mandatory h | Some d \<Rightarrow> vd_action d = ''allow'')"

definition concerned :: "protection_request \<Rightarrow> handler list \<Rightarrow> handler list" where
  "concerned q hs = filter (\<lambda>h. pq_stage q \<in> set (hn_stages h)) hs"

lemma refuse_not_allowed [simp]: "\<not> verdict_allowed (refuse r n)"
  by (simp add: verdict_allowed_def refuse_def)

lemma all_le_Suc: "(\<forall>k \<le> Suc m. P k) \<longleftrightarrow> P 0 \<and> (\<forall>k \<le> m. P (Suc k))"
  by (simp only: less_Suc_eq_le [symmetric] All_less_Suc2)

lemma ask_allowed:
  "verdict_allowed (ask_handlers alive n q hs) \<longleftrightarrow>
     (\<forall>h \<in> set (concerned q hs). approves q h) \<and> (\<forall>k \<le> length (concerned q hs). alive (n + k))"
proof (induction hs arbitrary: n)
  case Nil
  then show ?case by (simp add: concerned_def verdict_allowed_def refuse_def)
next
  case (Cons h hs)
  show ?case
  proof (cases "pq_stage q \<in> set (hn_stages h)")
    case False
    then show ?thesis using Cons.IH by (simp add: concerned_def)
  next
    case True
    have all: "(\<forall>k \<le> Suc m. alive (n + k)) \<longleftrightarrow> alive n \<and> (\<forall>k \<le> m. alive (n + 1 + k))" for m
      by (simp add: all_le_Suc)
    have c: "concerned q (h # hs) = h # concerned q hs" using True by (simp add: concerned_def)
    show ?thesis
    proof (cases "hn_evaluate h q")
      case None
      then show ?thesis using True Cons.IH [of "n + 1"] all [of "length (concerned q hs)"]
        by (auto simp: c approves_def)
    next
      case (Some d)
      then show ?thesis using True Cons.IH [of "n + 1"] all [of "length (concerned q hs)"]
        by (auto simp: c approves_def verdict_allowed_def refuse_def)
    qed
  qed
qed

text \<open>C27: The engine allows an operation exactly when its stage is known, every handler registered for that stage either
  answers \<open>allow\<close>, or is optional and fails (an error, a panic, or past its deadline), and the request's context stays
  alive at every look.  So a refusal by any one handler, optional or not, cannot be lifted by another, whatever its
  priority, and neither can the failure of a mandatory one; the order of registration does not matter.\<close>

theorem protection_exact:
  "verdict_allowed (evaluate_protection alive q (Some hs)) \<longleftrightarrow>
     stage_supported (pq_stage q) \<and>
     (\<forall>h \<in> set hs. pq_stage q \<in> set (hn_stages h) \<longrightarrow>
        (case hn_evaluate h q of Some d \<Rightarrow> vd_action d = ''allow'' | None \<Rightarrow> \<not> hn_mandatory h)) \<and>
     (\<forall>n \<le> length (filter (\<lambda>h. pq_stage q \<in> set (hn_stages h)) hs) + 1. alive n)"
proof -
  have a: "(\<forall>n \<le> Suc m. alive n) \<longleftrightarrow> alive 0 \<and> (\<forall>k \<le> m. alive (1 + k))" for m
    by (simp add: all_le_Suc)
  have c: "(\<forall>h \<in> set (concerned q hs). approves q h) \<longleftrightarrow> (\<forall>h \<in> set hs. pq_stage q \<in> set (hn_stages h) \<longrightarrow> approves q h)"
    by (auto simp: concerned_def)
  show ?thesis
    unfolding approves_def [symmetric] concerned_def [symmetric] by (auto simp: evaluate_protection_def ask_allowed a c)
qed

section \<open>Rate limiter\<close>

record bucket =
  bk_count :: int
  bk_reset :: time

record limit_result =
  li_allowed :: bool
  li_limit :: int
  li_remaining :: int
  li_reset :: time

definition limiter_allow ::
    "(nat \<Rightarrow> time) \<Rightarrow> string \<Rightarrow> int \<Rightarrow> time \<Rightarrow> bucket gomap \<Rightarrow> bucket gomap \<times> limit_result" where
  "limiter_allow clk key limit window m =
     (if limit \<le> 0 \<or> window \<le> 0 then (m, \<lparr>li_allowed = True, li_limit = limit, li_remaining = limit, li_reset = 0\<rparr>)
      else
        (let now = clk 0;
             b0 = (case m key of None \<Rightarrow> \<lparr>bk_count = 0, bk_reset = 0\<rparr> | Some b \<Rightarrow> b);
             b1 = (if bk_reset b0 = 0 \<or> \<not> now < bk_reset b0 then \<lparr>bk_count = 0, bk_reset = now + window\<rparr> else b0);
             b = b1\<lparr>bk_count := bk_count b1 + 1\<rparr>
         in (m(key \<mapsto> b), \<lparr>li_allowed = (bk_count b \<le> limit), li_limit = limit, li_remaining = max 0 (limit - bk_count b),
                          li_reset = bk_reset b - clk 1\<rparr>)))"

fun limiter_run :: "string \<Rightarrow> int \<Rightarrow> time \<Rightarrow> time list \<Rightarrow> bucket gomap \<Rightarrow> bucket gomap \<times> bool list" where
  "limiter_run key limit window [] m = (m, [])"
| "limiter_run key limit window (t # ts) m =
     (let (m1, r) = limiter_allow (\<lambda>_. t) key limit window m; (m2, rs) = limiter_run key limit window ts m1
      in (m2, li_allowed r # rs))"

lemma upt_Suc_0: "[0..<Suc n] = 0 # map Suc [0..<n]"
  using upt_conv_Cons [of 0 "Suc n"] by (simp add: map_Suc_upt del: upt_Suc)

lemma limiter_within:
  assumes "0 < limit" "0 < window" "m key = Some \<lparr>bk_count = c, bk_reset = e\<rparr>" "e \<noteq> 0" "\<forall>t \<in> set ts. t < e"
  shows "fst (limiter_run key limit window ts m) key = Some \<lparr>bk_count = c + int (length ts), bk_reset = e\<rparr> \<and>
    snd (limiter_run key limit window ts m) = map (\<lambda>i. c + int i < limit) [0..<length ts]"
  using assms(3,5)
proof (induction ts arbitrary: m c)
  case (Cons t ts)
  let ?m = "m(key \<mapsto> \<lparr>bk_count = c + 1, bk_reset = e\<rparr>)"
  have s: "fst (limiter_allow (\<lambda>_. t) key limit window m) = ?m" "li_allowed (snd (limiter_allow (\<lambda>_. t) key limit window m)) = (c < limit)"
    using assms(1,2,4) Cons.prems by (simp_all add: limiter_allow_def Let_def) linarith
  have IH: "fst (limiter_run key limit window ts ?m) key = Some \<lparr>bk_count = c + 1 + int (length ts), bk_reset = e\<rparr> \<and>
    snd (limiter_run key limit window ts ?m) = map (\<lambda>i. c + 1 + int i < limit) [0..<length ts]"
    by (rule Cons.IH) (use Cons.prems(2) in simp_all)
  note u = upt_Suc_0 [of "length ts"]
  show ?case using IH by (simp add: case_prod_beta s u comp_def algebra_simps del: upt_Suc)
qed simp

text \<open>C28: In the window that its first request opens, the limiter allows the first \<open>limit\<close> requests of a key and refuses the
  rest; the next request after the window is allowed again, and other keys are not affected.\<close>

theorem limiter_window:
  assumes "0 < limit" and "0 < window" and "0 < t" and "\<forall>u \<in> set ts. u < t + window" and "t + window \<le> v"
    and "m key = None \<or> (\<exists>b. m key = Some b \<and> (bk_reset b = 0 \<or> bk_reset b \<le> t))"
  shows "snd (limiter_run key limit window (t # ts @ [v]) m) = map (\<lambda>i. int i < limit) [0..<Suc (length ts)] @ [True] \<and>
    (key' \<noteq> key \<longrightarrow> fst (limiter_run key limit window (t # ts @ [v]) m) key' = m key')"
proof -
  let ?m1 = "m(key \<mapsto> \<lparr>bk_count = 1, bk_reset = t + window\<rparr>)"
  have s1: "fst (limiter_allow (\<lambda>_. t) key limit window m) = ?m1" "li_allowed (snd (limiter_allow (\<lambda>_. t) key limit window m))"
    using assms(1,2,6) by (auto simp: limiter_allow_def Let_def split: option.split)
  have app: "limiter_run key limit window (xs @ ys) m' =
      (fst (limiter_run key limit window ys (fst (limiter_run key limit window xs m'))),
       snd (limiter_run key limit window xs m') @ snd (limiter_run key limit window ys (fst (limiter_run key limit window xs m'))))"
    for xs ys m' by (induction xs arbitrary: m') (simp_all add: case_prod_beta)
  have w: "fst (limiter_run key limit window ts ?m1) key = Some \<lparr>bk_count = 1 + int (length ts), bk_reset = t + window\<rparr> \<and>
    snd (limiter_run key limit window ts ?m1) = map (\<lambda>i. 1 + int i < limit) [0..<length ts]"
    by (rule limiter_within [OF assms(1,2) _ _ assms(4)]) (use assms(2,3) in simp_all)
  have v: "snd (limiter_run key limit window [v] (fst (limiter_run key limit window ts ?m1))) = [True]"
    using assms(1,2,5) w by (simp add: limiter_allow_def Let_def)
  note u = upt_Suc_0 [of "length ts"]
  have other: "fst (limiter_run key limit window xs m') key' = m' key'" if "key' \<noteq> key" for xs m'
    using that by (induction xs arbitrary: m') (simp_all add: case_prod_beta limiter_allow_def Let_def)
  have "snd (limiter_run key limit window (t # ts @ [v]) m) = map (\<lambda>i. int i < limit) [0..<Suc (length ts)] @ [True]"
    using assms(1) w v by (simp add: case_prod_beta s1 app u comp_def del: upt_Suc limiter_run.simps(2)) (simp add: case_prod_beta s1 app u comp_def v del: upt_Suc)
  then show ?thesis using other by blast
qed

section \<open>Samples\<close>

definition join_request :: protection_request where
  "join_request = \<lparr>pq_stage = ''before-join'', pq_user = ''u'', pq_session = [], pq_device = [], pq_role = [], pq_project = [],
     pq_issuer = []\<rparr>"

definition ban_handler :: handler where
  "ban_handler = \<lparr>hn_priority = 10, hn_mandatory = True, hn_stages = [''before-join''], hn_name = ''ban'',
     hn_evaluate = (\<lambda>q. Some (refuse ''banned'' ''x''))\<rparr>"

definition lenient_handler :: handler where
  "lenient_handler = \<lparr>hn_priority = 99, hn_mandatory = False, hn_stages = [''before-join''], hn_name = ''lenient'',
     hn_evaluate = (\<lambda>q. Some \<lparr>vd_action = ''allow'', vd_reason = [], vd_handler = []\<rparr>)\<rparr>"

definition broken_handler :: handler where
  "broken_handler = \<lparr>hn_priority = 50, hn_mandatory = False, hn_stages = [''before-join''], hn_name = ''broken'',
     hn_evaluate = (\<lambda>q. None)\<rparr>"

theorem protection_exact_witness:
  "\<not> verdict_allowed (evaluate_protection (\<lambda>_. True) join_request (Some [lenient_handler, ban_handler])) \<and>
   verdict_allowed (evaluate_protection (\<lambda>_. True) join_request (Some [lenient_handler, broken_handler])) \<and>
   \<not> verdict_allowed (evaluate_protection (\<lambda>_. True) join_request (Some [broken_handler\<lparr>hn_mandatory := True\<rparr>]))"
  unfolding protection_exact
  by (simp add: stage_supported_def join_request_def ban_handler_def lenient_handler_def broken_handler_def refuse_def)

theorem limiter_window_witness:
  "snd (limiter_run ''k'' 2 10 [1, 2, 3, 11] Map.empty) = [True, True, False, True]"
proof -
  have "\<forall>u \<in> set [2, 3]. u < (1 :: time) + 10" by simp
  then have "snd (limiter_run ''k'' 2 10 (1 # [2, 3] @ [11]) Map.empty) =
      map (\<lambda>i. int i < 2) [0..<Suc (length [2 :: time, 3])] @ [True]"
    using limiter_window [of 2 10 1 "[2, 3]" 11 Map.empty "''k''" "''k''"] by (simp del: limiter_run.simps upt_Suc)
  also have "map (\<lambda>i. int i < 2) [0..<Suc (length [2 :: time, 3])] = [True, True, False]" by (simp add: upt_Suc_0)
  finally show ?thesis by simp
qed

end
