(* ===== verification/Spec2Isabelle.thy ===== *)
theory Spec2Isabelle
  imports ProfileRules ExtResolver DurableProperties Authorization GameProperties Textures PasskeyRuns SessionProperties Hardening Policies
begin

text \<open>
  This development models the core logic of the launcher's control plane, the Go service under
  \<^verbatim>\<open>services/api\<close>, and proves what makes it correct.  Paths below are relative to
  \<^verbatim>\<open>services/api/internal\<close> unless they name another directory.

  \<^bold>\<open>The program and its parts.\<close>  An operator keeps projects and profiles.  A profile describes a
  game client: its version, its runtime, its launch, and a signed catalog of optional components.  Saving a profile
  writes a revision to its history; a release draft freezes one revision into a manifest, the manifest is validated
  and signed, and a durable job publishes it: under one lease of the job and one of the scope, the head of a channel
  moves to the release and an event goes to the outbox.  Launchers read the manifest that a channel serves, resolve the
  components a player has chosen on the host at hand, and let the updater touch only the files it owns.  Players and
  operators have accounts with linked identities; they sign in with passwords, second factors or passkeys, which opens
  a login session with rotating refresh tokens; every action is authorised by roles; a sign-in, a launch or a join asks
  the protection handlers and the rate limiter.  A player's game profile opens game sessions, whose join tickets a game
  server redeems once, and carries textures that are checked and re-encoded before they are stored.  Extensions of the
  service itself are resolved by version constraints.

  \<^bold>\<open>Language and libraries.\<close>
    \<^item> \<open>GoBase\<close>, \<open>GoText\<close>, \<open>GoWire\<close>, \<open>GoOrder\<close> hold what the code uses of Go: results with errors
      (\<open>'e + 'a\<close>, the error on the left), loops with early returns (\<open>for_each\<close>), byte strings and the functions of
      \<^verbatim>\<open>strings\<close>, \<^verbatim>\<open>strconv\<close> and \<^verbatim>\<open>path\<close>, length-prefixed encodings (locale \<open>field_code\<close>:
      no encoding continues into another), three-way comparison (locale \<open>comparator\<close>).
    \<^item> \<open>Stores\<close> has the contract of a repository whose entries only move along a preorder (locale
      \<open>moving_store\<close>), \<open>SingleUse\<close> that of credentials good for one use (locale \<open>single_use\<close>); both are interpreted
      on the stores below, in the theories that define them.
    \<^item> \<open>Dfs\<close> is the depth-first search with three marks that two resolvers share, with its exact result.

  \<^bold>\<open>Catalogs, manifests and profiles\<close> (\<^verbatim>\<open>model\<close>).
    \<^item> \<open>Semver\<close>: versions and ranges of the catalog (\<^verbatim>\<open>component_resolver.go\<close>), with 64-bit words and the
      guards of the increments; the order is a \<open>comparator\<close>.
    \<^item> \<open>Catalog\<close>: components, conditions, actions, presets and the five digests, one per schema version
      (\<^verbatim>\<open>component_catalog.go\<close>).
    \<^item> \<open>CatConditions\<close>, \<open>CatActions\<close>, \<open>CatResolver\<close>, \<open>CatTopology\<close>: conditions of a host, launch
      arguments a component may add, the resolver of a preset, and the validation of a catalog
      (\<^verbatim>\<open>component_conditions.go\<close>, \<^verbatim>\<open>component_actions.go\<close>, \<^verbatim>\<open>component_resolver.go\<close>).  The
      resolver returns exactly the reachable components, on a valid catalog it returns something on every host on
      which the needed components are available, and acceptance does not depend on the order of a map.
    \<^item> \<open>Manifest\<close>, \<open>FilePolicy\<close>, \<open>RuntimeRules\<close>, \<open>ProfileRules\<close>: the manifest, which files the updater owns
      (\<^verbatim>\<open>file_ownership.go\<close>), the runtime and its arguments (\<^verbatim>\<open>runtime_constraints.go\<close>), and the rules
      of profiles, snapshots and drafts (\<^verbatim>\<open>profile_schema.go\<close>, \<^verbatim>\<open>profile_management.go\<close>,
      \<^verbatim>\<open>profile_launch.go\<close>).
    \<^item> \<open>ProfileStore\<close>, \<open>ReleaseStore\<close>: projects, profiles, releases and channels of \<^verbatim>\<open>MemoryRepository\<close>
      (\<^verbatim>\<open>repository/memory.go\<close>, \<^verbatim>\<open>repository/profile_snapshot.go\<close>).  The invariant \<open>profiles_ok\<close> says
      that a history is numbered without gaps and ends in the profile, \<open>catalog_ok\<close> what a channel head points to.

  \<^bold>\<open>Publication\<close> (\<^verbatim>\<open>repository/durable_memory.go\<close>, \<^verbatim>\<open>repository/operations_memory.go\<close>).
    \<^item> \<open>DurableState\<close>, \<open>DurableJobs\<close>, \<open>DurablePublish\<close>: the state (\<open>durable\<close>: jobs with leases and a log of
      attempts, scope leases with fencing tokens, releases, channel heads, the outbox, nonces) and every operation on
      it.  An operation returns the state the code leaves behind also when it fails.
    \<^item> \<open>DurableMachine\<close>, \<open>DurableRuns\<close>, \<open>DurableProperties\<close>: the abstract machines of a job and an event, runs
      of the operations in any interleaving (a run is a sequence of whole operations; \<open>DurableRuns\<close> says which lock
      makes each one whole), and the properties of all runs: the jobs refine their machine, attempts are bounded, a
      stale lease never publishes, a publication happens whole or not at all, a channel serves published releases only.

  \<^bold>\<open>Accounts and access.\<close>
    \<^item> \<open>Accounts\<close> (\<^verbatim>\<open>repository/memory.go\<close>, \<^verbatim>\<open>repository/auth_identity.go\<close>,
      \<^verbatim>\<open>model/auth_issuer.go\<close>): users, roles, linking of identities; \<open>accounts_ok\<close> is the invariant.
    \<^item> \<open>Authorization\<close> (\<^verbatim>\<open>authorization\<close>): decisions for an actor, an action and a scope.
    \<^item> \<open>AuthSessions\<close>, \<open>SessionRuns\<close>, \<open>SessionProperties\<close> (\<^verbatim>\<open>httpapi/auth_sessions.go\<close>,
      \<^verbatim>\<open>httpapi/session_management_118.go\<close>, \<^verbatim>\<open>httpapi/session_device_risk.go\<close>): sessions, families of
      refresh tokens, binding and risk; \<open>logins_ok\<close> ties the three maps together.  A token is good for one exchange,
      presenting it again ends the login, and a revoked login stays revoked.
    \<^item> \<open>Hardening\<close> (\<^verbatim>\<open>httpapi/security_hardening.go\<close>): time-based and recovery codes, one-time tokens,
      lockout.  \<open>Policies\<close> (\<^verbatim>\<open>services/api/pkg/protection/engine.go\<close>, \<^verbatim>\<open>ratelimit/limiter.go\<close>): the
      protection engine and the limiter.
    \<^item> \<open>Cbor\<close>, \<open>WebAuthn\<close>, \<open>Passkeys\<close>, \<open>PasskeyRuns\<close> (\<^verbatim>\<open>webauthn\<close>,
      \<^verbatim>\<open>httpapi/webauthn_store_117.go\<close>, \<^verbatim>\<open>httpapi/webauthn_handlers_117.go\<close>): the decoder, the two
      ceremonies, the store of passkeys and challenges, and its runs.
    \<^item> \<open>GameStore\<close>, \<open>GameRuns\<close>, \<open>GameProperties\<close> (\<^verbatim>\<open>repository/memory.go\<close>,
      \<^verbatim>\<open>httpapi/minecraft_auth_119.go\<close>): game profiles, game sessions and join tickets.
    \<^item> \<open>Textures\<close> (\<^verbatim>\<open>texturepng\<close>): the grammar of an uploaded image, its checksums and geometry.

  \<^bold>\<open>Extensions.\<close>  \<open>ExtSemver\<close>, \<open>ExtResolver\<close> (\<^verbatim>\<open>extensionresolver\<close>): versions, constraints, the
  backtracking search (what it returns is consistent, and it succeeds whenever some consistent choice is available on
  every channel that is asked for) and the order of the plan.

  \<^bold>\<open>How the code is read.\<close>
    \<^item> A struct is a record, a fixed set of string constants a datatype or the strings themselves where the code
      compares arbitrary text, a Go map a function to \<open>option\<close>, or an association list where the code iterates over
      it.  The order in which Go walks a map is an argument; so are clock readings, random tokens and identifiers.
      Legal runs draw fresh random values and read no zero clock, which the step relations state as premises.
    \<^item> Machine integers are words where they may wrap (versions, checksums), and \<open>int\<close> where a lemma or the caller
      bounds them.  A time is an \<open>int\<close> of nanoseconds since Go's zero time.
    \<^item> Code outside the repository and large libraries are parameters with their documented laws where a property
      needs one: SHA-256, HMAC and signatures, JSON, Base32, the case tables of Unicode, \<^verbatim>\<open>net/url\<close>, the image
      codec, the registry an extension comes from, the answers of protection handlers.
    \<^item> Error texts are constructors; a panic of the code would be a branch, none was found in the modelled parts.

  \<^bold>\<open>Bounds and fuel.\<close>  The recursive closures run on fuel that is proved enough: the depth-first search on the number
  of nodes plus two (\<open>visit_fuel\<close>), the activation of components on acyclic catalogs, the CBOR decoder on the number of
  bytes plus one, since each level of nesting consumes a byte.  Other loops are structural or have a measure.

  \<^bold>\<open>Not modelled.\<close>  The HTTP handlers beyond the parts named above are glue over the modelled stores.  The SQL
  repositories implement the same interface as the memory repository through statements whose meaning is PostgreSQL's
  and SQLite's, not the code's.  The extension host, the sandboxes, the installers and the storage back ends are calls of
  the operating system; the connectors (OIDC, Microsoft, SQL, HTTP) and the Redis limiter talk to services; the
  migration tools import formats of another product once.  The commands of \<^verbatim>\<open>cli\<close> mostly run builds, downloads and
  releases.  The directory \<^verbatim>\<open>apps\<close> holds copies of the trees beside it.  The Rust runtime, the desktop and admin
  front ends and the Java bridges are in other languages.
\<close>

end
